(* ===== verification/SLP_Prelude.thy ===== *)
theory SLP_Prelude
  imports Main "HOL-Library.Word"
begin

text \<open>
  Shared base of the development: the error monad in which every fallible
  routine of the C code is written, the character classes of the C library
  that the code calls (in the C locale, the one a daemon that never calls
  \<open>setlocale\<close> runs in), raw memory read and written by index, and the list
  lemmas the components share.

  A value of type \<open>'a res\<close> is \<open>Inr x\<close> when the routine returns normally and
  \<open>Inl e\<close> otherwise: \<open>SlpError c\<close> is an early return with the error code \<open>c\<close>,
  \<open>OutOfBounds\<close> is an access outside the object that the pointer points into,
  which C leaves undefined.  No component ever turns \<open>OutOfBounds\<close> back into a
  result, so a theorem that a routine returns \<open>Inr\<close> includes its memory safety.
\<close>

section \<open>The error monad\<close>

datatype fault = SlpError nat | OutOfBounds

type_synonym 'a res = "fault + 'a"

named_theorems res_iff \<open>when a fallible computation returns a given result\<close>

definition bindR :: "'a res \<Rightarrow> ('a \<Rightarrow> 'b res) \<Rightarrow> 'b res" where
  "bindR m f = (case m of Inl e \<Rightarrow> Inl e | Inr x \<Rightarrow> f x)"

definition guardR :: "bool \<Rightarrow> nat \<Rightarrow> unit res" where
  "guardR ok code = (if ok then Inr () else Inl (SlpError code))"

lemma bindR_simps [simp]:
  "bindR (Inl e) f = Inl e"
  "bindR (Inr x) f = f x"
  by (simp_all add: bindR_def)

lemma bindR_cong [fundef_cong]:
  "m = m' \<Longrightarrow> (\<And>x. m' = Inr x \<Longrightarrow> f x = f' x) \<Longrightarrow> bindR m f = bindR m' f'"
  by (cases m') (auto simp: bindR_def)

lemma bindR_Inr_iff [res_iff]: "bindR m f = Inr y \<longleftrightarrow> (\<exists>x. m = Inr x \<and> f x = Inr y)"
  by (cases m) auto

lemma bindR_Inl_iff: "bindR m f = Inl e \<longleftrightarrow> m = Inl e \<or> (\<exists>x. m = Inr x \<and> f x = Inl e)"
  by (cases m) auto

lemma guardR_simps [simp]:
  "guardR True c = Inr ()"
  "guardR False c = Inl (SlpError c)"
  by (simp_all add: guardR_def)

lemma guardR_Inr_iff [res_iff]: "guardR ok c = Inr u \<longleftrightarrow> ok"
  by (simp add: guardR_def)

lemma guardR_Inl_iff: "guardR ok c = Inl e \<longleftrightarrow> \<not> ok \<and> e = SlpError c"
  by (auto simp: guardR_def)

section \<open>Error codes\<close>

definition SLP_ERROR_OK :: nat where "SLP_ERROR_OK = 0"
definition SLP_ERROR_PARSE_ERROR :: nat where "SLP_ERROR_PARSE_ERROR = 2"
definition SLP_ERROR_INVALID_REGISTRATION :: nat where "SLP_ERROR_INVALID_REGISTRATION = 3"
definition SLP_ERROR_SCOPE_NOT_SUPPORTED :: nat where "SLP_ERROR_SCOPE_NOT_SUPPORTED = 4"
definition SLP_ERROR_AUTHENTICATION_UNKNOWN :: nat where "SLP_ERROR_AUTHENTICATION_UNKNOWN = 5"
definition SLP_ERROR_AUTHENTICATION_FAILED :: nat where "SLP_ERROR_AUTHENTICATION_FAILED = 7"
definition SLP_ERROR_VER_NOT_SUPPORTED :: nat where "SLP_ERROR_VER_NOT_SUPPORTED = 9"
definition SLP_ERROR_INTERNAL_ERROR :: nat where "SLP_ERROR_INTERNAL_ERROR = 10"
definition SLP_ERROR_OPTION_NOT_UNDERSTOOD :: nat where "SLP_ERROR_OPTION_NOT_UNDERSTOOD = 12"
definition SLP_ERROR_MESSAGE_NOT_SUPPORTED :: nat where "SLP_ERROR_MESSAGE_NOT_SUPPORTED = 14"

lemmas error_defs = SLP_ERROR_OK_def SLP_ERROR_PARSE_ERROR_def SLP_ERROR_INVALID_REGISTRATION_def SLP_ERROR_SCOPE_NOT_SUPPORTED_def SLP_ERROR_AUTHENTICATION_UNKNOWN_def
  SLP_ERROR_AUTHENTICATION_FAILED_def SLP_ERROR_VER_NOT_SUPPORTED_def SLP_ERROR_INTERNAL_ERROR_def SLP_ERROR_OPTION_NOT_UNDERSTOOD_def SLP_ERROR_MESSAGE_NOT_SUPPORTED_def

section \<open>Memory as a list\<close>

text \<open>A read or a write by index, undefined outside the object.\<close>

definition rdR :: "'a list \<Rightarrow> nat \<Rightarrow> 'a res" where
  "rdR m i = (if i < length m then Inr (m ! i) else Inl OutOfBounds)"

definition wrR :: "'a list \<Rightarrow> nat \<Rightarrow> 'a \<Rightarrow> 'a list res" where
  "wrR m i x = (if i < length m then Inr (m[i := x]) else Inl OutOfBounds)"

lemma rdR_Inr_iff [res_iff]: "rdR m i = Inr x \<longleftrightarrow> i < length m \<and> x = m ! i"
  by (auto simp: rdR_def)

lemma rdR_in [simp]: "i < length m \<Longrightarrow> rdR m i = Inr (m ! i)"
  by (simp add: rdR_def)

lemma wrR_Inr_iff [res_iff]: "wrR m i x = Inr m' \<longleftrightarrow> i < length m \<and> m' = m[i := x]"
  by (auto simp: wrR_def)

lemma wrR_in [simp]: "i < length m \<Longrightarrow> wrR m i x = Inr (m[i := x])"
  by (simp add: wrR_def)

text \<open>The bytes of the object between two offsets.\<close>

definition cslice :: "'a list \<Rightarrow> nat \<Rightarrow> nat \<Rightarrow> 'a list" where
  "cslice m off len = take len (drop off m)"

lemma length_cslice: "off + len \<le> length m \<Longrightarrow> length (cslice m off len) = len"
  by (simp add: cslice_def)

lemma cslice_append_hit: "cslice (xs @ ys @ zs) (length xs) (length ys) = ys"
  by (simp add: cslice_def)

lemma cslice_update_outside:
  "i < off \<or> off + len \<le> i \<Longrightarrow> cslice (m[i := x]) off len = cslice m off len"
  by (cases "i < off") (auto simp: cslice_def drop_update_swap)

text \<open>\<open>memmove\<close> of \<open>n\<close> elements inside one object; \<open>memcpy\<close> is the same where the ranges are disjoint.\<close>

definition memmove :: "'a list \<Rightarrow> nat \<Rightarrow> nat \<Rightarrow> nat \<Rightarrow> 'a list" where
  "memmove m dst src n = take dst m @ cslice m src n @ drop (dst + n) m"

lemma length_memmove [simp]:
  "dst + n \<le> length m \<Longrightarrow> src + n \<le> length m \<Longrightarrow> length (memmove m dst src n) = length m"
  by (simp add: memmove_def cslice_def)

section \<open>Characters of the C locale\<close>

text \<open>The value of a plain \<open>char\<close>, which is signed on the platforms the build files name.\<close>

definition schar :: "char \<Rightarrow> int" where
  "schar c = (if (of_char c :: int) < 128 then of_char c else of_char c - 256)"

definition uchar :: "char \<Rightarrow> nat" where
  "uchar c = of_char c"

definition c_isspace :: "char \<Rightarrow> bool" where
  "c_isspace c = (uchar c = 32 \<or> 9 \<le> uchar c \<and> uchar c \<le> 13)"

definition c_tolower :: "char \<Rightarrow> char" where
  "c_tolower c = (if 65 \<le> uchar c \<and> uchar c \<le> 90 then char_of (uchar c + 32) else c)"

abbreviation NUL :: char where
  "NUL \<equiv> CHR 0x00"

lemma uchar_char_of [simp]: "uchar (char_of n) = n mod 256"
  by (simp add: uchar_def)

lemma uchar_less [simp]: "uchar c < 256"
  by (simp add: uchar_def)

lemma uchar_eq_iff [simp]: "uchar a = uchar b \<longleftrightarrow> a = b"
  by (simp add: uchar_def)

lemma c_tolower_idem [simp]: "c_tolower (c_tolower c) = c_tolower c"
  by (simp add: c_tolower_def)

lemma uchar_NUL [simp]: "uchar NUL = 0"
  by (simp add: uchar_def)

lemma c_tolower_NUL [simp]: "c_tolower NUL = NUL"
  by (simp add: c_tolower_def)

lemma c_tolower_NUL_iff [simp]: "c_tolower c = NUL \<longleftrightarrow> c = NUL"
  by (simp add: c_tolower_def flip: uchar_eq_iff)

lemma NUL_c_tolower_iff [simp]: "NUL = c_tolower c \<longleftrightarrow> c = NUL"
  using c_tolower_NUL_iff[of c] by metis

text \<open>A string up to its first terminator: what a routine sees that takes a terminated string.\<close>

definition c_string :: "string \<Rightarrow> string" where
  "c_string s = takeWhile (\<lambda>c. c \<noteq> NUL) s"

lemma c_string_id: "NUL \<notin> set s \<Longrightarrow> c_string s = s"
  unfolding c_string_def by (simp add: takeWhile_eq_all_conv) blast

text \<open>The bytes of a string and the string of some bytes.\<close>

definition bytes_of :: "string \<Rightarrow> 8 word list" where
  "bytes_of s = map (\<lambda>c. of_nat (uchar c)) s"

definition chars_of :: "8 word list \<Rightarrow> string" where
  "chars_of bs = map (\<lambda>b. char_of (unat b)) bs"

lemma length_bytes_of [simp]: "length (bytes_of s) = length s"
  by (simp add: bytes_of_def)

lemma length_chars_of [simp]: "length (chars_of bs) = length bs"
  by (simp add: chars_of_def)

lemma chars_of_bytes_of [simp]: "chars_of (bytes_of s) = s"
proof -
  have "char_of (unat (of_nat (uchar c) :: 8 word)) = c" for c
    by (simp add: unat_of_nat flip: uchar_eq_iff)
  then show ?thesis by (simp add: chars_of_def bytes_of_def comp_def)
qed

lemma bytes_of_chars_of [simp]: "bytes_of (chars_of bs) = bs"
proof -
  have "unat b < 256" for b :: "8 word" using unsigned_less[of b, where 'a = nat] by simp
  then have "(of_nat (uchar (char_of (unat b))) :: 8 word) = b" for b by (simp add: uchar_def)
  then show ?thesis by (simp add: chars_of_def bytes_of_def comp_def)
qed

lemma bytes_of_append [simp]: "bytes_of (s @ t) = bytes_of s @ bytes_of t"
  by (simp add: bytes_of_def)

lemma chars_of_append [simp]: "chars_of (a @ b) = chars_of a @ chars_of b"
  by (simp add: chars_of_def)

lemma bytes_of_Nil [simp]: "bytes_of [] = []"
  by (simp add: bytes_of_def)

lemma chars_of_Nil [simp]: "chars_of [] = []"
  by (simp add: chars_of_def)

text \<open>
  \<open>strncasecmp\<close> of the C library: at most \<open>n\<close> characters, stopping at a
  terminator or at the first difference; the end of the list is the
  terminator of a C string.
\<close>

definition chd :: "string \<Rightarrow> char" where
  "chd s = (case s of [] \<Rightarrow> NUL | c # _ \<Rightarrow> c)"

fun c_strncasecmp :: "nat \<Rightarrow> string \<Rightarrow> string \<Rightarrow> int" where
  "c_strncasecmp 0 s t = 0"
| "c_strncasecmp (Suc n) s t =
     (let a = c_tolower (chd s); b = c_tolower (chd t) in
       if a \<noteq> b then int (uchar a) - int (uchar b)
         else if a = NUL then 0
         else c_strncasecmp n (tl s) (tl t))"

text \<open>What \<open>strncasecmp\<close> looks at: the lower-cased characters before the first terminator.\<close>

definition cfold :: "string \<Rightarrow> string" where
  "cfold s = map c_tolower (takeWhile (\<lambda>c. c \<noteq> NUL) s)"

lemma cfold_Nil [simp]: "cfold [] = []"
  by (simp add: cfold_def)

lemma cfold_Cons: "cfold (c # s) = (if c = NUL then [] else c_tolower c # cfold s)"
  by (simp add: cfold_def)

lemma cfold_take_Suc:
  "cfold (take (Suc n) s) =
     (if chd s = NUL then [] else c_tolower (chd s) # cfold (take n (tl s)))"
  by (cases s) (simp_all add: cfold_Cons chd_def)

lemma c_strncasecmp_0_iff:
  "c_strncasecmp n s t = 0 \<longleftrightarrow> cfold (take n s) = cfold (take n t)"
proof (induction n s t rule: c_strncasecmp.induct)
  case (1 s t)
  then show ?case by simp
next
  case (2 n s t)
  show ?case
  proof (cases "c_tolower (chd s) = c_tolower (chd t)")
    case True
    then have "chd s = NUL \<longleftrightarrow> chd t = NUL" by (metis c_tolower_NUL_iff)
    with True 2 show ?thesis by (auto simp: cfold_take_Suc Let_def)
  next
    case False
    then have "uchar (c_tolower (chd s)) \<noteq> uchar (c_tolower (chd t))" by simp
    with False show ?thesis by (auto simp: cfold_take_Suc Let_def simp del: uchar_eq_iff)
  qed
qed

lemma length_cfold_le: "length (cfold s) \<le> length s"
  by (simp add: cfold_def length_takeWhile_le)

text \<open>\<open>memchr\<close>: the offset of the first occurrence.\<close>

fun c_memchr :: "char \<Rightarrow> string \<Rightarrow> nat option" where
  "c_memchr x [] = None"
| "c_memchr x (c # s) = (if c = x then Some 0 else map_option Suc (c_memchr x s))"

lemma c_memchr_eq: "c_memchr x s = (if x \<in> set s then Some (length (takeWhile (\<lambda>c. c \<noteq> x) s)) else None)"
  by (induction s) auto

text \<open>\<open>memcmp\<close> of \<open>n\<close> characters that both strings have.\<close>

fun c_memcmp :: "nat \<Rightarrow> string \<Rightarrow> string \<Rightarrow> int" where
  "c_memcmp 0 s t = 0"
| "c_memcmp (Suc n) (a # s) (b # t) = (if a = b then c_memcmp n s t else int (uchar a) - int (uchar b))"
| "c_memcmp (Suc n) s t = 0"

end
