(* ===== verification/SLP_Compare.thy ===== *)
theory SLP_Compare
  imports SLP_Prelude
begin

text \<open>
  String comparison and comma-separated string lists: \<open>common/slp_compare.c\<close>.

  A string argument of the C code is a pointer and a length; here it is the
  list of the characters it denotes.  The routines that work in place take
  the characters of the object and return the object after the call together
  with the length they return.  Where the code reads next to the string it
  was given, the result is \<open>OutOfBounds\<close>.
\<close>

unbundle bit_operations_syntax

abbreviation BSLASH :: char where
  "BSLASH \<equiv> CHR 0x5C"

section \<open>Replacement routines for platforms without strncasecmp\<close>

function slp_strcasecmp :: "string \<Rightarrow> string \<Rightarrow> int" where
  "slp_strcasecmp s1 s2 =
     (if chd s1 \<noteq> NUL \<and> (chd s1 = chd s2 \<or> c_tolower (chd s1) = c_tolower (chd s2))
      then slp_strcasecmp (tl s1) (tl s2)
      else int (uchar (chd s1)) - int (uchar (chd s2)))"
  by pat_completeness auto
termination
  by (relation "measure (\<lambda>(s1, s2). length s1)") (auto simp: chd_def split: list.splits)

function slp_strncasecmp :: "string \<Rightarrow> string \<Rightarrow> 64 word \<Rightarrow> int" where
  "slp_strncasecmp s1 s2 len =
     (if chd s1 \<noteq> NUL \<and> (chd s1 = chd s2 \<or> c_tolower (chd s1) = c_tolower (chd s2))
      then (let len = len - 1 in
            if len = 0 then 0 else slp_strncasecmp (tl s1) (tl s2) len)
      else if len \<noteq> 0 then int (uchar (chd s1)) - int (uchar (chd s2)) else 0)"
  by pat_completeness auto
termination
  by (relation "measure (\<lambda>(s1, s2, len). length s1)") (auto simp: chd_def split: list.splits)

declare slp_strcasecmp.simps [simp del] slp_strncasecmp.simps [simp del]

section \<open>Escapes and white space\<close>

definition usaupr :: "int \<Rightarrow> int" where
  "usaupr c = (if c AND 0xC0 = 0x40 then c AND NOT 0x20 else c)"

definition ishex :: "int \<Rightarrow> bool" where
  "ishex c0 = (let c = usaupr c0 in (48 \<le> c \<and> c \<le> 57) \<or> (65 \<le> c \<and> c \<le> 70))"

definition hex2bin :: "int \<Rightarrow> int" where
  "hex2bin c0 = (let c = usaupr c0 in c - (if c \<le> 57 then 48 else 65 - 10))"

text \<open>The character an escape stands for: two hexadecimal digits, truncated to a \<open>char\<close>.\<close>

definition hexpair :: "char \<Rightarrow> char \<Rightarrow> char" where
  "hexpair a b = char_of (hex2bin (schar a) * 16 + hex2bin (schar b))"

function unescape_loop :: "nat \<Rightarrow> string \<Rightarrow> nat \<Rightarrow> nat \<Rightarrow> int \<Rightarrow> string \<times> int" where
  "unescape_loop ep m fp tp len =
     (if fp < ep then
        (let c = m ! fp; fp = fp + 1 in
         if fp + 2 \<le> ep \<and> c = BSLASH \<and> m ! fp \<noteq> NUL
            \<and> ishex (schar (m ! fp)) \<and> ishex (schar (m ! (fp + 1)))
         then unescape_loop ep (m[tp := hexpair (m ! fp) (m ! (fp + 1))]) (fp + 2) (tp + 1) (len - 2)
         else unescape_loop ep (m[tp := c]) fp (tp + 1) len)
      else (m, len))"
  by pat_completeness auto
termination
  by (relation "measure (\<lambda>(ep, m, fp, tp, len). ep - fp)") auto

definition SLPUnescapeInPlace :: "string \<Rightarrow> string \<times> int" where
  "SLPUnescapeInPlace str = unescape_loop (length str) str 0 0 (int (length str))"

function ws_skip :: "nat \<Rightarrow> string \<Rightarrow> nat \<Rightarrow> nat" where
  "ws_skip ep m p = (if p < ep \<and> c_isspace (m ! p) then ws_skip ep m (p + 1) else p)"
  by pat_completeness auto
termination
  by (relation "measure (\<lambda>(ep, m, p). ep - p)") auto

declare unescape_loop.simps [simp del] ws_skip.simps [simp del]

lemma ws_skip_ge: "p \<le> ws_skip ep m p"
proof (induction ep m p rule: ws_skip.induct)
  case (1 ep m p)
  then show ?case by (auto simp: ws_skip.simps[of ep m p])
qed

function foldws_loop :: "nat \<Rightarrow> string \<Rightarrow> nat \<Rightarrow> int \<Rightarrow> string \<times> int" where
  "foldws_loop ep m p len =
     (if p < ep then
        (if c_isspace (m ! p) then
           (let ws2p = p + 1;
                q = ws_skip ep m ws2p
            in foldws_loop ep (memmove m ws2p q (ep - q)) (q + 1) (len - int (q - ws2p)))
         else foldws_loop ep m (p + 1) len)
      else (m, len))"
  by pat_completeness auto
termination
proof (relation "measure (\<lambda>(ep, m, p, len). ep - p)", goal_cases)
  case (2 ep m p len x xa)
  then show ?case using ws_skip_ge[of "p + 1" ep m] by auto
qed auto

definition SLPFoldWhiteSpace :: "string \<Rightarrow> string \<times> int" where
  "SLPFoldWhiteSpace str = foldws_loop (length str) str 0 (int (length str))"

declare foldws_loop.simps [simp del]

section \<open>Comparing two strings\<close>

definition SLPCompareNormalizedString :: "string \<Rightarrow> string \<Rightarrow> nat \<Rightarrow> int" where
  "SLPCompareNormalizedString str1 str2 len = c_strncasecmp len str1 str2"

definition trim :: "string \<Rightarrow> string" where
  "trim s = rev (dropWhile c_isspace (rev (dropWhile c_isspace s)))"

text \<open>Unescape and fold the copy of one string; the C code keeps the copy and its new length.\<close>

definition norm_copy :: "string \<Rightarrow> string" where
  "norm_copy s =
     (let (m, len) = SLPUnescapeInPlace s;
          (m, len) = SLPFoldWhiteSpace (take (nat len) m)
      in take (nat len) m)"

text \<open>\<open>dup_ok\<close>: both calls of \<open>xmemdup\<close> succeed.\<close>

definition SLPCompareString_dup :: "bool \<Rightarrow> string \<Rightarrow> string \<Rightarrow> int" where
  "SLPCompareString_dup dup_ok s1 s2 =
     (let str1 = trim s1; str2 = trim s2 in
      if length str1 = 0 \<or> length str2 = 0 then
        (if length str1 = length str2 then 0
         else if length str1 < length str2 then -1 else 1)
      else
        (let str1 = (if dup_ok then norm_copy str1 else str1);
             str2 = (if dup_ok then norm_copy str2 else str2)
         in if length str1 = length str2
            then SLPCompareNormalizedString str1 str2 (length str1)
            else if length str1 > length str2 then -1 else 1))"

definition SLPCompareString :: "string \<Rightarrow> string \<Rightarrow> int" where
  "SLPCompareString s1 s2 = SLPCompareString_dup True s1 s2"

section \<open>Normalising a service type\<close>

text \<open>
  \<open>SLPNormalizeString\<close> reads \<open>src\<close>, the object that \<open>srcstr\<close> points into, of
  which the first \<open>len\<close> characters are the string, and returns what it wrote
  to a separate \<open>dststr\<close>.  The escape branch is the code's: it decodes the
  characters at offsets 0 and 1 and leaves \<open>srcstr\<close> where it is.
\<close>

function normstr_ws :: "string \<Rightarrow> nat \<Rightarrow> nat \<Rightarrow> (nat \<times> nat) res" where
  "normstr_ws src len i =
     bindR (rdR src i) (\<lambda>c.
       if c_isspace c \<and> len > 0 then normstr_ws src (len - 1) (i + 1) else Inr (len, i))"
  by pat_completeness auto
termination
  by (relation "measure (\<lambda>(src, len, i). len)") auto

declare normstr_ws.simps [simp del]

lemma normstr_ws_le:
  "normstr_ws src len i = Inr (len', i') \<Longrightarrow> len' \<le> len \<and> len' + i' = len + i"
proof (induction src len i rule: normstr_ws.induct)
  case (1 src len i)
  then show ?case
    by (subst (asm) (2) normstr_ws.simps) (fastforce simp: res_iff split: if_splits)
qed

lemma normstr_ws_less:
  assumes "normstr_ws src len i = Inr (len', i')" "rdR src i = Inr c" "c_isspace c" "0 < len"
  shows "len' < len"
proof -
  from assms have "normstr_ws src (len - 1) (i + 1) = Inr (len', i')"
    by (subst (asm) normstr_ws.simps) simp
  then show ?thesis using normstr_ws_le[of src "len - 1" "i + 1" len' i'] assms(4) by linarith
qed

function normstr_loop :: "string \<Rightarrow> bool \<Rightarrow> nat \<Rightarrow> nat \<Rightarrow> string \<Rightarrow> string res" where
  "normstr_loop src tr len i out =
     (if len > 0 then
        bindR (rdR src i) (\<lambda>c.
          if c = NUL then Inr out
          else if c_isspace c then
            bindR (normstr_ws src len i) (\<lambda>(len', i').
              normstr_loop src tr len' i'
                (if \<not> tr \<or> (out \<noteq> [] \<and> len' > 0) then out @ '' '' else out))
          else if c = BSLASH then
            (if len < 3 then normstr_loop src tr (len - 1) (i + 1) (out @ [c])
             else
               bindR (rdR src (i + 1)) (\<lambda>a.
               bindR (if ishex (schar a) then rdR src (i + 2) else Inr NUL) (\<lambda>b.
                 if ishex (schar a) \<and> ishex (schar b)
                 then normstr_loop src tr (len - 3) i (out @ [hexpair c a])
                 else normstr_loop src tr (len - 1) (i + 1) (out @ [c]))))
          else normstr_loop src tr (len - 1) (i + 1) (out @ [c_tolower c]))
      else Inr out)"
  by pat_completeness auto
termination
  by (relation "measure (\<lambda>(src, tr, len, i, out). len)") (auto intro: normstr_ws_less)

definition SLPNormalizeString :: "nat \<Rightarrow> string \<Rightarrow> bool \<Rightarrow> string res" where
  "SLPNormalizeString len src tr = normstr_loop src tr len 0 []"

declare normstr_loop.simps [simp del]

section \<open>Naming authorities and service types\<close>

text \<open>
  When the type has no dot, \<open>dot\<close> is a null pointer and \<open>dot + 1 - srvtype\<close> is
  computed from the address \<open>addr\<close> of the type; the comparison that follows an
  accidental match of the lengths would read at address 1.
\<close>

definition SLPCompareNamingAuth :: "64 word \<Rightarrow> string \<Rightarrow> nat \<Rightarrow> string \<Rightarrow> int res" where
  "SLPCompareNamingAuth addr srvtype namingauthlen namingauth =
     (if namingauthlen = 0xffff then Inr 0
      else
        (let dot = c_memchr CHR ''.'' srvtype in
         if namingauthlen = 0 then Inr (if dot \<noteq> None then 1 else 0)
         else (case dot of
             None \<Rightarrow>
               (if of_nat (length srvtype) - (1 - addr) \<noteq> (of_nat namingauthlen :: 64 word)
                then Inr 1 else Inl OutOfBounds)
           | Some d \<Rightarrow>
               (if length srvtype - (d + 1) \<noteq> namingauthlen then Inr 1
                else if SLPCompareNormalizedString (drop (d + 1) srvtype) namingauth namingauthlen = 0
                then Inr 0 else Inr 1))))"

definition skip_service :: "string \<Rightarrow> string" where
  "skip_service t =
     (if length t \<ge> 8 \<and> c_strncasecmp 8 t ''service:'' = 0 then drop 8 t else t)"

definition SLPCompareSrvType :: "string \<Rightarrow> string \<Rightarrow> int" where
  "SLPCompareSrvType lsrvtype rsrvtype =
     (let l = skip_service lsrvtype; r = skip_service rsrvtype in
      if c_memchr CHR '':'' l \<noteq> None then
        (if length l = length r then SLPCompareNormalizedString l r (length l) else 1)
      else (case c_memchr CHR '':'' r of
          Some colon \<Rightarrow>
            (if length l = colon then SLPCompareNormalizedString l r (length l) else 1)
        | None \<Rightarrow>
            (if length l = length r then SLPCompareNormalizedString l r (length l) else 1)))"

section \<open>Unescaping in place\<close>

text \<open>
  The reference function: one left-to-right pass that replaces each escape,
  written without positions or aliasing.
\<close>

fun unescape :: "string \<Rightarrow> string" where
  "unescape (c # a # b # s) =
     (if c = BSLASH \<and> ishex (schar a) \<and> ishex (schar b)
      then hexpair a b # unescape s else c # unescape (a # b # s))"
| "unescape s = s"

lemma length_unescape_le: "length (unescape s) \<le> length s"
  by (induction s rule: unescape.induct) auto

lemma not_ishex_NUL: "\<not> ishex (schar NUL)"
  by code_simp

lemma unescape_drop:
  assumes "fp < length m"
  shows "unescape (drop fp m) =
     (if fp + 3 \<le> length m \<and> m ! fp = BSLASH \<and> ishex (schar (m ! (fp + 1))) \<and> ishex (schar (m ! (fp + 2)))
      then hexpair (m ! (fp + 1)) (m ! (fp + 2)) # unescape (drop (fp + 3) m)
      else m ! fp # unescape (drop (fp + 1) m))"
proof (cases "fp + 3 \<le> length m")
  case True
  then have "drop fp m = m ! fp # m ! (fp+1) # m ! (fp+2) # drop (fp + 3) m"
    by (simp add: Cons_nth_drop_Suc numeral_eq_Suc)
  moreover from True have "drop (fp + 1) m = m ! (fp+1) # m ! (fp+2) # drop (fp + 3) m"
    by (simp add: Cons_nth_drop_Suc numeral_eq_Suc)
  ultimately show ?thesis using True by simp
next
  case False
  with assms consider "length m = fp + 1" | "length m = fp + 2" by linarith
  then show ?thesis
  proof cases
    case 1
    then have "drop fp m = [m ! fp]" "drop (fp + 1) m = []"
      using assms by (simp_all add: Cons_nth_drop_Suc [symmetric])
    with False show ?thesis by simp
  next
    case 2
    then have "drop fp m = [m ! fp, m ! (fp + 1)]" "drop (fp + 1) m = [m ! (fp + 1)]"
      using assms by (simp_all add: Cons_nth_drop_Suc [symmetric])
    with False show ?thesis by simp
  qed
qed

lemma unescape_loop_spec:
  assumes "tp \<le> fp" "fp \<le> length m"
  shows "\<exists>m'. unescape_loop (length m) m fp tp len =
      (m', len - int (length m - fp) + int (length (unescape (drop fp m))))
    \<and> length m' = length m
    \<and> take (tp + length (unescape (drop fp m))) m' = take tp m @ unescape (drop fp m)"
  using assms
proof (induction "length m - fp" arbitrary: m fp tp len rule: less_induct)
  case less
  show ?case
  proof (cases "fp < length m")
    case False
    with less.prems show ?thesis by (simp add: unescape_loop.simps)
  next
    case True
    let ?esc = "fp + 3 \<le> length m \<and> m ! fp = BSLASH \<and> ishex (schar (m ! (fp + 1))) \<and> ishex (schar (m ! (fp + 2)))"
    define x k where "x = (if ?esc then hexpair (m ! (fp + 1)) (m ! (fp + 2)) else m ! fp)"
      and "k = (if ?esc then 3 else 1 :: nat)"
    have k: "0 < k" "fp + k \<le> length m" using True by (auto simp: k_def)
    have step: "unescape_loop (length m) m fp tp len =
        unescape_loop (length (m[tp := x])) (m[tp := x]) (fp + k) (tp + 1) (len - int (k - 1))"
      using True
      by (subst unescape_loop.simps)
        (auto simp: x_def k_def Let_def add.commute not_ishex_NUL algebra_simps
          intro: arg_cong)
    have un: "unescape (drop fp m) = x # unescape (drop (fp + k) (m[tp := x]))"
      using unescape_drop[OF True] less.prems k by (auto simp: x_def k_def)
    have tk: "take (Suc tp) (m[tp := x]) = take tp m @ [x]"
      using True less.prems by (simp add: take_Suc_conv_app_nth)
    have "length (m[tp := x]) - (fp + k) < length m - fp" using k True by simp
    from less.hyps[OF this, of "tp + 1" "len - int (k - 1)"] k less.prems
    show ?thesis by (auto simp: step un tk algebra_simps)
  qed
qed

text \<open>
  C12: the loop of \<open>SLPUnescapeInPlace\<close>, whose read and write positions move
  through the same object, leaves exactly the characters of the reference
  function at the front of the object and returns their number; the object
  keeps its size.
\<close>

theorem SLPUnescapeInPlace_refines:
  "\<exists>m'. SLPUnescapeInPlace s = (m', int (length (unescape s)))
     \<and> take (length (unescape s)) m' = unescape s \<and> length m' = length s"
  using unescape_loop_spec[of 0 0 s "int (length s)"]
  by (auto simp: SLPUnescapeInPlace_def)

section \<open>Folding white space\<close>

text \<open>What the routine is meant to compute: a run of white space is replaced by its first character.\<close>

function fold_ws :: "string \<Rightarrow> string" where
  "fold_ws [] = []"
| "fold_ws (c # s) = c # (if c_isspace c then fold_ws (dropWhile c_isspace s) else fold_ws s)"
  by pat_completeness auto
termination
  by (relation "measure length") (auto simp: length_dropWhile_le le_imp_less_Suc)

text \<open>No two adjacent characters between two positions are both white space.\<close>

definition isolated :: "string \<Rightarrow> nat \<Rightarrow> nat \<Rightarrow> bool" where
  "isolated m i j = (\<forall>k. i \<le> k \<longrightarrow> k + 1 < j \<longrightarrow> \<not> (c_isspace (m ! k) \<and> c_isspace (m ! (k + 1))))"

lemma ws_skip_stop [simp]: "ep \<le> p \<or> \<not> c_isspace (m ! p) \<Longrightarrow> ws_skip ep m p = p"
  by (subst ws_skip.simps) auto

lemma memmove_same [simp]: "memmove m p p n = m"
proof -
  have "memmove m p p n = take (p + n) m @ drop (p + n) m"
    by (simp add: memmove_def cslice_def take_add)
  then show ?thesis by simp
qed

lemma foldws_loop_isolated_step:
  assumes "isolated m p ep" "p < ep"
  shows "foldws_loop ep m p len = foldws_loop ep m (if c_isspace (m ! p) then p + 2 else p + 1) len"
proof (cases "c_isspace (m ! p)")
  case True
  with assms have "ws_skip ep m (p + 1) = p + 1"
    by (auto simp: isolated_def)
  with True assms show ?thesis by (subst foldws_loop.simps) (simp add: Let_def)
next
  case False
  with assms show ?thesis by (subst foldws_loop.simps) simp
qed

lemma isolated_mono: "isolated m p ep \<Longrightarrow> p \<le> q \<Longrightarrow> r \<le> ep \<Longrightarrow> isolated m q r"
  by (auto simp: isolated_def)

lemma foldws_loop_isolated: "isolated m p ep \<Longrightarrow> foldws_loop ep m p len = (m, len)"
proof (induction "ep - p" arbitrary: p rule: less_induct)
  case less
  show ?case
  proof (cases "p < ep")
    case True
    then show ?thesis
      using less.hyps[of "p + 1"] less.hyps[of "p + 2"] less.prems
      by (simp add: foldws_loop_isolated_step isolated_mono)
  next
    case False
    then show ?thesis by (simp add: foldws_loop.simps)
  qed
qed

lemma foldws_loop_prefix:
  assumes "isolated m p j" "p \<le> j" "j < ep" "j = p \<or> \<not> c_isspace (m ! (j - 1))"
  shows "foldws_loop ep m p len = foldws_loop ep m j len"
  using assms
proof (induction "j - p" arbitrary: p rule: less_induct)
  case less
  show ?case
  proof (cases "p < j")
    case True
    show ?thesis
    proof (cases "c_isspace (m ! p)")
      case sp: True
      with True less.prems have "p + 1 < j"
        by (cases "p + 1 = j") auto
      with sp less.prems have "ws_skip ep m (p + 1) = p + 1"
        by (intro ws_skip_stop) (auto simp: isolated_def)
      then have "foldws_loop ep m p len = foldws_loop ep m (p + 2) len"
        using sp True less.prems by (subst foldws_loop.simps) (simp add: Let_def)
      also have "\<dots> = foldws_loop ep m j len"
        using less.hyps[of "p + 2"] less.prems \<open>p + 1 < j\<close> by (auto simp: isolated_mono)
      finally show ?thesis .
    next
      case False
      then have "foldws_loop ep m p len = foldws_loop ep m (p + 1) len"
        using True less.prems by (subst foldws_loop.simps) simp
      also have "\<dots> = foldws_loop ep m j len"
        using less.hyps[of "p + 1"] less.prems True by (auto simp: isolated_mono)
      finally show ?thesis .
    qed
  qed (use less.prems in simp)
qed

lemma ws_skip_run:
  assumes "\<forall>i. p \<le> i \<and> i < q \<longrightarrow> c_isspace (m ! i)" "p \<le> q" "q \<le> ep"
    "q = ep \<or> \<not> c_isspace (m ! q)"
  shows "ws_skip ep m p = q"
  using assms
proof (induction "q - p" arbitrary: p)
  case 0
  then have "p = q" by simp
  with 0 show ?case by auto
next
  case (Suc n)
  then have "p < q" by simp
  then have "ws_skip ep m p = ws_skip ep m (p + 1)"
    using Suc.prems by (subst ws_skip.simps) auto
  also have "\<dots> = q" using Suc \<open>p < q\<close> by auto
  finally show ?case .
qed

text \<open>The length the routine returns never grows, and never becomes zero for a non-empty string.\<close>

lemma ws_skip_le: "p \<le> ep \<Longrightarrow> ws_skip ep m p \<le> ep"
proof (induction ep m p rule: ws_skip.induct)
  case (1 ep m p)
  then show ?case by (auto simp: ws_skip.simps[of ep m p])
qed

lemma foldws_loop_len:
  assumes "foldws_loop ep m p len = (m', len')" "ep \<le> length m"
  shows "len' \<le> len \<and> len - int (ep - p) \<le> len' \<and> (p < ep \<longrightarrow> len - int (ep - p) < len') \<and> length m' = length m"
  using assms
proof (induction "ep - p" arbitrary: m p len rule: less_induct)
  case less
  show ?case
  proof (cases "p < ep")
    case False
    with less.prems show ?thesis by (simp add: foldws_loop.simps)
  next
    case True
    show ?thesis
    proof (cases "c_isspace (m ! p)")
      case sp: True
      define q where "q = ws_skip ep m (p + 1)"
      have q: "p + 1 \<le> q" "q \<le> ep"
        using ws_skip_ge[of "p + 1" ep m] ws_skip_le[of "p + 1" ep m] True by (auto simp: q_def)
      have eq: "foldws_loop ep (memmove m (p + 1) q (ep - q)) (q + 1) (len - int (q - (p + 1))) = (m', len')"
        using less.prems(1) sp True by (subst (asm) foldws_loop.simps) (simp add: Let_def q_def)
      have "length (memmove m (p + 1) q (ep - q)) = length m"
        using q less.prems(2) by (intro length_memmove) auto
      moreover have "ep - (q + 1) < ep - p" using q True by linarith
      ultimately show ?thesis
        using less.hyps[OF _ eq] q True less.prems(2) by linarith
    next
      case False
      then have "foldws_loop ep m (p + 1) len = (m', len')"
        using less.prems(1) True by (subst (asm) foldws_loop.simps) simp
      moreover have "ep - (p + 1) < ep - p" using True by linarith
      ultimately show ?thesis
        using less.hyps[of "p + 1" m len] True less.prems(2) by linarith
    qed
  qed
qed

lemma fold_ws_isolated: "isolated s 0 (length s) \<Longrightarrow> fold_ws s = s"
proof (induction s rule: fold_ws.induct)
  case (2 c s)
  have iso: "isolated s 0 (length s)"
    using 2(3) by (fastforce simp: isolated_def dest: spec[of _ "Suc _"])
  moreover have "dropWhile c_isspace s = s" if "c_isspace c"
  proof (cases s)
    case (Cons d s')
    then show ?thesis using 2(3) that by (auto simp: isolated_def)
  qed simp
  ultimately show ?case using 2 by auto
qed simp

lemma fold_ws_append:
  assumes "x = [] \<or> \<not> c_isspace (last x)"
  shows "fold_ws (x @ s) = fold_ws x @ fold_ws s"
  using assms
proof (induction x rule: fold_ws.induct)
  case (2 c x)
  show ?case
  proof (cases "c_isspace c")
    case True
    with 2(3) have "x \<noteq> []" and l: "\<not> c_isspace (last x)" by (auto split: if_splits)
    then have ex: "\<exists>d \<in> set x. \<not> c_isspace d" using last_in_set by blast
    then have "dropWhile c_isspace (x @ s) = dropWhile c_isspace x @ s"
      by (metis dropWhile_append1)
    moreover have "dropWhile c_isspace x \<noteq> []" using ex by (simp add: dropWhile_eq_Nil_conv)
    then have "\<not> c_isspace (last (dropWhile c_isspace x))"
      using l by (metis last_appendR takeWhile_dropWhile_id)
    ultimately show ?thesis using 2(1) True by simp
  next
    case False
    with 2 show ?thesis by (cases x) auto
  qed
qed simp

lemma memmove_run:
  assumes "r \<noteq> []"
  shows "memmove (x @ r @ y) (length x + 1) (length x + length r) (length y)
    = x @ hd r # y @ drop (length x + 1 + length y) (x @ r @ y)"
  using assms by (cases r) (simp_all add: memmove_def cslice_def)

text \<open>
  On a string with at most one run of several white-space characters, not
  at its end unless nothing follows, the in-place loop computes the folded
  string and its length.
\<close>

theorem SLPFoldWhiteSpace_single_run:
  assumes "s = x @ r @ y" "r \<noteq> []" "\<forall>c \<in> set r. c_isspace c"
    and "isolated x 0 (length x)" "x = [] \<or> \<not> c_isspace (last x)"
    and "isolated y 0 (length y)" "y = [] \<or> \<not> c_isspace (hd y) \<and> \<not> c_isspace (last y)"
  shows "\<exists>m. SLPFoldWhiteSpace s = (m, int (length (fold_ws s)))
    \<and> take (length (fold_ws s)) m = fold_ws s"
proof -
  let ?ep = "length s" and ?q = "length x + length r"
  define m where "m = x @ hd r # y @ drop (length x + 1 + length y) s"
  have s: "?ep = ?q + length y" "length x < ?ep" using assms by auto
  have sp: "c_isspace (s ! length x)"
    using assms by (cases r) (auto simp: nth_append)
  have sk: "ws_skip ?ep s (length x + 1) = ?q"
    using assms by (intro ws_skip_run) (auto simp: nth_append hd_conv_nth Suc_le_eq)
  have pre: "foldws_loop ?ep s 0 len = foldws_loop ?ep s (length x) len" for len
  proof (intro foldws_loop_prefix)
    show "isolated s 0 (length x)" using assms(1,4) by (auto simp: isolated_def nth_append)
    show "length x = 0 \<or> \<not> c_isspace (s ! (length x - 1))"
      using assms(1,5) by (cases "x = []") (auto simp: nth_append last_conv_nth)
  qed (use s in auto)
  have step: "SLPFoldWhiteSpace s
      = foldws_loop ?ep (memmove s (length x + 1) ?q (length y)) (?q + 1)
          (int ?ep - int (length r - 1))"
    unfolding SLPFoldWhiteSpace_def pre
    by (subst foldws_loop.simps) (use s sp sk in \<open>simp add: Let_def\<close>)
  have m: "memmove s (length x + 1) ?q (length y) = m"
    using assms memmove_run[of r x y] by (simp add: m_def)
  obtain R where R: "length r = Suc R" using assms(2) by (cases r) auto
  have nth: "m ! (?q + t) = (if R + t < length y then y ! (R + t) else y ! t)"
    if "t < length y" for t
    using that assms(1,2) R
    by (cases r) (auto simp: m_def nth_append nth_Cons split: nat.splits intro!: arg_cong[where f = "(!) y"])
  have y: "\<not> (c_isspace (y ! i) \<and> c_isspace (y ! (i + 1)))" if "i + 1 < length y" for i
    using assms(6) that by (auto simp: isolated_def)
  have "isolated m (?q + 1) ?ep"
    unfolding isolated_def
  proof (intro allI impI notI)
    fix k assume k: "?q + 1 \<le> k" "k + 1 < ?ep" and ws: "c_isspace (m ! k) \<and> c_isspace (m ! (k + 1))"
    then obtain t where t: "k = ?q + t" "t + 1 < length y" using s by (auto simp: le_iff_add)
    have mk: "m ! k = (if R + t < length y then y ! (R + t) else y ! t)"
      "m ! (k + 1) = (if R + t + 1 < length y then y ! (R + t + 1) else y ! (t + 1))"
      using nth[of t] nth[of "t + 1"] t by (simp_all add: add.assoc)
    have ly: "\<not> c_isspace (y ! (length y - 1))"
      using assms(7) t by (cases "y = []") (auto simp: last_conv_nth)
    consider "R + t + 1 < length y" | "R + t = length y - 1" | "length y \<le> R + t" using t by linarith
    then show False
    proof cases
      case 1
      then show False using ws mk y[of "R + t"] by simp
    next
      case 2
      then have "m ! k = y ! (length y - 1)" using mk(1) t by auto
      then show False using ws ly by simp
    next
      case 3
      then show False using ws mk y[of t] t by simp
    qed
  qed
  then have loop: "SLPFoldWhiteSpace s = (m, int ?ep - int (length r - 1))"
    unfolding step m by (rule foldws_loop_isolated)
  have "dropWhile c_isspace (tl r @ y) = y"
    using assms(2,3,7) by (cases r; cases y) (auto simp: dropWhile_append2)
  moreover have "fold_ws y = y" using assms(6) by (rule fold_ws_isolated)
  ultimately have "fold_ws (r @ y) = hd r # y"
    using assms(2,3) by (cases r) auto
  then have fw: "fold_ws s = x @ hd r # y"
    using assms by (simp add: fold_ws_append fold_ws_isolated)
  then have "int ?ep - int (length r - 1) = int (length (fold_ws s))"
    using s R by simp
  moreover have "take (length (fold_ws s)) m = fold_ws s"
    by (simp add: fw m_def)
  ultimately show ?thesis using loop by auto
qed

theorem SLPFoldWhiteSpace_single_run_witness:
  "\<exists>m. SLPFoldWhiteSpace ''a b   c d'' = (m, int (length (fold_ws ''a b   c d'')))
    \<and> take (length (fold_ws ''a b   c d'')) m = fold_ws ''a b   c d''"
  by (rule SLPFoldWhiteSpace_single_run[of _ "''a b''" "''   ''" "''c d''"])
     (simp_all add: isolated_def c_isspace_def uchar_def nth_Cons split: nat.splits)


lemma ws_skip_step: "p < ep \<Longrightarrow> c_isspace (m ! p) \<Longrightarrow> ws_skip ep m p = ws_skip ep m (p + 1)"
  by (subst ws_skip.simps) simp

lemma foldws_steps:
  "p < ep \<Longrightarrow> c_isspace (m ! p) \<Longrightarrow> foldws_loop ep m p len =
     (let q = ws_skip ep m (p + 1)
      in foldws_loop ep (memmove m (p + 1) q (ep - q)) (q + 1) (len - int (q - (p + 1))))"
  "p < ep \<Longrightarrow> \<not> c_isspace (m ! p) \<Longrightarrow> foldws_loop ep m p len = foldws_loop ep m (p + 1) len"
  "ep \<le> p \<Longrightarrow> foldws_loop ep m p len = (m, len)"
  by (subst foldws_loop.simps, simp add: Let_def)+

lemma c_isspace_simps [simp]: "c_isspace CHR '' ''" "\<not> c_isspace CHR ''a''" "\<not> c_isspace CHR ''b''"
  by (simp_all add: c_isspace_def uchar_def)

lemma norm_copy_loses_last:
  assumes "\<not> c_isspace c" "c \<noteq> BSLASH"
  shows "norm_copy (''a       b  '' @ [c]) = ''a b  ''"
proof -
  have "\<exists>m. SLPUnescapeInPlace (''a       b  '' @ [c]) = (m, 12) \<and> take 12 m = ''a       b  '' @ [c]"
    using unescape_loop_spec[of 0 0 "''a       b  '' @ [c]" 12]
    by (auto simp: SLPUnescapeInPlace_def)
  moreover have "SLPFoldWhiteSpace (''a       b  '' @ [c]) = (''a b  '' @ c # ''  b '' @ [c, c], 5)"
    using assms(1)
    by (simp add: SLPFoldWhiteSpace_def foldws_steps ws_skip_step memmove_def cslice_def Let_def)
  ultimately show ?thesis by (auto simp: norm_copy_def)
qed

text \<open>
  With two runs the routine can lose characters: the loop keeps
  scanning the characters that \<open>memmove\<close> left behind the new end and subtracts
  their white space from the length as well.  Whatever the last character is,
  it is cut off, so strings that differ only there compare as equal.
\<close>

theorem SLPCompareString_two_runs:
  assumes "\<not> c_isspace c" "c \<noteq> BSLASH" "\<not> c_isspace d" "d \<noteq> BSLASH"
  shows "SLPCompareString (''a       b  '' @ [c]) (''a       b  '' @ [d]) = 0"
proof -
  have "trim (''a       b  '' @ [x]) = ''a       b  '' @ [x]" if "\<not> c_isspace x" for x
    using that by (simp add: trim_def c_isspace_def uchar_def)
  with assms show ?thesis
    by (simp add: SLPCompareString_def SLPCompareString_dup_def norm_copy_loses_last[simplified]
        SLPCompareNormalizedString_def c_strncasecmp_0_iff Let_def del: c_strncasecmp.simps)
qed

theorem SLPCompareString_two_runs_witness:
  "SLPCompareString ''a       b  c'' ''a       b  d'' = 0"
  using SLPCompareString_two_runs[of "CHR ''c''" "CHR ''d''"]
  by (simp add: c_isspace_def uchar_def)


section \<open>The relation SLPCompareString decides\<close>

text \<open>The normal form of a string: trimmed, unescaped, folded the way the code folds it.\<close>

definition slp_norm :: "string \<Rightarrow> string" where
  "slp_norm s = (if trim s = [] then [] else norm_copy (trim s))"

text \<open>All that the comparison sees of a string: the length and the folded text of its normal form.\<close>

definition slp_key :: "string \<Rightarrow> nat \<times> string" where
  "slp_key s = (length (slp_norm s), cfold (slp_norm s))"

lemma unescape_eq_Nil_iff [simp]: "unescape s = [] \<longleftrightarrow> s = []"
  by (cases s rule: unescape.cases) auto

lemma norm_copy_bounds:
  assumes "s \<noteq> []"
  shows "norm_copy s \<noteq> [] \<and> length (norm_copy s) \<le> length s"
proof -
  obtain m where m: "SLPUnescapeInPlace s = (m, int (length (unescape s)))"
    "take (length (unescape s)) m = unescape s" "length m = length s"
    using unescape_loop_spec[of 0 0 s "int (length s)"] by (auto simp: SLPUnescapeInPlace_def)
  obtain m' len where f: "SLPFoldWhiteSpace (unescape s) = (m', len)"
    by (cases "SLPFoldWhiteSpace (unescape s)")
  from f have "len \<le> int (length (unescape s)) \<and> 0 < len \<and> length m' = length (unescape s)"
    using assms foldws_loop_len[of "length (unescape s)" "unescape s" 0 "int (length (unescape s))" m' len]
    by (simp add: SLPFoldWhiteSpace_def)
  then show ?thesis
    using m f length_unescape_le[of s] by (auto simp: norm_copy_def)
qed

lemma slp_norm_eq_Nil_iff: "slp_norm s = [] \<longleftrightarrow> trim s = []"
  using norm_copy_bounds by (auto simp: slp_norm_def)

lemma SLPCompareString_key: "SLPCompareString s1 s2 = 0 \<longleftrightarrow> slp_key s1 = slp_key s2"
proof -
  let ?n1 = "slp_norm s1" and ?n2 = "slp_norm s2"
  show ?thesis
  proof (cases "trim s1 = [] \<or> trim s2 = []")
    case True
    then show ?thesis
      using slp_norm_eq_Nil_iff[of s1] slp_norm_eq_Nil_iff[of s2]
      by (auto simp: SLPCompareString_def SLPCompareString_dup_def slp_key_def Let_def)
  next
    case False
    then show ?thesis
      by (auto simp: SLPCompareString_def SLPCompareString_dup_def slp_key_def slp_norm_def Let_def
          SLPCompareNormalizedString_def c_strncasecmp_0_iff)
  qed
qed


definition slp_eq :: "string \<Rightarrow> string \<Rightarrow> bool" where
  "slp_eq a b = (SLPCompareString a b = 0)"

lemma slp_eq_key: "slp_eq a b \<longleftrightarrow> slp_key a = slp_key b"
  by (simp add: slp_eq_def SLPCompareString_key)

lemma slp_eq_refl [simp]: "slp_eq a a"
  and slp_eq_sym: "slp_eq a b \<Longrightarrow> slp_eq b a"
  and slp_eq_trans [trans]: "slp_eq a b \<Longrightarrow> slp_eq b c \<Longrightarrow> slp_eq a c"
  by (simp_all add: slp_eq_key)

lemma c_strncasecmp_swap: "c_strncasecmp n t s = - c_strncasecmp n s t"
proof (induction n s t rule: c_strncasecmp.induct)
  case (2 n s t)
  then show ?case
    by (cases "c_tolower (chd s) = c_tolower (chd t)") (auto simp: Let_def)
qed simp

text \<open>Exchanging the arguments negates the result, also on the branches for empty strings.\<close>

theorem SLPCompareString_swap: "SLPCompareString b a = - SLPCompareString a b"
proof -
  have "SLPCompareNormalizedString (norm_copy (trim b)) (norm_copy (trim a)) n
      = - SLPCompareNormalizedString (norm_copy (trim a)) (norm_copy (trim b)) n" for n
    unfolding SLPCompareNormalizedString_def by (rule c_strncasecmp_swap)
  then show ?thesis
    by (auto simp: SLPCompareString_def SLPCompareString_dup_def Let_def)
qed

section \<open>Replacement routines against the library\<close>

lemma c_strncasecmp_Suc_0_iff:
  "c_strncasecmp (Suc n) s t = 0 \<longleftrightarrow>
     c_tolower (chd s) = c_tolower (chd t) \<and> (chd s = NUL \<or> c_strncasecmp n (tl s) (tl t) = 0)"
proof -
  have "int (uchar (c_tolower (chd s))) - int (uchar (c_tolower (chd t))) = 0
    \<longleftrightarrow> c_tolower (chd s) = c_tolower (chd t)" by simp
  then show ?thesis by (auto simp: Let_def)
qed

text \<open>
  For a non-zero limit the replacement reports equality exactly when the
  library routine does.
\<close>

theorem slp_strncasecmp_0_iff:
  assumes "len \<noteq> 0"
  shows "slp_strncasecmp s t len = 0 \<longleftrightarrow> c_strncasecmp (unat len) s t = 0"
  using assms
proof (induction s t len rule: slp_strncasecmp.induct)
  case (1 s t len)
  obtain n where n: "unat len = Suc n" using 1(2) by (cases "unat len") (auto simp: unat_eq_0)
  then have n1: "unat (len - 1) = n" using 1(2) by (simp add: unat_minus_one)
  then have z: "len - 1 = 0 \<longleftrightarrow> n = 0" by (auto simp: unat_eq_0)
  show ?case
  proof (cases "chd s \<noteq> NUL \<and> c_tolower (chd s) = c_tolower (chd t)")
    case True
    then show ?thesis
      using 1(1)[OF _ refl] 1(2) n n1 z
      by (subst slp_strncasecmp.simps) (auto simp: c_strncasecmp_Suc_0_iff Let_def)
  next
    case False
    then have "slp_strncasecmp s t len = int (uchar (chd s)) - int (uchar (chd t))"
      using 1(2) by (subst slp_strncasecmp.simps) auto
    moreover have "int (uchar (chd s)) - int (uchar (chd t)) = 0 \<longleftrightarrow> chd s = chd t" by simp
    moreover have "c_strncasecmp (unat len) s t = 0 \<longleftrightarrow> chd s = chd t"
    proof (cases "chd s = NUL")
      case True
      then show ?thesis unfolding n c_strncasecmp_Suc_0_iff by auto
    next
      case False
      with \<open>\<not> (chd s \<noteq> NUL \<and> _)\<close> show ?thesis
        unfolding n c_strncasecmp_Suc_0_iff by auto
    qed
    ultimately show ?thesis by simp
  qed
qed

theorem slp_strncasecmp_0_iff_witness:
  "slp_strncasecmp ''Service:x'' ''service:y'' 8 = 0"
proof -
  have "c_strncasecmp (unat (8::64 word)) ''Service:x'' ''service:y'' = 0" by code_simp
  then show ?thesis using slp_strncasecmp_0_iff[of 8 "''Service:x''" "''service:y''"] by simp
qed

text \<open>With the limit zero the counter wraps and whole strings are compared.\<close>

lemma slp_strncasecmp_limit_0: "slp_strncasecmp ''ab'' ''ac'' 0 \<noteq> 0"
  by code_simp

section \<open>Searching for a character\<close>

section \<open>Service types\<close>

lemma c_strncasecmp_full_0_iff:
  "length s = n \<Longrightarrow> c_strncasecmp n s t = 0 \<longleftrightarrow> cfold s = cfold (take n t)"
  by (simp add: c_strncasecmp_0_iff)

text \<open>
  Which registered types \<open>r\<close> a requested type \<open>l\<close> matches.  Both lose an
  optional \<open>service:\<close> prefix.  A concrete request (with a colon) matches only
  the identical type, an abstract one matches every concrete type of that
  abstract type, in any case of letters.
\<close>

theorem SLPCompareSrvType_0_iff:
  "SLPCompareSrvType l r = 0 \<longleftrightarrow>
     (let l' = skip_service l;
          r' = (if CHR '':'' \<in> set l' then skip_service r
                else takeWhile (\<lambda>c. c \<noteq> CHR '':'') (skip_service r))
      in length l' = length r' \<and> cfold l' = cfold r')"
proof -
  have tk: "take (length (takeWhile P s)) s = takeWhile P s" for P and s :: string
    by (metis takeWhile_eq_take)
  have tw: "CHR '':'' \<notin> set s \<Longrightarrow> takeWhile (\<lambda>c. c \<noteq> CHR '':'') s = s" for s
    by (auto simp: takeWhile_eq_all_conv)
  show ?thesis
    by (cases "CHR '':'' \<in> set (skip_service l)"; cases "CHR '':'' \<in> set (skip_service r)")
       (simp_all add: SLPCompareSrvType_def SLPCompareNormalizedString_def c_memchr_eq Let_def
        c_strncasecmp_0_iff tk tw)
qed

section \<open>Normalisation of service types\<close>

text \<open>What it reads and writes: one character past the string at most, never more output than input.\<close>

lemma normstr_ws_ok:
  "i + len < length src \<Longrightarrow> \<exists>len' i'. normstr_ws src len i = Inr (len', i')"
proof (induction src len i rule: normstr_ws.induct)
  case (1 src len i)
  show ?case
  proof (cases "c_isspace (src ! i) \<and> 0 < len")
    case True
    then have "\<exists>len' i'. normstr_ws src (len - 1) (i + 1) = Inr (len', i')"
      using 1(1)[of "src ! i"] 1(2) by auto
    with True 1(2) show ?thesis by (subst normstr_ws.simps) auto
  next
    case False
    with 1(2) show ?thesis by (subst normstr_ws.simps) auto
  qed
qed

lemma normstr_loop_ok:
  "i + len < length src \<Longrightarrow> \<exists>out'. normstr_loop src tr len i out = Inr out' \<and> length out' \<le> length out + len"
proof (induction len arbitrary: i out rule: less_induct)
  case (less len)
  show ?case
  proof (cases "len = 0 \<or> src ! i = NUL")
    case True
    with less.prems show ?thesis by (subst normstr_loop.simps) auto
  next
    case pos: False
    have IH: "\<exists>out'. normstr_loop src tr (len - k) i' out1 = Inr out' \<and> length out' \<le> length out + len"
      if h: "0 < k" "k \<le> len" "i' \<le> i + k" "length out1 \<le> length out + k" for k i' out1
    proof -
      have "len - k < len" "i' + (len - k) < length src" using h pos less.prems by linarith+
      from less.IH[OF this, of out1]
      obtain out' where "normstr_loop src tr (len - k) i' out1 = Inr out'"
        "length out' \<le> length out1 + (len - k)" by blast
      with h show ?thesis by (intro exI[of _ out']) auto
    qed
    show ?thesis
    proof (cases "c_isspace (src ! i)")
      case True
      obtain len' i' where w: "normstr_ws src len i = Inr (len', i')"
        using normstr_ws_ok less.prems by blast
      have w': "len' + i' = len + i" "len' < len"
        using normstr_ws_le[OF w] normstr_ws_less[OF w _ True] pos less.prems by auto
      let ?o = "if \<not> tr \<or> (out \<noteq> [] \<and> len' > 0) then out @ '' '' else out"
      have "\<exists>out'. normstr_loop src tr (len - (len - len')) i' ?o = Inr out' \<and> length out' \<le> length out + len"
        using w' by (intro IH) auto
      with True pos w w' less.prems show ?thesis by (subst normstr_loop.simps) auto
    next
      case False
      have IH1: "\<exists>out'. normstr_loop src tr (len - 1) (Suc i) (out @ [x]) = Inr out' \<and> length out' \<le> length out + len" for x
        using pos by (intro IH) auto
      have IH3: "\<exists>out'. normstr_loop src tr (len - 3) i (out @ [x]) = Inr out' \<and> length out' \<le> length out + len"
        if "3 \<le> len" for x
        using pos that by (intro IH) auto
      show ?thesis
        using False pos less.prems IH1 IH3 by (subst normstr_loop.simps) (auto simp: not_less)
    qed
  qed
qed

text \<open>
  If at least one more character after the string is readable the routine
  returns, and its output fits in a buffer of the length of the string.
\<close>

theorem SLPNormalizeString_safe:
  assumes "len < length src"
  shows "\<exists>out. SLPNormalizeString len src tr = Inr out \<and> length out \<le> len"
  using normstr_loop_ok[of 0 len src tr "[]"] assms by (simp add: SLPNormalizeString_def)

theorem SLPNormalizeString_safe_witness:
  "\<exists>out. SLPNormalizeString 3 ''a b?'' True = Inr out \<and> length out \<le> 3"
  by (rule SLPNormalizeString_safe) simp

lemma SLPNormalizeString_overread: "SLPNormalizeString 2 ''a '' True = Inl OutOfBounds"
  by code_simp

text \<open>
  The intended normal form of a string without escapes: its words in lower
  case, separated by single blanks.
\<close>

function ws_words :: "string \<Rightarrow> string list" where
  "ws_words s =
     (case dropWhile c_isspace s of
        [] \<Rightarrow> []
      | c # s' \<Rightarrow> (c # takeWhile (\<lambda>x. \<not> c_isspace x) s')
                    # ws_words (dropWhile (\<lambda>x. \<not> c_isspace x) s'))"
  by pat_completeness auto
termination
proof (relation "measure length", goal_cases)
  case (2 s c s')
  have "length (dropWhile (\<lambda>x. \<not> c_isspace x) s') < length (c # s')"
    by (simp add: length_dropWhile_le le_imp_less_Suc)
  also have "\<dots> \<le> length s" using 2 length_dropWhile_le[of c_isspace s] by simp
  finally show ?case by simp
qed simp

declare ws_words.simps [simp del]

definition unwords :: "string list \<Rightarrow> string" where
  "unwords ws = (case ws of [] \<Rightarrow> [] | w # ws \<Rightarrow> w @ concat (map (\<lambda>v. '' '' @ v) ws))"

text \<open>The rest of the normal form when something has been written already.\<close>

fun norm_rest :: "string \<Rightarrow> string" where
  "norm_rest [] = []"
| "norm_rest (c # s) =
     (if c_isspace c then
        (if s = [] then [] else if c_isspace (hd s) then norm_rest s else '' '' @ norm_rest s)
      else c_tolower c # norm_rest s)"

lemma norm_rest_words:
  "norm_rest s = map c_tolower (takeWhile (\<lambda>x. \<not> c_isspace x) s)
     @ concat (map (\<lambda>v. '' '' @ map c_tolower v) (ws_words (dropWhile (\<lambda>x. \<not> c_isspace x) s)))"
proof (induction s)
  case Nil
  then show ?case by (simp add: ws_words.simps[of "[]"])
next
  case (Cons c s)
  show ?case
  proof (cases "c_isspace c")
    case False
    with Cons show ?thesis by simp
  next
    case sp: True
    have w: "ws_words (c # s) = ws_words s" using sp by (subst (1 2) ws_words.simps) simp
    show ?thesis
    proof (cases s)
      case Nil
      with sp w show ?thesis by (simp add: ws_words.simps[of "[]"])
    next
      case (Cons d s')
      show ?thesis
      proof (cases "c_isspace d")
        case True
        with sp w Cons Cons.IH show ?thesis by simp
      next
        case False
        then have "ws_words s = (d # takeWhile (\<lambda>x. \<not> c_isspace x) s')
            # ws_words (dropWhile (\<lambda>x. \<not> c_isspace x) s')"
          using Cons by (subst ws_words.simps) simp
        with False sp w Cons Cons.IH show ?thesis by simp
      qed
    qed
  qed
qed

lemma normstr_ws_dropWhile:
  assumes "src = pre @ s @ rest" "rest \<noteq> []" "i = length pre" "len = length s"
  shows "normstr_ws src len i =
    Inr (length (dropWhile c_isspace s), i + (length s - length (dropWhile c_isspace s)))"
  using assms
proof (induction s arbitrary: pre i len)
  case Nil
  then show ?case by (subst normstr_ws.simps) (simp add: nth_append hd_conv_nth)
next
  case (Cons c s)
  have le: "length (dropWhile c_isspace s) \<le> length s" by (rule length_dropWhile_le)
  show ?case
  proof (cases "c_isspace c")
    case True
    then have "normstr_ws src len i = normstr_ws src (length s) (i + 1)"
      using Cons.prems by (subst normstr_ws.simps) (simp add: nth_append)
    also have "\<dots> = Inr (length (dropWhile c_isspace s), (i + 1) + (length s - length (dropWhile c_isspace s)))"
      using Cons.IH[of "pre @ [c]"] Cons.prems by simp
    finally show ?thesis using True le by simp
  next
    case False
    with Cons.prems show ?thesis by (subst normstr_ws.simps) (simp add: nth_append)
  qed
qed

lemma norm_rest_dropWhile:
  "c_isspace c \<Longrightarrow> norm_rest (c # s) =
     (if dropWhile c_isspace s = [] then [] else '' '' @ norm_rest (dropWhile c_isspace s))"
  by (induction s arbitrary: c) auto

lemma normstr_loop_rest:
  assumes "src = pre @ s @ rest" "rest \<noteq> []" "i = length pre" "len = length s" "out \<noteq> []"
    and "BSLASH \<notin> set s" "NUL \<notin> set s"
  shows "normstr_loop src True len i out = Inr (out @ norm_rest s)"
  using assms
proof (induction "length s" arbitrary: s pre i len out rule: less_induct)
  case less
  show ?case
  proof (cases s)
    case Nil
    with less.prems show ?thesis by (subst normstr_loop.simps) simp
  next
    case (Cons c t)
    have nth: "src ! i = c" "i < length src" using less.prems Cons by (auto simp: nth_append)
    have c: "c \<noteq> BSLASH" "c \<noteq> NUL" using less.prems Cons by auto
    show ?thesis
    proof (cases "c_isspace c")
      case True
      let ?d = "dropWhile c_isspace t"
      have ls: "length ?d \<le> length t" by (rule length_dropWhile_le)
      have split: "s = (c # takeWhile c_isspace t) @ ?d" using Cons by simp
      have "normstr_ws src len i = Inr (length ?d, i + (length s - length ?d))"
        using normstr_ws_dropWhile[OF less.prems(1-4)] True Cons by simp
      then have "normstr_loop src True len i out
          = normstr_loop src True (length ?d) (i + (length s - length ?d))
              (if ?d \<noteq> [] then out @ '' '' else out)"
        using less.prems True c nth Cons by (subst normstr_loop.simps) auto
      also have "\<dots> = Inr ((if ?d \<noteq> [] then out @ '' '' else out) @ norm_rest ?d)"
      proof (rule less.hyps)
        show "length ?d < length s" using ls Cons by simp
        show "src = (pre @ c # takeWhile c_isspace t) @ ?d @ rest" using less.prems(1) Cons by simp
        have "length s = length (c # takeWhile c_isspace t) + length ?d" using split by (metis length_append)
        then show "i + (length s - length ?d) = length (pre @ c # takeWhile c_isspace t)"
          using less.prems(3) by simp
        show "BSLASH \<notin> set ?d" "NUL \<notin> set ?d"
          using less.prems(6,7) Cons by (auto dest: set_dropWhileD)
      qed (use less.prems in auto)
      finally show ?thesis
        using norm_rest_dropWhile[OF True, of t] Cons
        by (cases "?d = []") (simp_all del: norm_rest.simps(2) dropWhile_eq_Nil_conv)
    next
      case False
      then have "normstr_loop src True len i out = normstr_loop src True (length t) (i + 1) (out @ [c_tolower c])"
        using less.prems c nth Cons by (subst normstr_loop.simps) auto
      also have "\<dots> = Inr ((out @ [c_tolower c]) @ norm_rest t)"
        by (rule less.hyps[of t "pre @ [c]"]) (use less.prems Cons in auto)
      finally show ?thesis using False Cons by simp
    qed
  qed
qed

text \<open>
  Without escapes the routine computes the words of the string in lower
  case, joined by single blanks, as its comment promises.
\<close>

theorem SLPNormalizeString_words:
  assumes "BSLASH \<notin> set s" "NUL \<notin> set s" "rest \<noteq> []"
  shows "SLPNormalizeString (length s) (s @ rest) True = Inr (unwords (map (map c_tolower) (ws_words s)))"
proof -
  let ?d = "dropWhile c_isspace s"
  have w: "ws_words s = ws_words ?d" by (subst (1 2) ws_words.simps) simp
  have first: "normstr_loop (s @ rest) True (length s) 0 [] =
      normstr_loop (s @ rest) True (length ?d) (length s - length ?d) []"
  proof (cases "\<exists>c t. s = c # t \<and> c_isspace c")
    case True
    then obtain c t where s: "s = c # t" "c_isspace c" by blast
    have "normstr_ws (s @ rest) (length s) 0 = Inr (length ?d, length s - length ?d)"
      using normstr_ws_dropWhile[of _ "[]" s rest 0] assms(3) by simp
    then show ?thesis using s assms by (subst normstr_loop.simps) auto
  next
    case False
    then have "?d = s" by (cases s) auto
    then show ?thesis by simp
  qed
  show ?thesis
  proof (cases ?d)
    case Nil
    then show ?thesis
      unfolding SLPNormalizeString_def first w Nil
      by (subst normstr_loop.simps) (simp add: ws_words.simps[of "[]"] unwords_def)
  next
    case (Cons c t)
    have c: "\<not> c_isspace c" "c \<noteq> BSLASH" "c \<noteq> NUL" "BSLASH \<notin> set t" "NUL \<notin> set t"
      using Cons assms(1,2) by (metis dropWhile_eq_Cons_conv, (metis list.set_intros(1) list.set_intros(2) set_dropWhileD)+)
    have sp: "s @ rest = (takeWhile c_isspace s @ [c]) @ t @ rest"
      using Cons by (metis append.assoc append_Cons append_Nil takeWhile_dropWhile_id)
    have ls: "length s - length ?d = length (takeWhile c_isspace s)"
      by (metis add_diff_cancel_right' length_append takeWhile_dropWhile_id)
    have "normstr_loop (s @ rest) True (length ?d) (length s - length ?d) []
        = normstr_loop (s @ rest) True (length t) (length (takeWhile c_isspace s @ [c])) [c_tolower c]"
      unfolding ls sp using c by (subst normstr_loop.simps) (simp add: Cons nth_append)
    also have "\<dots> = Inr ([c_tolower c] @ norm_rest t)"
      by (rule normstr_loop_rest[OF sp assms(3)]) (use c in auto)
    also have "[c_tolower c] @ norm_rest t = unwords (map (map c_tolower) (ws_words s))"
      using c Cons by (subst w, subst ws_words.simps) (simp add: unwords_def norm_rest_words comp_def)
    finally show ?thesis using first by (simp add: SLPNormalizeString_def)
  qed
qed

theorem SLPNormalizeString_words_witness:
  "SLPNormalizeString (length '' Printer  LPR '') ('' Printer  LPR '' @ ''x'') True = Inr ''printer lpr''"
proof -
  have "unwords (map (map c_tolower) (ws_words '' Printer  LPR '')) = ''printer lpr''" by code_simp
  then show ?thesis using SLPNormalizeString_words[of "'' Printer  LPR ''" "''x''"] by simp
qed


lemma normstr_loop_escape:
  assumes "src = BSLASH # a # b # t" "ishex (schar a)" "ishex (schar b)" "len \<le> length src"
    and "\<not> c_isspace a" "a \<noteq> NUL" "a \<noteq> BSLASH"
  shows "normstr_loop src tr len 0 out = Inr (out @ replicate (len div 3) (hexpair BSLASH a)
     @ map c_tolower (take (len mod 3) [BSLASH, a]))"
  using assms(4)
proof (induction len arbitrary: out rule: less_induct)
  case (less len)
  have b: "\<not> c_isspace BSLASH" "c_tolower BSLASH = BSLASH"
    by (simp_all add: c_isspace_def c_tolower_def uchar_def)
  consider "len = 0" | "len = 1" | "len = 2" | "3 \<le> len" by linarith
  then show ?case
  proof cases
    case 1
    then show ?thesis by (subst normstr_loop.simps) simp
  next
    case 2
    then show ?thesis using assms b
      by (simp add: normstr_loop.simps[of _ _ "Suc 0"] normstr_loop.simps[of _ _ 0])
  next
    case 3
    then have "normstr_loop src tr len 0 out = normstr_loop src tr 1 1 (out @ [BSLASH])"
      using assms b by (subst normstr_loop.simps) simp
    also have "\<dots> = normstr_loop src tr 0 2 (out @ [BSLASH, c_tolower a])"
      using assms by (subst normstr_loop.simps) (simp add: numeral_2_eq_2)
    also have "\<dots> = Inr (out @ [BSLASH, c_tolower a])" by (subst normstr_loop.simps) simp
    finally show ?thesis using 3 b by (simp add: numeral_2_eq_2)
  next
    case 4
    then have "normstr_loop src tr len 0 out = normstr_loop src tr (len - 3) 0 (out @ [hexpair BSLASH a])"
      using assms(1-3) b less.prems by (subst normstr_loop.simps) simp
    with 4 less show ?thesis by (simp add: le_div_geq le_mod_geq)
  qed
qed

text \<open>
  On a valid escape the routine does not decode it: it combines the
  backslash with the first digit and does not advance, so the characters
  behind the escape never reach the output.
\<close>

theorem SLPNormalizeString_escape:
  assumes "ishex (schar a)" "ishex (schar b)" "s = BSLASH # a # b # t"
  shows "SLPNormalizeString (length s) s tr = Inr (replicate (length s div 3) (hexpair BSLASH a)
     @ map c_tolower (take (length s mod 3) [BSLASH, a]))"
proof -
  have "\<forall>a. ishex (schar a) \<longrightarrow> \<not> c_isspace a \<and> a \<noteq> NUL \<and> a \<noteq> BSLASH" by code_simp
  with assms show ?thesis
    using normstr_loop_escape[of s a b t "length s" tr "[]"] by (simp add: SLPNormalizeString_def)
qed

theorem SLPNormalizeString_escape_witness:
  "SLPNormalizeString (length (BSLASH # ''2fabc'')) (BSLASH # ''2fabc'') True
     = SLPNormalizeString (length (BSLASH # ''2fxyz'')) (BSLASH # ''2fxyz'') True"
proof -
  have h: "ishex (schar CHR ''2'')" "ishex (schar CHR ''f'')" by code_simp+
  show ?thesis
    using SLPNormalizeString_escape[OF h refl, of "''abc''" True]
      SLPNormalizeString_escape[OF h refl, of "''xyz''" True] by simp
qed

end
