(* ===== verification/SLP_StringList.thy ===== *)
theory SLP_StringList
  imports SLP_Compare
begin

text \<open>
  Comma-separated string lists, the representation of scope lists, service
  type lists and previous-responder lists: the second half of
  \<open>common/slp_compare.c\<close>.  A list is the list of its characters and a position
  in it is an offset, as the pointers \<open>itembegin\<close> and \<open>itemend\<close> of the code are.
\<close>

section \<open>Searching a list\<close>

function seek_comma :: "string \<Rightarrow> nat \<Rightarrow> nat" where
  "seek_comma l itemend =
     (if itemend < length l \<and> l ! itemend \<noteq> CHR '','' then seek_comma l (itemend + 1) else itemend)"
  by pat_completeness auto
termination
  by (relation "measure (\<lambda>(l, i). length l - i)") auto

declare seek_comma.simps [simp del]

lemma seek_comma_ge: "i \<le> seek_comma l i"
proof (induction l i rule: seek_comma.induct)
  case (1 l i)
  then show ?case by (auto simp: seek_comma.simps[of l i])
qed

function contains_loop :: "string \<Rightarrow> string \<Rightarrow> nat \<Rightarrow> nat" where
  "contains_loop l str itemend =
     (if itemend < length l then
        (let itembegin = itemend; itemend = seek_comma l itembegin in
         if SLPCompareString (cslice l itembegin (itemend - itembegin)) str = 0
         then 1 + itembegin
         else contains_loop l str (itemend + 1))
      else 0)"
  by pat_completeness auto
termination
  by (relation "measure (\<lambda>(l, str, i). length l - i)") (auto simp: less_Suc_eq_le seek_comma_ge diff_less_mono2 le_less_trans intro!: diff_less_mono2)

definition SLPContainsStringList :: "string \<Rightarrow> string \<Rightarrow> nat" where
  "SLPContainsStringList l str = contains_loop l str 0"

function intersect_loop :: "string \<Rightarrow> string \<Rightarrow> nat \<Rightarrow> nat \<Rightarrow> nat" where
  "intersect_loop l1 l2 itemend result =
     (if itemend < length l1 then
        (let itembegin = itemend; itemend = seek_comma l1 itembegin in
         intersect_loop l1 l2 (itemend + 1)
           (if SLPContainsStringList l2 (cslice l1 itembegin (itemend - itembegin)) \<noteq> 0
            then result + 1 else result))
      else result)"
  by pat_completeness auto
termination
  by (relation "measure (\<lambda>(l1, l2, i, r). length l1 - i)") (auto simp: less_Suc_eq_le seek_comma_ge intro!: diff_less_mono2)

definition SLPIntersectStringList :: "string \<Rightarrow> string \<Rightarrow> nat" where
  "SLPIntersectStringList l1 l2 = intersect_loop l1 l2 0 0"

declare contains_loop.simps [simp del] intersect_loop.simps [simp del]

definition SLPSubsetStringList :: "string \<Rightarrow> string \<Rightarrow> nat" where
  "SLPSubsetStringList l sublist =
     (if length sublist = 0 \<or> length l = 0 then 0
      else
        (let sublistcount = 1 + length (filter (\<lambda>c. c = CHR '','') sublist) in
         if SLPIntersectStringList l sublist = sublistcount then 1 else 0))"

section \<open>Changing a list\<close>

text \<open>
  The escape-aware scan of the two routines below reads the character before
  the comma it has found, also when the comma is the first of the list.
\<close>

function seek_comma_esc :: "string \<Rightarrow> nat \<Rightarrow> nat res" where
  "seek_comma_esc l itemend =
     (if length l \<le> itemend then Inr itemend
      else if l ! itemend = CHR '','' then
        (if itemend = 0 then Inl OutOfBounds
         else if l ! (itemend - 1) \<noteq> BSLASH then Inr itemend
         else seek_comma_esc l (itemend + 1))
      else seek_comma_esc l (itemend + 1))"
  by pat_completeness auto
termination
  by (relation "measure (\<lambda>(l, i). length l - i)") auto

declare seek_comma_esc.simps [simp del]

lemma seek_comma_esc_ge: "seek_comma_esc l i = Inr j \<Longrightarrow> i \<le> j"
proof (induction l i rule: seek_comma_esc.induct)
  case (1 l i)
  from 1(3) show ?case
    using 1(1,2) by (subst (asm) seek_comma_esc.simps) (fastforce split: if_splits)
qed

text \<open>
  Removing \<open>itemlen\<close> characters and a following comma at \<open>dest\<close> from the
  first \<open>list2end\<close> characters of \<open>m\<close>; the characters behind the new end stay
  in memory.
\<close>

definition remove_item :: "string \<Rightarrow> nat \<Rightarrow> nat \<Rightarrow> nat \<Rightarrow> string \<times> nat" where
  "remove_item m list2end dest itemlen =
     (let src = dest + itemlen;
          src = (if src < list2end \<and> m ! src = CHR '','' then src + 1 else src);
          n = list2end - src
      in (memmove m dest src n, dest + n))"

function intersect_remove_loop ::
  "string \<Rightarrow> nat \<Rightarrow> string \<Rightarrow> nat \<Rightarrow> nat \<Rightarrow> (nat \<times> nat \<times> string) res" where
  "intersect_remove_loop l1 itemend m list2end result =
     (if itemend < length l1 then
        (let itembegin = itemend in
         bindR (seek_comma_esc l1 itembegin) (\<lambda>itemend.
           (let pos = SLPContainsStringList m (cslice l1 itembegin (itemend - itembegin)) in
            if pos \<noteq> 0 then
              (let (m', end') = remove_item m list2end (pos - 1) (itemend - itembegin)
               in intersect_remove_loop l1 (itemend + 1) m' end' (result + 1))
            else intersect_remove_loop l1 (itemend + 1) m list2end result)))
      else Inr (result, list2end, m))"
  by pat_completeness auto
termination
  by (relation "measure (\<lambda>(l1, i, m, e, r). length l1 - i)")
     (auto dest!: seek_comma_esc_ge intro!: diff_less_mono2)

text \<open>
  The number of common entries, the new value of \<open>*list2len\<close> and the object
  \<open>list2\<close> after the call.  \<open>*list2len\<close> keeps its old value during the loop, so
  every search runs over the whole object.
\<close>

definition SLPIntersectRemoveStringList :: "string \<Rightarrow> string \<Rightarrow> (nat \<times> nat \<times> string) res" where
  "SLPIntersectRemoveStringList list1 list2 =
     intersect_remove_loop list1 0 list2 (length list2) 0"

text \<open>
  The union is written to a buffer of \<open>*unionlistlen\<close> characters (\<open>cap\<close>); the
  result is the return value, the new \<open>*unionlistlen\<close> and the characters
  written.
\<close>

function union_loop ::
  "string \<Rightarrow> string \<Rightarrow> nat \<Rightarrow> nat \<Rightarrow> string \<Rightarrow> (int \<times> nat \<times> string) res" where
  "union_loop l1 l2 cap itemend out =
     (if itemend < length l2 then
        (let itembegin = itemend in
         bindR (seek_comma_esc l2 itembegin) (\<lambda>itemend.
           (let itemlen = itemend - itembegin; item = cslice l2 itembegin itemlen in
            if SLPContainsStringList l1 item = 0 then
              (if length out + itemlen + 1 > cap
               then Inr (-1, length l1 + length l2 + 1, out)
               else union_loop l1 l2 cap (itemend + 1)
                      ((if out \<noteq> [] then out @ '','' else out) @ item))
            else union_loop l1 l2 cap (itemend + 1) out)))
      else Inr (int (length out), length out, out))"
  by pat_completeness auto
termination
  by (relation "measure (\<lambda>(l1, l2, cap, i, out). length l2 - i)")
     (auto dest!: seek_comma_esc_ge intro!: diff_less_mono2)

definition SLPUnionStringList ::
  "string \<Rightarrow> string \<Rightarrow> bool \<Rightarrow> nat \<Rightarrow> (int \<times> nat \<times> string) res" where
  "SLPUnionStringList list1 list2 has_buf cap =
     (if \<not> has_buf \<or> cap = 0 \<or> cap < length list1
      then Inr (-1, length list1 + length list2 + 1, [])
      else union_loop list1 list2 cap 0 list1)"

declare intersect_remove_loop.simps [simp del] union_loop.simps [simp del]

section \<open>Syntax checks\<close>

text \<open>The service URL check is a stub in the code as well: every URL is accepted.\<close>

definition SLPCheckServiceUrlSyntax :: "string \<Rightarrow> nat" where
  "SLPCheckServiceUrlSyntax srvurl = 0"

text \<open>From the first opening bracket on, an equals sign must follow.\<close>

definition SLPCheckAttributeListSyntax :: "string \<Rightarrow> nat" where
  "SLPCheckAttributeListSyntax attrlist =
     (case c_memchr CHR ''('' attrlist of
        None \<Rightarrow> 0
      | Some i \<Rightarrow> (case c_memchr CHR ''='' (drop i attrlist) of Some _ \<Rightarrow> 0 | None \<Rightarrow> 1))"

section \<open>The items of a list\<close>

text \<open>
  The items the loops visit: the stretches between commas, in order; an empty
  item after a final comma is not one of them.
\<close>

function list_items :: "string \<Rightarrow> string list" where
  "list_items [] = []"
| "list_items (c # s) =
     takeWhile (\<lambda>x. x \<noteq> CHR '','') (c # s) # list_items (tl (dropWhile (\<lambda>x. x \<noteq> CHR '','') (c # s)))"
  by pat_completeness auto
termination
  by (relation "measure length") (auto simp: length_dropWhile_le le_imp_less_Suc less_Suc_eq_le intro: le_trans[OF diff_le_self])

lemma list_items_eq:
  "s \<noteq> [] \<Longrightarrow> list_items s =
     takeWhile (\<lambda>x. x \<noteq> CHR '','') s # list_items (tl (dropWhile (\<lambda>x. x \<noteq> CHR '','') s))"
  by (cases s) simp_all

declare list_items.simps(2) [simp del]

lemma seek_comma_eq:
  "i \<le> length l \<Longrightarrow> seek_comma l i = i + length (takeWhile (\<lambda>x. x \<noteq> CHR '','') (drop i l))"
proof (induction l i rule: seek_comma.induct)
  case (1 l i)
  show ?case
  proof (cases "i < length l \<and> l ! i \<noteq> CHR '',''")
    case True
    then have "drop i l = l ! i # drop (i + 1) l" by (simp add: Cons_nth_drop_Suc)
    with True 1 show ?thesis by (subst seek_comma.simps) simp
  next
    case False
    then have "takeWhile (\<lambda>x. x \<noteq> CHR '','') (drop i l) = []"
      by (cases "i < length l") (auto simp: Cons_nth_drop_Suc[symmetric])
    with False show ?thesis by (subst seek_comma.simps) auto
  qed
qed

lemma item_split:
  fixes i :: nat
  assumes "i < length l"
  defines "j \<equiv> seek_comma l i"
  shows "cslice l i (j - i) = takeWhile (\<lambda>x. x \<noteq> CHR '','') (drop i l)"
    and "drop (j + 1) l = tl (dropWhile (\<lambda>x. x \<noteq> CHR '','') (drop i l))"
    and "list_items (drop i l) = cslice l i (j - i) # list_items (drop (j + 1) l)"
proof -
  let ?P = "\<lambda>x. x \<noteq> CHR '',''"
  have j: "j = i + length (takeWhile ?P (drop i l))" using assms seek_comma_eq[of i l] by simp
  show 1: "cslice l i (j - i) = takeWhile ?P (drop i l)"
    by (simp add: cslice_def j) (metis takeWhile_eq_take)
  have "drop j l = dropWhile ?P (drop i l)"
    by (simp add: j dropWhile_eq_drop add.commute)
  then show 2: "drop (j + 1) l = tl (dropWhile ?P (drop i l))"
    by (metis add.commute drop_drop drop_Suc drop_0 plus_1_eq_Suc)
  show "list_items (drop i l) = cslice l i (j - i) # list_items (drop (j + 1) l)"
    using assms(1) 2 by (simp add: 1 list_items_eq)
qed

section \<open>Membership and intersection\<close>

lemma contains_loop_iff: "0 < contains_loop l str i \<longleftrightarrow> (\<exists>it \<in> set (list_items (drop i l)). slp_eq it str)"
proof (induction l str i rule: contains_loop.induct)
  case (1 l str i)
  show ?case
  proof (cases "i < length l")
    case True
    with 1[OF True refl refl] item_split(3)[OF True] show ?thesis
      by (subst contains_loop.simps) (auto simp: Let_def slp_eq_def)
  next
    case False
    then show ?thesis by (subst contains_loop.simps) simp
  qed
qed

lemma SLPContainsStringList_items:
  "0 < SLPContainsStringList l str \<longleftrightarrow> (\<exists>it \<in> set (list_items l). slp_eq it str)"
  by (simp add: SLPContainsStringList_def contains_loop_iff)


lemma contains_loop_pos:
  "contains_loop l str i = Suc p \<Longrightarrow>
     i \<le> p \<and> p < length l \<and> slp_eq (takeWhile (\<lambda>x. x \<noteq> CHR '','') (drop p l)) str"
proof (induction l str i rule: contains_loop.induct)
  case (1 l str i)
  show ?case
  proof (cases "i < length l")
    case True
    note split = item_split(1)[OF True]
    show ?thesis
    proof (cases "SLPCompareString (cslice l i (seek_comma l i - i)) str = 0")
      case eq: True
      then show ?thesis
        using True 1(2) split by (subst (asm) contains_loop.simps) (auto simp: slp_eq_def Let_def)
    next
      case False
      then have "contains_loop l str (seek_comma l i + 1) = Suc p"
        using True 1(2) by (subst (asm) contains_loop.simps) (simp add: Let_def)
      from 1(1)[OF True refl refl False this] show ?thesis
        using seek_comma_ge[of i l] by simp
    qed
  next
    case False
    with 1(2) show ?thesis by (subst (asm) contains_loop.simps) simp
  qed
qed

lemma intersect_loop_eq:
  "intersect_loop l1 l2 i r =
     r + length (filter (\<lambda>it. \<exists>it2 \<in> set (list_items l2). slp_eq it2 it) (list_items (drop i l1)))"
proof (induction l1 l2 i r rule: intersect_loop.induct)
  case (1 l1 l2 i r)
  show ?case
  proof (cases "i < length l1")
    case True
    from 1[OF True refl refl] show ?thesis
      using True by (subst intersect_loop.simps)
        (simp add: Let_def item_split(3)[OF True] SLPContainsStringList_items)
  next
    case False
    then show ?thesis by (subst intersect_loop.simps) simp
  qed
qed

lemma SLPIntersectStringList_items:
  "SLPIntersectStringList l1 l2 =
     length (filter (\<lambda>it. \<exists>it2 \<in> set (list_items l2). slp_eq it2 it) (list_items l1))"
  by (simp add: SLPIntersectStringList_def intersect_loop_eq)

text \<open>The intersection count is the number of items of the first list that occur in the second.\<close>

theorem SLPIntersectStringList_count:
  "SLPIntersectStringList l1 l2 =
     length (filter (\<lambda>it. \<exists>it2 \<in> set (list_items l2). SLPCompareString it2 it = 0) (list_items l1))"
  using SLPIntersectStringList_items[of l1 l2] by (simp add: slp_eq_def)

lemma SLPIntersectStringList_pos_iff:
  "0 < SLPIntersectStringList l1 l2 \<longleftrightarrow>
     (\<exists>a \<in> set (list_items l1). \<exists>b \<in> set (list_items l2). slp_eq a b)"
  unfolding SLPIntersectStringList_items length_greater_0_conv filter_empty_conv
  using slp_eq_sym by blast

lemma SLPIntersectStringList_sym_pos:
  "0 < SLPIntersectStringList l1 l2 \<longleftrightarrow> 0 < SLPIntersectStringList l2 l1"
  unfolding SLPIntersectStringList_pos_iff using slp_eq_sym by blast


section \<open>Subset\<close>

lemma last_behind: "dropWhile P s = c # t \<Longrightarrow> last s \<noteq> c \<Longrightarrow> t \<noteq> [] \<and> last t = last s"
proof -
  assume d: "dropWhile P s = c # t" and l: "last s \<noteq> c"
  then have "last s = last (c # t)" by (metis last_appendR list.distinct(1) takeWhile_dropWhile_id)
  with l show "t \<noteq> [] \<and> last t = last s" by (cases t) auto
qed

lemma length_list_items:
  "s \<noteq> [] \<Longrightarrow> last s \<noteq> CHR '','' \<Longrightarrow>
     length (list_items s) = 1 + length (filter (\<lambda>c. c = CHR '','') s)"
proof (induction "length s" arbitrary: s rule: less_induct)
  case less
  let ?P = "\<lambda>x. x \<noteq> CHR '',''"
  have f: "filter (\<lambda>c. c = CHR '','') (takeWhile ?P s) = []"
    by (auto simp: filter_empty_conv dest: set_takeWhileD)
  show ?case
  proof (cases "dropWhile ?P s")
    case Nil
    then have "takeWhile ?P s = s" by (metis append_Nil2 takeWhile_dropWhile_id)
    with f show ?thesis unfolding list_items_eq[OF less.prems(1)] Nil by simp
  next
    case (Cons c t)
    then have c: "c = CHR '',''" by (metis (mono_tags) dropWhile_eq_Cons_conv)
    have s: "s = takeWhile ?P s @ c # t" using Cons by (metis takeWhile_dropWhile_id)
    have t: "t \<noteq> []" "last t \<noteq> CHR '',''" using last_behind[OF Cons] less.prems c by auto
    have "length t < length s" using s by (metis length_append length_Cons less_add_Suc2 add_Suc_right)
    from less.hyps[OF this t] have "length (list_items s) = 2 + length (filter (\<lambda>c. c = CHR '','') t)"
      using less.prems Cons by (simp add: list_items_eq)
    moreover have "filter (\<lambda>c. c = CHR '','') s = CHR '','' # filter (\<lambda>c. c = CHR '','') t"
      using f c by (subst s) simp
    ultimately show ?thesis by simp
  qed
qed

lemma count_common:
  assumes "distinct (map f xs)"
  shows "length (filter (\<lambda>x. \<exists>y \<in> set ys. f y = f x) xs) = card (f ` set xs \<inter> f ` set ys)"
proof -
  let ?ys = "filter (\<lambda>x. \<exists>y \<in> set ys. f y = f x) xs"
  have "distinct (map f ?ys)" using assms by (rule distinct_map_filter)
  then have "length ?ys = card (set (map f ?ys))" by (simp only: distinct_card length_map)
  also have "set (map f ?ys) = f ` set xs \<inter> f ` set ys" 
  proof (intro equalityI subsetI)
    fix k assume "k \<in> f ` set xs \<inter> f ` set ys"
    then obtain x y where "x \<in> set xs" "y \<in> set ys" "k = f x" "f y = f x" by (metis Int_iff image_iff)
    then show "k \<in> set (map f ?ys)" by auto
  qed (auto simp: image_iff, metis)
  finally show ?thesis .
qed

text \<open>
  When neither list repeats an item, the counting test decides whether
  every item of the sublist is an item of the list.
\<close>

theorem SLPSubsetStringList_iff:
  assumes "l \<noteq> []" "sub \<noteq> []" "last sub \<noteq> CHR '',''"
    and "distinct (map slp_key (list_items l))" "distinct (map slp_key (list_items sub))"
  shows "SLPSubsetStringList l sub = 1 \<longleftrightarrow>
     (\<forall>b \<in> set (list_items sub). \<exists>a \<in> set (list_items l). SLPCompareString a b = 0)"
proof -
  let ?A = "slp_key ` set (list_items l)" and ?B = "slp_key ` set (list_items sub)"
  have "SLPIntersectStringList l sub = card (?A \<inter> ?B)"
    using count_common[OF assms(4), of "list_items sub"] by (simp add: SLPIntersectStringList_items slp_eq_key)
  moreover have "length (list_items sub) = card ?B"
    using assms(5) by (metis distinct_card length_map list.set_map)
  ultimately have "SLPSubsetStringList l sub = 1 \<longleftrightarrow> card (?A \<inter> ?B) = card ?B"
    using assms(1-3) length_list_items[of sub] by (auto simp: SLPSubsetStringList_def)
  also have "\<dots> \<longleftrightarrow> ?B \<subseteq> ?A"
  proof
    assume "card (?A \<inter> ?B) = card ?B"
    then have "?A \<inter> ?B = ?B" by (intro card_subset_eq) auto
    then show "?B \<subseteq> ?A" by (metis Int_lower1)
  next
    assume "?B \<subseteq> ?A"
    then have "?A \<inter> ?B = ?B" by (rule Int_absorb1)
    then show "card (?A \<inter> ?B) = card ?B" by simp
  qed
  also have "\<dots> \<longleftrightarrow> (\<forall>b \<in> set (list_items sub). \<exists>a \<in> set (list_items l). SLPCompareString a b = 0)"
    by (simp add: image_subset_iff image_iff SLPCompareString_key) metis
  finally show ?thesis .
qed

theorem SLPSubsetStringList_iff_witness:
  "SLPSubsetStringList ''a,b,c'' ''c,a'' = 1"
proof -
  have "distinct (map slp_key (list_items ''a,b,c''))" "distinct (map slp_key (list_items ''c,a''))"
    "\<forall>b \<in> set (list_items ''c,a''). \<exists>a \<in> set (list_items ''a,b,c''). SLPCompareString a b = 0"
    by code_simp+
  then show ?thesis using SLPSubsetStringList_iff[of "''a,b,c''" "''c,a''"] by simp
qed

text \<open>With a repeated item in the list the count is wrong: \<open>b\<close> is not in the list.\<close>

lemma SLPSubsetStringList_duplicates: "SLPSubsetStringList ''a,a'' ''a,b'' = 1"
  by code_simp

section \<open>The escape-aware scan\<close>

lemma seek_comma_esc_ok:
  assumes "0 < i \<or> l = [] \<or> hd l \<noteq> CHR '',''" "i \<le> length l"
  shows "\<exists>j. seek_comma_esc l i = Inr j \<and> i \<le> j \<and> j \<le> length l"
  using assms
proof (induction "length l - i" arbitrary: i rule: less_induct)
  case less
  show ?case
  proof (cases "i < length l")
    case False
    with less.prems show ?thesis by (subst seek_comma_esc.simps) simp
  next
    case True
    have IH: "\<exists>j. seek_comma_esc l (Suc i) = Inr j \<and> i \<le> j \<and> j \<le> length l"
    proof -
      have "length l - Suc i < length l - i" using True by simp
      then obtain j where "seek_comma_esc l (Suc i) = Inr j" "Suc i \<le> j" "j \<le> length l"
        using less.hyps True by force
      then show ?thesis by (intro exI[of _ j]) auto
    qed
    have "i = 0 \<Longrightarrow> l ! i \<noteq> CHR '',''" using less.prems True by (cases l) auto
    with IH True show ?thesis by (subst seek_comma_esc.simps) auto
  qed
qed

lemma seek_comma_esc_plain:
  assumes "BSLASH \<notin> set l" "0 < i \<or> l = [] \<or> hd l \<noteq> CHR '',''" "i \<le> length l"
  shows "seek_comma_esc l i = Inr (seek_comma l i)"
  using assms(2,3)
proof (induction "length l - i" arbitrary: i rule: less_induct)
  case less
  show ?case
  proof (cases "i < length l")
    case False
    with less.prems show ?thesis by (subst seek_comma_esc.simps, subst seek_comma.simps) simp
  next
    case True
    have "l ! (i - 1) \<noteq> BSLASH" using assms(1) True by (metis less_imp_diff_less nth_mem)
    moreover have "i = 0 \<Longrightarrow> l ! i \<noteq> CHR '',''" using less.prems True by (cases l) auto
    ultimately show ?thesis
      using less.hyps[of "i + 1"] True by (subst seek_comma_esc.simps, subst seek_comma.simps) auto
  qed
qed

section \<open>Union\<close>

lemma takeWhile_all: "\<forall>x \<in> set a. P x \<Longrightarrow> takeWhile P a = a"
  by (induction a) auto

lemma dropWhile_all: "\<forall>x \<in> set a. P x \<Longrightarrow> dropWhile P a = []"
  by (induction a) auto

lemma list_items_append:
  "a \<noteq> [] \<Longrightarrow> last a \<noteq> CHR '','' \<Longrightarrow> list_items (a @ CHR '','' # b) = list_items a @ list_items b"
proof (induction "length a" arbitrary: a rule: less_induct)
  case less
  let ?P = "\<lambda>x. x \<noteq> CHR '',''"
  show ?case
  proof (cases "dropWhile ?P a")
    case Nil
    then have all: "\<forall>x \<in> set a. ?P x" by (simp add: dropWhile_eq_Nil_conv)
    then have "takeWhile ?P (a @ CHR '','' # b) = a" "dropWhile ?P (a @ CHR '','' # b) = CHR '','' # b"
      by (simp_all add: takeWhile_append2 dropWhile_append2)
    moreover have "takeWhile ?P a = a" using all by (simp add: takeWhile_all)
    moreover have "list_items a = [a]"
      using Nil less.prems calculation(3) by (simp add: list_items_eq[of a] del: dropWhile_eq_Nil_conv)
    ultimately show ?thesis using less.prems by (simp add: list_items_eq[of "a @ _"])
  next
    case (Cons c t)
    then have c: "c = CHR '',''" by (metis (mono_tags) dropWhile_eq_Cons_conv)
    have a: "a = takeWhile ?P a @ c # t" using Cons by (metis takeWhile_dropWhile_id)
    have t: "t \<noteq> []" "last t \<noteq> CHR '',''" using last_behind[OF Cons] less.prems c by auto
    have "length t < length a" using a by (metis length_append length_Cons less_add_Suc2 add_Suc_right)
    note IH = less.hyps[OF this t]
    have "CHR '','' \<in> set (takeWhile ?P a @ c # t)" using c by simp
    then have ex: "CHR '','' \<in> set a" using a by metis
    have "takeWhile ?P (a @ CHR '','' # b) = takeWhile ?P a"
      "dropWhile ?P (a @ CHR '','' # b) = dropWhile ?P a @ CHR '','' # b"
      using takeWhile_append1[OF ex, of ?P] dropWhile_append1[OF ex, of ?P] by simp_all
    then show ?thesis
      using less.prems Cons IH by (simp add: list_items_eq[of a] list_items_eq[of "a @ _"])
  qed
qed

lemma list_items_single: "x \<noteq> [] \<Longrightarrow> CHR '','' \<notin> set x \<Longrightarrow> list_items x = [x]"
proof -
  assume x: "x \<noteq> []" "CHR '','' \<notin> set x"
  then have "takeWhile (\<lambda>c. c \<noteq> CHR '','') x = x" "dropWhile (\<lambda>c. c \<noteq> CHR '','') x = []"
    by (auto intro!: takeWhile_all dropWhile_all)
  then show ?thesis unfolding list_items_eq[OF x(1)] by (simp del: dropWhile_eq_Nil_conv)
qed

lemma list_items_no_comma: "it \<in> set (list_items s) \<Longrightarrow> CHR '','' \<notin> set it"
proof (induction s rule: list_items.induct)
  case (2 c s)
  then show ?case by (auto simp: list_items_eq dest: set_takeWhileD)
qed simp

text \<open>The characters the loop may still write: each remaining item and a comma.\<close>

lemma union_loop_ok:
  assumes "BSLASH \<notin> set l2" "[] \<notin> set (list_items (drop i l2))" "0 < i \<or> l2 = [] \<or> hd l2 \<noteq> CHR '',''"
    and "length out \<le> cap" "i < length l2 \<Longrightarrow> length out + (length l2 - i) + 1 \<le> cap" "out = [] \<or> last out \<noteq> CHR '',''"
  shows "\<exists>out'. union_loop l1 l2 cap i out = Inr (int (length out'), length out', out')
     \<and> length out' \<le> cap
     \<and> list_items out' = list_items out @ filter (\<lambda>it. \<not> (\<exists>a \<in> set (list_items l1). slp_eq a it)) (list_items (drop i l2))"
  using assms(2-)
proof (induction "length l2 - i" arbitrary: i out rule: less_induct)
  case less
  show ?case
  proof (cases "i < length l2")
    case False
    with less.prems show ?thesis by (subst union_loop.simps) simp
  next
    case True
    define j where "j = seek_comma l2 i"
    define it where "it = cslice l2 i (j - i)"
    have seek: "seek_comma_esc l2 i = Inr j"
      using seek_comma_esc_plain[OF assms(1) less.prems(2)] True by (simp add: j_def)
    have j: "i \<le> j" "j \<le> length l2" using seek_comma_esc_ok[OF less.prems(2)] True seek by auto
    have items: "list_items (drop i l2) = it # list_items (drop (j + 1) l2)"
      using item_split(3)[OF True] by (simp add: it_def j_def)
    have it: "it \<noteq> []" "CHR '','' \<notin> set it" "length it = j - i"
      using less.prems(1) items list_items_no_comma[of it "drop i l2"] j by (auto simp: it_def cslice_def)
    have ij: "i < j"
    proof -
      have "0 < length it" using it(1) by simp
      with it(3) show ?thesis by linarith
    qed
    let ?out = "(if out \<noteq> [] then out @ '','' else out) @ it"
    have rest: "\<exists>out'. union_loop l1 l2 cap (j + 1) o' = Inr (int (length out'), length out', out')
       \<and> length out' \<le> cap \<and> list_items out' = list_items o' @
         filter (\<lambda>it. \<not> (\<exists>a \<in> set (list_items l1). slp_eq a it)) (list_items (drop (j + 1) l2))"
      if "length o' \<le> cap" "j + 1 < length l2 \<Longrightarrow> length o' + (length l2 - (j + 1)) + 1 \<le> cap" "o' = [] \<or> last o' \<noteq> CHR '',''" for o'
      using less.hyps[of "j + 1" o'] that less.prems items True j by auto
    show ?thesis
    proof (cases "\<exists>a \<in> set (list_items l1). slp_eq a it")
      case True
      then have "SLPContainsStringList l1 it \<noteq> 0" using SLPContainsStringList_items[of l1 it] by simp
      then have "union_loop l1 l2 cap i out = union_loop l1 l2 cap (j + 1) out"
        using \<open>i < length l2\<close> seek by (subst union_loop.simps) (simp add: Let_def it_def)
      moreover have "filter (\<lambda>it. \<not> (\<exists>a \<in> set (list_items l1). slp_eq a it)) (list_items (drop i l2))
          = filter (\<lambda>it. \<not> (\<exists>a \<in> set (list_items l1). slp_eq a it)) (list_items (drop (j + 1) l2))"
        unfolding items using True by (simp del: bex_simps ball_simps)
      moreover have "length out + (length l2 - (j + 1)) + 1 \<le> cap"
        using less.prems(4)[OF \<open>i < length l2\<close>] ij by linarith
      ultimately show ?thesis using rest[of out] less.prems(3,5) by simp
    next
      case False
      then have "SLPContainsStringList l1 it = 0" using SLPContainsStringList_items[of l1 it] by simp
      moreover have fits: "length out + (j - i) + 1 \<le> cap" using less.prems(4)[OF \<open>i < length l2\<close>] j by linarith
      ultimately have step: "union_loop l1 l2 cap i out = union_loop l1 l2 cap (j + 1) ?out"
        using \<open>i < length l2\<close> seek by (subst union_loop.simps) (simp add: Let_def it_def[symmetric])
      have "list_items ?out = list_items out @ [it]"
        using it less.prems(5) by (auto simp: list_items_single list_items_append)
      moreover have "last ?out \<noteq> CHR '',''" using it by (metis last_appendR last_in_set)
      moreover have "length ?out \<le> cap" using it fits by auto
      moreover have "length ?out + (length l2 - (j + 1)) + 1 \<le> cap" if "j + 1 < length l2"
      proof -
        have "length ?out \<le> length out + 1 + (j - i)" using it by auto
        then show ?thesis using less.prems(4)[OF \<open>i < length l2\<close>] j that by linarith
      qed
      ultimately show ?thesis using rest[of ?out] step items False by auto
    qed
  qed
qed



text \<open>A list that starts with a comma makes the scan look at the character before it.\<close>

lemma SLPUnionStringList_leading_comma: "SLPUnionStringList ''a'' '',b'' True 10 = Inl OutOfBounds"
  by code_simp

section \<open>Intersection with removal\<close>

lemma remove_item_bounds:
  assumes "remove_item m e d n = (m', e')" "d < length m" "e \<le> length m"
  shows "length m' = length m \<and> e' \<le> length m"
proof -
  define src where "src = (if d + n < e \<and> m ! (d + n) = CHR '','' then d + n + 1 else d + n)"
  have m': "m' = memmove m d src (e - src)" "e' = d + (e - src)" and src: "d \<le> src"
    using assms(1) by (auto simp: remove_item_def Let_def src_def)
  show ?thesis
  proof (cases "src < e")
    case True
    with m' src assms(3) show ?thesis by auto
  next
    case False
    with m' assms(2) show ?thesis by (simp add: memmove_def cslice_def)
  qed
qed

lemma intersect_remove_loop_ok:
  assumes "0 < i \<or> l1 = [] \<or> hd l1 \<noteq> CHR '',''" "e \<le> length m"
  shows "\<exists>r' e' m'. intersect_remove_loop l1 i m e r = Inr (r', e', m')
     \<and> length m' = length m \<and> e' \<le> length m"
  using assms
proof (induction "length l1 - i" arbitrary: i m e r rule: less_induct)
  case less
  show ?case
  proof (cases "i < length l1")
    case False
    with less.prems show ?thesis by (subst intersect_remove_loop.simps) simp
  next
    case True
    obtain j where j: "seek_comma_esc l1 i = Inr j" "i \<le> j"
      using seek_comma_esc_ok[OF less.prems(1)] True by auto
    have lt: "length l1 - (j + 1) < length l1 - i" using j True by linarith
    let ?it = "cslice l1 i (j - i)"
    let ?pos = "SLPContainsStringList m ?it"
    obtain m1 e1 where rm: "remove_item m e (?pos - 1) (j - i) = (m1, e1)" by fastforce
    show ?thesis
    proof (cases "?pos = 0")
      case True
      with less.hyps[OF lt, of e m r] less.prems \<open>i < length l1\<close> j show ?thesis
        by (subst intersect_remove_loop.simps) simp
    next
      case False
      then have "?pos - 1 < length m"
        using contains_loop_pos[of m ?it 0 "?pos - 1"] by (simp add: SLPContainsStringList_def)
      from remove_item_bounds[OF rm this less.prems(2)] have b: "length m1 = length m" "e1 \<le> length m1"
        by simp_all
      with less.hyps[OF lt, of e1 m1 "r + 1"] less.prems \<open>i < length l1\<close> j False rm show ?thesis
        by (subst intersect_remove_loop.simps) simp
    qed
  qed
qed

text \<open>
  Unless the first list starts with a comma, the routine returns, writes
  inside the second list only, and reports a length inside it.
\<close>

theorem SLPIntersectRemoveStringList_safe:
  assumes "l1 = [] \<or> hd l1 \<noteq> CHR '',''"
  shows "\<exists>r e m. SLPIntersectRemoveStringList l1 l2 = Inr (r, e, m) \<and> length m = length l2 \<and> e \<le> length l2"
  using intersect_remove_loop_ok[of 0 l1 "length l2" l2 0] assms
  by (simp add: SLPIntersectRemoveStringList_def)

theorem SLPIntersectRemoveStringList_safe_witness:
  "\<exists>r e m. SLPIntersectRemoveStringList ''b'' ''a,b,c'' = Inr (r, e, m) \<and> length m = length ''a,b,c'' \<and> e \<le> length ''a,b,c''"
  by (rule SLPIntersectRemoveStringList_safe) simp

text \<open>
  The number of characters removed is the length of the item of the first
  list: where the second list spells the item with a blank, only part of it goes.
\<close>

lemma SLPIntersectRemoveStringList_partial:
  "SLPIntersectRemoveStringList ''b'' ''a, b,c'' = Inr (1, 5, ''a,b,cc'')"
  by code_simp

section \<open>Attribute lists\<close>

text \<open>A list is rejected exactly when it has a bracket and no equals sign behind its first one.\<close>

theorem SLPCheckAttributeListSyntax_iff:
  "SLPCheckAttributeListSyntax l \<noteq> 0 \<longleftrightarrow>
     CHR ''('' \<in> set l \<and> CHR ''='' \<notin> set (dropWhile (\<lambda>c. c \<noteq> CHR ''('') l)"
  by (auto simp: SLPCheckAttributeListSyntax_def c_memchr_eq dropWhile_eq_drop)

end
