(* ===== verification/SLP_Wire.thy ===== *)
theory SLP_Wire
  imports SLP_Prelude
begin

unbundle bit_operations_syntax

text \<open>
  Wire buffers and the big-endian primitives: \<open>common/slp_buffer.c\<close> and the
  extraction and insertion routines of \<open>common/slp_message.h\<close> and
  \<open>common/slp_message.c\<close>.  A buffer is one heap object; its pointers
  \<open>start\<close>, \<open>curpos\<close> and \<open>end\<close> are offsets into the bytes behind the buffer
  header (\<open>start\<close> is offset 0), and \<open>bmem\<close> holds every byte that was
  allocated, so that an access behind \<open>bmem\<close> is an access outside the object.
\<close>

section \<open>Buffers\<close>

record SLPBuffer =
  allocated :: nat
  bmem :: "8 word list"
  bcur :: nat
  bend :: nat

text \<open>
  \<open>ok\<close> is whether the allocator has memory, \<open>junk\<close> what fresh memory contains.
  The byte behind the requested size is the extra one for terminators.
\<close>

definition SLPBufferAlloc :: "bool \<Rightarrow> (nat \<Rightarrow> 8 word) \<Rightarrow> nat \<Rightarrow> SLPBuffer option" where
  "SLPBufferAlloc ok junk sz =
     (if ok then Some \<lparr>allocated = sz, bmem = map junk [0..<sz + 1], bcur = 0, bend = sz\<rparr> else None)"

definition SLPBufferRealloc ::
  "bool \<Rightarrow> (nat \<Rightarrow> 8 word) \<Rightarrow> SLPBuffer option \<Rightarrow> nat \<Rightarrow> SLPBuffer option" where
  "SLPBufferRealloc ok junk buf sz =
     (case buf of
        None \<Rightarrow> SLPBufferAlloc ok junk sz
      | Some b \<Rightarrow>
          (if allocated b \<ge> sz then Some (b\<lparr>bcur := 0, bend := sz\<rparr>)
           else if ok then
             Some (b\<lparr>allocated := sz, bmem := bmem b @ map junk [length (bmem b)..<sz + 1],
                     bcur := 0, bend := sz\<rparr>)
           else None))"

definition SLPBufferDup :: "bool \<Rightarrow> (nat \<Rightarrow> 8 word) \<Rightarrow> SLPBuffer option \<Rightarrow> SLPBuffer option" where
  "SLPBufferDup ok junk buf =
     (case buf of
        None \<Rightarrow> None
      | Some b \<Rightarrow>
          (case SLPBufferAlloc ok junk (bend b) of
             None \<Rightarrow> None
           | Some d \<Rightarrow> Some (d\<lparr>bmem := take (bend b + 1) (bmem b) @ drop (bend b + 1) (bmem d)\<rparr>)))"

text \<open>The invariant of a live buffer: the object has one byte more than \<open>allocated\<close>.\<close>

definition buffer_ok :: "SLPBuffer \<Rightarrow> bool" where
  "buffer_ok b = (length (bmem b) = allocated b + 1 \<and> bend b \<le> allocated b \<and> bcur b \<le> bend b)"

lemma SLPBufferAlloc_key:
  "SLPBufferAlloc ok junk sz = Some b \<Longrightarrow> buffer_ok b \<and> bcur b = 0 \<and> bend b = sz \<and> allocated b = sz"
  by (auto simp: SLPBufferAlloc_def buffer_ok_def split: if_splits)

lemma SLPBufferRealloc_key:
  assumes "\<And>b0. buf = Some b0 \<Longrightarrow> buffer_ok b0" "SLPBufferRealloc ok junk buf sz = Some b"
  shows "buffer_ok b \<and> bcur b = 0 \<and> bend b = sz"
  using assms by (auto simp: SLPBufferRealloc_def buffer_ok_def SLPBufferAlloc_def split: option.splits if_splits)



lemma SLPBufferDup_key:
  assumes "buffer_ok b" "SLPBufferDup ok junk (Some b) = Some d"
  shows "buffer_ok d \<and> bend d = bend b \<and> bmem d = take (bend b + 1) (bmem b)"
  using assms by (auto simp: SLPBufferDup_def SLPBufferAlloc_def buffer_ok_def split: if_splits)

section \<open>Big-endian words\<close>

definition AS_UINT16 :: "8 word \<Rightarrow> 8 word \<Rightarrow> 16 word" where
  "AS_UINT16 p0 p1 = push_bit 8 (ucast p0) OR ucast p1"

definition AS_UINT24 :: "8 word \<Rightarrow> 8 word \<Rightarrow> 8 word \<Rightarrow> 32 word" where
  "AS_UINT24 p0 p1 p2 = push_bit 16 (ucast p0) OR push_bit 8 (ucast p1) OR ucast p2"

definition AS_UINT32 :: "8 word \<Rightarrow> 8 word \<Rightarrow> 8 word \<Rightarrow> 8 word \<Rightarrow> 32 word" where
  "AS_UINT32 p0 p1 p2 p3 =
     push_bit 24 (ucast p0) OR push_bit 16 (ucast p1) OR push_bit 8 (ucast p2) OR ucast p3"

text \<open>The bytes stored by the insertion macros; \<open>v\<close> is a \<open>size_t\<close>.\<close>

definition TO_UINT16 :: "64 word \<Rightarrow> 8 word list" where
  "TO_UINT16 v = [ucast (drop_bit 8 v AND 0xff), ucast (v AND 0xff)]"

definition TO_UINT24 :: "64 word \<Rightarrow> 8 word list" where
  "TO_UINT24 v = [ucast (drop_bit 16 v AND 0xff), ucast (drop_bit 8 v AND 0xff), ucast (v AND 0xff)]"

definition TO_UINT32 :: "64 word \<Rightarrow> 8 word list" where
  "TO_UINT32 v =
     [ucast (drop_bit 24 v AND 0xff), ucast (drop_bit 16 v AND 0xff), ucast (drop_bit 8 v AND 0xff),
      ucast (v AND 0xff)]"

lemma length_TO [simp]:
  "length (TO_UINT16 v) = 2" "length (TO_UINT24 v) = 3" "length (TO_UINT32 v) = 4"
  by (simp_all add: TO_UINT16_def TO_UINT24_def TO_UINT32_def)

lemma ucast_and_ff: "ucast (w AND 0xff) = (ucast w :: 8 word)"
proof -
  have "w AND 0xff = take_bit 8 w"
    by (simp add: take_bit_eq_mask mask_eq_exp_minus_1)
  then show ?thesis
    by (auto intro!: bit_word_eqI simp: bit_simps)
qed

lemmas wire_defs = AS_UINT16_def AS_UINT24_def AS_UINT32_def TO_UINT16_def TO_UINT24_def TO_UINT32_def

lemma AS_TO_UINT16: "AS_UINT16 (TO_UINT16 v ! 0) (TO_UINT16 v ! 1) = ucast v"
  by (rule bit_word_eqI) (auto simp: wire_defs ucast_and_ff bit_simps)

lemma AS_TO_UINT32:
  "AS_UINT32 (TO_UINT32 v ! 0) (TO_UINT32 v ! 1) (TO_UINT32 v ! 2) (TO_UINT32 v ! 3) = ucast v"
proof (rule bit_word_eqI)
  fix n :: nat
  consider "n < 8" | "8 \<le> n" "n < 16" | "16 \<le> n" "n < 24" | "24 \<le> n" by linarith
  then show "bit (AS_UINT32 (TO_UINT32 v ! 0) (TO_UINT32 v ! 1) (TO_UINT32 v ! 2) (TO_UINT32 v ! 3)) n
      = bit (ucast v :: 32 word) n"
    if "n < LENGTH(32)"
    using that by cases (auto simp: wire_defs ucast_and_ff bit_simps)
qed

lemma AS_TO_UINT24:
  "AS_UINT24 (TO_UINT24 v ! 0) (TO_UINT24 v ! 1) (TO_UINT24 v ! 2) = ucast (take_bit 24 v)"
proof (rule bit_word_eqI)
  fix n :: nat
  consider "n < 8" | "8 \<le> n" "n < 16" | "16 \<le> n" "n < 24" | "24 \<le> n" by linarith
  then show "bit (AS_UINT24 (TO_UINT24 v ! 0) (TO_UINT24 v ! 1) (TO_UINT24 v ! 2)) n
      = bit (ucast (take_bit 24 v) :: 32 word) n"
    if "n < LENGTH(32)"
    using that by cases (auto simp: wire_defs ucast_and_ff bit_simps)
qed

section \<open>Reading a buffer\<close>

text \<open>
  A parse routine reads and moves the cursor of the buffer it is given; it
  returns its value and the buffer after it, or the error code of an early
  return.
\<close>

type_synonym 'a parser = "SLPBuffer \<Rightarrow> ('a \<times> SLPBuffer) res"

definition retP :: "'a \<Rightarrow> 'a parser" where
  "retP x = (\<lambda>b. Inr (x, b))"

definition bindP :: "'a parser \<Rightarrow> ('a \<Rightarrow> 'b parser) \<Rightarrow> 'b parser" where
  "bindP p f = (\<lambda>b. bindR (p b) (\<lambda>(x, b'). f x b'))"

definition failP :: "nat \<Rightarrow> 'a parser" where
  "failP code = (\<lambda>b. Inl (SlpError code))"


text \<open>\<open>if (buffer->end - buffer->curpos < n) return SLP_ERROR_PARSE_ERROR\<close>, with a signed difference.\<close>

definition needP :: "nat \<Rightarrow> unit parser" where
  "needP n = (\<lambda>b. bindR (guardR (\<not> int (bend b) - int (bcur b) < int n) SLP_ERROR_PARSE_ERROR) (\<lambda>u. Inr (u, b)))"

text \<open>\<open>if (buffer->curpos > buffer->end) return SLP_ERROR_PARSE_ERROR\<close>\<close>

definition endP :: "unit parser" where
  "endP = (\<lambda>b. bindR (guardR (\<not> bcur b > bend b) SLP_ERROR_PARSE_ERROR) (\<lambda>u. Inr (u, b)))"

text \<open>\<open>*buffer->curpos++\<close>\<close>

definition GetByte :: "8 word parser" where
  "GetByte = (\<lambda>b. bindR (rdR (bmem b) (bcur b)) (\<lambda>x. Inr (x, b\<lparr>bcur := bcur b + 1\<rparr>)))"

definition slp_GetUINT16 :: "16 word parser" where
  "slp_GetUINT16 = (\<lambda>b.
     bindR (rdR (bmem b) (bcur b)) (\<lambda>p0.
     bindR (rdR (bmem b) (bcur b + 1)) (\<lambda>p1.
     Inr (AS_UINT16 p0 p1, b\<lparr>bcur := bcur b + 2\<rparr>))))"

definition slp_GetUINT24 :: "32 word parser" where
  "slp_GetUINT24 = (\<lambda>b.
     bindR (rdR (bmem b) (bcur b)) (\<lambda>p0.
     bindR (rdR (bmem b) (bcur b + 1)) (\<lambda>p1.
     bindR (rdR (bmem b) (bcur b + 2)) (\<lambda>p2.
     Inr (AS_UINT24 p0 p1 p2, b\<lparr>bcur := bcur b + 3\<rparr>)))))"

definition slp_GetUINT32 :: "32 word parser" where
  "slp_GetUINT32 = (\<lambda>b.
     bindR (rdR (bmem b) (bcur b)) (\<lambda>p0.
     bindR (rdR (bmem b) (bcur b + 1)) (\<lambda>p1.
     bindR (rdR (bmem b) (bcur b + 2)) (\<lambda>p2.
     bindR (rdR (bmem b) (bcur b + 3)) (\<lambda>p3.
     Inr (AS_UINT32 p0 p1 p2 p3, b\<lparr>bcur := bcur b + 4\<rparr>))))))"

text \<open>The string is not copied: the result is the offset it starts at.\<close>

definition slp_GetStrPtr :: "nat \<Rightarrow> nat parser" where
  "slp_GetStrPtr len = (\<lambda>b. Inr (bcur b, b\<lparr>bcur := bcur b + len\<rparr>))"

text \<open>\<open>((uint8_t *)ptr)[len] = 0\<close>\<close>

definition PutNul :: "nat \<Rightarrow> unit parser" where
  "PutNul i = (\<lambda>b. bindR (wrR (bmem b) i 0) (\<lambda>m. Inr ((), b\<lparr>bmem := m\<rparr>)))"

section \<open>Writing a buffer\<close>

text \<open>The bytes \<open>bs\<close> stored at the cursor, which moves behind them.\<close>

definition put_bytes :: "8 word list \<Rightarrow> unit parser" where
  "put_bytes bs = (\<lambda>b.
     if bcur b + length bs \<le> length (bmem b)
     then Inr ((), b\<lparr>bmem := take (bcur b) (bmem b) @ bs @ drop (bcur b + length bs) (bmem b),
                     bcur := bcur b + length bs\<rparr>)
     else Inl OutOfBounds)"

definition slp_PutUINT16 :: "64 word \<Rightarrow> unit parser" where
  "slp_PutUINT16 v = put_bytes (TO_UINT16 v)"

definition slp_PutUINT24 :: "64 word \<Rightarrow> unit parser" where
  "slp_PutUINT24 v = put_bytes (TO_UINT24 v)"

definition slp_PutUINT32 :: "64 word \<Rightarrow> unit parser" where
  "slp_PutUINT32 v = put_bytes (TO_UINT32 v)"

section \<open>Round trips of the primitives\<close>

lemma put_bytes_at:
  assumes "put_bytes bs b = Inr (u, b')"
  shows "length (bmem b') = length (bmem b)" "bcur b' = bcur b + length bs" "bend b' = bend b"
    "cslice (bmem b') (bcur b) (length bs) = bs"
    "\<And>i. i < bcur b \<or> bcur b' \<le> i \<Longrightarrow> i < length (bmem b) \<Longrightarrow> bmem b' ! i = bmem b ! i"
proof -
  have fit: "bcur b + length bs \<le> length (bmem b)"
    and b': "b' = b\<lparr>bmem := take (bcur b) (bmem b) @ bs @ drop (bcur b + length bs) (bmem b), bcur := bcur b + length bs\<rparr>"
    using assms by (auto simp: put_bytes_def split: if_splits)
  show "length (bmem b') = length (bmem b)" "bcur b' = bcur b + length bs" "bend b' = bend b"
    using fit by (auto simp: b')
  show "cslice (bmem b') (bcur b) (length bs) = bs"
    using fit by (simp add: b' cslice_def)
  show "bmem b' ! i = bmem b ! i" if "i < bcur b \<or> bcur b' \<le> i" "i < length (bmem b)" for i
    using fit that by (auto simp: b' nth_append min_absorb2)
qed

lemma cslice_nth: "cslice m i n = bs \<Longrightarrow> length bs = n \<Longrightarrow> k < n \<Longrightarrow> i + k < length m \<and> m ! (i + k) = bs ! k"
  by (auto simp: cslice_def)

lemma slp_GetUINT16_at:
  "cslice (bmem b) (bcur b) 2 = TO_UINT16 v \<Longrightarrow> slp_GetUINT16 b = Inr (ucast v, b\<lparr>bcur := bcur b + 2\<rparr>)"
  using cslice_nth[of "bmem b" "bcur b" 2 "TO_UINT16 v" 0] cslice_nth[of "bmem b" "bcur b" 2 "TO_UINT16 v" 1]
  by (simp add: slp_GetUINT16_def AS_TO_UINT16[simplified])

lemma slp_GetUINT24_at:
  "cslice (bmem b) (bcur b) 3 = TO_UINT24 v \<Longrightarrow> slp_GetUINT24 b = Inr (ucast (take_bit 24 v), b\<lparr>bcur := bcur b + 3\<rparr>)"
  using cslice_nth[of "bmem b" "bcur b" 3 "TO_UINT24 v" 0] cslice_nth[of "bmem b" "bcur b" 3 "TO_UINT24 v" 1]
    cslice_nth[of "bmem b" "bcur b" 3 "TO_UINT24 v" 2]
  by (simp add: slp_GetUINT24_def AS_TO_UINT24[simplified])

lemma slp_GetUINT32_at:
  "cslice (bmem b) (bcur b) 4 = TO_UINT32 v \<Longrightarrow> slp_GetUINT32 b = Inr (ucast v, b\<lparr>bcur := bcur b + 4\<rparr>)"
  using cslice_nth[of "bmem b" "bcur b" 4 "TO_UINT32 v" 0] cslice_nth[of "bmem b" "bcur b" 4 "TO_UINT32 v" 1]
    cslice_nth[of "bmem b" "bcur b" 4 "TO_UINT32 v" 2] cslice_nth[of "bmem b" "bcur b" 4 "TO_UINT32 v" 3]
  by (simp add: slp_GetUINT32_def AS_TO_UINT32[simplified])

lemma put_bytes_fits:
  "bcur b + length bs \<le> length (bmem b) \<Longrightarrow> \<exists>b'. put_bytes bs b = Inr ((), b')"
  by (simp add: put_bytes_def)

lemma put_get:
  assumes "bcur b + length bs \<le> length (bmem b)"
    and "\<And>b'. cslice (bmem b') (bcur b') (length bs) = bs \<Longrightarrow> get b' = Inr (x, b'\<lparr>bcur := bcur b' + length bs\<rparr>)"
  shows "\<exists>b'. put_bytes bs b = Inr ((), b') \<and> get (b'\<lparr>bcur := bcur b\<rparr>) = Inr (x, b')"
proof -
  obtain b' where b': "put_bytes bs b = Inr ((), b')" using put_bytes_fits[OF assms(1)] by blast
  note at = put_bytes_at[OF b']
  have "get (b'\<lparr>bcur := bcur b\<rparr>) = Inr (x, b'\<lparr>bcur := bcur b'\<rparr>)"
    using assms(2)[of "b'\<lparr>bcur := bcur b\<rparr>"] at(2,4) by simp
  with b' show ?thesis by auto
qed

text \<open>
  What an insertion routine writes, the extraction routine of the same
  width reads back, up to the width, and both leave the cursor in the same place.
\<close>

theorem slp_Put_Get:
  assumes "bcur b + 4 \<le> length (bmem b)"
  shows "(\<exists>b'. slp_PutUINT16 v b = Inr ((), b') \<and> slp_GetUINT16 (b'\<lparr>bcur := bcur b\<rparr>) = Inr (ucast v, b'))
    \<and> (\<exists>b'. slp_PutUINT24 v b = Inr ((), b') \<and> slp_GetUINT24 (b'\<lparr>bcur := bcur b\<rparr>) = Inr (ucast (take_bit 24 v), b'))
    \<and> (\<exists>b'. slp_PutUINT32 v b = Inr ((), b') \<and> slp_GetUINT32 (b'\<lparr>bcur := bcur b\<rparr>) = Inr (ucast v, b'))"
  unfolding slp_PutUINT16_def slp_PutUINT24_def slp_PutUINT32_def
  using assms
  by (intro conjI put_get) (simp_all add: slp_GetUINT16_at slp_GetUINT24_at slp_GetUINT32_at)

theorem slp_Put_Get_witness:
  "\<exists>b. (\<exists>b'. slp_PutUINT16 0x12345 b = Inr ((), b') \<and> slp_GetUINT16 (b'\<lparr>bcur := bcur b\<rparr>) = Inr (ucast (0x12345 :: 64 word), b'))
    \<and> (\<exists>b'. slp_PutUINT24 0x12345 b = Inr ((), b') \<and> slp_GetUINT24 (b'\<lparr>bcur := bcur b\<rparr>) = Inr (ucast (take_bit 24 (0x12345 :: 64 word)), b'))
    \<and> (\<exists>b'. slp_PutUINT32 0x12345 b = Inr ((), b') \<and> slp_GetUINT32 (b'\<lparr>bcur := bcur b\<rparr>) = Inr (ucast (0x12345 :: 64 word), b'))"
  by (rule exI[of _ "\<lparr>allocated = 4, bmem = [0, 0, 0, 0, 0], bcur = 0, bend = 4\<rparr>"], rule slp_Put_Get) simp

section \<open>Safety of parse routines\<close>

text \<open>
  \<open>tripP P p Q\<close>: from a buffer with \<open>P\<close> the routine touches no byte outside
  the object and, if it succeeds, \<open>Q\<close> holds of its value and the buffer.  The
  assertions used with it: the object has \<open>m\<close> bytes, its message ends at \<open>e\<close>,
  and the cursor is at most \<open>k\<close>.
\<close>

definition tripP :: "(SLPBuffer \<Rightarrow> bool) \<Rightarrow> 'a parser \<Rightarrow> ('a \<Rightarrow> SLPBuffer \<Rightarrow> bool) \<Rightarrow> bool" where
  "tripP P p Q \<longleftrightarrow> (\<forall>b. P b \<longrightarrow> p b \<noteq> Inl OutOfBounds \<and> (\<forall>x b'. p b = Inr (x, b') \<longrightarrow> Q x b'))"

definition at :: "nat \<Rightarrow> nat \<Rightarrow> nat \<Rightarrow> SLPBuffer \<Rightarrow> bool" where
  "at m e k b \<longleftrightarrow> length (bmem b) = m \<and> bend b = e \<and> bcur b \<le> k"

lemma tripP_bind:
  "tripP P p Q \<Longrightarrow> (\<And>x. tripP (Q x) (f x) R) \<Longrightarrow> tripP P (bindP p f) R"
  by (fastforce simp: tripP_def bindP_def bindR_Inr_iff bindR_Inl_iff)

lemma tripP_ret: "(\<And>b. P b \<Longrightarrow> Q x b) \<Longrightarrow> tripP P (retP x) Q"
  by (simp add: tripP_def retP_def)

lemma tripP_fail: "tripP P (failP c) Q"
  by (simp add: tripP_def failP_def)

lemma tripP_weaken:
  "tripP P p Q \<Longrightarrow> (\<And>b. P' b \<Longrightarrow> P b) \<Longrightarrow> (\<And>x b. Q x b \<Longrightarrow> Q' x b) \<Longrightarrow> tripP P' p Q'"
  unfolding tripP_def by blast

lemma tripP_pure: "(F \<Longrightarrow> tripP P p Q) \<Longrightarrow> tripP (\<lambda>b. F \<and> P b) p Q"
  by (auto simp: tripP_def)

lemma tripP_if: "(c \<Longrightarrow> tripP P p Q) \<Longrightarrow> (\<not> c \<Longrightarrow> tripP P q Q) \<Longrightarrow> tripP P (if c then p else q) Q"
  by simp

lemma at_mono: "at m e k b \<Longrightarrow> k \<le> k' \<Longrightarrow> at m e k' b"
  by (simp add: at_def)

lemma tripP_at: "tripP (at m e k') p Q \<Longrightarrow> k \<le> k' \<Longrightarrow> tripP (at m e k) p Q"
  by (erule tripP_weaken) (auto intro: at_mono)

lemma tripP_need: "tripP (at m e k) (needP n) (\<lambda>u b. n \<le> e \<and> at m e (e - n) b)"
  by (auto simp: tripP_def needP_def at_def bindR_Inl_iff guardR_Inl_iff res_iff)

lemma tripP_end: "tripP (at m e k) endP (\<lambda>u. at m e e)"
  by (auto simp: tripP_def endP_def at_def bindR_Inl_iff guardR_Inl_iff res_iff)

lemma tripP_byte: "k < m \<Longrightarrow> tripP (at m e k) GetByte (\<lambda>x. at m e (k + 1))"
  by (auto simp: tripP_def GetByte_def at_def bindR_Inl_iff rdR_def)

lemma tripP_16: "k + 2 \<le> m \<Longrightarrow> tripP (at m e k) slp_GetUINT16 (\<lambda>x. at m e (k + 2))"
  by (auto simp: tripP_def slp_GetUINT16_def at_def bindR_Inl_iff rdR_def)

lemma tripP_24: "k + 3 \<le> m \<Longrightarrow> tripP (at m e k) slp_GetUINT24 (\<lambda>x. at m e (k + 3))"
  by (auto simp: tripP_def slp_GetUINT24_def at_def bindR_Inl_iff rdR_def)

lemma tripP_32: "k + 4 \<le> m \<Longrightarrow> tripP (at m e k) slp_GetUINT32 (\<lambda>x. at m e (k + 4))"
  by (auto simp: tripP_def slp_GetUINT32_def at_def bindR_Inl_iff rdR_def)

lemma tripP_PutNul: "i < m \<Longrightarrow> tripP (at m e k) (PutNul i) (\<lambda>x. at m e k)"
  by (auto simp: tripP_def PutNul_def at_def bindR_Inl_iff wrR_def)

section \<open>Whole messages\<close>

text \<open>What a socket sends: the bytes from \<open>start\<close> to \<open>end\<close>.\<close>

definition buf_bytes :: "SLPBuffer \<Rightarrow> 8 word list" where
  "buf_bytes b = take (bend b) (bmem b)"

text \<open>\<open>PEEK_LENGTH\<close>\<close>

definition PEEK_LENGTH :: "8 word list \<Rightarrow> nat" where
  "PEEK_LENGTH p =
     (if p ! 0 = 2 then unat (AS_UINT24 (p ! 2) (p ! 3) (p ! 4))
      else if p ! 0 = 1 then unat (AS_UINT16 (p ! 2) (p ! 3))
      else 1)"

lemma SLPBufferRealloc_True: "\<exists>b. SLPBufferRealloc True junk buf sz = Some b"
  by (cases buf) (simp_all add: SLPBufferRealloc_def SLPBufferAlloc_def)

text \<open>A message of at most the size that was asked for, written into the buffer from its start.\<close>

lemma message_written:
  assumes "SLPBufferRealloc ok junk buf sz = Some b" "\<And>b0. buf = Some b0 \<Longrightarrow> buffer_ok b0" "length bs \<le> sz"
  obtains b' where "put_bytes bs b = Inr ((), b')" "buffer_ok b'" "bend b' = sz" "bcur b' = length bs"
    "bmem b' = bs @ drop (length bs) (bmem b)" "buf_bytes b' = bs @ cslice (bmem b) (length bs) (sz - length bs)"
proof -
  have k: "buffer_ok b \<and> bcur b = 0 \<and> bend b = sz" by (rule SLPBufferRealloc_key[OF assms(2,1)])
  then have len: "sz < length (bmem b)" by (auto simp: buffer_ok_def)
  let ?b' = "b\<lparr>bmem := bs @ drop (length bs) (bmem b), bcur := length bs\<rparr>"
  have "put_bytes bs b = Inr ((), ?b')" using k len assms(3) by (simp add: put_bytes_def)
  moreover have "buffer_ok ?b'" using k len assms(3) by (auto simp: buffer_ok_def)
  ultimately show ?thesis
    using that[of ?b'] k assms(3) by (simp add: buf_bytes_def cslice_def)
qed

lemma SLPBufferAlloc_Realloc: "SLPBufferAlloc ok junk sz = SLPBufferRealloc ok junk None sz"
  by (simp add: SLPBufferRealloc_def)

lemma message_filled:
  assumes "SLPBufferRealloc ok junk buf sz = Some b" "\<And>b0. buf = Some b0 \<Longrightarrow> buffer_ok b0" "length bs = sz"
  obtains b' where "put_bytes bs b = Inr ((), b')" "buffer_ok b'" "bend b' = sz" "bcur b' = sz" "buf_bytes b' = bs"
  using message_written[OF assms(1,2), of bs] assms(3) by (auto simp: cslice_def)

end
