(* ===== verification/SLP_V2Message.thy ===== *)
theory SLP_V2Message
  imports SLP_Wire
begin

text \<open>
  The SLPv2 message parser, \<open>common/slp_v2message.c\<close> and the version switch
  and cleanup of \<open>common/slp_message.c\<close>.  A string of a message is a length
  and a pointer into the buffer, so a parsed field is an offset and a length
  (\<open>wstr\<close>), and termination writes change the buffer the fields point into.
  \<open>mok\<close> tells whether the allocation made with the cursor at a given offset
  succeeds; every allocation of one parse is made at another offset.  A list of
  authentication blocks or URL entries is the array of the code, \<open>[]\<close> where the
  code leaves the pointer untouched.
\<close>

section \<open>Messages\<close>

record wstr =
  wlen :: nat
  wptr :: "nat option"

record SLPHeader =
  hd_version :: nat
  hd_functionid :: nat
  hd_length :: nat
  hd_flags :: "16 word"
  hd_encoding :: nat
  hd_extoffset :: nat
  hd_xid :: "16 word"
  hd_langtag :: wstr

record SLPAuthBlock =
  ab_bsd :: "16 word"
  ab_length :: nat
  ab_timestamp :: "32 word"
  ab_spistr :: wstr
  ab_authstruct :: nat
  ab_opaquelen :: nat
  ab_opaque :: nat

record SLPUrlEntry =
  ue_reserved :: "8 word"
  ue_lifetime :: nat
  ue_url :: wstr
  ue_autharray :: "SLPAuthBlock list"
  ue_opaquelen :: nat
  ue_opaque :: nat

record SLPSrvRqst =
  rq_prlist :: wstr
  rq_srvtype :: wstr
  rq_scopelist :: wstr
  rq_predicatever :: nat
  rq_predicate :: wstr
  rq_spistr :: wstr

record SLPSrvRply =
  rp_errorcode :: nat
  rp_urlarray :: "SLPUrlEntry list"

record SLPSrvReg =
  rg_urlentry :: SLPUrlEntry
  rg_srvtype :: wstr
  rg_scopelist :: wstr
  rg_attrlist :: wstr
  rg_autharray :: "SLPAuthBlock list"
  rg_pid :: "32 word"

record SLPSrvDeReg =
  dr_scopelist :: wstr
  dr_urlentry :: SLPUrlEntry
  dr_taglist :: wstr

record SLPSrvAck =
  ak_errorcode :: nat

record SLPDAAdvert =
  da_errorcode :: nat
  da_bootstamp :: "32 word"
  da_url :: wstr
  da_scopelist :: wstr
  da_attrlist :: wstr
  da_spilist :: wstr
  da_autharray :: "SLPAuthBlock list"

record SLPAttrRqst =
  aq_prlist :: wstr
  aq_url :: wstr
  aq_scopelist :: wstr
  aq_taglist :: wstr
  aq_spistr :: wstr

record SLPAttrRply =
  ap_errorcode :: nat
  ap_attrlist :: wstr
  ap_autharray :: "SLPAuthBlock list"

record SLPSrvTypeRqst =
  tq_prlist :: wstr
  tq_namingauth :: wstr
  tq_scopelist :: wstr

record SLPSrvTypeRply =
  tp_errorcode :: nat
  tp_srvtypelist :: wstr

record SLPSAAdvert =
  sa_url :: wstr
  sa_scopelist :: wstr
  sa_attrlist :: wstr
  sa_autharray :: "SLPAuthBlock list"

text \<open>The union of message bodies; the cleared message of \<open>SLPMessageAlloc\<close> has none.\<close>

datatype SLPBody =
    NoBody
  | SrvRqst SLPSrvRqst
  | SrvRply SLPSrvRply
  | SrvReg SLPSrvReg
  | SrvDeReg SLPSrvDeReg
  | SrvAck SLPSrvAck
  | DAAdvert SLPDAAdvert
  | AttrRqst SLPAttrRqst
  | AttrRply SLPAttrRply
  | SrvTypeRqst SLPSrvTypeRqst
  | SrvTypeRply SLPSrvTypeRply
  | SAAdvert SLPSAAdvert

record 'addr SLPMessage =
  msg_peer :: 'addr
  msg_localaddr :: 'addr
  msg_header :: SLPHeader
  msg_body :: SLPBody

definition SLP_FUNCT_SRVRQST :: nat where "SLP_FUNCT_SRVRQST = 1"
definition SLP_FUNCT_SRVRPLY :: nat where "SLP_FUNCT_SRVRPLY = 2"
definition SLP_FUNCT_SRVREG :: nat where "SLP_FUNCT_SRVREG = 3"
definition SLP_FUNCT_SRVDEREG :: nat where "SLP_FUNCT_SRVDEREG = 4"
definition SLP_FUNCT_SRVACK :: nat where "SLP_FUNCT_SRVACK = 5"
definition SLP_FUNCT_ATTRRQST :: nat where "SLP_FUNCT_ATTRRQST = 6"
definition SLP_FUNCT_ATTRRPLY :: nat where "SLP_FUNCT_ATTRRPLY = 7"
definition SLP_FUNCT_DAADVERT :: nat where "SLP_FUNCT_DAADVERT = 8"
definition SLP_FUNCT_SRVTYPERQST :: nat where "SLP_FUNCT_SRVTYPERQST = 9"
definition SLP_FUNCT_SRVTYPERPLY :: nat where "SLP_FUNCT_SRVTYPERPLY = 10"
definition SLP_FUNCT_SAADVERT :: nat where "SLP_FUNCT_SAADVERT = 11"

lemmas funct_defs = SLP_FUNCT_SRVRQST_def SLP_FUNCT_SRVRPLY_def SLP_FUNCT_SRVREG_def
  SLP_FUNCT_SRVDEREG_def SLP_FUNCT_SRVACK_def SLP_FUNCT_ATTRRQST_def SLP_FUNCT_ATTRRPLY_def
  SLP_FUNCT_DAADVERT_def SLP_FUNCT_SRVTYPERQST_def SLP_FUNCT_SRVTYPERPLY_def SLP_FUNCT_SAADVERT_def

definition SLP_EXTENSION_ID_REG_PID :: nat where "SLP_EXTENSION_ID_REG_PID = 0x4001"
definition SLP_EXTENSION_ID_REG_PID_EXP :: nat where "SLP_EXTENSION_ID_REG_PID_EXP = 0x9799"

section \<open>Fields\<close>

text \<open>
  \<open>x->flen = GetUINT16(&curpos); x->f = GetStrPtr(&curpos, x->flen)\<close>, without and
  with the check of the cursor that follows most of them.
\<close>

definition parse_L16_unchecked :: "wstr parser" where
  "parse_L16_unchecked =
     bindP slp_GetUINT16 (\<lambda>len.
     bindP (slp_GetStrPtr (unat len)) (\<lambda>ptr.
     retP \<lparr>wlen = unat len, wptr = Some ptr\<rparr>))"

definition parse_L16 :: "wstr parser" where
  "parse_L16 = bindP parse_L16_unchecked (\<lambda>s. bindP endP (\<lambda>_. retP s))"

definition null_wstr :: wstr where
  "null_wstr = \<lparr>wlen = 0, wptr = None\<rparr>"

text \<open>\<open>if (x->f) ((uint8_t *)x->f)[x->flen] = 0\<close>\<close>

definition terminate :: "wstr \<Rightarrow> unit parser" where
  "terminate s = (case wptr s of None \<Rightarrow> retP () | Some p \<Rightarrow> PutNul (p + wlen s))"

definition v2ParseAuthBlock :: "SLPAuthBlock parser" where
  "v2ParseAuthBlock =
     bindP (needP 10) (\<lambda>_.
     bindP (slp_GetStrPtr 0) (\<lambda>opaque.
     bindP slp_GetUINT16 (\<lambda>bsd.
     bindP slp_GetUINT16 (\<lambda>len.
     bindP slp_GetUINT32 (\<lambda>timestamp.
     bindP parse_L16 (\<lambda>spistr.
     bindP (slp_GetStrPtr 0) (\<lambda>authstruct.
     bindP (\<lambda>b. Inr ((), b\<lparr>bcur := opaque + unat len\<rparr>)) (\<lambda>_.
     bindP endP (\<lambda>_.
     retP \<lparr>ab_bsd = bsd, ab_length = unat len, ab_timestamp = timestamp, ab_spistr = spistr,
           ab_authstruct = authstruct, ab_opaquelen = unat len, ab_opaque = opaque\<rparr>)))))))))"

primrec parse_auths :: "nat \<Rightarrow> SLPAuthBlock list parser" where
  "parse_auths 0 = retP []"
| "parse_auths (Suc n) =
     bindP v2ParseAuthBlock (\<lambda>a. bindP (parse_auths n) (\<lambda>as. retP (a # as)))"

text \<open>The count byte, the allocation of the array and the blocks, as five routines have them.\<close>

definition parse_autharray :: "(nat \<Rightarrow> bool) \<Rightarrow> SLPAuthBlock list parser" where
  "parse_autharray mok =
     bindP GetByte (\<lambda>authcount.
       if authcount \<noteq> 0 then
         bindP (\<lambda>b. Inr (mok (bcur b), b)) (\<lambda>ok.
           if ok then parse_auths (unat authcount) else failP SLP_ERROR_INTERNAL_ERROR)
       else retP [])"

definition v2ParseUrlEntry :: "(nat \<Rightarrow> bool) \<Rightarrow> SLPUrlEntry parser" where
  "v2ParseUrlEntry mok =
     bindP (needP 6) (\<lambda>_.
     bindP (slp_GetStrPtr 0) (\<lambda>opaque.
     bindP GetByte (\<lambda>reserved.
     bindP slp_GetUINT16 (\<lambda>lifetime.
     bindP parse_L16 (\<lambda>url.
     bindP (parse_autharray mok) (\<lambda>autharray.
     bindP (slp_GetStrPtr 0) (\<lambda>cur.
     bindP (terminate url) (\<lambda>_.
     retP \<lparr>ue_reserved = reserved, ue_lifetime = unat lifetime, ue_url = url,
           ue_autharray = autharray, ue_opaquelen = cur - opaque, ue_opaque = opaque\<rparr>))))))))"

section \<open>Bodies\<close>

definition v2ParseSrvRqst :: "SLPSrvRqst parser" where
  "v2ParseSrvRqst =
     bindP (needP 10) (\<lambda>_.
     bindP parse_L16 (\<lambda>prlist.
     bindP parse_L16 (\<lambda>srvtype.
     bindP parse_L16 (\<lambda>scopelist.
     bindP parse_L16 (\<lambda>predicate.
     bindP parse_L16 (\<lambda>spistr.
     retP \<lparr>rq_prlist = prlist, rq_srvtype = srvtype, rq_scopelist = scopelist,
           rq_predicatever = 2, rq_predicate = predicate, rq_spistr = spistr\<rparr>))))))"

primrec parse_urls :: "(nat \<Rightarrow> bool) \<Rightarrow> nat \<Rightarrow> SLPUrlEntry list parser" where
  "parse_urls mok 0 = retP []"
| "parse_urls mok (Suc n) =
     bindP (v2ParseUrlEntry mok) (\<lambda>u. bindP (parse_urls mok n) (\<lambda>us. retP (u # us)))"

definition v2ParseSrvRply :: "(nat \<Rightarrow> bool) \<Rightarrow> SLPSrvRply parser" where
  "v2ParseSrvRply mok =
     bindP (needP 4) (\<lambda>_.
     bindP slp_GetUINT16 (\<lambda>errorcode.
       if errorcode \<noteq> 0 then retP \<lparr>rp_errorcode = unat errorcode, rp_urlarray = []\<rparr>
       else
         bindP slp_GetUINT16 (\<lambda>urlcount.
           if urlcount \<noteq> 0 then
             bindP (\<lambda>b. Inr (mok (bcur b), b)) (\<lambda>ok.
               if ok then
                 bindP (parse_urls mok (unat urlcount)) (\<lambda>us.
                 retP \<lparr>rp_errorcode = 0, rp_urlarray = us\<rparr>)
               else failP SLP_ERROR_INTERNAL_ERROR)
           else retP \<lparr>rp_errorcode = 0, rp_urlarray = []\<rparr>)))"

definition v2ParseSrvReg :: "(nat \<Rightarrow> bool) \<Rightarrow> SLPSrvReg parser" where
  "v2ParseSrvReg mok =
     bindP (v2ParseUrlEntry mok) (\<lambda>urlentry.
     bindP parse_L16 (\<lambda>srvtype.
     bindP parse_L16 (\<lambda>scopelist.
     bindP parse_L16 (\<lambda>attrlist.
     bindP (parse_autharray mok) (\<lambda>autharray.
     retP \<lparr>rg_urlentry = urlentry, rg_srvtype = srvtype, rg_scopelist = scopelist,
           rg_attrlist = attrlist, rg_autharray = autharray, rg_pid = 0\<rparr>)))))"

definition v2ParseSrvDeReg :: "(nat \<Rightarrow> bool) \<Rightarrow> SLPSrvDeReg parser" where
  "v2ParseSrvDeReg mok =
     bindP (needP 4) (\<lambda>_.
     bindP parse_L16 (\<lambda>scopelist.
     bindP (v2ParseUrlEntry mok) (\<lambda>urlentry.
     bindP parse_L16 (\<lambda>taglist.
     retP \<lparr>dr_scopelist = scopelist, dr_urlentry = urlentry, dr_taglist = taglist\<rparr>))))"

definition v2ParseSrvAck :: "SLPSrvAck parser" where
  "v2ParseSrvAck = bindP slp_GetUINT16 (\<lambda>errorcode. retP \<lparr>ak_errorcode = unat errorcode\<rparr>)"

definition v2ParseAttrRqst :: "SLPAttrRqst parser" where
  "v2ParseAttrRqst =
     bindP (needP 10) (\<lambda>_.
     bindP parse_L16 (\<lambda>prlist.
     bindP parse_L16 (\<lambda>url.
     bindP parse_L16 (\<lambda>scopelist.
     bindP parse_L16 (\<lambda>taglist.
     bindP parse_L16 (\<lambda>spistr.
     retP \<lparr>aq_prlist = prlist, aq_url = url, aq_scopelist = scopelist, aq_taglist = taglist,
           aq_spistr = spistr\<rparr>))))))"

definition v2ParseAttrRply :: "(nat \<Rightarrow> bool) \<Rightarrow> SLPAttrRply parser" where
  "v2ParseAttrRply mok =
     bindP (needP 5) (\<lambda>_.
     bindP slp_GetUINT16 (\<lambda>errorcode.
       if errorcode \<noteq> 0
       then retP \<lparr>ap_errorcode = unat errorcode, ap_attrlist = null_wstr, ap_autharray = []\<rparr>
       else
         bindP parse_L16 (\<lambda>attrlist.
         bindP (parse_autharray mok) (\<lambda>autharray.
         bindP (terminate attrlist) (\<lambda>_.
         retP \<lparr>ap_errorcode = 0, ap_attrlist = attrlist, ap_autharray = autharray\<rparr>)))))"

definition v2ParseDAAdvert :: "(nat \<Rightarrow> bool) \<Rightarrow> SLPDAAdvert parser" where
  "v2ParseDAAdvert mok =
     bindP (needP 15) (\<lambda>_.
     bindP slp_GetUINT16 (\<lambda>errorcode.
       if errorcode \<noteq> 0
       then retP \<lparr>da_errorcode = unat errorcode, da_bootstamp = 0, da_url = null_wstr,
                  da_scopelist = null_wstr, da_attrlist = null_wstr, da_spilist = null_wstr,
                  da_autharray = []\<rparr>
       else
         bindP slp_GetUINT32 (\<lambda>bootstamp.
         bindP parse_L16 (\<lambda>url.
         bindP parse_L16 (\<lambda>scopelist.
         bindP parse_L16 (\<lambda>attrlist.
         bindP parse_L16 (\<lambda>spilist.
         bindP (parse_autharray mok) (\<lambda>autharray.
         bindP (terminate url) (\<lambda>_.
         retP \<lparr>da_errorcode = 0, da_bootstamp = bootstamp, da_url = url, da_scopelist = scopelist,
               da_attrlist = attrlist, da_spilist = spilist, da_autharray = autharray\<rparr>)))))))))"

definition v2ParseSrvTypeRqst :: "SLPSrvTypeRqst parser" where
  "v2ParseSrvTypeRqst =
     bindP (needP 6) (\<lambda>_.
     bindP parse_L16 (\<lambda>prlist.
     bindP slp_GetUINT16 (\<lambda>namingauthlen.
     bindP (if namingauthlen = 0 \<or> namingauthlen = 0xffff then retP None
            else bindP (slp_GetStrPtr (unat namingauthlen)) (\<lambda>p. retP (Some p))) (\<lambda>namingauth.
     bindP endP (\<lambda>_.
     bindP parse_L16 (\<lambda>scopelist.
     retP \<lparr>tq_prlist = prlist, tq_namingauth = \<lparr>wlen = unat namingauthlen, wptr = namingauth\<rparr>,
           tq_scopelist = scopelist\<rparr>))))))"

definition v2ParseSrvTypeRply :: "SLPSrvTypeRply parser" where
  "v2ParseSrvTypeRply =
     bindP (needP 4) (\<lambda>_.
     bindP slp_GetUINT16 (\<lambda>errorcode.
       if errorcode \<noteq> 0 then retP \<lparr>tp_errorcode = unat errorcode, tp_srvtypelist = null_wstr\<rparr>
       else
         bindP parse_L16 (\<lambda>srvtypelist.
         bindP (terminate srvtypelist) (\<lambda>_.
         retP \<lparr>tp_errorcode = 0, tp_srvtypelist = srvtypelist\<rparr>))))"

definition v2ParseSAAdvert :: "(nat \<Rightarrow> bool) \<Rightarrow> SLPSAAdvert parser" where
  "v2ParseSAAdvert mok =
     bindP (needP 7) (\<lambda>_.
     bindP parse_L16 (\<lambda>url.
     bindP parse_L16 (\<lambda>scopelist.
     bindP parse_L16 (\<lambda>attrlist.
     bindP (parse_autharray mok) (\<lambda>autharray.
     bindP (terminate url) (\<lambda>_.
     retP \<lparr>sa_url = url, sa_scopelist = scopelist, sa_attrlist = attrlist,
           sa_autharray = autharray\<rparr>))))))"

section \<open>Headers, extensions and whole messages\<close>

definition SLPv2MessageParseHeader :: "SLPHeader parser" where
  "SLPv2MessageParseHeader = (\<lambda>b.
     bindR (guardR (\<not> int (bend b) - 0 < 18) SLP_ERROR_PARSE_ERROR) (\<lambda>_.
     bindP GetByte (\<lambda>version.
     bindP GetByte (\<lambda>functionid.
     bindP slp_GetUINT24 (\<lambda>len.
     bindP slp_GetUINT16 (\<lambda>flags.
     bindP slp_GetUINT24 (\<lambda>extoffset.
     bindP slp_GetUINT16 (\<lambda>xid.
     bindP parse_L16_unchecked (\<lambda>langtag.
     bindP endP (\<lambda>_.
       if unat functionid < SLP_FUNCT_SRVRQST \<or> unat functionid > SLP_FUNCT_SAADVERT
       then failP SLP_ERROR_PARSE_ERROR
       else if flags AND 0x1fff \<noteq> 0 then failP SLP_ERROR_PARSE_ERROR
       else if unat extoffset > bend b then failP SLP_ERROR_PARSE_ERROR
       else retP \<lparr>hd_version = unat version, hd_functionid = unat functionid, hd_length = unat len,
                  hd_flags = flags, hd_encoding = 0, hd_extoffset = unat extoffset, hd_xid = xid,
                  hd_langtag = langtag\<rparr>)))))))) b))"

definition set_pid :: "32 word \<Rightarrow> SLPBody \<Rightarrow> SLPBody" where
  "set_pid pid body = (case body of SrvReg r \<Rightarrow> SrvReg (r\<lparr>rg_pid := pid\<rparr>) | _ \<Rightarrow> body)"

text \<open>The switch on the extension id: what one extension does to the message.\<close>

definition ext_case :: "nat \<Rightarrow> nat \<Rightarrow> SLPBody \<Rightarrow> SLPBody parser" where
  "ext_case functionid extid body = (\<lambda>b.
     if extid = SLP_EXTENSION_ID_REG_PID \<or> extid = SLP_EXTENSION_ID_REG_PID_EXP then
       (if functionid = SLP_FUNCT_SRVREG then
          (if bcur b + 4 > bend b then Inl (SlpError SLP_ERROR_PARSE_ERROR)
           else bindP slp_GetUINT32 (\<lambda>pid. retP (set_pid pid body)) b)
        else Inr (body, b))
     else if 0x4000 \<le> extid \<and> extid \<le> 0x7fff then Inl (SlpError SLP_ERROR_OPTION_NOT_UNDERSTOOD)
     else Inr (body, b))"

function ext_loop :: "nat \<Rightarrow> int \<Rightarrow> nat \<Rightarrow> SLPBody \<Rightarrow> SLPBody parser" where
  "ext_loop functionid bufsz nextoffset body b =
     (if nextoffset = 0 then Inr (body, b)
      else if bufsz - 5 \<le> 0 then Inl (SlpError SLP_ERROR_PARSE_ERROR)
      else if nextoffset + 5 > bend b then Inl (SlpError SLP_ERROR_PARSE_ERROR)
      else
        bindR (slp_GetUINT16 (b\<lparr>bcur := nextoffset\<rparr>)) (\<lambda>(extid, b1).
        bindR (slp_GetUINT24 b1) (\<lambda>(next, b2).
        bindR (ext_case functionid (unat extid) body b2) (\<lambda>(body', b3).
        ext_loop functionid (bufsz - 5) (unat next) body' b3))))"
  by pat_completeness auto
termination
  by (relation "measure (\<lambda>(f, bufsz, n, body, b). nat bufsz)") auto

declare ext_loop.simps [simp del]

definition v2ParseExtension :: "SLPHeader \<Rightarrow> SLPBody \<Rightarrow> SLPBody parser" where
  "v2ParseExtension h body = (\<lambda>b. ext_loop (hd_functionid h) (int (bend b)) (hd_extoffset h) body b)"

definition mapP :: "('a \<Rightarrow> 'b) \<Rightarrow> 'a parser \<Rightarrow> 'b parser" where
  "mapP f p = bindP p (\<lambda>x. retP (f x))"

definition parse_body :: "(nat \<Rightarrow> bool) \<Rightarrow> nat \<Rightarrow> SLPBody parser" where
  "parse_body mok functionid =
     (if functionid = SLP_FUNCT_SRVRQST then mapP SrvRqst v2ParseSrvRqst
      else if functionid = SLP_FUNCT_SRVRPLY then mapP SrvRply (v2ParseSrvRply mok)
      else if functionid = SLP_FUNCT_SRVREG then mapP SrvReg (v2ParseSrvReg mok)
      else if functionid = SLP_FUNCT_SRVDEREG then mapP SrvDeReg (v2ParseSrvDeReg mok)
      else if functionid = SLP_FUNCT_SRVACK then mapP SrvAck v2ParseSrvAck
      else if functionid = SLP_FUNCT_ATTRRQST then mapP AttrRqst v2ParseAttrRqst
      else if functionid = SLP_FUNCT_ATTRRPLY then mapP AttrRply (v2ParseAttrRply mok)
      else if functionid = SLP_FUNCT_DAADVERT then mapP DAAdvert (v2ParseDAAdvert mok)
      else if functionid = SLP_FUNCT_SRVTYPERQST then mapP SrvTypeRqst v2ParseSrvTypeRqst
      else if functionid = SLP_FUNCT_SRVTYPERPLY then mapP SrvTypeRply v2ParseSrvTypeRply
      else if functionid = SLP_FUNCT_SAADVERT then mapP SAAdvert (v2ParseSAAdvert mok)
      else failP SLP_ERROR_MESSAGE_NOT_SUPPORTED)"

definition SLPv2MessageParseBuffer :: "(nat \<Rightarrow> bool) \<Rightarrow> (SLPHeader \<times> SLPBody) parser" where
  "SLPv2MessageParseBuffer mok =
     bindP SLPv2MessageParseHeader (\<lambda>h.
     bindP (parse_body mok (hd_functionid h)) (\<lambda>body.
     bindP (if hd_extoffset h \<noteq> 0 then v2ParseExtension h body else retP body) (\<lambda>body.
     retP (h, body))))"

text \<open>Freeing the arrays a body owns leaves its pointers null.\<close>

definition SLPMessageFreeInternals :: "'addr SLPMessage \<Rightarrow> 'addr SLPMessage" where
  "SLPMessageFreeInternals mp =
     mp\<lparr>msg_body :=
       (case msg_body mp of
          SrvRply r \<Rightarrow> SrvRply (r\<lparr>rp_urlarray := []\<rparr>)
        | SrvReg r \<Rightarrow> SrvReg (r\<lparr>rg_urlentry := (rg_urlentry r)\<lparr>ue_autharray := []\<rparr>, rg_autharray := []\<rparr>)
        | SrvDeReg r \<Rightarrow> SrvDeReg (r\<lparr>dr_urlentry := (dr_urlentry r)\<lparr>ue_autharray := []\<rparr>\<rparr>)
        | AttrRply r \<Rightarrow> AttrRply (r\<lparr>ap_autharray := []\<rparr>)
        | DAAdvert r \<Rightarrow> DAAdvert (r\<lparr>da_autharray := []\<rparr>)
        | SAAdvert r \<Rightarrow> SAAdvert (r\<lparr>sa_autharray := []\<rparr>)
        | body \<Rightarrow> body)\<rparr>"

text \<open>The version switch, in the build without \<open>ENABLE_SLPv1\<close>.\<close>

definition SLPMessageParseHeader :: "SLPHeader parser" where
  "SLPMessageParseHeader = (\<lambda>b.
     bindR (rdR (bmem b) (bcur b)) (\<lambda>v.
       if v = 2 then SLPv2MessageParseHeader b else Inl (SlpError SLP_ERROR_VER_NOT_SUPPORTED)))"

definition SLPMessageParseBuffer ::
  "(nat \<Rightarrow> bool) \<Rightarrow> 'addr option \<Rightarrow> 'addr option \<Rightarrow> 'addr SLPMessage \<Rightarrow> 'addr SLPMessage parser" where
  "SLPMessageParseBuffer mok peeraddr localaddr mp = (\<lambda>b.
     (let mp = (case peeraddr of None \<Rightarrow> mp | Some a \<Rightarrow> mp\<lparr>msg_peer := a\<rparr>);
          mp = (case localaddr of None \<Rightarrow> mp | Some a \<Rightarrow> mp\<lparr>msg_localaddr := a\<rparr>);
          mp = SLPMessageFreeInternals mp;
          b = b\<lparr>bcur := 0\<rparr>
      in bindR (rdR (bmem b) (bcur b)) (\<lambda>v.
           if v = 2 then
             bindP (SLPv2MessageParseBuffer mok) (\<lambda>(h, body). retP (mp\<lparr>msg_header := h, msg_body := body\<rparr>)) b
           else Inl (SlpError SLP_ERROR_VER_NOT_SUPPORTED))))"

section \<open>Safety of the field parsers\<close>

definition inside :: "nat \<Rightarrow> wstr \<Rightarrow> bool" where
  "inside e s \<longleftrightarrow> (case wptr s of None \<Rightarrow> True | Some p \<Rightarrow> p + wlen s \<le> e)"

lemma inside_null [simp]: "inside e null_wstr"
  by (simp add: inside_def null_wstr_def)

lemma tripP_L16_unchecked:
  "k + 2 \<le> m \<Longrightarrow> tripP (at m e k) parse_L16_unchecked
     (\<lambda>s b. (\<exists>p. wptr s = Some p \<and> bcur b = p + wlen s) \<and> length (bmem b) = m \<and> bend b = e)"
  by (auto simp: tripP_def parse_L16_unchecked_def slp_GetUINT16_def slp_GetStrPtr_def bindP_def retP_def
      at_def bindR_Inl_iff rdR_def res_iff)

lemma tripP_L16:
  "k + 2 \<le> m \<Longrightarrow> tripP (at m e k) parse_L16 (\<lambda>s b. inside e s \<and> at m e e b)"
  unfolding parse_L16_def
  by (rule tripP_bind[OF tripP_L16_unchecked])
     (auto simp: tripP_def endP_def bindP_def retP_def at_def inside_def bindR_Inl_iff guardR_Inl_iff res_iff)

lemma tripP_StrPtr: "tripP (at m e k) (slp_GetStrPtr n) (\<lambda>p. at m e (k + n))"
  by (simp add: tripP_def slp_GetStrPtr_def at_def)

lemma tripP_pos: "tripP (at m e k) (slp_GetStrPtr 0) (\<lambda>p. at m e k)"
  by (simp add: tripP_def slp_GetStrPtr_def at_def)

lemma tripP_goto: "tripP (at m e k) (\<lambda>b. Inr ((), b\<lparr>bcur := i\<rparr>)) (\<lambda>u. at m e i)"
  by (simp add: tripP_def at_def)

lemma tripP_alloc: "tripP (at m e k) (\<lambda>b. Inr (mok (bcur b), b)) (\<lambda>ok. at m e k)"
  by (simp add: tripP_def)

lemma tripP_terminate: "inside e s \<Longrightarrow> e < m \<Longrightarrow> tripP (at m e k) (terminate s) (\<lambda>u. at m e k)"
  unfolding terminate_def inside_def
  by (cases "wptr s") (auto intro!: tripP_ret tripP_PutNul)

lemmas trip_steps = tripP_bind[OF tripP_need] tripP_bind[OF tripP_L16] tripP_bind[OF tripP_pos]
  tripP_bind[OF tripP_16] tripP_bind[OF tripP_32] tripP_bind[OF tripP_24] tripP_bind[OF tripP_byte]
  tripP_bind[OF tripP_goto] tripP_bind[OF tripP_end] tripP_bind[OF tripP_alloc] tripP_bind[OF tripP_terminate]
  tripP_if tripP_fail tripP_pure tripP_ret

lemma tripP_AuthBlock:
  "e \<le> m \<Longrightarrow> tripP (at m e k) v2ParseAuthBlock (\<lambda>a b. inside e (ab_spistr a) \<and> at m e e b)"
  unfolding v2ParseAuthBlock_def by (intro trip_steps) simp_all

lemma tripP_auths:
  "e \<le> m \<Longrightarrow> tripP (at m e (e + 1)) (parse_auths n)
     (\<lambda>as b. (\<forall>a \<in> set as. inside e (ab_spistr a)) \<and> at m e (e + 1) b)"
proof (induction n)
  case 0
  then show ?case by (auto intro!: tripP_ret)
next
  case (Suc n)
  have "tripP (at m e e) (parse_auths n) (\<lambda>as b. (\<forall>a \<in> set as. inside e (ab_spistr a)) \<and> at m e (e + 1) b)"
    by (rule tripP_at[OF Suc.IH[OF Suc.prems]]) simp
  note IH = tripP_bind[OF this]
  show ?case
    unfolding parse_auths.simps
    by (rule tripP_bind[OF tripP_AuthBlock[OF Suc.prems]], rule tripP_pure, rule IH, rule tripP_pure, rule tripP_ret) auto
qed

lemma tripP_autharray:
  assumes "e < m"
  shows "tripP (at m e e) (parse_autharray mok)
     (\<lambda>as b. (\<forall>a \<in> set as. inside e (ab_spistr a)) \<and> at m e (e + 1) b)"
proof -
  have "e \<le> m" using assms by simp
  from tripP_auths[OF this] show ?thesis
    unfolding parse_autharray_def using assms by (intro trip_steps) auto
qed

definition ue_fields :: "SLPUrlEntry \<Rightarrow> wstr list" where
  "ue_fields u = ue_url u # map ab_spistr (ue_autharray u)"

lemma tripP_UrlEntry:
  assumes "e < m"
  shows "tripP (at m e k) (v2ParseUrlEntry mok)
     (\<lambda>u b. (\<forall>s \<in> set (ue_fields u). inside e s) \<and> at m e (e + 1) b)"
  unfolding v2ParseUrlEntry_def using assms
  by (intro trip_steps tripP_bind[OF tripP_autharray]) (auto simp: ue_fields_def)

lemma tripP_urls:
  assumes "e < m"
  shows "tripP (at m e (e + 1)) (parse_urls mok n)
     (\<lambda>us b. (\<forall>u \<in> set us. \<forall>s \<in> set (ue_fields u). inside e s) \<and> at m e (e + 1) b)"
proof (induction n)
  case 0
  then show ?case by (auto intro!: tripP_ret)
next
  case (Suc n)
  note IH = tripP_bind[OF Suc.IH]
  show ?case
    unfolding parse_urls.simps
    by (rule tripP_bind[OF tripP_UrlEntry[OF assms]], rule tripP_pure, rule IH, rule tripP_pure, rule tripP_ret) auto
qed

section \<open>The contract of a body parser\<close>

text \<open>
  What the message switch relies on: with \<open>slack\<close> readable bytes behind the end
  of the message, a body parser started inside the message touches no byte
  outside the object, and every string of its result lies inside the message.
\<close>

locale body_parser =
  fixes p :: "'a parser" and fields :: "'a \<Rightarrow> wstr list" and slack :: nat
  assumes safe: "e + slack \<le> m \<Longrightarrow>
    tripP (at m e e) p (\<lambda>x b. (\<forall>s \<in> set (fields x). inside e s) \<and> length (bmem b) = m \<and> bend b = e)"
begin

lemma no_overrun:
  assumes "bcur b \<le> bend b" "bend b + slack \<le> length (bmem b)"
  shows "p b \<noteq> Inl OutOfBounds"
proof -
  have "at (length (bmem b)) (bend b) (bend b) b" using assms(1) by (simp add: at_def)
  with safe[OF assms(2)] show ?thesis unfolding tripP_def by blast
qed

lemma result_inside:
  assumes "bcur b \<le> bend b" "bend b + slack \<le> length (bmem b)" "p b = Inr (x, b')"
  shows "(\<forall>s \<in> set (fields x). inside (bend b) s) \<and> length (bmem b') = length (bmem b) \<and> bend b' = bend b"
proof -
  have "at (length (bmem b)) (bend b) (bend b) b" using assms(1) by (simp add: at_def)
  with safe[OF assms(2)] assms(3) show ?thesis unfolding tripP_def by blast
qed

lemma mapP_safe:
  assumes "e + slack \<le> m" "\<And>x. set (g (c x)) \<subseteq> set (fields x)"
  shows "tripP (at m e e) (mapP c p) (\<lambda>y b. (\<forall>s \<in> set (g y). inside e s) \<and> length (bmem b) = m \<and> bend b = e)"
  unfolding mapP_def using assms(2)
  by (intro tripP_bind[OF safe[OF assms(1)]] tripP_pure tripP_ret) blast

end

interpretation srvrqst: body_parser v2ParseSrvRqst
  "\<lambda>r. [rq_prlist r, rq_srvtype r, rq_scopelist r, rq_predicate r, rq_spistr r]" 2
  by unfold_locales (unfold v2ParseSrvRqst_def, intro trip_steps, auto simp: at_def)

interpretation srvrply: body_parser "v2ParseSrvRply mok" "\<lambda>r. concat (map ue_fields (rp_urlarray r))" 1
  for mok
proof
  fix m e :: nat
  assume "e + 1 \<le> m"
  then have "e < m" by simp
  note urls = tripP_bind[OF tripP_at[OF tripP_urls[OF this, of mok]]]
  show "tripP (at m e e) (v2ParseSrvRply mok)
     (\<lambda>x b. (\<forall>s\<in>set (concat (map ue_fields (rp_urlarray x))). inside e s) \<and> length (bmem b) = m \<and> bend b = e)"
    unfolding v2ParseSrvRply_def using \<open>e < m\<close>
    by (intro trip_steps urls) (auto simp: at_def)
qed

interpretation srvreg: body_parser "v2ParseSrvReg mok"
  "\<lambda>r. ue_fields (rg_urlentry r) @ [rg_srvtype r, rg_scopelist r, rg_attrlist r] @ map ab_spistr (rg_autharray r)" 3
  for mok
  by unfold_locales
     (unfold v2ParseSrvReg_def, intro trip_steps tripP_bind[OF tripP_UrlEntry] tripP_bind[OF tripP_autharray],
      auto simp: at_def)

interpretation srvdereg: body_parser "v2ParseSrvDeReg mok"
  "\<lambda>r. dr_scopelist r # dr_taglist r # ue_fields (dr_urlentry r)" 3
  for mok
  by unfold_locales
     (unfold v2ParseSrvDeReg_def, intro trip_steps tripP_bind[OF tripP_UrlEntry], auto simp: at_def)

interpretation srvack: body_parser v2ParseSrvAck "\<lambda>r. []" 2
  by unfold_locales (unfold v2ParseSrvAck_def, intro trip_steps, auto simp: at_def)

interpretation attrrqst: body_parser v2ParseAttrRqst
  "\<lambda>r. [aq_prlist r, aq_url r, aq_scopelist r, aq_taglist r, aq_spistr r]" 2
  by unfold_locales (unfold v2ParseAttrRqst_def, intro trip_steps, auto simp: at_def)

interpretation attrrply: body_parser "v2ParseAttrRply mok"
  "\<lambda>r. ap_attrlist r # map ab_spistr (ap_autharray r)" 1
  for mok
  by unfold_locales
     (unfold v2ParseAttrRply_def, intro trip_steps tripP_bind[OF tripP_autharray], auto simp: at_def)

interpretation daadvert: body_parser "v2ParseDAAdvert mok"
  "\<lambda>r. [da_url r, da_scopelist r, da_attrlist r, da_spilist r] @ map ab_spistr (da_autharray r)" 2
  for mok
  by unfold_locales
     (unfold v2ParseDAAdvert_def, intro trip_steps tripP_bind[OF tripP_autharray], auto simp: at_def)

interpretation srvtyperply: body_parser v2ParseSrvTypeRply "\<lambda>r. [tp_srvtypelist r]" 1
  by unfold_locales (unfold v2ParseSrvTypeRply_def, intro trip_steps, auto simp: at_def)

interpretation saadvert: body_parser "v2ParseSAAdvert mok"
  "\<lambda>r. [sa_url r, sa_scopelist r, sa_attrlist r] @ map ab_spistr (sa_autharray r)" 2
  for mok
  by unfold_locales
     (unfold v2ParseSAAdvert_def, intro trip_steps tripP_bind[OF tripP_autharray], auto simp: at_def)

lemma tripP_namingauth:
  "tripP (at m e k) (if c then retP None else bindP (slp_GetStrPtr n) (\<lambda>p. retP (Some p)))
     (\<lambda>na b. (\<forall>p. na = Some p \<longrightarrow> bcur b = p + n) \<and> length (bmem b) = m \<and> bend b = e)"
  by (auto simp: tripP_def at_def retP_def bindP_def slp_GetStrPtr_def)

lemma tripP_end_na:
  "tripP (\<lambda>b. (\<forall>p. na = Some p \<longrightarrow> bcur b = p + n) \<and> length (bmem b) = m \<and> bend b = e) endP
     (\<lambda>u b. inside e \<lparr>wlen = n, wptr = na\<rparr> \<and> at m e e b)"
  by (auto simp: tripP_def endP_def at_def inside_def bindR_Inl_iff guardR_Inl_iff res_iff split: option.splits)

interpretation srvtyperqst: body_parser v2ParseSrvTypeRqst "\<lambda>r. [tq_prlist r, tq_namingauth r, tq_scopelist r]" 2
  by unfold_locales
     (unfold v2ParseSrvTypeRqst_def,
      intro trip_steps tripP_bind[OF tripP_namingauth] tripP_bind[OF tripP_end_na], auto simp: at_def)

section \<open>Safety of a whole message\<close>

definition body_fields :: "SLPBody \<Rightarrow> wstr list" where
  "body_fields body =
     (case body of
        NoBody \<Rightarrow> []
      | SrvRqst r \<Rightarrow> [rq_prlist r, rq_srvtype r, rq_scopelist r, rq_predicate r, rq_spistr r]
      | SrvRply r \<Rightarrow> concat (map ue_fields (rp_urlarray r))
      | SrvReg r \<Rightarrow> ue_fields (rg_urlentry r) @ [rg_srvtype r, rg_scopelist r, rg_attrlist r] @ map ab_spistr (rg_autharray r)
      | SrvDeReg r \<Rightarrow> dr_scopelist r # dr_taglist r # ue_fields (dr_urlentry r)
      | SrvAck r \<Rightarrow> []
      | DAAdvert r \<Rightarrow> [da_url r, da_scopelist r, da_attrlist r, da_spilist r] @ map ab_spistr (da_autharray r)
      | AttrRqst r \<Rightarrow> [aq_prlist r, aq_url r, aq_scopelist r, aq_taglist r, aq_spistr r]
      | AttrRply r \<Rightarrow> ap_attrlist r # map ab_spistr (ap_autharray r)
      | SrvTypeRqst r \<Rightarrow> [tq_prlist r, tq_namingauth r, tq_scopelist r]
      | SrvTypeRply r \<Rightarrow> [tp_srvtypelist r]
      | SAAdvert r \<Rightarrow> [sa_url r, sa_scopelist r, sa_attrlist r] @ map ab_spistr (sa_autharray r))"

text \<open>The readable bytes behind the message end that the body of each function needs.\<close>

definition body_slack :: "nat \<Rightarrow> nat" where
  "body_slack fid =
     (if fid \<in> {SLP_FUNCT_SRVRPLY, SLP_FUNCT_ATTRRPLY, SLP_FUNCT_SRVTYPERPLY} then 1
      else if fid \<in> {SLP_FUNCT_SRVREG, SLP_FUNCT_SRVDEREG} then 3 else 2)"

abbreviation body_post :: "nat \<Rightarrow> nat \<Rightarrow> SLPBody \<Rightarrow> SLPBuffer \<Rightarrow> bool" where
  "body_post m e body b \<equiv> (\<forall>s \<in> set (body_fields body). inside e s) \<and> length (bmem b) = m \<and> bend b = e"

lemma tripP_body:
  assumes "e + body_slack fid \<le> m"
  shows "tripP (at m e e) (parse_body mok fid) (body_post m e)"
  using assms unfolding parse_body_def
  by (intro tripP_if tripP_fail srvrqst.mapP_safe srvrply.mapP_safe srvreg.mapP_safe srvdereg.mapP_safe
      srvack.mapP_safe attrrqst.mapP_safe attrrply.mapP_safe daadvert.mapP_safe srvtyperqst.mapP_safe
      srvtyperply.mapP_safe saadvert.mapP_safe)
     (simp_all add: body_fields_def body_slack_def funct_defs)

lemma body_fields_set_pid [simp]: "body_fields (set_pid pid body) = body_fields body"
  by (cases body) (simp_all add: set_pid_def body_fields_def)

lemma tripP_ext_case:
  assumes "e \<le> m"
  shows "tripP (\<lambda>b. length (bmem b) = m \<and> bend b = e) (ext_case fid extid body)
     (\<lambda>body' b. body_fields body' = body_fields body \<and> length (bmem b) = m \<and> bend b = e)"
  using assms
  by (auto simp: tripP_def ext_case_def bindP_def retP_def slp_GetUINT32_def res_iff bindR_Inl_iff rdR_def)

lemma tripP_ext_loop:
  assumes "e \<le> m" "length (bmem b) = m" "bend b = e"
  shows "ext_loop fid bufsz next body b \<noteq> Inl OutOfBounds
    \<and> (\<forall>body' b'. ext_loop fid bufsz next body b = Inr (body', b') \<longrightarrow>
         body_fields body' = body_fields body \<and> length (bmem b') = m \<and> bend b' = e)"
  using assms(2,3)
proof (induction fid bufsz "next" body b rule: ext_loop.induct)
  case (1 fid bufsz "next" body b)
  show ?case
  proof (cases "next = 0 \<or> bufsz - 5 \<le> 0 \<or> next + 5 > bend b")
    case True
    with "1.prems" show ?thesis by (subst (1 2) ext_loop.simps) auto
  next
    case False
    let ?b0 = "b\<lparr>bcur := next\<rparr>"
    have room: "next + 5 \<le> m" using False "1.prems" assms(1) by auto
    then obtain x b1 where g1: "slp_GetUINT16 ?b0 = Inr (x, b1)" "b1 = b\<lparr>bcur := next + 2\<rparr>"
      using "1.prems" by (auto simp: slp_GetUINT16_def)
    obtain n b2 where g2: "slp_GetUINT24 b1 = Inr (n, b2)" "b2 = b\<lparr>bcur := next + 5\<rparr>"
      using room "1.prems" g1(2) by (auto simp: slp_GetUINT24_def)
    have b2: "length (bmem b2) = m" "bend b2 = e" using g2 "1.prems" by auto
    have step: "ext_loop fid bufsz next body b =
        bindR (ext_case fid (unat x) body b2) (\<lambda>(body', b3). ext_loop fid (bufsz - 5) (unat n) body' b3)"
      using False g1(1) g2(1) by (subst ext_loop.simps) (auto split: prod.splits)
    note ec = tripP_ext_case[OF assms(1), of fid "unat x" body, unfolded tripP_def, rule_format, of b2]
    show ?thesis
    proof (cases "ext_case fid (unat x) body b2")
      case (Inl err)
      with ec b2 show ?thesis by (simp add: step)
    next
      case (Inr r)
      obtain body3 b3 where r: "r = (body3, b3)" by fastforce
      with Inr ec b2 have "body_fields body3 = body_fields body" "length (bmem b3) = m" "bend b3 = e" by auto
      moreover have "ext_loop fid bufsz next body b = ext_loop fid (bufsz - 5) (unat n) body3 b3"
        using Inr r by (simp add: step)
      ultimately show ?thesis
        using "1.IH"[of "(x, b1)" x b1 "(n, b2)" n b2 "(body3, b3)" body3 b3] False g1(1) g2(1) Inr r by auto
    qed
  qed
qed

text \<open>What the header parser accepts; it looks at nothing behind the end of the message.\<close>

definition header_post :: "nat \<Rightarrow> nat \<Rightarrow> SLPHeader \<Rightarrow> SLPBuffer \<Rightarrow> bool" where
  "header_post m e h b \<longleftrightarrow>
     inside e (hd_langtag h) \<and> hd_extoffset h \<le> e \<and> SLP_FUNCT_SRVRQST \<le> hd_functionid h
     \<and> hd_functionid h \<le> SLP_FUNCT_SAADVERT \<and> hd_flags h AND 0x1fff = 0 \<and> 18 \<le> e \<and> at m e e b"

lemma header_safe:
  assumes "bend b \<le> length (bmem b)" "bcur b = 0"
  shows "SLPv2MessageParseHeader b \<noteq> Inl OutOfBounds
    \<and> (\<forall>h b'. SLPv2MessageParseHeader b = Inr (h, b') \<longrightarrow>
         header_post (length (bmem b)) (bend b) h b' \<and> bmem b' = bmem b \<and> hd_functionid h = unat (bmem b ! 1))"
proof (cases "bend b < 18")
  case True
  then show ?thesis by (simp add: SLPv2MessageParseHeader_def)
next
  case False
  then have "\<not> length (bmem b) \<le> i" if "i < 18" for i using that assms(1) by simp
  then show ?thesis
    using assms False
    by (auto simp: SLPv2MessageParseHeader_def bindP_def GetByte_def slp_GetUINT16_def slp_GetUINT24_def
        parse_L16_unchecked_def slp_GetStrPtr_def endP_def retP_def failP_def header_post_def at_def inside_def
        bindR_Inl_iff guardR_Inl_iff res_iff rdR_def split: if_splits)
qed

lemma ParseBuffer_key:
  assumes "bend b + body_slack (unat (bmem b ! 1)) \<le> length (bmem b)" "1 \<le> length (bmem b)"
  shows "SLPMessageParseBuffer mok peer loc mp b \<noteq> Inl OutOfBounds
    \<and> (\<forall>mp' b'. SLPMessageParseBuffer mok peer loc mp b = Inr (mp', b') \<longrightarrow>
         inside (bend b) (hd_langtag (msg_header mp')) \<and> body_post (length (bmem b)) (bend b) (msg_body mp') b')"
proof -
  let ?b = "b\<lparr>bcur := 0\<rparr>" and ?m = "length (bmem b)" and ?e = "bend b"
  have e: "?e \<le> ?m" using assms(1) by simp
  note hs = header_safe[of ?b, simplified, OF e]
  have V2: "SLPv2MessageParseBuffer mok ?b \<noteq> Inl OutOfBounds
    \<and> (\<forall>h body b'. SLPv2MessageParseBuffer mok ?b = Inr ((h, body), b') \<longrightarrow>
         inside ?e (hd_langtag h) \<and> body_post ?m ?e body b')"
  proof (cases "SLPv2MessageParseHeader ?b")
    case (Inl err)
    with hs show ?thesis by (simp add: SLPv2MessageParseBuffer_def bindP_def)
  next
    case (Inr r)
    obtain h b1 where r: "r = (h, b1)" by fastforce
    with Inr hs have h: "header_post ?m ?e h b1" "hd_functionid h = unat (bmem b ! 1)" by auto
    then have at: "at ?m ?e ?e b1" "inside ?e (hd_langtag h)" by (auto simp: header_post_def)
    have sl: "?e + body_slack (hd_functionid h) \<le> ?m" using assms(1) h(2) by simp
    have safe: "parse_body mok (hd_functionid h) b1 \<noteq> Inl OutOfBounds"
      and good: "\<And>body b'. parse_body mok (hd_functionid h) b1 = Inr (body, b') \<Longrightarrow> body_post ?m ?e body b'"
      using tripP_body[OF sl, of mok] at(1) unfolding tripP_def by blast+
    show ?thesis
    proof (cases "parse_body mok (hd_functionid h) b1")
      case (Inl err)
      with safe have "err \<noteq> OutOfBounds" by simp
      with Inl \<open>SLPv2MessageParseHeader ?b = Inr r\<close> r show ?thesis
        by (simp add: SLPv2MessageParseBuffer_def bindP_def)
    next
      case (Inr r2)
      obtain body b2 where r2: "r2 = (body, b2)" by fastforce
      with Inr good have post: "body_post ?m ?e body b2" by simp
      have run: "SLPv2MessageParseBuffer mok ?b =
          bindP (if hd_extoffset h \<noteq> 0 then v2ParseExtension h body else retP body) (\<lambda>body. retP (h, body)) b2"
        using Inr r2 r \<open>SLPv2MessageParseHeader ?b = Inr r\<close>
        by (simp add: SLPv2MessageParseBuffer_def bindP_def)
      note ext = tripP_ext_loop[OF e, of b2 "hd_functionid h" "int ?e" "hd_extoffset h" body]
      from ext post at(2) show ?thesis
        by (auto simp: run v2ParseExtension_def bindP_def retP_def bindR_Inl_iff res_iff)
    qed
  qed
  have "bmem b \<noteq> []" using assms(2) by auto
  with V2 show ?thesis
    by (auto simp: SLPMessageParseBuffer_def Let_def bindP_def retP_def bindR_Inl_iff res_iff split: if_splits prod.splits)
qed


definition sample_message :: "'addr \<Rightarrow> 'addr SLPMessage" where
  "sample_message a =
     \<lparr>msg_peer = a, msg_localaddr = a,
      msg_header = \<lparr>hd_version = 0, hd_functionid = 0, hd_length = 0, hd_flags = 0, hd_encoding = 0,
                    hd_extoffset = 0, hd_xid = 0, hd_langtag = null_wstr\<rparr>,
      msg_body = NoBody\<rparr>"


text \<open>
  C17: in a buffer as \<open>SLPBufferAlloc\<close> makes it, with a single extra byte, the
  three reply messages are parsed without leaving the object.
\<close>

theorem SLPMessageParseBuffer_replies_safe:
  assumes "buffer_ok b"
    and "unat (bmem b ! 1) \<in> {SLP_FUNCT_SRVRPLY, SLP_FUNCT_ATTRRPLY, SLP_FUNCT_SRVTYPERPLY}"
  shows "SLPMessageParseBuffer mok peer loc mp b \<noteq> Inl OutOfBounds"
proof -
  have "body_slack (unat (bmem b ! 1)) = 1" using assms(2) by (simp add: body_slack_def)
  then have "bend b + body_slack (unat (bmem b ! 1)) \<le> length (bmem b)" "1 \<le> length (bmem b)"
    using assms(1) by (auto simp: buffer_ok_def)
  from ParseBuffer_key[OF this] show ?thesis by blast
qed

theorem SLPMessageParseBuffer_replies_safe_witness:
  "SLPMessageParseBuffer (\<lambda>_. True) None None (sample_message ())
     \<lparr>allocated = 18, bmem = [2, 10, 0, 0, 18, 0, 0, 0, 0, 0, 0, 1, 0, 2, 101, 110, 0, 0, 0], bcur = 0, bend = 18\<rparr>
   \<noteq> Inl OutOfBounds"
  by (rule SLPMessageParseBuffer_replies_safe) (simp_all add: buffer_ok_def funct_defs)

text \<open>
  The other messages are not: in a buffer with a single extra byte a
  registration whose URL entry fills the message makes the parser read the
  authentication count from the extra byte and the next length behind the object,
  and an acknowledgement without an error code is read behind it, too.
\<close>

theorem SLPMessageParseBuffer_overread:
  "\<exists>b1 b2. buffer_ok b1 \<and> buffer_ok b2 \<and> bmem b1 ! 1 = 3 \<and> bmem b2 ! 1 = 5
    \<and> SLPMessageParseBuffer (\<lambda>_. True) None None (sample_message ()) b1 = Inl OutOfBounds
    \<and> SLPMessageParseBuffer (\<lambda>_. True) None None (sample_message ()) b2 = Inl OutOfBounds"
proof -
  let ?b1 = "\<lparr>allocated = 22, bmem = [2, 3, 0, 0, 22, 0, 0, 0, 0, 0, 0, 1, 0, 2, 101, 110, 0, 0, 2, 0, 1, 97, 0], bcur = 0, bend = 22\<rparr>"
  let ?b2 = "\<lparr>allocated = 18, bmem = [2, 5, 0, 0, 18, 0, 0, 0, 0, 0, 0, 1, 0, 4, 101, 110, 45, 97, 0], bcur = 0, bend = 18\<rparr>"
  have "SLPMessageParseBuffer (\<lambda>_. True) None None (sample_message ()) ?b1 = Inl OutOfBounds" by code_simp
  moreover have "SLPMessageParseBuffer (\<lambda>_. True) None None (sample_message ()) ?b2 = Inl OutOfBounds" by code_simp
  ultimately show ?thesis by (intro exI[of _ ?b1] exI[of _ ?b2]) (simp add: buffer_ok_def)
qed

section \<open>Extensions\<close>

lemma ext_cycle:
  assumes "bend b \<le> length (bmem b)" "0 < off" "off + 5 \<le> bend b"
    and "unat (AS_UINT16 (bmem b ! off) (bmem b ! (off + 1))) = extid"
    and "unat (AS_UINT24 (bmem b ! (off + 2)) (bmem b ! (off + 3)) (bmem b ! (off + 4))) = off"
    and "extid < 0x4000 \<or> 0x7fff < extid" "extid \<noteq> SLP_EXTENSION_ID_REG_PID_EXP"
  shows "ext_loop fid bufsz off body (b\<lparr>bcur := c\<rparr>) = Inl (SlpError SLP_ERROR_PARSE_ERROR)"
proof (induction "nat bufsz" arbitrary: bufsz c rule: less_induct)
  case less
  show ?case
  proof (cases "bufsz - 5 \<le> 0")
    case True
    with assms(2) show ?thesis by (subst ext_loop.simps) simp
  next
    case False
    have g: "slp_GetUINT16 (b\<lparr>bcur := off\<rparr>) = Inr (AS_UINT16 (bmem b ! off) (bmem b ! (off + 1)), b\<lparr>bcur := off + 2\<rparr>)"
      "slp_GetUINT24 (b\<lparr>bcur := off + 2\<rparr>) =
         Inr (AS_UINT24 (bmem b ! (off + 2)) (bmem b ! (off + 3)) (bmem b ! (off + 4)), b\<lparr>bcur := off + 5\<rparr>)"
      using assms(1,3) by (simp_all add: slp_GetUINT16_def slp_GetUINT24_def numeral_3_eq_3 numeral_eq_Suc)
    have "ext_case fid extid body (b\<lparr>bcur := off + 5\<rparr>) = Inr (body, b\<lparr>bcur := off + 5\<rparr>)"
      using assms(6,7) by (auto simp: ext_case_def SLP_EXTENSION_ID_REG_PID_def)
    then have "ext_loop fid bufsz off body (b\<lparr>bcur := c\<rparr>) = ext_loop fid (bufsz - 5) off body (b\<lparr>bcur := off + 5\<rparr>)"
      using False assms(2-5) g by (subst ext_loop.simps) simp
    also have "\<dots> = Inl (SlpError SLP_ERROR_PARSE_ERROR)"
      using False by (intro less.hyps) simp
    finally show ?thesis .
  qed
qed

text \<open>
  An optional extension whose next-extension offset is its own offset is
  rejected: the byte budget of the loop runs out and the parser returns a parse error.
\<close>

theorem v2ParseExtension_cycle:
  assumes "bend b \<le> length (bmem b)" "0 < off" "off + 5 \<le> bend b"
    and "unat (AS_UINT16 (bmem b ! off) (bmem b ! (off + 1))) = extid"
    and "unat (AS_UINT24 (bmem b ! (off + 2)) (bmem b ! (off + 3)) (bmem b ! (off + 4))) = off"
    and "extid < 0x4000 \<or> 0x7fff < extid" "extid \<noteq> SLP_EXTENSION_ID_REG_PID_EXP"
    and "hd_extoffset h = off"
  shows "v2ParseExtension h body b = Inl (SlpError SLP_ERROR_PARSE_ERROR)"
  using ext_cycle[OF assms(1-7), of _ _ _ "bcur b"] assms(8) by (simp add: v2ParseExtension_def)

theorem v2ParseExtension_cycle_witness:
  "v2ParseExtension ((msg_header (sample_message ()))\<lparr>hd_extoffset := 1\<rparr>) NoBody
     \<lparr>allocated = 9, bmem = [0, 0, 2, 0, 0, 1, 0, 0, 0, 0], bcur = 0, bend = 9\<rparr>
   = Inl (SlpError SLP_ERROR_PARSE_ERROR)"
  by (rule v2ParseExtension_cycle[where off = 1 and extid = 2])
     (simp_all add: sample_message_def AS_UINT16_def AS_UINT24_def SLP_EXTENSION_ID_REG_PID_EXP_def)

section \<open>Parsing encoded fields\<close>

text \<open>The wire format of a string, and the bytes a parsed field refers to.\<close>

definition encS :: "8 word list \<Rightarrow> 8 word list" where
  "encS s = TO_UINT16 (of_nat (length s)) @ s"

definition wbytes :: "8 word list \<Rightarrow> wstr \<Rightarrow> 8 word list" where
  "wbytes m s = (case wptr s of None \<Rightarrow> [] | Some p \<Rightarrow> cslice m p (wlen s))"

definition inp :: "SLPBuffer \<Rightarrow> 8 word list" where
  "inp b = drop (bcur b) (bmem b)"

lemma length_encS [simp]: "length (encS s) = 2 + length s"
  by (simp add: encS_def)

lemma parse_L16_enc:
  assumes "inp b = encS str @ rest" "length str < 65536" "bcur b + 2 + length str \<le> bend b"
  shows "\<exists>s. parse_L16 b = Inr (s, b\<lparr>bcur := bcur b + 2 + length str\<rparr>) \<and> wbytes (bmem b) s = str
    \<and> drop (bcur b + 2 + length str) (bmem b) = rest"
proof -
  let ?v = "of_nat (length str) :: 64 word"
  have inp: "drop (bcur b) (bmem b) = TO_UINT16 ?v @ str @ rest" using assms(1) by (simp add: inp_def encS_def)
  then have "cslice (bmem b) (bcur b) 2 = TO_UINT16 ?v" by (simp add: cslice_def)
  note get = slp_GetUINT16_at[OF this]
  have n: "unat (ucast ?v :: 16 word) = length str"
    using assms(2) by (simp add: unsigned_ucast_eq unsigned_of_nat take_bit_nat_eq_self take_bit_nat_less_self_iff)
  have str: "drop (bcur b + 2) (bmem b) = str @ rest"
    using arg_cong[OF inp, of "drop 2"] by (simp add: add.commute)
  have rest: "drop (bcur b + 2 + length str) (bmem b) = rest"
    using arg_cong[OF str, of "drop (length str)"] by (simp add: add.commute)
  have "parse_L16 b = Inr (\<lparr>wlen = length str, wptr = Some (bcur b + 2)\<rparr>, b\<lparr>bcur := bcur b + 2 + length str\<rparr>)"
    using get n assms(3)
    by (simp add: parse_L16_def parse_L16_unchecked_def bindP_def retP_def slp_GetStrPtr_def endP_def)
  then show ?thesis using str rest by (simp add: wbytes_def cslice_def)
qed

lemma bind_L16_enc:
  assumes "inp b = encS str @ rest" "length str < 65536" "bcur b + 2 + length str \<le> bend b"
  obtains s where "bindP parse_L16 f b = f s (b\<lparr>bcur := bcur b + 2 + length str\<rparr>)" "wbytes (bmem b) s = str"
    "inp (b\<lparr>bcur := bcur b + 2 + length str\<rparr>) = rest"
  using parse_L16_enc[OF assms] by (auto simp: bindP_def inp_def)

lemma needP_enough: "bcur b + n \<le> bend b \<Longrightarrow> bindP (needP n) f b = f () b"
  by (simp add: bindP_def needP_def)

text \<open>Five strings in a row, the body of a service request and of an attribute request.\<close>

lemma five_strings:
  assumes "inp b = encS a1 @ encS a2 @ encS a3 @ encS a4 @ encS a5 @ rest"
    and "length a1 < 65536" "length a2 < 65536" "length a3 < 65536" "length a4 < 65536" "length a5 < 65536"
    and "bcur b + length (encS a1 @ encS a2 @ encS a3 @ encS a4 @ encS a5) \<le> bend b"
  obtains s1 s2 s3 s4 s5 where
    "bindP parse_L16 (\<lambda>s1. bindP parse_L16 (\<lambda>s2. bindP parse_L16 (\<lambda>s3. bindP parse_L16 (\<lambda>s4.
       bindP parse_L16 (\<lambda>s5. retP (f s1 s2 s3 s4 s5)))))) b
     = Inr (f s1 s2 s3 s4 s5, b\<lparr>bcur := bcur b + length (encS a1 @ encS a2 @ encS a3 @ encS a4 @ encS a5)\<rparr>)"
    "map (wbytes (bmem b)) [s1, s2, s3, s4, s5] = [a1, a2, a3, a4, a5]"
proof -
  let ?c1 = "bcur b + 2 + length a1"
  let ?c2 = "?c1 + 2 + length a2"
  let ?c3 = "?c2 + 2 + length a3"
  let ?c4 = "?c3 + 2 + length a4"
  let ?c5 = "?c4 + 2 + length a5"
  have le: "?c1 \<le> bend b" "?c2 \<le> bend b" "?c3 \<le> bend b" "?c4 \<le> bend b" "?c5 \<le> bend b"
    using assms(7) by simp_all
  let ?g5 = "\<lambda>s1 s2 s3 s4 s5. retP (f s1 s2 s3 s4 s5)"
  let ?g4 = "\<lambda>s1 s2 s3 s4. bindP parse_L16 (?g5 s1 s2 s3 s4)"
  let ?g3 = "\<lambda>s1 s2 s3. bindP parse_L16 (?g4 s1 s2 s3)"
  let ?g2 = "\<lambda>s1 s2. bindP parse_L16 (?g3 s1 s2)"
  let ?g1 = "\<lambda>s1. bindP parse_L16 (?g2 s1)"
  obtain s1 where 1: "bindP parse_L16 ?g1 b = ?g1 s1 (b\<lparr>bcur := ?c1\<rparr>)" "wbytes (bmem b) s1 = a1"
    "inp (b\<lparr>bcur := ?c1\<rparr>) = encS a2 @ encS a3 @ encS a4 @ encS a5 @ rest"
    using bind_L16_enc[OF assms(1,2) le(1), of ?g1] by auto
  obtain s2 where 2: "?g1 s1 (b\<lparr>bcur := ?c1\<rparr>) = ?g2 s1 s2 (b\<lparr>bcur := ?c2\<rparr>)" "wbytes (bmem b) s2 = a2"
    "inp (b\<lparr>bcur := ?c2\<rparr>) = encS a3 @ encS a4 @ encS a5 @ rest"
    using bind_L16_enc[OF 1(3) assms(3), of "?g2 s1"] le(2) by auto
  obtain s3 where 3: "?g2 s1 s2 (b\<lparr>bcur := ?c2\<rparr>) = ?g3 s1 s2 s3 (b\<lparr>bcur := ?c3\<rparr>)" "wbytes (bmem b) s3 = a3"
    "inp (b\<lparr>bcur := ?c3\<rparr>) = encS a4 @ encS a5 @ rest"
    using bind_L16_enc[OF 2(3) assms(4), of "?g3 s1 s2"] le(3) by auto
  obtain s4 where 4: "?g3 s1 s2 s3 (b\<lparr>bcur := ?c3\<rparr>) = ?g4 s1 s2 s3 s4 (b\<lparr>bcur := ?c4\<rparr>)" "wbytes (bmem b) s4 = a4"
    "inp (b\<lparr>bcur := ?c4\<rparr>) = encS a5 @ rest"
    using bind_L16_enc[OF 3(3) assms(5), of "?g4 s1 s2 s3"] le(4) by auto
  obtain s5 where 5: "?g4 s1 s2 s3 s4 (b\<lparr>bcur := ?c4\<rparr>) = ?g5 s1 s2 s3 s4 s5 (b\<lparr>bcur := ?c5\<rparr>)" "wbytes (bmem b) s5 = a5"
    using bind_L16_enc[OF 4(3) assms(6), of "?g5 s1 s2 s3 s4"] le(5) by auto
  show ?thesis
    using 1 2 3 4 5 by (intro that[of s1 s2 s3 s4 s5]) (simp_all add: retP_def algebra_simps)
qed

text \<open>
  A service request is read back from its wire format: the five strings
  of the result are the ones encoded, and the cursor stands behind them.
\<close>

theorem v2ParseSrvRqst_encoded:
  assumes "inp b = encS pr @ encS ty @ encS sc @ encS pd @ encS spi @ rest"
    and "\<forall>s \<in> {pr, ty, sc, pd, spi}. length s < 65536"
    and "bcur b + length (encS pr @ encS ty @ encS sc @ encS pd @ encS spi) \<le> bend b"
  shows "\<exists>r. v2ParseSrvRqst b = Inr (r, b\<lparr>bcur := bcur b + length (encS pr @ encS ty @ encS sc @ encS pd @ encS spi)\<rparr>)
    \<and> map (wbytes (bmem b)) [rq_prlist r, rq_srvtype r, rq_scopelist r, rq_predicate r, rq_spistr r]
        = [pr, ty, sc, pd, spi]
    \<and> rq_predicatever r = 2"
proof -
  have len: "length pr < 65536" "length ty < 65536" "length sc < 65536" "length pd < 65536" "length spi < 65536"
    using assms(2) by auto
  have "bcur b + 10 \<le> bend b" using assms(3) by simp
  note need = needP_enough[OF this]
  from five_strings[OF assms(1) len assms(3),
      of "\<lambda>s1 s2 s3 s4 s5. \<lparr>rq_prlist = s1, rq_srvtype = s2, rq_scopelist = s3, rq_predicatever = 2, rq_predicate = s4, rq_spistr = s5\<rparr>"]
  show ?thesis unfolding v2ParseSrvRqst_def need by (fastforce simp del: length_encS length_append)
qed

theorem v2ParseSrvRqst_encoded_witness:
  "\<exists>b r. v2ParseSrvRqst b = Inr (r, b\<lparr>bcur := bcur b + length (encS [] @ encS [97, 58, 98] @ encS [100] @ encS [] @ encS [])\<rparr>)
    \<and> map (wbytes (bmem b)) [rq_prlist r, rq_srvtype r, rq_scopelist r, rq_predicate r, rq_spistr r]
        = [[], [97, 58, 98], [100], [], []]
    \<and> rq_predicatever r = 2"
proof -
  let ?m = "encS [] @ encS [97, 58, 98] @ encS [100] @ encS [] @ encS [] @ [0]"
  show ?thesis
    by (rule exI[of _ "\<lparr>allocated = 14, bmem = ?m, bcur = 0, bend = 14\<rparr>"],
        rule v2ParseSrvRqst_encoded[where rest = "[0]"]) (simp_all add: inp_def)
qed

end
