(* ===== verification/Libslp_Request.thy ===== *)
theory Libslp_Request
  imports SLP_V2Message
begin

text \<open>
  How the client library writes requests: the put routines of
  \<open>libslp/libslp_parse.c\<close>, the request bodies built by \<open>ProcessSrvRqst\<close>,
  \<open>ProcessSrvReg\<close>, \<open>ProcessSrvDeReg\<close>, \<open>ProcessAttrRqst\<close> and
  \<open>ProcessSrvTypeRqst\<close>, and the SLPv2 header and previous-responder list that
  \<open>NetworkRqstRply\<close> puts before them.  A write outside the buffer that was
  allocated is \<open>OutOfBounds\<close>, so the theorems that a request is built include
  that the size computed before the allocation is enough.  The parameters of a
  request are byte strings; \<open>urlauth\<close> and \<open>attrauth\<close> are authentication blocks
  that were made elsewhere, empty where there is none.
\<close>

section \<open>Put routines\<close>

definition PutL16String :: "8 word list \<Rightarrow> unit parser" where
  "PutL16String str =
     bindP (slp_PutUINT16 (of_nat (length str))) (\<lambda>_. put_bytes str)"

definition SizeofURLEntry :: "nat \<Rightarrow> nat \<Rightarrow> nat" where
  "SizeofURLEntry urllen urlauthlen = 1 + 2 + 2 + urllen + 2 + urlauthlen"

definition slp_PutURLEntry :: "16 word \<Rightarrow> 8 word list \<Rightarrow> 8 word list \<Rightarrow> unit parser" where
  "slp_PutURLEntry lifetime url urlauth =
     bindP (put_bytes [0]) (\<lambda>_.
     bindP (slp_PutUINT16 (ucast lifetime)) (\<lambda>_.
     bindP (slp_PutUINT16 (of_nat (length url))) (\<lambda>_.
     bindP (put_bytes url) (\<lambda>_.
     bindP (put_bytes [if length urlauth \<noteq> 0 then 1 else 0]) (\<lambda>_.
     if length urlauth > 0 then put_bytes urlauth else retP ())))))"

text \<open>A freshly allocated array of \<open>n\<close> bytes that is written from its start.\<close>

definition alloc_array :: "(nat \<Rightarrow> 8 word) \<Rightarrow> nat \<Rightarrow> SLPBuffer" where
  "alloc_array junk n = \<lparr>allocated = n, bmem = map junk [0..<n], bcur = 0, bend = n\<rparr>"

text \<open>Running a writer on such an array: the bytes it has written before the cursor.\<close>

definition build :: "(nat \<Rightarrow> 8 word) \<Rightarrow> nat \<Rightarrow> unit parser \<Rightarrow> 8 word list res" where
  "build junk n p = bindR (p (alloc_array junk n)) (\<lambda>(_, b). Inr (take (bcur b) (bmem b)))"

section \<open>Request bodies\<close>

definition ProcessSrvRqst_body ::
  "(nat \<Rightarrow> 8 word) \<Rightarrow> 8 word list \<Rightarrow> 8 word list \<Rightarrow> 8 word list \<Rightarrow> 8 word list \<Rightarrow> 8 word list res" where
  "ProcessSrvRqst_body junk srvtype scopelist predicate spistr =
     build junk (2 + length srvtype + 2 + length scopelist + 2 + length predicate + 2 + length spistr)
       (bindP (PutL16String srvtype) (\<lambda>_.
        bindP (PutL16String scopelist) (\<lambda>_.
        bindP (PutL16String predicate) (\<lambda>_.
        PutL16String spistr))))"

text \<open>The result is the body and the offset of the extension in it, 0 without one.\<close>

definition ProcessSrvReg_body ::
  "(nat \<Rightarrow> 8 word) \<Rightarrow> bool \<Rightarrow> 32 word \<Rightarrow> 16 word \<Rightarrow> 8 word list \<Rightarrow> 8 word list \<Rightarrow> 8 word list \<Rightarrow> 8 word list
     \<Rightarrow> 8 word list \<Rightarrow> 8 word list \<Rightarrow> (8 word list \<times> nat) res" where
  "ProcessSrvReg_body junk watchRegPID pid lifetime url srvtype scopelist attrlist urlauth attrauth =
     (let n = SizeofURLEntry (length url) (length urlauth) + 2 + length srvtype + 2 + length scopelist
              + 2 + length attrlist + 1 + length attrauth + (if watchRegPID then 2 + 3 + 4 else 0) in
      bindR
        (bindP (slp_PutURLEntry lifetime url urlauth) (\<lambda>_.
         bindP (PutL16String srvtype) (\<lambda>_.
         bindP (PutL16String scopelist) (\<lambda>_.
         bindP (PutL16String attrlist) (\<lambda>_.
         bindP (put_bytes [if attrauth \<noteq> [] then 1 else 0]) (\<lambda>_.
         bindP (put_bytes attrauth) (\<lambda>_.
         bindP (\<lambda>b. Inr (if watchRegPID then bcur b else 0, b)) (\<lambda>extoffset.
         bindP
           (if watchRegPID then
              bindP (slp_PutUINT16 (of_nat SLP_EXTENSION_ID_REG_PID_EXP)) (\<lambda>_.
              bindP (slp_PutUINT24 0) (\<lambda>_.
              slp_PutUINT32 (ucast pid)))
            else retP ()) (\<lambda>_.
         retP extoffset)))))))) (alloc_array junk n))
        (\<lambda>(extoffset, b). Inr (take (bcur b) (bmem b), extoffset)))"

definition ProcessSrvDeReg_body ::
  "(nat \<Rightarrow> 8 word) \<Rightarrow> 8 word list \<Rightarrow> 8 word list \<Rightarrow> 8 word list \<Rightarrow> 8 word list res" where
  "ProcessSrvDeReg_body junk scopelist url urlauth =
     build junk (2 + length scopelist + SizeofURLEntry (length url) (length urlauth) + 2 + 0)
       (bindP (PutL16String scopelist) (\<lambda>_.
        bindP (slp_PutURLEntry 0 url urlauth) (\<lambda>_.
        PutL16String [])))"

definition ProcessAttrRqst_body ::
  "(nat \<Rightarrow> 8 word) \<Rightarrow> bool \<Rightarrow> 8 word list \<Rightarrow> 8 word list \<Rightarrow> 8 word list \<Rightarrow> 8 word list \<Rightarrow> 8 word list res" where
  "ProcessAttrRqst_body junk isV1 url scopelist taglist spistr =
     (if isV1 then
        build junk (2 + length url + 2 + length scopelist + 2 + length taglist)
          (bindP (PutL16String url) (\<lambda>_.
           bindP (PutL16String scopelist) (\<lambda>_.
           PutL16String taglist)))
      else
        build junk (2 + length url + 2 + length scopelist + 2 + length taglist + 2 + length spistr)
          (bindP (PutL16String url) (\<lambda>_.
           bindP (PutL16String scopelist) (\<lambda>_.
           bindP (PutL16String taglist) (\<lambda>_.
           PutL16String spistr)))))"

definition ProcessSrvTypeRqst_body ::
  "(nat \<Rightarrow> 8 word) \<Rightarrow> 8 word list \<Rightarrow> 8 word list \<Rightarrow> 8 word list res" where
  "ProcessSrvTypeRqst_body junk namingauth scopelist =
     build junk (2 + length namingauth + 2 + length scopelist)
       (bindP (if namingauth = [42] then slp_PutUINT16 0xffff else PutL16String namingauth) (\<lambda>_.
        PutL16String scopelist))"

section \<open>The message around a body\<close>

definition CalcBufferSize :: "bool \<Rightarrow> nat \<Rightarrow> nat \<Rightarrow> nat \<Rightarrow> nat \<Rightarrow> nat" where
  "CalcBufferSize v1 buftype langsize prlistlen bufsize =
     (let sz = (if v1 then 12 else 14 + langsize); sz = sz + bufsize in
      if buftype = SLP_FUNCT_SRVRQST \<or> buftype = SLP_FUNCT_ATTRRQST \<or> buftype = SLP_FUNCT_SRVTYPERQST
      then sz + (2 + prlistlen) else sz)"

definition SLP_FLAG_FRESH :: "64 word" where "SLP_FLAG_FRESH = 0x4000"
definition SLP_FLAG_MCAST :: "64 word" where "SLP_FLAG_MCAST = 0x2000"

text \<open>\<open>prlist\<close> is \<open>None\<close> where the message type has no previous-responder list.\<close>

definition put_v2_message ::
  "nat \<Rightarrow> nat \<Rightarrow> bool \<Rightarrow> nat \<Rightarrow> 64 word \<Rightarrow> 8 word list \<Rightarrow> 8 word list option \<Rightarrow> 8 word list \<Rightarrow> unit parser" where
  "put_v2_message buftype sz mcast extoffset xid langtag prlist buf =
     bindP (put_bytes [2]) (\<lambda>_.
     bindP (put_bytes [of_nat buftype]) (\<lambda>_.
     bindP (slp_PutUINT24 (of_nat sz)) (\<lambda>_.
     bindP (slp_PutUINT16
       ((if mcast then SLP_FLAG_MCAST else 0) OR (if buftype = SLP_FUNCT_SRVREG then SLP_FLAG_FRESH else 0))) (\<lambda>_.
     bindP (slp_PutUINT24 (if extoffset \<noteq> 0 then of_nat (extoffset + length langtag + 14) else 0)) (\<lambda>_.
     bindP (slp_PutUINT16 xid) (\<lambda>_.
     bindP (slp_PutUINT16 (of_nat (length langtag))) (\<lambda>_.
     bindP (put_bytes langtag) (\<lambda>_.
     bindP (case prlist of None \<Rightarrow> retP () | Some pr \<Rightarrow> PutL16String pr) (\<lambda>_.
     put_bytes buf)))))))))"

text \<open>One pass of the retransmission loop: the send buffer for the request body \<open>buf\<close>.\<close>

definition request_buffer ::
  "bool \<Rightarrow> (nat \<Rightarrow> 8 word) \<Rightarrow> SLPBuffer option \<Rightarrow> nat \<Rightarrow> bool \<Rightarrow> nat \<Rightarrow> 64 word \<Rightarrow> 8 word list
     \<Rightarrow> 8 word list \<Rightarrow> 8 word list \<Rightarrow> SLPBuffer option res" where
  "request_buffer ok junk sendbuf buftype mcast extoffset xid langtag prlist buf =
     (let has_pr = (buftype = SLP_FUNCT_SRVRQST \<or> buftype = SLP_FUNCT_ATTRRQST \<or> buftype = SLP_FUNCT_SRVTYPERQST);
          sz = CalcBufferSize False buftype (length langtag) (length prlist) (length buf) in
      case SLPBufferRealloc ok junk sendbuf sz of
        None \<Rightarrow> Inr None
      | Some b \<Rightarrow>
          bindR (put_v2_message buftype sz mcast extoffset xid langtag (if has_pr then Some prlist else None) buf b)
            (\<lambda>(_, b). Inr (Some b)))"

section \<open>What is written\<close>

lemma put_bytes_Nil: "bcur b \<le> length (bmem b) \<Longrightarrow> put_bytes [] b = Inr ((), b)"
  by (simp add: put_bytes_def)

lemma put_bytes_append: "bindP (put_bytes xs) (\<lambda>_. put_bytes ys) = put_bytes (xs @ ys)"
proof
  fix b
  show "bindP (put_bytes xs) (\<lambda>_. put_bytes ys) b = put_bytes (xs @ ys) b"
    by (auto simp: bindP_def put_bytes_def min_absorb1 min_absorb2 drop_Cons' add.assoc add.commute add.left_commute)
qed

lemma bindP_assoc: "bindP (bindP p f) g = bindP p (\<lambda>x. bindP (f x) g)"
proof
  fix b
  show "bindP (bindP p f) g b = bindP p (\<lambda>x. bindP (f x) g) b"
    by (cases "p b") (auto simp: bindP_def)
qed

lemma put_bytes_bind: "bindP (put_bytes xs) (\<lambda>_. bindP (put_bytes ys) f) = bindP (put_bytes (xs @ ys)) f"
  by (simp flip: put_bytes_append add: bindP_assoc)

lemma put_bytes_ret: "bindP (put_bytes xs) (\<lambda>_. retP ()) = put_bytes xs"
proof
  fix b
  show "bindP (put_bytes xs) (\<lambda>_. retP ()) b = put_bytes xs b" by (simp add: bindP_def put_bytes_def retP_def)
qed

lemma bindP_ret: "bindP p retP = p"
proof
  fix b
  show "bindP p retP b = p b" by (cases "p b") (auto simp: bindP_def retP_def)
qed

lemma ret_bindP: "bindP (retP x) f = f x"
  by (simp add: bindP_def retP_def)

lemmas put_norm = put_bytes_append put_bytes_bind put_bytes_ret bindP_ret

lemma PutL16String_bytes: "PutL16String s = put_bytes (encS s)"
  by (simp add: PutL16String_def slp_PutUINT16_def put_norm encS_def)

definition encUrl :: "16 word \<Rightarrow> 8 word list \<Rightarrow> 8 word list \<Rightarrow> 8 word list" where
  "encUrl lifetime url urlauth =
     [0] @ TO_UINT16 (ucast lifetime) @ encS url @ [if urlauth \<noteq> [] then 1 else 0] @ urlauth"

lemma slp_PutURLEntry_bytes: "slp_PutURLEntry lifetime url urlauth = put_bytes (encUrl lifetime url urlauth)"
  by (simp add: slp_PutURLEntry_def slp_PutUINT16_def put_norm encUrl_def encS_def)

lemma build_put: "length bs \<le> n \<Longrightarrow> build junk n (put_bytes bs) = Inr bs"
  by (simp add: build_def put_bytes_def alloc_array_def)

lemma ProcessSrvRqst_body_bytes:
  "ProcessSrvRqst_body junk ty sc pd spi = Inr (encS ty @ encS sc @ encS pd @ encS spi)"
  unfolding ProcessSrvRqst_body_def PutL16String_bytes put_norm by (rule build_put) simp

lemma ProcessAttrRqst_body_bytes:
  "ProcessAttrRqst_body junk isV1 url sc tg spi =
     Inr (encS url @ encS sc @ encS tg @ (if isV1 then [] else encS spi))"
  unfolding ProcessAttrRqst_body_def PutL16String_bytes put_norm by (auto intro!: build_put)

lemma length_encUrl: "length (encUrl l u a) = 6 + length u + length a"
  by (simp add: encUrl_def)

lemma ProcessSrvDeReg_body_bytes:
  "ProcessSrvDeReg_body junk sc url a = Inr (encS sc @ encUrl 0 url a @ encS [])"
  unfolding ProcessSrvDeReg_body_def PutL16String_bytes slp_PutURLEntry_bytes put_norm
  by (rule build_put) (simp add: length_encUrl SizeofURLEntry_def)

definition enc_pid :: "bool \<Rightarrow> 32 word \<Rightarrow> 8 word list" where
  "enc_pid watch pid =
     (if watch then TO_UINT16 (of_nat SLP_EXTENSION_ID_REG_PID_EXP) @ TO_UINT24 0 @ TO_UINT32 (ucast pid) else [])"

lemma put_then_ext:
  assumes "length B + length E \<le> n"
  shows "bindR (bindP (put_bytes B) (\<lambda>_. bindP (\<lambda>b. Inr (if w then bcur b else 0, b)) (\<lambda>x.
      bindP (if w then put_bytes E else retP ()) (\<lambda>_. retP x))) (alloc_array junk n))
      (\<lambda>(x, b). Inr (take (bcur b) (bmem b), x))
    = Inr (B @ (if w then E else []), if w then length B else 0)"
  using assms by (simp add: bindP_def put_bytes_def alloc_array_def retP_def)

lemma ProcessSrvReg_body_bytes:
  "ProcessSrvReg_body junk watch pid life url ty sc al ua aa =
     (let body = encUrl life url ua @ encS ty @ encS sc @ encS al @ [if aa \<noteq> [] then 1 else 0] @ aa
      in Inr (body @ enc_pid watch pid, if watch then length body else 0))"
proof -
  let ?body = "encUrl life url ua @ encS ty @ encS sc @ encS al @ [if aa \<noteq> [] then 1 else 0] @ aa"
  let ?n = "SizeofURLEntry (length url) (length ua) + 2 + length ty + 2 + length sc
              + 2 + length al + 1 + length aa + (if watch then 2 + 3 + 4 else 0)"
  have fit: "length ?body + length (enc_pid watch pid) \<le> ?n"
    by (auto simp: length_encUrl SizeofURLEntry_def enc_pid_def)
  have ext: "(if watch then
              bindP (slp_PutUINT16 (of_nat SLP_EXTENSION_ID_REG_PID_EXP)) (\<lambda>_.
              bindP (slp_PutUINT24 0) (\<lambda>_. slp_PutUINT32 (ucast pid)))
            else retP ()) = (if watch then put_bytes (enc_pid watch pid) else retP ())"
    by (simp add: slp_PutUINT16_def slp_PutUINT24_def slp_PutUINT32_def put_norm enc_pid_def)
  show ?thesis
    unfolding ProcessSrvReg_body_def Let_def ext PutL16String_bytes slp_PutURLEntry_bytes put_norm
    using put_then_ext[of ?body "if watch then enc_pid watch pid else []" ?n watch junk] fit
    by (auto simp: enc_pid_def split: if_splits)
qed

text \<open>The message as it goes on the wire.\<close>

definition wire_message ::
  "nat \<Rightarrow> bool \<Rightarrow> nat \<Rightarrow> 64 word \<Rightarrow> 8 word list \<Rightarrow> 8 word list option \<Rightarrow> 8 word list \<Rightarrow> 8 word list" where
  "wire_message buftype mcast extoffset xid langtag prlist buf =
     (let pr = (case prlist of None \<Rightarrow> [] | Some pr \<Rightarrow> encS pr);
          sz = 14 + length langtag + length pr + length buf in
      [2, of_nat buftype] @ TO_UINT24 (of_nat sz) @
      TO_UINT16 ((if mcast then SLP_FLAG_MCAST else 0) OR (if buftype = SLP_FUNCT_SRVREG then SLP_FLAG_FRESH else 0)) @
      TO_UINT24 (if extoffset \<noteq> 0 then of_nat (extoffset + length langtag + 14) else 0) @
      TO_UINT16 xid @ encS langtag @ pr @ buf)"

lemma length_wire_message:
  "length (wire_message ty mc ext xid lang pr buf) =
     14 + length lang + (case pr of None \<Rightarrow> 0 | Some p \<Rightarrow> 2 + length p) + length buf"
  by (simp add: wire_message_def Let_def split: option.splits)

abbreviation has_prlist :: "nat \<Rightarrow> bool" where
  "has_prlist buftype \<equiv>
     buftype = SLP_FUNCT_SRVRQST \<or> buftype = SLP_FUNCT_ATTRRQST \<or> buftype = SLP_FUNCT_SRVTYPERQST"

lemma CalcBufferSize_wire:
  "CalcBufferSize False ty (length lang) (length pr) (length buf) =
     length (wire_message ty mc ext xid lang (if has_prlist ty then Some pr else None) buf)"
  by (simp add: CalcBufferSize_def length_wire_message)

lemma put_v2_message_bytes:
  assumes "pr = (if has_prlist ty then Some prl else None)"
  shows "put_v2_message ty (length (wire_message ty mc ext xid lang pr buf)) mc ext xid lang pr buf =
     put_bytes (wire_message ty mc ext xid lang pr buf)"
proof -
  have "length (wire_message ty mc ext xid lang pr buf) =
      14 + length lang + length (case pr of None \<Rightarrow> [] | Some pr \<Rightarrow> encS pr) + length buf"
    by (simp add: length_wire_message split: option.splits)
  then show ?thesis
    unfolding put_v2_message_def PutL16String_bytes slp_PutUINT16_def slp_PutUINT24_def
    by (cases pr) (simp_all add: ret_bindP put_norm wire_message_def Let_def encS_def add.assoc del: of_nat_add of_nat_Suc)
qed

section \<open>Reading it back\<close>

lemma inp_prefix: "inp b = xs @ rest \<Longrightarrow> cslice (bmem b) (bcur b) (length xs) = xs"
  by (simp add: inp_def cslice_def)

lemma inp_advance: "inp b = xs @ rest \<Longrightarrow> inp (b\<lparr>bcur := bcur b + length xs\<rparr>) = rest"
proof -
  assume a: "inp b = xs @ rest"
  have "drop (bcur b + length xs) (bmem b) = drop (length xs) (inp b)" by (simp add: inp_def add.commute)
  then show ?thesis unfolding a by (simp add: inp_def)
qed

lemma get16_inp:
  "inp b = TO_UINT16 v @ rest \<Longrightarrow> bindP slp_GetUINT16 f b = f (ucast v) (b\<lparr>bcur := bcur b + 2\<rparr>)"
  using inp_prefix[of b "TO_UINT16 v" rest] slp_GetUINT16_at[of b v] by (simp add: bindP_def)

lemma get24_inp:
  "inp b = TO_UINT24 v @ rest \<Longrightarrow> bindP slp_GetUINT24 f b = f (ucast (take_bit 24 v)) (b\<lparr>bcur := bcur b + 3\<rparr>)"
  using inp_prefix[of b "TO_UINT24 v" rest] slp_GetUINT24_at[of b v] by (simp add: bindP_def)

lemma get32_inp:
  "inp b = TO_UINT32 v @ rest \<Longrightarrow> bindP slp_GetUINT32 f b = f (ucast v) (b\<lparr>bcur := bcur b + 4\<rparr>)"
  using inp_prefix[of b "TO_UINT32 v" rest] slp_GetUINT32_at[of b v] by (simp add: bindP_def)

lemma getbyte_inp: "inp b = x # rest \<Longrightarrow> bindP GetByte f b = f x (b\<lparr>bcur := bcur b + 1\<rparr>)"
  using cslice_nth[of "bmem b" "bcur b" 1 "[x]" 0]
  by (simp add: bindP_def GetByte_def inp_def cslice_def)

lemma unat_ucast24: "n < 2 ^ 24 \<Longrightarrow> unat (ucast (take_bit 24 (of_nat n :: 64 word)) :: 32 word) = n"
  by (simp add: unsigned_ucast_eq unsigned_take_bit_eq unsigned_of_nat take_bit_nat_eq_self)

lemma unat_ucast16: "n < 65536 \<Longrightarrow> unat (ucast (of_nat n :: 64 word) :: 16 word) = n"
  by (simp add: unsigned_ucast_eq unsigned_of_nat take_bit_nat_eq_self)

text \<open>A header read back from its bytes, whatever follows it.\<close>

lemma header_read:
  assumes m: "bmem b = [2, of_nat ty] @ TO_UINT24 (of_nat (bend b)) @ TO_UINT16 fl @ TO_UINT24 (of_nat eo) @ TO_UINT16 xid
      @ encS lang @ rest"
    and "18 \<le> bend b" "bend b < 2 ^ 24" "bcur b = 0" "1 \<le> ty" "ty \<le> 11" "length lang < 65536"
    and "eo \<le> bend b" "14 + length lang \<le> bend b" "(ucast fl :: 16 word) AND 0x1fff = 0"
  shows "\<exists>h. SLPv2MessageParseHeader b = Inr (h, b\<lparr>bcur := 14 + length lang\<rparr>)
    \<and> hd_version h = 2 \<and> hd_functionid h = ty \<and> hd_length h = bend b \<and> hd_xid h = ucast xid
    \<and> hd_extoffset h = eo \<and> wbytes (bmem b) (hd_langtag h) = lang \<and> hd_flags h = ucast fl"
proof -
  have d: "drop 0 (bmem b) = 2 # drop 1 (bmem b)" "drop 1 (bmem b) = of_nat ty # drop 2 (bmem b)"
    "drop 2 (bmem b) = TO_UINT24 (of_nat (bend b)) @ drop 5 (bmem b)"
    "drop 5 (bmem b) = TO_UINT16 fl @ drop 7 (bmem b)"
    "drop 7 (bmem b) = TO_UINT24 (of_nat eo) @ drop 10 (bmem b)"
    "drop 10 (bmem b) = TO_UINT16 xid @ drop 12 (bmem b)"
    "drop 12 (bmem b) = TO_UINT16 (of_nat (length lang)) @ drop 14 (bmem b)"
    "drop 14 (bmem b) = lang @ rest"
    unfolding m encS_def by simp_all
  have ty: "unat (of_nat ty :: 8 word) = ty" using assms(6) by (simp add: unsigned_of_nat take_bit_nat_eq_self)
  have S: "bindP GetByte f b = f 2 (b\<lparr>bcur := 1\<rparr>)"
    "bindP GetByte f1 (b\<lparr>bcur := 1\<rparr>) = f1 (of_nat ty) (b\<lparr>bcur := 2\<rparr>)"
    "bindP slp_GetUINT24 f2 (b\<lparr>bcur := 2\<rparr>) = f2 (ucast (take_bit 24 (of_nat (bend b) :: 64 word))) (b\<lparr>bcur := 5\<rparr>)"
    "bindP slp_GetUINT16 f3 (b\<lparr>bcur := 5\<rparr>) = f3 (ucast fl) (b\<lparr>bcur := 7\<rparr>)"
    "bindP slp_GetUINT24 f4 (b\<lparr>bcur := 7\<rparr>) = f4 (ucast (take_bit 24 (of_nat eo :: 64 word))) (b\<lparr>bcur := 10\<rparr>)"
    "bindP slp_GetUINT16 f5 (b\<lparr>bcur := 10\<rparr>) = f5 (ucast xid) (b\<lparr>bcur := 12\<rparr>)"
    "bindP slp_GetUINT16 f6 (b\<lparr>bcur := 12\<rparr>) = f6 (ucast (of_nat (length lang) :: 64 word)) (b\<lparr>bcur := 14\<rparr>)"
    for f f1 f2 f3 f4 f5 f6
    using getbyte_inp[of b 2 "drop 1 (bmem b)" f] getbyte_inp[of "b\<lparr>bcur := 1\<rparr>" "of_nat ty" "drop 2 (bmem b)" f1]
      get24_inp[of "b\<lparr>bcur := 2\<rparr>" "of_nat (bend b)" "drop 5 (bmem b)" f2]
      get16_inp[of "b\<lparr>bcur := 5\<rparr>" fl "drop 7 (bmem b)" f3]
      get24_inp[of "b\<lparr>bcur := 7\<rparr>" "of_nat eo" "drop 10 (bmem b)" f4]
      get16_inp[of "b\<lparr>bcur := 10\<rparr>" xid "drop 12 (bmem b)" f5]
      get16_inp[of "b\<lparr>bcur := 12\<rparr>" "of_nat (length lang)" "drop 14 (bmem b)" f6] d assms(4)
    by (simp_all add: inp_def numeral_2_eq_2)
  have strptr: "bindP (slp_GetStrPtr n) f c = f (bcur c) (c\<lparr>bcur := bcur c + n\<rparr>)" for n c and f :: "nat \<Rightarrow> 'x parser"
    by (simp add: bindP_def slp_GetStrPtr_def)
  have endp: "bcur c \<le> bend c \<Longrightarrow> bindP endP f c = f () c" for c and f :: "unit \<Rightarrow> 'x parser"
    by (simp add: bindP_def endP_def)
  have run: "SLPv2MessageParseHeader b = Inr (\<lparr>hd_version = 2, hd_functionid = ty, hd_length = bend b,
      hd_flags = ucast fl, hd_encoding = 0, hd_extoffset = eo, hd_xid = ucast xid,
      hd_langtag = \<lparr>wlen = length lang, wptr = Some 14\<rparr>\<rparr>, b\<lparr>bcur := 14 + length lang\<rparr>)"
    using assms(2,3,5-10)
    unfolding SLPv2MessageParseHeader_def parse_L16_unchecked_def bindP_assoc S strptr ret_bindP
    by (simp add: endp ty unat_ucast24 unat_ucast16 S strptr ret_bindP) (simp add: retP_def funct_defs)
  have "cslice (bmem b) 14 (length lang) = lang" unfolding cslice_def d(8) by simp
  with run show ?thesis by (auto simp: wbytes_def)
qed

lemma header_enc:
  assumes "bmem b = wire_message ty mc ext xid lang pr buf @ extra"
    and "bend b = length (wire_message ty mc ext xid lang pr buf)" "18 \<le> bend b" "bend b < 2 ^ 24" "bcur b = 0"
    and "1 \<le> ty" "ty \<le> 11" "length lang < 65536" "ext = 0 \<or> ext + length lang + 14 \<le> bend b"
  shows "\<exists>h. SLPv2MessageParseHeader b = Inr (h, b\<lparr>bcur := 14 + length lang\<rparr>)
    \<and> hd_version h = 2 \<and> hd_functionid h = ty \<and> hd_length h = bend b \<and> hd_xid h = ucast xid
    \<and> hd_extoffset h = (if ext = 0 then 0 else ext + length lang + 14)
    \<and> wbytes (bmem b) (hd_langtag h) = lang
    \<and> hd_flags h = (if mc then 0x2000 else 0) OR (if ty = SLP_FUNCT_SRVREG then 0x4000 else 0)"
proof -
  define prb where "prb = (case pr of None \<Rightarrow> [] | Some pr \<Rightarrow> encS pr)"
  define fl where "fl = ((if mc then SLP_FLAG_MCAST else 0) OR (if ty = SLP_FUNCT_SRVREG then SLP_FLAG_FRESH else 0))"
  define eo where "eo = (if ext \<noteq> 0 then ext + length lang + 14 else 0)"
  have e: "bend b = 14 + length lang + length prb + length buf"
    using assms(2) by (simp add: length_wire_message prb_def split: option.splits)
  have eo_w: "(if ext \<noteq> 0 then of_nat (ext + length lang + 14) else 0 :: 64 word) = of_nat eo"
    by (simp add: eo_def)
  have m: "bmem b = [2, of_nat ty] @ TO_UINT24 (of_nat (bend b)) @ TO_UINT16 fl @ TO_UINT24 (of_nat eo) @ TO_UINT16 xid
      @ encS lang @ prb @ buf @ extra"
    unfolding assms(1) wire_message_def Let_def prb_def[symmetric] fl_def[symmetric] eo_w e by simp
  have fl0: "(ucast fl :: 16 word) = (if mc then 0x2000 else 0) OR (if ty = SLP_FUNCT_SRVREG then 0x4000 else 0)"
    by (simp add: fl_def SLP_FLAG_MCAST_def SLP_FLAG_FRESH_def)
  have fl1: "(ucast fl :: 16 word) AND 0x1fff = 0"
    unfolding fl0 by simp
  have eo_le: "eo \<le> bend b" "14 + length lang \<le> bend b" using assms(9) e by (auto simp: eo_def)
  from header_read[OF m assms(3-8) eo_le fl1] show ?thesis by (auto simp: eo_def fl0)
qed

section \<open>A registration read back\<close>

lemma bindP_pos: "bindP (slp_GetStrPtr 0) f c = f (bcur c) c"
  by (simp add: bindP_def slp_GetStrPtr_def)

lemma parse_autharray_none:
  "inp b = 0 # rest \<Longrightarrow> bindP (parse_autharray mok) f b = f [] (b\<lparr>bcur := bcur b + 1\<rparr>)"
  unfolding parse_autharray_def bindP_assoc by (simp add: getbyte_inp ret_bindP)

lemma inp_nth: "inp b = xs @ y # ys \<Longrightarrow> bcur b + length xs < length (bmem b) \<and> bmem b ! (bcur b + length xs) = y"
proof -
  assume "inp b = xs @ y # ys"
  then have a: "drop (bcur b) (bmem b) = xs @ y # ys" by (simp add: inp_def)
  then have "length xs < length (bmem b) - bcur b" by (metis length_append length_drop length_Cons less_add_Suc1 add_Suc_right)
  then show ?thesis using a by (metis less_diff_conv add.commute nth_append_length nth_drop less_imp_le_nat le_add1 le_trans)
qed

text \<open>An unsigned URL entry: the terminator is written over the count byte, which is 0 already.\<close>

lemma bind_UrlEntry_enc:
  assumes "inp b = encUrl life url [] @ rest" "length url < 65536" "bcur b + 6 + length url \<le> bend b"
  obtains u where "bindP (v2ParseUrlEntry mok) f b = f u (b\<lparr>bcur := bcur b + 6 + length url\<rparr>)"
    "ue_lifetime u = unat life" "wbytes (bmem b) (ue_url u) = url" "ue_autharray u = []"
    "inp (b\<lparr>bcur := bcur b + 6 + length url\<rparr>) = rest" "ue_opaque u = bcur b" "ue_opaquelen u = 6 + length url"
proof -
  let ?b1 = "b\<lparr>bcur := bcur b + 1\<rparr>" and ?b3 = "b\<lparr>bcur := bcur b + 3\<rparr>"
    and ?b4 = "b\<lparr>bcur := bcur b + 5 + length url\<rparr>" and ?b5 = "b\<lparr>bcur := bcur b + 6 + length url\<rparr>"
  have i0: "inp b = 0 # TO_UINT16 (ucast life) @ encS url @ 0 # rest" using assms(1) by (simp add: encUrl_def)
  have i1: "inp ?b1 = TO_UINT16 (ucast life) @ encS url @ 0 # rest"
    using inp_advance[of b "[0]"] i0 by simp
  have i3: "inp ?b3 = encS url @ 0 # rest"
    using inp_advance[OF i1] by (simp add: numeral_3_eq_3 numeral_2_eq_2)
  let ?s = "\<lparr>wlen = length url, wptr = Some (bcur b + 5)\<rparr>"
  obtain s where s: "parse_L16 ?b3 = Inr (s, ?b4)" "wbytes (bmem b) s = url" "inp ?b4 = 0 # rest"
    using parse_L16_enc[OF i3 assms(2)] assms(3) by (auto simp: inp_def algebra_simps)
  have s_eq: "wptr s = Some (bcur b + 5)" "wlen s = length url"
    using s(1) get16_inp[of ?b3 "of_nat (length url)" "url @ 0 # rest" retP] i3 assms(2)
    by (auto simp: parse_L16_def parse_L16_unchecked_def bindP_def retP_def slp_GetStrPtr_def endP_def encS_def
        res_iff unat_ucast16 split: prod.splits sum.splits)
  have z: "bcur b + 5 + length url < length (bmem b)" "bmem b ! (bcur b + 5 + length url) = 0"
    using inp_nth[of ?b4 "[]"] s(3) by auto
  have i5: "inp ?b5 = rest" using inp_advance[of ?b4 "[0]" rest] s(3) by (simp add: algebra_simps)
  have tm: "terminate s ?b5 = Inr ((), ?b5)"
    using z s_eq by (simp add: terminate_def PutNul_def list_update_same_conv)
  have life: "unat (ucast (ucast life :: 64 word) :: 16 word) = unat life"
  proof -
    have "ucast (ucast life :: 64 word) = life" by (rule bit_word_eqI) (auto simp: bit_simps)
    then show ?thesis by simp
  qed
  have need: "bindP (needP 6) g b = g () b" for g :: "unit \<Rightarrow> SLPUrlEntry parser"
    by (rule needP_enough) (use assms(3) in simp)
  obtain u where u: "v2ParseUrlEntry mok b = Inr (u, ?b5)" "ue_lifetime u = unat life" "ue_url u = s" "ue_autharray u = []"
    "ue_opaque u = bcur b" "ue_opaquelen u = 6 + length url"
  proof -
    have steps: "bindP GetByte f1 b = f1 0 ?b1" "bindP slp_GetUINT16 f2 ?b1 = f2 (ucast (ucast life :: 64 word)) ?b3"
      "bindP parse_L16 f3 ?b3 = f3 s ?b4" "bindP (parse_autharray mok) f4 ?b4 = f4 [] ?b5"
      "bindP (terminate s) f5 ?b5 = f5 () ?b5"
      for f1 :: "_ \<Rightarrow> SLPUrlEntry parser" and f2 :: "_ \<Rightarrow> SLPUrlEntry parser" and f3 :: "_ \<Rightarrow> SLPUrlEntry parser"
        and f4 :: "_ \<Rightarrow> SLPUrlEntry parser" and f5 :: "_ \<Rightarrow> SLPUrlEntry parser"
      using getbyte_inp[OF i0, of f1] get16_inp[OF i1, of f2] s(1) parse_autharray_none[OF s(3), of mok f4] tm
      by (simp_all add: bindP_def[of parse_L16] bindP_def[of "terminate s"] ac_simps numeral_3_eq_3)
    have "v2ParseUrlEntry mok b = Inr (\<lparr>ue_reserved = 0, ue_lifetime = unat life, ue_url = s,
           ue_autharray = [], ue_opaquelen = bcur b + 6 + length url - bcur b, ue_opaque = bcur b\<rparr>, ?b5)"
      unfolding v2ParseUrlEntry_def need bindP_pos steps by (simp add: retP_def life)
    then show ?thesis using that by simp
  qed
  show ?thesis
    using that[of u] u s(2) i5 by (simp add: bindP_def)
qed

lemma v2ParseSrvReg_enc:
  assumes "inp b = encUrl life url [] @ encS ty @ encS sc @ encS al @ [0] @ rest"
    and "length url < 65536" "length ty < 65536" "length sc < 65536" "length al < 65536"
    and "bcur b + length (encUrl life url [] @ encS ty @ encS sc @ encS al @ [0]) \<le> bend b"
  obtains r where
    "v2ParseSrvReg mok b = Inr (r, b\<lparr>bcur := bcur b + length (encUrl life url [] @ encS ty @ encS sc @ encS al @ [0])\<rparr>)"
    "ue_lifetime (rg_urlentry r) = unat life" "rg_pid r = 0" "rg_autharray r = []" "ue_autharray (rg_urlentry r) = []"
    "ue_opaque (rg_urlentry r) = bcur b" "ue_opaquelen (rg_urlentry r) = 6 + length url"
    "map (wbytes (bmem b)) [ue_url (rg_urlentry r), rg_srvtype r, rg_scopelist r, rg_attrlist r] = [url, ty, sc, al]"
proof -
  let ?c1 = "bcur b + 6 + length url"
  let ?c2 = "?c1 + 2 + length ty"
  let ?c3 = "?c2 + 2 + length sc"
  let ?c4 = "?c3 + 2 + length al"
  have le: "?c1 \<le> bend b" "?c2 \<le> bend b" "?c3 \<le> bend b" "?c4 + 1 \<le> bend b"
    using assms(6) by (simp_all add: length_encUrl)
  let ?g5 = "\<lambda>u s1 s2 s3 aa. retP \<lparr>rg_urlentry = u, rg_srvtype = s1, rg_scopelist = s2, rg_attrlist = s3,
      rg_autharray = aa, rg_pid = 0\<rparr>"
  let ?g4 = "\<lambda>u s1 s2 s3. bindP (parse_autharray mok) (?g5 u s1 s2 s3)"
  let ?g3 = "\<lambda>u s1 s2. bindP parse_L16 (?g4 u s1 s2)"
  let ?g2 = "\<lambda>u s1. bindP parse_L16 (?g3 u s1)"
  let ?g1 = "\<lambda>u. bindP parse_L16 (?g2 u)"
  obtain u where u: "bindP (v2ParseUrlEntry mok) ?g1 b = ?g1 u (b\<lparr>bcur := ?c1\<rparr>)"
    "ue_lifetime u = unat life" "wbytes (bmem b) (ue_url u) = url" "ue_autharray u = []"
    "inp (b\<lparr>bcur := ?c1\<rparr>) = encS ty @ encS sc @ encS al @ [0] @ rest"
    "ue_opaque u = bcur b" "ue_opaquelen u = 6 + length url"
    using bind_UrlEntry_enc[OF assms(1,2) le(1), of mok ?g1] by auto
  obtain s1 where 1: "?g1 u (b\<lparr>bcur := ?c1\<rparr>) = ?g2 u s1 (b\<lparr>bcur := ?c2\<rparr>)" "wbytes (bmem b) s1 = ty"
    "inp (b\<lparr>bcur := ?c2\<rparr>) = encS sc @ encS al @ [0] @ rest"
    using bind_L16_enc[OF u(5) assms(3), of "?g2 u"] le(2) by auto
  obtain s2 where 2: "?g2 u s1 (b\<lparr>bcur := ?c2\<rparr>) = ?g3 u s1 s2 (b\<lparr>bcur := ?c3\<rparr>)" "wbytes (bmem b) s2 = sc"
    "inp (b\<lparr>bcur := ?c3\<rparr>) = encS al @ [0] @ rest"
    using bind_L16_enc[OF 1(3) assms(4), of "?g3 u s1"] le(3) by auto
  obtain s3 where 3: "?g3 u s1 s2 (b\<lparr>bcur := ?c3\<rparr>) = ?g4 u s1 s2 s3 (b\<lparr>bcur := ?c4\<rparr>)" "wbytes (bmem b) s3 = al"
    "inp (b\<lparr>bcur := ?c4\<rparr>) = 0 # rest"
    using bind_L16_enc[OF 2(3) assms(5), of "?g4 u s1 s2"] le(4) by auto
  have 4: "?g4 u s1 s2 s3 (b\<lparr>bcur := ?c4\<rparr>) = ?g5 u s1 s2 s3 [] (b\<lparr>bcur := ?c4 + 1\<rparr>)"
    using parse_autharray_none[OF 3(3), of mok "?g5 u s1 s2 s3"] by simp
  have end_eq: "?c4 + 1 = bcur b + length (encUrl life url [] @ encS ty @ encS sc @ encS al @ [0])"
    by (simp add: length_encUrl)
  have "v2ParseSrvReg mok b = ?g5 u s1 s2 s3 [] (b\<lparr>bcur := ?c4 + 1\<rparr>)"
    unfolding v2ParseSrvReg_def u(1) 1(1) 2(1) 3(1) 4 ..
  with u 1 2 3 end_eq show ?thesis
    by (intro that[of "\<lparr>rg_urlentry = u, rg_srvtype = s1, rg_scopelist = s2, rg_attrlist = s3, rg_autharray = [], rg_pid = 0\<rparr>"])
       (simp_all add: retP_def)
qed

text \<open>The process-id extension at the end of the message.\<close>

lemma ext_pid:
  assumes "drop off (bmem b) = enc_pid True pid @ rest" "0 < off" "off + 9 \<le> bend b" "10 < bufsz"
  shows "\<exists>c. ext_loop SLP_FUNCT_SRVREG bufsz off (SrvReg r) b = Inr (SrvReg (r\<lparr>rg_pid := pid\<rparr>), b\<lparr>bcur := c\<rparr>)"
proof -
  let ?id = "of_nat SLP_EXTENSION_ID_REG_PID_EXP :: 64 word"
  have i0: "inp (b\<lparr>bcur := off\<rparr>) = TO_UINT16 ?id @ TO_UINT24 0 @ TO_UINT32 (ucast pid) @ rest"
    using assms(1) by (simp add: inp_def enc_pid_def)
  have i2: "inp (b\<lparr>bcur := off + 2\<rparr>) = TO_UINT24 0 @ TO_UINT32 (ucast pid) @ rest"
    using inp_advance[OF i0] by simp
  have i5: "inp (b\<lparr>bcur := off + 5\<rparr>) = TO_UINT32 (ucast pid) @ rest"
    using inp_advance[OF i2] by (simp add: add.commute)
  have pid: "ucast (ucast pid :: 64 word) = pid" by (rule bit_word_eqI) (auto simp: bit_simps)
  have g: "slp_GetUINT16 (b\<lparr>bcur := off\<rparr>) = Inr (ucast ?id, b\<lparr>bcur := off + 2\<rparr>)"
    "slp_GetUINT24 (b\<lparr>bcur := off + 2\<rparr>) = Inr (0, b\<lparr>bcur := off + 5\<rparr>)"
    "slp_GetUINT32 (b\<lparr>bcur := off + 5\<rparr>) = Inr (pid, b\<lparr>bcur := off + 9\<rparr>)"
    using get16_inp[OF i0, of retP] get24_inp[OF i2, of retP] get32_inp[OF i5, of retP]
    by (simp_all add: bindP_ret, simp_all add: retP_def pid)
  have id: "unat (ucast ?id :: 16 word) = SLP_EXTENSION_ID_REG_PID_EXP"
    by (simp add: SLP_EXTENSION_ID_REG_PID_EXP_def)
  have "ext_case SLP_FUNCT_SRVREG SLP_EXTENSION_ID_REG_PID_EXP (SrvReg r) (b\<lparr>bcur := off + 5\<rparr>)
      = Inr (SrvReg (r\<lparr>rg_pid := pid\<rparr>), b\<lparr>bcur := off + 9\<rparr>)"
    using assms(3) g(3) by (simp add: ext_case_def bindP_def retP_def set_pid_def)
  then have "ext_loop SLP_FUNCT_SRVREG bufsz off (SrvReg r) b
      = ext_loop SLP_FUNCT_SRVREG (bufsz - 5) 0 (SrvReg (r\<lparr>rg_pid := pid\<rparr>)) (b\<lparr>bcur := off + 9\<rparr>)"
    using assms(2-4) g(1,2) id by (subst ext_loop.simps) simp
  then show ?thesis by (subst (asm) (2) ext_loop.simps) auto
qed

lemma wire_message_parts:
  "\<exists>H. length H = 14 \<and> wire_message ty mc ext xid lang pr buf = H @ lang @ (case pr of None \<Rightarrow> [] | Some p \<Rightarrow> encS p) @ buf"
  by (rule exI[of _ "take 14 (wire_message ty mc ext xid lang pr buf)"])
     (simp add: wire_message_def Let_def encS_def numeral_eq_Suc)

text \<open>
  What \<open>ProcessSrvReg\<close> builds and \<open>NetworkRqstRply\<close> frames, the parser
  reads back.  The computed buffer sizes are enough, so nothing is written
  outside the send buffer; and in any buffer that holds the message, whatever
  follows it, the registration is parsed with the header, lifetime and strings
  that were given to the client, and the process id exactly when it is watched.
\<close>

lemma SrvReg_roundtrip:
  assumes "length url < 65536" "length ty < 65536" "length sc < 65536" "length al < 65536" "length lang < 65536"
    and "ProcessSrvReg_body junk watch pid life url ty sc al [] [] = Inr (body, extoffset)"
    and "14 + length lang + length body < 2 ^ 24"
  shows "\<exists>out. request_buffer True junk2 None SLP_FUNCT_SRVREG mc extoffset xid lang prl body = Inr (Some out)
    \<and> bcur out = bend out \<and> bend out = 14 + length lang + length body \<and> length (bmem out) = bend out + 1
    \<and> take (6 + length url) (drop (14 + length lang) (take (bend out) (bmem out))) = encUrl life url []
    \<and> (\<forall>b extra. bmem b = take (bend out) (bmem out) @ extra \<and> bend b = bend out \<and> bcur b = 0 \<longrightarrow>
         (\<exists>h r b'. SLPv2MessageParseBuffer mok b = Inr ((h, SrvReg r), b')
           \<and> hd_version h = 2 \<and> hd_functionid h = SLP_FUNCT_SRVREG \<and> hd_length h = bend out \<and> hd_xid h = ucast xid
           \<and> hd_flags h = (if mc then 0x6000 else 0x4000)
           \<and> wbytes (bmem b) (hd_langtag h) = lang
           \<and> ue_lifetime (rg_urlentry r) = unat life \<and> ue_autharray (rg_urlentry r) = []
           \<and> ue_opaque (rg_urlentry r) = 14 + length lang \<and> ue_opaquelen (rg_urlentry r) = 6 + length url
           \<and> map (wbytes (bmem b)) [ue_url (rg_urlentry r), rg_srvtype r, rg_scopelist r, rg_attrlist r]
               = [url, ty, sc, al]
           \<and> rg_pid r = (if watch then pid else 0) \<and> bmem b' = bmem b \<and> bend b' = bend b))"
proof -
  let ?B = "encUrl life url [] @ encS ty @ encS sc @ encS al @ [0]"
  have body: "body = ?B @ enc_pid watch pid" "extoffset = (if watch then length ?B else 0)"
    using assms(6) by (auto simp: ProcessSrvReg_body_bytes Let_def split: if_splits)
  let ?msg = "wire_message SLP_FUNCT_SRVREG mc extoffset xid lang None body"
  have sz: "CalcBufferSize False SLP_FUNCT_SRVREG (length lang) (length prl) (length body) = length ?msg"
    using CalcBufferSize_wire[of SLP_FUNCT_SRVREG lang prl body mc extoffset xid] by (simp add: funct_defs)
  have len: "length ?msg = 14 + length lang + length body" by (simp add: length_wire_message)
  obtain b0 where b0: "SLPBufferRealloc True junk2 None (length ?msg) = Some b0"
    by (simp add: SLPBufferRealloc_def SLPBufferAlloc_def)
  then have b0_ok: "bcur b0 = 0" "bend b0 = length ?msg" "length (bmem b0) = length ?msg + 1"
    by (auto simp: SLPBufferRealloc_def SLPBufferAlloc_def)
  obtain out where out: "put_bytes ?msg b0 = Inr ((), out)"
    using put_bytes_fits[of b0 ?msg] b0_ok by auto
  note at = put_bytes_at[OF out]
  have run: "request_buffer True junk2 None SLP_FUNCT_SRVREG mc extoffset xid lang prl body = Inr (Some out)"
    using b0 out put_v2_message_bytes[of None SLP_FUNCT_SRVREG prl mc extoffset xid lang body]
    by (simp add: request_buffer_def Let_def sz, simp add: funct_defs)
  have taken: "take (bend out) (bmem out) = ?msg"
    using at(4) b0_ok at(3) by (simp add: cslice_def)
  have end_out: "bend out = length ?msg" using at(3) b0_ok by simp
  have "\<exists>h r b'. SLPv2MessageParseBuffer mok b = Inr ((h, SrvReg r), b')
           \<and> hd_version h = 2 \<and> hd_functionid h = SLP_FUNCT_SRVREG \<and> hd_length h = bend out \<and> hd_xid h = ucast xid
           \<and> hd_flags h = (if mc then 0x6000 else 0x4000)
           \<and> wbytes (bmem b) (hd_langtag h) = lang
           \<and> ue_lifetime (rg_urlentry r) = unat life \<and> ue_autharray (rg_urlentry r) = []
           \<and> ue_opaque (rg_urlentry r) = 14 + length lang \<and> ue_opaquelen (rg_urlentry r) = 6 + length url
           \<and> map (wbytes (bmem b)) [ue_url (rg_urlentry r), rg_srvtype r, rg_scopelist r, rg_attrlist r]
               = [url, ty, sc, al]
           \<and> rg_pid r = (if watch then pid else 0) \<and> bmem b' = bmem b \<and> bend b' = bend b"
    if b: "bmem b = ?msg @ extra" "bend b = length ?msg" "bcur b = 0" for b extra
  proof -
    let ?b1 = "b\<lparr>bcur := 14 + length lang\<rparr>"
    have big: "18 \<le> bend b" using b(2) len body(1) by (simp add: length_encUrl)
    have ext_le: "extoffset = 0 \<or> extoffset + length lang + 14 \<le> bend b"
      using b(2) len body by auto
    obtain h where h: "SLPv2MessageParseHeader b = Inr (h, ?b1)" "hd_functionid h = SLP_FUNCT_SRVREG"
      "hd_length h = bend b" "hd_xid h = ucast xid" "wbytes (bmem b) (hd_langtag h) = lang"
      "hd_extoffset h = (if extoffset = 0 then 0 else extoffset + length lang + 14)"
      "hd_version h = 2" "hd_flags h = (if mc then 0x2000 else 0) OR (if SLP_FUNCT_SRVREG = SLP_FUNCT_SRVREG then 0x4000 else 0)"
      using header_enc[OF b(1,2) big _ b(3) _ _ assms(5) ext_le] assms(7) len b(2) by (auto simp: funct_defs)
    have fl: "hd_flags h = (if mc then 0x6000 else 0x4000)" using h(8) by simp
    have mem: "drop (14 + length lang) (bmem b) = body @ extra"
      using wire_message_parts[of SLP_FUNCT_SRVREG mc extoffset xid lang None body] b(1) by auto
    then have inp: "inp ?b1 = encUrl life url [] @ encS ty @ encS sc @ encS al @ [0] @ enc_pid watch pid @ extra"
      by (simp add: inp_def body(1))
    have room: "bcur ?b1 + length ?B \<le> bend ?b1" using b(2) len body(1) by simp
    let ?b2 = "?b1\<lparr>bcur := bcur ?b1 + length ?B\<rparr>"
    obtain r where r: "v2ParseSrvReg mok ?b1 = Inr (r, ?b2)"
      "ue_lifetime (rg_urlentry r) = unat life" "rg_pid r = 0" "rg_autharray r = []" "ue_autharray (rg_urlentry r) = []"
      "ue_opaque (rg_urlentry r) = 14 + length lang" "ue_opaquelen (rg_urlentry r) = 6 + length url"
      "map (wbytes (bmem ?b1)) [ue_url (rg_urlentry r), rg_srvtype r, rg_scopelist r, rg_attrlist r] = [url, ty, sc, al]"
      by (rule v2ParseSrvReg_enc[OF inp assms(1-4) room, of mok]) simp
    define b2 where "b2 = ?b2"
    note r = r(1)[folded b2_def] b2_def r(2,3) r(8)[simplified] r(5-7)
    have pb: "parse_body mok SLP_FUNCT_SRVREG ?b1 = Inr (SrvReg r, b2)"
      using r(1) by (simp add: parse_body_def mapP_def bindP_def retP_def funct_defs)
    show ?thesis
    proof (cases watch)
      case False
      with h body(2) have "hd_extoffset h = 0" by simp
      with h(1-7) fl pb r False b(2) end_out show ?thesis
        by (simp add: SLPv2MessageParseBuffer_def bindP_def retP_def)
    next
      case True
      let ?off = "length ?B + length lang + 14"
      have off: "hd_extoffset h = ?off" using True h(6) body(2) by simp
      have "drop ?off (bmem b2) = drop (length ?B) (drop (14 + length lang) (bmem b))"
        by (simp add: r(2) algebra_simps)
      also have "\<dots> = enc_pid True pid @ extra" unfolding mem body(1) using True by simp
      finally have d: "drop ?off (bmem b2) = enc_pid True pid @ extra" .
      have "?off + 9 \<le> bend b2" using b(2) len body(1) True r(2) by (simp add: enc_pid_def)
      moreover have "(10 :: int) < int (bend b2)" using calculation by linarith
      ultimately obtain c where
        "ext_loop SLP_FUNCT_SRVREG (int (bend b2)) ?off (SrvReg r) b2 = Inr (SrvReg (r\<lparr>rg_pid := pid\<rparr>), b2\<lparr>bcur := c\<rparr>)"
        using ext_pid[OF d] by fastforce
      with h(1-7) fl pb r True b(2) end_out off show ?thesis
        by (simp add: SLPv2MessageParseBuffer_def bindP_def retP_def v2ParseExtension_def)
    qed
  qed
  moreover have "take (6 + length url) (drop (14 + length lang) ?msg) = encUrl life url []"
    using wire_message_parts[of SLP_FUNCT_SRVREG mc extoffset xid lang None body] body(1) length_encUrl[of life url "[]"] by auto
  ultimately show ?thesis using run at b0_ok taken end_out len by auto
qed

end
