(* ===== verification/Libslp_Escape.thy ===== *)
theory Libslp_Escape
  imports SLP_Prelude
begin

text \<open>
  The client's routines on attribute text, \<open>SLPEscape\<close>, \<open>SLPUnescape\<close> and
  \<open>SLPParseAttrs\<close> of \<open>libslp/libslp_parse.c\<close>.  The output buffer is filled from
  its start through a pointer that only advances, so it is the characters written
  so far and a capacity; a write beyond the capacity is \<open>OutOfBounds\<close>.  The input
  of \<open>SLPUnescape\<close>, which reads ahead, is the object in memory with its
  terminator; the other routines do not read behind the terminator.
\<close>

unbundle bit_operations_syntax

section \<open>The routines\<close>

text \<open>The codes of the interface are negative numbers; the model has their absolute values.\<close>

definition API_PARSE_ERROR :: nat where "API_PARSE_ERROR = 2"
definition API_MEMORY_ALLOC_FAILED :: nat where "API_MEMORY_ALLOC_FAILED = 21"

abbreviation BACKSLASH :: char where "BACKSLASH \<equiv> CHR 0x5C"

definition ATTRIBUTE_RESERVE_STRING :: string where
  "ATTRIBUTE_RESERVE_STRING = ''(),'' @ [BACKSLASH] @ ''!<=>~''"

definition ATTRIBUTE_BAD_TAG :: string where
  "ATTRIBUTE_BAD_TAG = [CHR 0x0D, CHR 0x0A, CHR 0x09, CHR ''_'']"

definition reserved_char :: "char \<Rightarrow> bool" where
  "reserved_char c \<longleftrightarrow>
     c \<in> set ATTRIBUTE_RESERVE_STRING \<or> (0 \<le> schar c \<and> schar c \<le> 0x1F) \<or> schar c = 0x7F"

definition hex_char :: "nat \<Rightarrow> char" where
  "hex_char d = (if d \<le> 9 then char_of (d + 48) else char_of (d + 65 - 0x0A))"

definition put_char :: "nat \<Rightarrow> string \<Rightarrow> char \<Rightarrow> string res" where
  "put_char cap out c = (if length out < cap then Inr (out @ [c]) else Inl OutOfBounds)"

fun SLPEscape_loop :: "nat \<Rightarrow> string \<Rightarrow> string \<Rightarrow> string res" where
  "SLPEscape_loop cap out [] = bindR (put_char cap out NUL) (\<lambda>_. Inr out)"
| "SLPEscape_loop cap out (c # s) =
     (if reserved_char c
      then bindR (put_char cap out BACKSLASH) (\<lambda>out.
           bindR (put_char cap out (hex_char ((uchar c AND 0xF0) div 0x0F))) (\<lambda>out.
           bindR (put_char cap out (hex_char (uchar c AND 0x0F))) (\<lambda>out. SLPEscape_loop cap out s)))
      else bindR (put_char cap out c) (\<lambda>out. SLPEscape_loop cap out s))"

definition SLPEscape :: "bool \<Rightarrow> string \<Rightarrow> bool \<Rightarrow> string res" where
  "SLPEscape ok inbuf isTag =
     (let s = c_string inbuf;
          amount = length (filter reserved_char s)
      in if isTag \<and> (\<exists>c\<in>set s. c \<in> set ATTRIBUTE_BAD_TAG) then Inl (SlpError API_PARSE_ERROR)
         else if \<not> ok then Inl (SlpError API_MEMORY_ALLOC_FAILED)
         else SLPEscape_loop (length s + amount * 2 + 1) [] s)"

definition hex_value :: "char \<Rightarrow> nat option" where
  "hex_value c =
     (if 65 \<le> uchar c \<and> uchar c \<le> 70 then Some (uchar c - 65 + 0x0A)
      else if 48 \<le> uchar c \<and> uchar c \<le> 57 then Some (uchar c - 48) else None)"

fun SLPUnescape_loop :: "nat \<Rightarrow> string \<Rightarrow> string \<Rightarrow> string res" where
  "SLPUnescape_loop cap out [] = Inl OutOfBounds"
| "SLPUnescape_loop cap out (c # m) =
     (if c = NUL then bindR (put_char cap out NUL) (\<lambda>_. Inr out)
      else if c = BACKSLASH then
        bindR (rdR m 0) (\<lambda>d0. bindR (rdR m 1) (\<lambda>d1.
          case hex_value d0 of None \<Rightarrow> Inl (SlpError API_PARSE_ERROR)
          | Some h \<Rightarrow>
              (case hex_value d1 of None \<Rightarrow> Inl (SlpError API_PARSE_ERROR)
               | Some l \<Rightarrow> bindR (put_char cap out (char_of (l + h * 0x10))) (\<lambda>out. SLPUnescape_loop cap out (drop 2 m)))))
      else bindR (put_char cap out c) (\<lambda>out. SLPUnescape_loop cap out m))"

text \<open>
  The size is computed in \<open>size_t\<close>; the library cannot allocate more than half of
  the address space.  The code tests the address of the result and not the result
  for null, so without memory the writes go through a null pointer.
\<close>

definition unescape_size :: "string \<Rightarrow> 64 word" where
  "unescape_size s = of_nat (length s) - 2 * of_nat (length (filter (\<lambda>c. c = BACKSLASH) s))"

definition unescape_cap :: "bool \<Rightarrow> string \<Rightarrow> nat" where
  "unescape_cap ok s = (let n = unat (unescape_size s + 1) in if ok \<and> n < 2 ^ 63 then n else 0)"

definition SLPUnescape :: "bool \<Rightarrow> string \<Rightarrow> bool \<Rightarrow> string res" where
  "SLPUnescape ok mem isTag =
     (let s = c_string mem
      in if NUL \<notin> set mem then Inl OutOfBounds
         else if isTag \<and> (\<exists>c\<in>set s. c \<in> set ATTRIBUTE_BAD_TAG) then Inl (SlpError API_PARSE_ERROR)
         else SLPUnescape_loop (unescape_cap ok s) [] mem)"

function parse_attrs_loop :: "bool \<Rightarrow> string \<Rightarrow> string \<Rightarrow> string res" where
  "parse_attrs_loop ok s attrid =
     (case dropWhile (\<lambda>c. c \<noteq> CHR ''('') s of
        [] \<Rightarrow> Inl (SlpError API_PARSE_ERROR)
      | _ # slider1 \<Rightarrow>
          (let n = length (takeWhile (\<lambda>c. c \<noteq> CHR ''='' \<and> c \<noteq> CHR '')'') slider1);
               slider2 = drop n slider1
           in if length attrid = n mod 2 ^ 32 \<and> c_strncasecmp n slider1 attrid = 0
              then let slider1 = (if chd slider2 = CHR ''='' then tl slider2 else slider2)
                   in if ok then Inr (takeWhile (\<lambda>c. c \<noteq> CHR '')'') slider1)
                      else Inl (SlpError API_MEMORY_ALLOC_FAILED)
              else parse_attrs_loop ok slider1 attrid))"
  by pat_completeness auto
termination
proof (relation "measure (\<lambda>(ok, s, attrid). length s)", goal_cases)
  case (2 ok s attrid c slider1)
  then have "length (c # slider1) \<le> length s" by (metis length_dropWhile_le)
  then show ?case by simp
qed simp

definition SLPParseAttrs :: "bool \<Rightarrow> string \<Rightarrow> string \<Rightarrow> string res" where
  "SLPParseAttrs ok attrlist attrid = parse_attrs_loop ok (c_string attrlist) (c_string attrid)"

declare parse_attrs_loop.simps [simp del]

section \<open>Escaping and back\<close>

text \<open>The text of a value and of one of its characters.\<close>

definition escape_char :: "char \<Rightarrow> string" where
  "escape_char c =
     (if reserved_char c then [BACKSLASH, hex_char (uchar c div 16), hex_char (uchar c mod 16)] else [c])"

definition escape_text :: "string \<Rightarrow> string" where
  "escape_text s = concat (map escape_char s)"

lemma put_char_in [simp]: "length out < cap \<Longrightarrow> put_char cap out c = Inr (out @ [c])"
  by (simp add: put_char_def)

lemma reserved_ascii: "reserved_char c \<Longrightarrow> uchar c < 128"
proof -
  assume r: "reserved_char c"
  have "c \<in> set ATTRIBUTE_RESERVE_STRING \<Longrightarrow> uchar c < 128"
    by (auto simp: ATTRIBUTE_RESERVE_STRING_def uchar_def)
  moreover have "0 \<le> schar c \<Longrightarrow> uchar c < 128"
  proof -
    have "(of_char c :: int) = int (uchar c)" by (simp only: uchar_def of_nat_of_char)
    then show "0 \<le> schar c \<Longrightarrow> uchar c < 128" using uchar_less[of c] by (simp only: schar_def split: if_splits)
  qed
  ultimately show ?thesis using r by (auto simp: reserved_char_def)
qed

lemma nibble_bounds [simp]: "uchar c div 16 < 16" "uchar c mod 16 < 16"
  using uchar_less[of c] by (simp_all add: less_mult_imp_div_less)

lemma high_nibble: "n < 128 \<Longrightarrow> (n AND 0xF0) div 0x0F = n div (16 :: nat)"
proof -
  assume n: "n < 128"
  have "(0xF0 :: nat) = push_bit 4 (mask 4)" by (simp add: mask_eq_exp_minus_1 push_bit_eq_mult)
  moreover have "n AND push_bit 4 (mask 4) = push_bit 4 (take_bit 4 (drop_bit 4 n))"
    by (rule bit_eqI) (auto simp: bit_simps)
  ultimately have "n AND 0xF0 = push_bit 4 (take_bit 4 (drop_bit 4 n))" by metis
  also have "\<dots> = n div 16 * 16" using n by (simp add: push_bit_eq_mult take_bit_eq_mod drop_bit_eq_div)
  finally have "n AND 0xF0 = n div 16 * 16" .
  moreover have "n div 16 < 8" using n by simp
  moreover have "k < 8 \<Longrightarrow> k * 16 div 15 = k" for k :: nat by (rule div_nat_eqI) simp_all
  ultimately show ?thesis by simp
qed

lemma low_nibble: "n AND 0x0F = n mod (16 :: nat)"
  using take_bit_eq_mask[of 4 n] by (simp add: take_bit_eq_mod mask_eq_exp_minus_1)

lemma length_escape_text: "length (escape_text s) = length s + length (filter reserved_char s) * 2"
  by (induction s) (simp_all add: escape_text_def escape_char_def)

lemma SLPEscape_loop_text:
  "length out + length (escape_text s) < cap \<Longrightarrow> SLPEscape_loop cap out s = Inr (out @ escape_text s)"
proof (induction s arbitrary: out)
  case Nil
  then show ?case by (simp add: escape_text_def)
next
  case (Cons c s)
  then show ?case
    by (cases "reserved_char c") (simp_all add: escape_text_def escape_char_def low_nibble high_nibble reserved_ascii)
qed

lemma SLPEscape_text:
  "NUL \<notin> set s \<Longrightarrow> \<not> (isTag \<and> (\<exists>c\<in>set s. c \<in> set ATTRIBUTE_BAD_TAG)) \<Longrightarrow> SLPEscape True s isTag = Inr (escape_text s)"
  by (auto simp: SLPEscape_def c_string_id Let_def SLPEscape_loop_text length_escape_text)

lemma hex_value_char: "d < 16 \<Longrightarrow> hex_value (hex_char d) = Some d"
  by (auto simp: hex_value_def hex_char_def)

lemma hex_char_plain: "d < 16 \<Longrightarrow> hex_char d \<noteq> BACKSLASH \<and> hex_char d \<noteq> NUL \<and> \<not> reserved_char (hex_char d)"
proof -
  have "\<forall>d \<in> set [0..<16]. hex_char d \<noteq> BACKSLASH \<and> hex_char d \<noteq> NUL \<and> \<not> reserved_char (hex_char d)" by code_simp
  then show "d < 16 \<Longrightarrow> ?thesis" by simp
qed

lemma escape_text_Cons: "escape_text (c # s) = escape_char c @ escape_text s"
  by (simp add: escape_text_def)

lemma reserved_specials: "reserved_char BACKSLASH" "reserved_char NUL" "reserved_char CHR '')''" "reserved_char CHR ''(''"
  by code_simp+

lemma escape_char_set: "c' \<in> set (escape_char c) \<Longrightarrow> c' = BACKSLASH \<or> \<not> reserved_char c'"
  using hex_char_plain[OF nibble_bounds(1), of c] hex_char_plain[OF nibble_bounds(2), of c]
  by (auto simp: escape_char_def split: if_splits)

lemma escape_text_set: "c \<in> set (escape_text s) \<Longrightarrow> c = BACKSLASH \<or> \<not> reserved_char c"
  unfolding escape_text_def by (auto dest: escape_char_set)

lemma escape_text_plain: "NUL \<notin> set (escape_text s)" "CHR '')'' \<notin> set (escape_text s)" "CHR ''('' \<notin> set (escape_text s)"
  using escape_text_set[of _ s] reserved_specials by fastforce+

lemma backslashes: "length (filter (\<lambda>c. c = BACKSLASH) (escape_text s)) = length (filter reserved_char s)"
proof (induction s)
  case (Cons c s)
  have "filter (\<lambda>c. c = BACKSLASH) (escape_char c) = (if reserved_char c then [BACKSLASH] else [])"
    using hex_char_plain[OF nibble_bounds(1), of c] hex_char_plain[OF nibble_bounds(2), of c] reserved_specials(1)
    by (auto simp: escape_char_def)
  with Cons show ?case by (simp add: escape_text_Cons)
qed (simp add: escape_text_def)

lemma SLPUnescape_loop_text:
  "NUL \<notin> set s \<Longrightarrow> length out + length s < cap \<Longrightarrow>
     SLPUnescape_loop cap out (escape_text s @ NUL # behind) = Inr (out @ s)"
proof (induction s arbitrary: out)
  case Nil
  then show ?case by (simp add: escape_text_def)
next
  case (Cons c s)
  have c: "(uchar c div 16) * 16 + uchar c mod 16 = uchar c" by (simp add: div_mult_mod_eq)
  show ?case
  proof (cases "reserved_char c")
    case True
    have "char_of (uchar c mod 16 + uchar c div 16 * 16) = c" by (simp add: add.commute c flip: uchar_eq_iff)
    with True Cons show ?thesis
      by (simp add: escape_text_Cons escape_char_def hex_value_char)
  next
    case False
    then have "c \<noteq> BACKSLASH" using reserved_specials(1) by blast
    with False Cons show ?thesis by (auto simp: escape_text_Cons escape_char_def)
  qed
qed

lemma unescape_size_text: "unescape_size (escape_text s) = of_nat (length s)"
  by (simp add: unescape_size_def backslashes length_escape_text)

lemma SLPUnescape_escape_text:
  assumes "NUL \<notin> set s" "length s < 2 ^ 62"
  shows "SLPUnescape True (escape_text s @ NUL # behind) False = Inr s"
proof -
  have "c_string (escape_text s @ NUL # behind) = escape_text s"
    using escape_text_plain(1)[of s] by (subst c_string_def, subst takeWhile_append2) auto
  moreover have "unat (1 + of_nat (length s) :: 64 word) = length s + 1"
    using assms(2) unat_of_nat[where 'a = 64, of "Suc (length s)"] by simp
  then have "unescape_cap True (escape_text s) = length s + 1"
    using assms(2) by (simp only: unescape_cap_def unescape_size_text Let_def add.commute[of _ 1]) simp
  ultimately show ?thesis using assms(1) by (simp add: SLPUnescape_def SLPUnescape_loop_text)
qed

section \<open>Attribute lists\<close>

text \<open>An attribute list and the first value for a name.\<close>

definition attr_text :: "string \<times> string \<Rightarrow> string" where
  "attr_text a = ''('' @ fst a @ ''='' @ snd a @ '')''"

fun attrs_text :: "(string \<times> string) list \<Rightarrow> string" where
  "attrs_text [] = []"
| "attrs_text [a] = attr_text a"
| "attrs_text (a # as) = attr_text a @ '','' @ attrs_text as"

definition attr_name :: "string \<Rightarrow> bool" where
  "attr_name n \<longleftrightarrow> (\<forall>c\<in>set n. c \<notin> set (NUL # ''(=)'')) \<and> length n < 2 ^ 32"

definition first_value :: "(string \<times> string) list \<Rightarrow> string \<Rightarrow> string option" where
  "first_value as n = map_option snd (find (\<lambda>a. map c_tolower (fst a) = map c_tolower n) as)"

lemma attr_name_not: "attr_name n \<Longrightarrow> c \<in> set (NUL # ''(=)'') \<Longrightarrow> c \<notin> set n"
  unfolding attr_name_def by blast

lemma cfold_name: "attr_name n \<Longrightarrow> cfold n = map c_tolower n"
  using attr_name_not[of n NUL] c_string_id[of n] by (simp add: cfold_def flip: c_string_def)

lemma takeWhile_stop: "(\<And>c. c \<in> set a \<Longrightarrow> P c) \<Longrightarrow> \<not> P b \<Longrightarrow> takeWhile P (a @ b # t) = a"
  by (subst takeWhile_append2) auto

lemma dropWhile_stop: "(\<And>c. c \<in> set a \<Longrightarrow> P c) \<Longrightarrow> \<not> P b \<Longrightarrow> dropWhile P (a @ b # t) = b # t"
  by (subst dropWhile_append2) auto

lemma parse_attrs_here:
  assumes "attr_name n" "attr_name attrid" "CHR ''('' \<notin> set pre"
  shows "parse_attrs_loop True (pre @ attr_text (n, escape_text v) @ rest) attrid =
     (if map c_tolower n = map c_tolower attrid then Inr (escape_text v)
      else parse_attrs_loop True (n @ ''='' @ escape_text v @ '')'' @ rest) attrid)"
proof -
  let ?s = "n @ CHR ''='' # escape_text v @ CHR '')'' # rest"
  have d: "dropWhile (\<lambda>c. c \<noteq> CHR ''('') (pre @ attr_text (n, escape_text v) @ rest) = CHR ''('' # ?s"
    using assms(3) by (simp only: attr_text_def fst_conv snd_conv append.simps append_assoc) (rule dropWhile_stop; auto)
  have t: "takeWhile (\<lambda>c. c \<noteq> CHR ''='' \<and> c \<noteq> CHR '')'') ?s = n"
    using attr_name_not[OF assms(1)] by (intro takeWhile_stop) auto
  have v: "takeWhile (\<lambda>c. c \<noteq> CHR '')'') (escape_text v @ CHR '')'' # rest) = escape_text v"
    using escape_text_plain(2)[of v] by (intro takeWhile_stop) auto
  have m: "length n mod 2 ^ 32 = length n" using assms(1) by (simp add: attr_name_def)
  have "take (length n) ?s = n" by simp
  then have "c_strncasecmp (length n) ?s attrid = 0 \<longleftrightarrow> map c_tolower n = cfold (take (length n) attrid)"
    by (simp only: c_strncasecmp_0_iff cfold_name[OF assms(1)])
  moreover have "length attrid = length n \<Longrightarrow> cfold (take (length n) attrid) = map c_tolower attrid"
    using cfold_name[OF assms(2)] by simp
  ultimately have c: "length attrid = length n mod 2 ^ 32 \<and> c_strncasecmp (length n) ?s attrid = 0 \<longleftrightarrow>
      map c_tolower n = map c_tolower attrid"
    unfolding m by (metis map_eq_imp_length_eq)
  show ?thesis
    by (subst parse_attrs_loop.simps) (simp add: d t c[simplified] v Let_def chd_def)
qed

lemma parse_attrs_none: "CHR ''('' \<notin> set s \<Longrightarrow> parse_attrs_loop ok s attrid = Inl (SlpError API_PARSE_ERROR)"
proof -
  assume "CHR ''('' \<notin> set s"
  then have d: "dropWhile (\<lambda>c. c \<noteq> CHR ''('') s = []" by (simp only: dropWhile_eq_Nil_conv) blast
  show ?thesis unfolding parse_attrs_loop.simps[of ok s] d by simp
qed

lemma parse_attrs_text:
  assumes "\<And>a. a \<in> set as \<Longrightarrow> attr_name (fst a)" "attr_name attrid" "CHR ''('' \<notin> set pre"
  shows "parse_attrs_loop True (pre @ attrs_text (map (apsnd escape_text) as)) attrid =
     (case first_value as attrid of None \<Rightarrow> Inl (SlpError API_PARSE_ERROR) | Some v \<Rightarrow> Inr (escape_text v))"
  using assms(1,3)
proof (induction as arbitrary: pre rule: attrs_text.induct)
  case 1
  then show ?case by (simp add: first_value_def parse_attrs_none)
next
  case (2 a)
  obtain n v where a: "a = (n, v)" by force
  have n: "attr_name n" using 2(1)[of a] a by simp
  have "CHR ''('' \<notin> set (n @ ''='' @ escape_text v @ '')'')" using attr_name_not[OF n] escape_text_plain(3)[of v] by auto
  note parse_attrs_none[OF this]
  then show ?case using parse_attrs_here[OF n assms(2) 2(2), of v "[]"] by (simp add: a first_value_def)
next
  case (3 a b as)
  obtain n v where a: "a = (n, v)" by force
  have n: "attr_name n" using 3(2)[of a] a by simp
  have pre: "CHR ''('' \<notin> set (n @ ''='' @ escape_text v @ '')'' @ '','')"
    using attr_name_not[OF n] escape_text_plain(3)[of v] by auto
  have "parse_attrs_loop True ((n @ ''='' @ escape_text v @ '')'' @ '','') @ attrs_text (map (apsnd escape_text) (b # as))) attrid =
      (case first_value (b # as) attrid of None \<Rightarrow> Inl (SlpError API_PARSE_ERROR) | Some v \<Rightarrow> Inr (escape_text v))"
    by (rule 3(1)[OF _ pre]) (use 3(2) in auto)
  then show ?case using parse_attrs_here[OF n assms(2) 3(3), of v "'','' @ attrs_text (map (apsnd escape_text) (b # as))"]
    by (simp add: a first_value_def)
qed

lemma attrs_text_plain: "(\<And>a. a \<in> set as \<Longrightarrow> attr_name (fst a)) \<Longrightarrow> NUL \<notin> set (attrs_text (map (apsnd escape_text) as))"
proof (induction as rule: attrs_text.induct)
  case (3 a b as)
  then have "NUL \<notin> set (attrs_text (map (apsnd escape_text) (b # as)))" by simp
  with 3(2)[of a] escape_text_plain(1)[of "snd a"] attr_name_not[of "fst a" NUL] show ?case by (simp add: attr_text_def)
next
  case (2 a)
  then show ?case using escape_text_plain(1)[of "snd a"] attr_name_not[of "fst a" NUL] by (simp add: attr_text_def)
qed simp

text \<open>
  C34: the values of an attribute list that were escaped with \<open>SLPEscape\<close> come
  back: \<open>SLPParseAttrs\<close> finds the first one of the name, in any case, and
  \<open>SLPUnescape\<close> of it is the value before the escaping.
\<close>

theorem attribute_value_roundtrip:
  assumes "\<And>n v. (n, v) \<in> set as \<Longrightarrow> attr_name n \<and> NUL \<notin> set v" "attr_name attrid"
    and "first_value as attrid = Some v" "length v < 2 ^ 62"
  shows "\<exists>texts w. list_all2 (\<lambda>(n, v) (n', t). n' = n \<and> SLPEscape True v False = Inr t) as texts \<and>
      SLPParseAttrs True (attrs_text texts) attrid = Inr w \<and> SLPUnescape True (w @ [NUL]) False = Inr v"
proof -
  have "SLPEscape True (snd a) False = Inr (escape_text (snd a))" if "a \<in> set as" for a
    using assms(1)[of "fst a" "snd a"] that by (intro SLPEscape_text) auto
  then have esc: "list_all2 (\<lambda>(n, v) (n', t). n' = n \<and> SLPEscape True v False = Inr t) as (map (apsnd escape_text) as)"
    by (auto simp: list_all2_conv_all_nth case_prod_beta)
  have names: "attr_name (fst a)" if "a \<in> set as" for a using assms(1)[of "fst a" "snd a"] that by simp
  obtain a where a: "find (\<lambda>a. map c_tolower (fst a) = map c_tolower attrid) as = Some a" "v = snd a"
    using assms(3) unfolding first_value_def by (auto simp only: map_option_eq_Some)
  have "a \<in> set as" using a(1) unfolding find_Some_iff by auto
  then have v: "NUL \<notin> set v" using assms(1)[of "fst a" v] a(2) by simp
  have "c_string attrid = attrid" "c_string (attrs_text (map (apsnd escape_text) as)) = attrs_text (map (apsnd escape_text) as)"
    using c_string_id attr_name_not[OF assms(2), of NUL] attrs_text_plain[of as] names by auto
  then have "SLPParseAttrs True (attrs_text (map (apsnd escape_text) as)) attrid = Inr (escape_text v)"
    using parse_attrs_text[of as attrid "[]"] names assms(2,3) by (simp add: SLPParseAttrs_def)
  then show ?thesis using esc SLPUnescape_escape_text[OF v assms(4), of "[]"] by blast
qed

definition sample_attrs :: "(string \<times> string) list" where
  "sample_attrs = [(''color'', ''red,blue''), (''Size'', ''a(4)''), (''SIZE'', ''x'')]"

theorem attribute_value_roundtrip_witness:
  "\<exists>texts w. list_all2 (\<lambda>(n, v) (n', t). n' = n \<and> SLPEscape True v False = Inr t) sample_attrs texts \<and>
     SLPParseAttrs True (attrs_text texts) ''size'' = Inr w \<and> SLPUnescape True (w @ [NUL]) False = Inr ''a(4)''"
proof (rule attribute_value_roundtrip)
  show "attr_name n \<and> NUL \<notin> set v" if "(n, v) \<in> set sample_attrs" for n v
    using that by (auto simp: sample_attrs_def attr_name_def)
  show "first_value sample_attrs ''size'' = Some ''a(4)''" by code_simp
qed (simp_all add: attr_name_def)

section \<open>Text that was not escaped by the library\<close>

text \<open>
  The size of the result of \<open>SLPUnescape\<close> counts every backslash as a whole
  escape before any is checked.  Characters followed by as many backslashes are
  written into a buffer of one byte.
\<close>

theorem SLPUnescape_overflow:
  assumes "2 \<le> n" "n < 2 ^ 62"
  shows "SLPUnescape True (replicate n CHR ''a'' @ replicate n BACKSLASH @ [NUL]) False = Inl OutOfBounds"
proof -
  have cap: "unescape_cap True (replicate n CHR ''a'' @ replicate n BACKSLASH) = 1"
    by (simp add: unescape_cap_def unescape_size_def Let_def)
  have loop: "2 \<le> k + length out \<Longrightarrow> length out \<le> 1 \<Longrightarrow> SLPUnescape_loop 1 out (replicate k CHR ''a'' @ t) = Inl OutOfBounds" for k out t
    by (induction k arbitrary: out) (auto simp: put_char_def)
  have "c_string (replicate n CHR ''a'' @ replicate n BACKSLASH @ [NUL]) = replicate n CHR ''a'' @ replicate n BACKSLASH"
    unfolding c_string_def append_assoc[symmetric] by (subst takeWhile_append2) auto
  then show ?thesis using cap loop[of n "[]"] assms(1) by (simp add: SLPUnescape_def)
qed

theorem SLPUnescape_overflow_witness:
  "SLPUnescape True (replicate 5 CHR ''a'' @ replicate 5 BACKSLASH @ [NUL]) False = Inl OutOfBounds"
  by (rule SLPUnescape_overflow) simp_all

text \<open>A backslash at the end of the text is followed by a read behind its terminator.\<close>

lemma SLPUnescape_overread: "SLPUnescape True [BACKSLASH, NUL] False = Inl OutOfBounds"
  by (simp add: SLPUnescape_def c_string_def Let_def rdR_def)

end
