(* ===== verification/SLP_Net.thy ===== *)
theory SLP_Net
  imports SLP_Prelude
begin

unbundle bit_operations_syntax

text \<open>
  Network addresses: the address predicates, the comparison, the multicast
  address of a service type and the printed form of \<open>common/slp_net.c\<close>.  A
  \<open>sockaddr_storage\<close> is the address and, for IPv6, the scope id; the port is left
  out, no routine modelled here reads it.  IPv4 addresses are in host byte
  order; byte \<open>i\<close> of an IPv6 address is the \<open>i\<close>-th from the left.
\<close>

section \<open>Addresses\<close>

datatype sockaddr = AF_INET "32 word" | AF_INET6 "128 word" "32 word" | AF_UNSPEC

definition IN6_IS_ADDR_MULTICAST :: "128 word \<Rightarrow> bool" where
  "IN6_IS_ADDR_MULTICAST a \<longleftrightarrow> drop_bit 120 a = 0xff"

text \<open>\<open>memcmp\<close> of two values stored with the most significant byte first.\<close>

definition memcmp_be :: "'a::len word \<Rightarrow> 'a word \<Rightarrow> int" where
  "memcmp_be a b = (if a = b then 0 else if a < b then -1 else 1)"

text \<open>Storage of an unknown family has no bytes in the model.\<close>

definition SLPNetCompareAddrs :: "sockaddr \<Rightarrow> sockaddr \<Rightarrow> int" where
  "SLPNetCompareAddrs a b =
     (case (a, b) of
        (AF_INET x, AF_INET y) \<Rightarrow> memcmp_be x y
      | (AF_INET6 x _, AF_INET6 y _) \<Rightarrow> memcmp_be x y
      | (AF_UNSPEC, AF_UNSPEC) \<Rightarrow> 0
      | _ \<Rightarrow> -1)"

definition SLPNetIsMCast :: "sockaddr \<Rightarrow> bool" where
  "SLPNetIsMCast a =
     (case a of
        AF_INET v4 \<Rightarrow> v4 AND 0xff000000 \<ge> 0xef000000
      | AF_INET6 v6 _ \<Rightarrow> IN6_IS_ADDR_MULTICAST v6
      | AF_UNSPEC \<Rightarrow> False)"

definition SLPNetIsLocal :: "sockaddr \<Rightarrow> bool" where
  "SLPNetIsLocal a =
     (case a of AF_INET v4 \<Rightarrow> v4 AND 0xff000000 = 0x7f000000 | AF_INET6 v6 _ \<Rightarrow> v6 = 1 | AF_UNSPEC \<Rightarrow> False)"

definition SLPNetIsLoopback :: "sockaddr \<Rightarrow> bool" where
  "SLPNetIsLoopback a = (case a of AF_INET v4 \<Rightarrow> v4 = 0x7f000001 | AF_INET6 v6 _ \<Rightarrow> v6 = 1 | AF_UNSPEC \<Rightarrow> False)"

text \<open>\<open>SLPNetSetAddr\<close>: a multicast address gets its scope as scope id.\<close>

definition SLPNetSetAddr4 :: "32 word option \<Rightarrow> sockaddr" where
  "SLPNetSetAddr4 address = AF_INET (case address of None \<Rightarrow> 0 | Some a \<Rightarrow> a)"

definition SLPNetSetAddr6 :: "128 word option \<Rightarrow> sockaddr" where
  "SLPNetSetAddr6 address =
     (let a = (case address of None \<Rightarrow> 0 | Some a \<Rightarrow> a) in
      AF_INET6 a (if IN6_IS_ADDR_MULTICAST a then ucast (drop_bit 112 a AND 0x0f) else 0))"

text \<open>
  The resolver is a parameter: the first address \<open>getaddrinfo\<close> has for a host of
  the given family.
\<close>

definition SLPNetResolveHostToAddr ::
  "(string \<Rightarrow> 32 word option) \<Rightarrow> (string \<Rightarrow> (128 word \<times> 32 word) option) \<Rightarrow> string \<Rightarrow> sockaddr option" where
  "SLPNetResolveHostToAddr resolve4 resolve6 host =
     (case resolve4 host of
        Some a \<Rightarrow> Some (AF_INET a)
      | None \<Rightarrow> (case resolve6 host of Some (a, scope) \<Rightarrow> Some (AF_INET6 a scope) | None \<Rightarrow> None))"

section \<open>Printed addresses\<close>

text \<open>\<open>%u\<close> and \<open>%x\<close> of \<open>printf\<close>, and \<open>inet_ntop\<close>.\<close>

fun fmt_u :: "nat \<Rightarrow> string" where
  "fmt_u n = (if n < 10 then [char_of (48 + n)] else fmt_u (n div 10) @ [char_of (48 + n mod 10)])"

fun fmt_x :: "nat \<Rightarrow> string" where
  "fmt_x n =
     (let d = n mod 16; c = char_of (if d < 10 then 48 + d else 87 + d) in
      if n < 16 then [c] else fmt_x (n div 16) @ [c])"

declare fmt_u.simps [simp del] fmt_x.simps [simp del]

definition inet_ntop4 :: "32 word \<Rightarrow> string" where
  "inet_ntop4 a =
     fmt_u (unat (drop_bit 24 a)) @ ''.'' @ fmt_u (unat (drop_bit 16 a AND 0xff)) @ ''.'' @
     fmt_u (unat (drop_bit 8 a AND 0xff)) @ ''.'' @ fmt_u (unat (a AND 0xff))"

definition in6_groups :: "128 word \<Rightarrow> nat list" where
  "in6_groups a = map (\<lambda>i. unat (drop_bit (112 - 16 * i) a AND 0xffff)) [0..<8]"

text \<open>The first of the longest runs of at least two zero groups: its start and length.\<close>

definition zero_run :: "nat list \<Rightarrow> nat \<Rightarrow> nat" where
  "zero_run gs i = length (takeWhile (\<lambda>g. g = 0) (drop i gs))"

definition best_run :: "nat list \<Rightarrow> nat \<times> nat" where
  "best_run gs =
     (let best = foldl (\<lambda>(s, l) i. if zero_run gs i > l then (i, zero_run gs i) else (s, l)) (8, 0) [0..<8]
      in if snd best < 2 then (8, 0) else best)"

fun ntop_groups :: "32 word \<Rightarrow> nat list \<Rightarrow> nat \<times> nat \<Rightarrow> nat \<Rightarrow> nat list \<Rightarrow> string" where
  "ntop_groups v4 gs (base, len) i [] = (if len \<noteq> 0 \<and> base + len = 8 then '':'' else [])"
| "ntop_groups v4 gs (base, len) i (g # rest) =
     (if base \<le> i \<and> i < base + len
      then (if i = base then '':'' else []) @ ntop_groups v4 gs (base, len) (i + 1) rest
      else (if i \<noteq> 0 then '':'' else []) @
        (if i = 6 \<and> base = 0 \<and> (len = 6 \<or> len = 5 \<and> gs ! 5 = 0xffff) then inet_ntop4 v4
         else fmt_x g @ ntop_groups v4 gs (base, len) (i + 1) rest))"

definition inet_ntop6 :: "128 word \<Rightarrow> string" where
  "inet_ntop6 a = (let gs = in6_groups a in ntop_groups (ucast a) gs (best_run gs) 0 gs)"

definition SLPNetSockAddrStorageToString :: "sockaddr \<Rightarrow> string option" where
  "SLPNetSockAddrStorageToString a =
     (case a of AF_INET v4 \<Rightarrow> Some (inet_ntop4 v4) | AF_INET6 v6 _ \<Rightarrow> Some (inet_ntop6 v6) | AF_UNSPEC \<Rightarrow> None)"

section \<open>Printed addresses are short\<close>

lemma length_fmt_u:
  assumes "n < 256"
  shows "length (fmt_u n) \<le> 3"
proof -
  have step: "length (fmt_u m) = (if m < 10 then 1 else length (fmt_u (m div 10)) + 1)" for m
    by (subst fmt_u.simps) simp
  have "n div 10 div 10 < 10" using assms by simp
  then show ?thesis by (subst step, subst step, subst step) simp
qed

lemma length_fmt_x:
  assumes "n < 65536"
  shows "length (fmt_x n) \<le> 4"
proof -
  have step: "length (fmt_x m) = (if m < 16 then 1 else length (fmt_x (m div 16)) + 1)" for m
    by (subst fmt_x.simps) (simp add: Let_def)
  have "n div 16 div 16 div 16 < 16" using assms by simp
  then show ?thesis by (subst step, subst step, subst step, subst step) simp
qed

lemma length_inet_ntop4: "length (inet_ntop4 a) \<le> 15"
proof -
  have ff: "unat (w AND 0xff) < 256" for w :: "32 word"
  proof -
    have "w AND 0xff = take_bit 8 w" by (simp add: take_bit_eq_mask mask_eq_exp_minus_1)
    then have "unat (w AND 0xff) = take_bit 8 (unat w)" by (simp add: unsigned_take_bit_eq)
    then show ?thesis by (simp add: take_bit_eq_mod)
  qed
  have top: "unat (drop_bit 24 a) < 256"
  proof -
    have "unat (drop_bit 24 a) = drop_bit 24 (unat a)" 
      using unsigned_less[of a, where 'a = nat] by (simp only: unsigned_drop_bit_eq take_bit_nat_eq_self)
    then have "unat (drop_bit 24 a) = unat a div 2 ^ 24" by (simp only: drop_bit_eq_div[of 24 "unat a"])
    moreover have "unat a < 2 ^ 24 * 256" using unsigned_less[of a, where 'a = nat] by simp
    ultimately show ?thesis by (simp only: less_mult_imp_div_less mult.commute)
  qed
  show ?thesis
    using length_fmt_u[OF top] length_fmt_u[OF ff[of "drop_bit 16 a"]] length_fmt_u[OF ff[of "drop_bit 8 a"]]
      length_fmt_u[OF ff[of a]]
    by (simp add: inet_ntop4_def)
qed

lemma length_ntop_groups:
  assumes "\<And>g. g \<in> set rest \<Longrightarrow> g < 65536" "i + length rest = 8"
  shows "length (ntop_groups v4 gs (base, len) i rest) + (if i = 0 then 1 else 0) \<le> 5 * length rest + 6"
  using assms
proof (induction v4 gs "(base, len)" i rest rule: ntop_groups.induct)
  case (1 v4 gs i)
  then show ?case by simp
next
  case (2 v4 gs i g rest)
  have g: "length (fmt_x g) \<le> 4" using "2.prems"(1)[of g] by (intro length_fmt_x) simp
  have ih: "length (ntop_groups v4 gs (base, len) (i + 1) rest) \<le> 5 * length rest + 6"
    if "base \<le> i \<and> i < base + len \<or> \<not> (base \<le> i \<and> i < base + len) \<and> \<not> (i = 6 \<and> base = 0 \<and> (len = 6 \<or> len = 5 \<and> gs ! 5 = 0xffff))"
    using "2.hyps" "2.prems" that by fastforce
  have rest: "i = 6 \<Longrightarrow> length rest = 1" using "2.prems"(2) by simp
  show ?case
    using g ih rest length_inet_ntop4[of v4] by (auto split: if_splits)
qed

lemma length_inet_ntop6: "length (inet_ntop6 a) \<le> 45"
proof -
  have "g < 65536" if g: "g \<in> set (in6_groups a)" for g
  proof -
    obtain i where "g = unat (drop_bit (112 - 16 * i) a AND 0xffff)" using g unfolding in6_groups_def by fastforce
    then obtain w :: "128 word" where "g = unat (w AND 0xffff)" by blast
    moreover have "w AND 0xffff = take_bit 16 w" by (simp add: take_bit_eq_mask mask_eq_exp_minus_1)
    ultimately have "g = take_bit 16 (unat w)" by (simp only: unsigned_take_bit_eq)
    then show ?thesis by (simp add: take_bit_eq_mod)
  qed
  moreover have "length (in6_groups a) = 8" by (simp add: in6_groups_def)
  ultimately show ?thesis
    using length_ntop_groups[of "in6_groups a" 0 "ucast a" "in6_groups a" "fst (best_run (in6_groups a))" "snd (best_run (in6_groups a))"]
    by (simp add: inet_ntop6_def Let_def)
qed

text \<open>The size of an array for a printed address, with its terminator.\<close>

definition INET6_ADDRSTRLEN :: nat where "INET6_ADDRSTRLEN = 46"

lemma length_addr_str: "SLPNetSockAddrStorageToString a = Some s \<Longrightarrow> length s < INET6_ADDRSTRLEN"
proof (cases a)
  case (AF_INET v4)
  then show "SLPNetSockAddrStorageToString a = Some s \<Longrightarrow> ?thesis"
    using length_inet_ntop4[of v4] by (auto simp: SLPNetSockAddrStorageToString_def INET6_ADDRSTRLEN_def)
next
  case (AF_INET6 v6 scope)
  then show "SLPNetSockAddrStorageToString a = Some s \<Longrightarrow> ?thesis"
    using length_inet_ntop6[of v6] by (auto simp: SLPNetSockAddrStorageToString_def INET6_ADDRSTRLEN_def)
qed (simp add: SLPNetSockAddrStorageToString_def)

section \<open>The multicast address of a service type\<close>

definition SLP_SCOPE_NODE_LOCAL :: int where "SLP_SCOPE_NODE_LOCAL = 1"
definition SLP_SCOPE_LINK_LOCAL :: int where "SLP_SCOPE_LINK_LOCAL = 2"
definition SLP_SCOPE_SITE_LOCAL :: int where "SLP_SCOPE_SITE_LOCAL = 5"

text \<open>\<open>group_id\<close> is an \<open>unsigned long\<close>, the characters are signed.\<close>

definition srv_group_id :: "string \<Rightarrow> 64 word" where
  "srv_group_id srvtype = foldl (\<lambda>g c. g * 33 + of_int (schar c)) 0 srvtype AND 0x3FF"

definition SLPNetGetSrvMcastAddr :: "string \<Rightarrow> int \<Rightarrow> sockaddr option" where
  "SLPNetGetSrvMcastAddr srvtype scope =
     (let group_id = srv_group_id srvtype;
          mask = (if scope = SLP_SCOPE_NODE_LOCAL then Some 0xff010000000000000000000000011000
                  else if scope = SLP_SCOPE_LINK_LOCAL then Some 0xff020000000000000000000000011000
                  else if scope = SLP_SCOPE_SITE_LOCAL then Some 0xff050000000000000000000000011000
                  else None)
      in map_option (\<lambda>m. AF_INET6 (m OR push_bit 8 (ucast (drop_bit 8 group_id)) OR ucast (group_id AND 0xFF))
           (of_int scope)) mask)"

text \<open>The hash of RFC 3111: unsigned bytes, modulo 1024.\<close>

definition rfc_hash :: "string \<Rightarrow> nat" where
  "rfc_hash srvtype = foldl (\<lambda>v c. v * 33 + uchar c) 0 srvtype mod 1024"

lemma schar_ascii:
  assumes "uchar c < 128"
  shows "schar c = int (uchar c)"
proof -
  have "(of_char c :: int) = int (uchar c)" by (simp only: uchar_def of_nat_of_char)
  with assms show ?thesis by (simp only: schar_def) simp
qed

lemma fold_hash_word:
  assumes "\<And>c. c \<in> set s \<Longrightarrow> uchar c < 128"
  shows "foldl (\<lambda>g c. g * 33 + of_int (schar c)) (of_nat v :: 64 word) s = of_nat (foldl (\<lambda>v c. v * 33 + uchar c) v s)"
  using assms
proof (induction s arbitrary: v)
  case (Cons c s)
  have "of_nat v * 33 + of_int (schar c) = (of_nat (v * 33 + uchar c) :: 64 word)"
    using Cons.prems[of c] by (simp add: schar_ascii)
  with Cons.IH[of "v * 33 + uchar c"] Cons.prems show ?case by simp
qed simp

lemma and_3FF: "(of_nat n :: 64 word) AND 0x3FF = of_nat (n mod 1024)"
proof -
  have "(of_nat n :: 64 word) AND 0x3FF = take_bit 10 (of_nat n)"
    by (simp add: take_bit_eq_mask mask_eq_exp_minus_1)
  also have "\<dots> = of_nat (take_bit 10 n)" by (simp add: take_bit_of_nat)
  finally show ?thesis by (simp add: take_bit_eq_mod)
qed

lemma srv_group_id_rfc:
  assumes "\<And>c. c \<in> set s \<Longrightarrow> uchar c < 128"
  shows "srv_group_id s = of_nat (rfc_hash s)"
proof -
  have "foldl (\<lambda>g c. g * 33 + of_int (schar c)) (0 :: 64 word) s = of_nat (foldl (\<lambda>v c. v * 33 + uchar c) 0 s)"
    using fold_hash_word[of s 0] assms by simp
  then show ?thesis by (simp only: srv_group_id_def rfc_hash_def and_3FF)
qed

text \<open>The bits of the hash, put into the two last bytes, are those of the number.\<close>

lemma or_split_bytes:
  "push_bit 8 (ucast (drop_bit 8 (g :: 64 word))) OR ucast (g AND 0xFF) = (ucast g :: 128 word)"
proof -
  have "g AND 0xFF = take_bit 8 g" by (simp add: take_bit_eq_mask mask_eq_exp_minus_1)
  then show ?thesis
    by (auto intro!: bit_word_eqI simp: bit_simps)
qed

theorem SLPNetGetSrvMcastAddr_rfc:
  assumes "\<And>c. c \<in> set srvtype \<Longrightarrow> uchar c < 128" "scope \<in> {1, 2, 5}"
  shows "SLPNetGetSrvMcastAddr srvtype scope =
     Some (AF_INET6 ((0xff000000000000000000000000011000 OR push_bit 112 (of_int scope)) OR of_nat (rfc_hash srvtype)) (of_int scope))"
proof -
  have h: "rfc_hash srvtype < 1024" by (simp add: rfc_hash_def)
  have g: "(ucast (of_nat (rfc_hash srvtype) :: 64 word) :: 128 word) = of_nat (rfc_hash srvtype)"
    using h by (simp add: unsigned_of_nat take_bit_nat_eq_self)
  show ?thesis
    using assms(2)
    by (auto simp: SLPNetGetSrvMcastAddr_def Let_def or_split_bytes srv_group_id_rfc[OF assms(1)] g or.assoc[of _ "push_bit 8 _"]
      SLP_SCOPE_NODE_LOCAL_def SLP_SCOPE_LINK_LOCAL_def SLP_SCOPE_SITE_LOCAL_def)
qed

text \<open>A character outside ASCII is added as a negative number.\<close>

lemma group_id_not_rfc: "srv_group_id [CHR 0xE9] = 0x3E9" "rfc_hash [CHR 0xE9] = 0xE9"
  by (simp_all add: srv_group_id_def rfc_hash_def schar_def uchar_def)

text \<open>The SLPv1 group 224.0.1.22 is no multicast address, 240.0.0.1 is one.\<close>

lemma multicast_missed: "\<not> SLPNetIsMCast (AF_INET 0xe0000116)" "SLPNetIsMCast (AF_INET 0xf0000001)"
  by (simp_all add: SLPNetIsMCast_def)

end
