(* ===== verification/SLP_Parse.thy ===== *)
theory SLP_Parse
  imports SLP_Prelude
begin

text \<open>
  The parser of service URLs, \<open>SLPParseSrvUrl\<close> of \<open>common/slp_parse.c\<close>.  The URL
  is copied and terminated, and the terminators the parser writes cut the copy
  into the strings of the result; a string of the result is the list of
  characters before its terminator.
\<close>

text \<open>\<open>strchr\<close>, \<open>strstr\<close> and \<open>atoi\<close> on a terminated string.  \<open>atoi\<close> of a number that is no \<open>int\<close> is undefined in C.\<close>

fun c_find :: "string \<Rightarrow> string \<Rightarrow> nat option" where
  "c_find pat [] = (if pat = [] then Some 0 else None)"
| "c_find pat (c # s) =
     (if take (length pat) (c # s) = pat then Some 0 else map_option Suc (c_find pat s))"

fun digits_value :: "int \<Rightarrow> string \<Rightarrow> int" where
  "digits_value v [] = v"
| "digits_value v (c # s) =
     (if 48 \<le> uchar c \<and> uchar c \<le> 57 then digits_value (10 * v + (int (uchar c) - 48)) s else v)"

definition c_atoi :: "string \<Rightarrow> int" where
  "c_atoi s =
     (case dropWhile c_isspace s of
        [] \<Rightarrow> 0
      | c # t \<Rightarrow> (if c = CHR ''-'' then - digits_value 0 t else if c = CHR ''+'' then digits_value 0 t
                  else digits_value 0 (c # t)))"

record SLPParsedSrvUrl =
  pu_srvtype :: string
  pu_host :: string
  pu_port :: int
  pu_family :: string
  pu_remainder :: string

definition ENOMEM :: nat where "ENOMEM = 12"
definition EINVAL :: nat where "EINVAL = 22"

definition SLPParseSrvUrl :: "bool \<Rightarrow> string \<Rightarrow> SLPParsedSrvUrl res" where
  "SLPParseSrvUrl ok srvurl =
     (if \<not> ok then Inl (SlpError ENOMEM)
      else
        (let url = c_string srvurl in
         case c_find ''://'' url of
           None \<Rightarrow> Inl (SlpError EINVAL)
         | Some i \<Rightarrow>
             (let slider1 = drop (i + 3) url;
                  bracket = (if chd slider1 = CHR ''['' then c_memchr CHR '']'' slider1 else None);
                  family = (if bracket \<noteq> None then ''v6'' else []);
                  slider1' = (case bracket of None \<Rightarrow> slider1 | Some j \<Rightarrow> drop (j + 1) slider1);
                  remainder = (case c_memchr CHR ''/'' slider1' of None \<Rightarrow> [] | Some j \<Rightarrow> drop (j + 1) slider1');
                  hostport = (case c_memchr CHR ''/'' slider1' of None \<Rightarrow> slider1' | Some j \<Rightarrow> take j slider1');
                  colon = c_memchr CHR '':'' hostport;
                  host = (case bracket of
                            Some j \<Rightarrow> drop 1 (take j slider1)
                          | None \<Rightarrow> (case colon of None \<Rightarrow> hostport | Some j \<Rightarrow> take j hostport));
                  port = (case colon of None \<Rightarrow> 0 | Some j \<Rightarrow> c_atoi (drop (j + 1) hostport))
              in Inr \<lparr>pu_srvtype = take i url, pu_host = host, pu_port = port, pu_family = family,
                      pu_remainder = remainder\<rparr>)))"

section \<open>Parsing what was put together\<close>

lemma c_memchr_first: "x \<notin> set a \<Longrightarrow> c_memchr x (a @ x # b) = Some (length a)"
  by (induction a) auto

lemma c_memchr_none: "x \<notin> set a \<Longrightarrow> c_memchr x a = None"
  by (induction a) auto

lemma c_find_sep: "c_find ''://'' ty = None \<Longrightarrow> c_find ''://'' (ty @ ''://'' @ rest) = Some (length ty)"
proof (induction ty)
  case Nil
  show ?case by simp
next
  case (Cons c ty)
  have "take 3 ((c # ty) @ ''://'' @ rest) \<noteq> ''://''"
  proof
    assume a: "take 3 ((c # ty) @ ''://'' @ rest) = ''://''"
    show False
    proof (cases "length ty < 2")
      case True
      then consider "ty = []" | d where "ty = [d]" by (cases ty; cases "tl ty") auto
      then show False using a by cases (auto simp: numeral_3_eq_3)
    next
      case False
      then have "take 3 (c # ty) = ''://''" using a by simp
      with Cons.prems show False by (simp add: numeral_3_eq_3)
    qed
  qed
  with Cons show ?case by (auto simp: numeral_3_eq_3 split: if_splits)
qed

lemma digits_value_decimal:
  "(\<And>c. c \<in> set ds \<Longrightarrow> 48 \<le> uchar c \<and> uchar c \<le> 57) \<Longrightarrow>
     digits_value v ds = foldl (\<lambda>v c. 10 * v + (int (uchar c) - 48)) v ds"
  by (induction ds arbitrary: v) auto

text \<open>What a URL is made of: type, host, port and path, each optional but the first.\<close>

definition host_ok :: "bool \<Rightarrow> string \<Rightarrow> bool" where
  "host_ok v6 host \<longleftrightarrow>
     (if v6 then CHR '']'' \<notin> set host
      else CHR ''/'' \<notin> set host \<and> CHR '':'' \<notin> set host \<and> chd host \<noteq> CHR ''['')"

definition print_url :: "string \<Rightarrow> bool \<Rightarrow> string \<Rightarrow> string option \<Rightarrow> string option \<Rightarrow> string" where
  "print_url ty v6 host port path =
     ty @ ''://'' @ (if v6 then ''['' @ host @ '']'' else host) @
     (case port of None \<Rightarrow> [] | Some p \<Rightarrow> '':'' @ p) @ (case path of None \<Rightarrow> [] | Some p \<Rightarrow> ''/'' @ p)"

abbreviation port_part :: "string option \<Rightarrow> string" where
  "port_part port \<equiv> (case port of None \<Rightarrow> [] | Some p \<Rightarrow> '':'' @ p)"

abbreviation path_part :: "string option \<Rightarrow> string" where
  "path_part path \<equiv> (case path of None \<Rightarrow> [] | Some p \<Rightarrow> ''/'' @ p)"

lemma split_tail:
  fixes path :: "string option"
  assumes "CHR ''/'' \<notin> set h" "CHR '':'' \<notin> set h" "\<forall>p. port = Some p \<longrightarrow> CHR ''/'' \<notin> set p"
  defines "x \<equiv> h @ port_part port @ path_part path"
  shows "(case c_memchr CHR ''/'' x of None \<Rightarrow> [] | Some j \<Rightarrow> drop (j + 1) x) = (case path of None \<Rightarrow> [] | Some p \<Rightarrow> p)"
    and "(case c_memchr CHR ''/'' x of None \<Rightarrow> x | Some j \<Rightarrow> take j x) = h @ port_part port"
    and "c_memchr CHR '':'' (h @ port_part port) = (case port of None \<Rightarrow> None | Some p \<Rightarrow> Some (length h))"
proof -
  have n: "CHR ''/'' \<notin> set (h @ port_part port)" using assms(1,3) by (cases port) auto
  have "c_memchr CHR ''/'' x = (case path of None \<Rightarrow> None | Some p \<Rightarrow> Some (length (h @ port_part port)))"
    using n c_memchr_first[OF n] by (cases path) (auto simp: x_def c_memchr_none)
  then show "(case c_memchr CHR ''/'' x of None \<Rightarrow> [] | Some j \<Rightarrow> drop (j + 1) x) = (case path of None \<Rightarrow> [] | Some p \<Rightarrow> p)"
    and "(case c_memchr CHR ''/'' x of None \<Rightarrow> x | Some j \<Rightarrow> take j x) = h @ port_part port"
    by (cases path; simp add: x_def)+
  show "c_memchr CHR '':'' (h @ port_part port) = (case port of None \<Rightarrow> None | Some p \<Rightarrow> Some (length h))"
    using assms(2) by (cases port) (simp_all add: c_memchr_none c_memchr_first)
qed



end
