(* ===== verification/SLP_Property.thy ===== *)
theory SLP_Property
  imports SLP_Parse
begin

text \<open>
  The properties of \<open>common/slp_property.c\<close> and the interface to them in
  \<open>libslp/libslp_property.c\<close>: the list of properties with the rules on who may
  change them, the reading of configuration files, and the conversions of values.
  Files are a parameter (the contents for a name, or nothing when it cannot be
  opened), and so are what the kernel says about buffer sizes and whether memory
  can be allocated for a property.
\<close>

section \<open>The list of properties\<close>

record SLPProperty =
  pr_name :: string
  pr_value :: string
  pr_attrs :: nat

definition SLP_PA_USERSET :: nat where "SLP_PA_USERSET = 1"
definition SLP_PA_READONLY :: nat where "SLP_PA_READONLY = 2"

definition Find_property :: "string \<Rightarrow> SLPProperty list \<Rightarrow> SLPProperty option" where
  "Find_property name ps = find (\<lambda>p. pr_name p = name) ps"

definition SLPPropertySet :: "bool \<Rightarrow> string \<Rightarrow> string option \<Rightarrow> nat \<Rightarrow> SLPProperty list \<Rightarrow> int \<times> SLPProperty list" where
  "SLPPropertySet ok name val attrs ps =
     (if name = [] \<or> val \<noteq> None \<and> \<not> ok then (-1, ps)
      else
        (let oldprop = Find_property name ps;
             update = (case oldprop of None \<Rightarrow> True
                       | Some p \<Rightarrow> pr_attrs p = 0 \<or> pr_attrs p = SLP_PA_USERSET \<and> attrs = SLP_PA_USERSET);
             ps1 = (case oldprop of Some p \<Rightarrow> (if update then remove1 p ps else ps) | None \<Rightarrow> ps);
             ps2 = (case val of Some v \<Rightarrow>
                      (if update then \<lparr>pr_name = name, pr_value = v, pr_attrs = attrs\<rparr> # ps1 else ps1)
                    | None \<Rightarrow> ps1)
         in (if update then 0 else -1, ps2)))"

definition SLPPropertyXDup :: "bool \<Rightarrow> string \<Rightarrow> SLPProperty list \<Rightarrow> string option" where
  "SLPPropertyXDup ok name ps = (case Find_property name ps of Some p \<Rightarrow> (if ok then Some (pr_value p) else None) | None \<Rightarrow> None)"

text \<open>
  Without a buffer the result points to the value.  With a buffer, given by its
  contents and its size, it is the new contents and the size that is reported.
\<close>

definition SLPPropertyGet_ref :: "string \<Rightarrow> SLPProperty list \<Rightarrow> string option" where
  "SLPPropertyGet_ref name ps = map_option pr_value (Find_property name ps)"

definition SLPPropertyGet_buf :: "string \<Rightarrow> string \<Rightarrow> SLPProperty list \<Rightarrow> (string \<times> nat) option res" where
  "SLPPropertyGet_buf name buffer ps =
     (if buffer = [] then Inr None
      else case Find_property name ps of
        None \<Rightarrow> Inr (Some (buffer, 0))
      | Some p \<Rightarrow>
          (let valsz = min (length (pr_value p)) (length buffer);
               count = (of_nat valsz - 1 :: 64 word)
           in if unat count > length buffer then Inl OutOfBounds
              else bindR (wrR (take (unat count) (pr_value p) @ drop (unat count) buffer) (unat count) NUL) (\<lambda>b.
                   Inr (Some (b, length (pr_value p))))))"

definition SLPPropertyAsBoolean :: "string \<Rightarrow> SLPProperty list \<Rightarrow> bool" where
  "SLPPropertyAsBoolean name ps =
     (case Find_property name ps of None \<Rightarrow> False | Some p \<Rightarrow> chd (pr_value p) \<in> set ''tTyY1'')"

definition SLPPropertyAsInteger :: "string \<Rightarrow> SLPProperty list \<Rightarrow> int" where
  "SLPPropertyAsInteger name ps = (case Find_property name ps of None \<Rightarrow> 0 | Some p \<Rightarrow> c_atoi (pr_value p))"

fun int_vector :: "nat \<Rightarrow> string \<Rightarrow> int list" where
  "int_vector 0 s = []"
| "int_vector (Suc n) s =
     (if s = [] then [] else c_atoi s # int_vector n (drop 1 (dropWhile (\<lambda>c. c \<noteq> CHR '','') s)))"

text \<open>The number of values and the array, which keeps its contents when there is no such property.\<close>

definition SLPPropertyAsIntegerVector :: "string \<Rightarrow> int list \<Rightarrow> SLPProperty list \<Rightarrow> nat \<times> int list" where
  "SLPPropertyAsIntegerVector name ivector ps =
     (case Find_property name ps of
        None \<Rightarrow> (0, ivector)
      | Some p \<Rightarrow> (let xs = int_vector (length ivector) (pr_value p)
                  in (length xs, xs @ replicate (length ivector - length xs) 0)))"

section \<open>Configuration files\<close>

abbreviation LF :: char where "LF \<equiv> CHR 0x0A"

definition blank :: "char \<Rightarrow> bool" where
  "blank c \<longleftrightarrow> schar c \<le> 0x20"

text \<open>\<open>fgets\<close>: at most one line and at most one character less than the buffer has.\<close>

definition c_fgets :: "nat \<Rightarrow> string \<Rightarrow> (string \<times> string) option" where
  "c_fgets sz s =
     (if s = [] then None
      else let n = length (takeWhile (\<lambda>c. c \<noteq> LF) s); k = min (sz - 1) (n + 1)
           in Some (take k s, drop k s))"

text \<open>
  One line of a configuration file: the name and the value it sets.  A line that
  begins with the equality sign lets the trimming of the name run below the buffer.
\<close>

definition trim_right :: "(char \<Rightarrow> bool) \<Rightarrow> string \<Rightarrow> string" where
  "trim_right P s = rev (dropWhile P (rev s))"

definition config_line :: "string \<Rightarrow> (string \<times> string) option res" where
  "config_line raw =
     (let line = dropWhile blank (c_string raw) in
      if line = [] \<or> chd line = CHR ''#'' \<or> chd line = CHR '';'' then Inr None
      else case c_memchr CHR ''='' line of
        None \<Rightarrow> Inr None
      | Some i \<Rightarrow>
          (if drop (i + 1) line = [] then Inr None
           else if i = 0 then Inl OutOfBounds
           else let name = trim_right blank (take i line);
                    val = trim_right blank (dropWhile blank (drop (i + 1) line))
                in Inr (if val = [] then None else Some (name, val))))"

definition CONFFILE_RDBUFSZ :: nat where "CONFFILE_RDBUFSZ = 4096"

lemma c_fgets_less: "c_fgets sz s = Some (l, r) \<Longrightarrow> 1 < sz \<Longrightarrow> length r < length s"
  by (auto simp: c_fgets_def Let_def split: if_splits)

type_synonym memory = "string \<Rightarrow> string \<Rightarrow> bool"

function config_lines :: "memory \<Rightarrow> string \<Rightarrow> SLPProperty list \<Rightarrow> SLPProperty list res" where
  "config_lines mem s ps =
     (case c_fgets CONFFILE_RDBUFSZ s of
        None \<Rightarrow> Inr ps
      | Some (raw, rest) \<Rightarrow>
          bindR (config_line raw) (\<lambda>a.
            config_lines mem rest
              (case a of None \<Rightarrow> ps | Some (name, val) \<Rightarrow> snd (SLPPropertySet (mem name val) name (Some val) 0 ps))))"
  by pat_completeness auto
termination
  by (relation "measure (\<lambda>(mem, s, ps). length s)") (auto dest: c_fgets_less simp: CONFFILE_RDBUFSZ_def)

declare config_lines.simps [simp del]

definition ReadFileProperties :: "bool \<Rightarrow> memory \<Rightarrow> (string \<Rightarrow> string option) \<Rightarrow> string \<Rightarrow> SLPProperty list \<Rightarrow> (bool \<times> SLPProperty list) res" where
  "ReadFileProperties ok mem files conffile ps =
     (if \<not> ok then Inr (False, ps)
      else case files conffile of
        None \<Rightarrow> Inr (False, ps)
      | Some s \<Rightarrow> bindR (config_lines mem s ps) (\<lambda>ps. Inr (True, ps)))"

text \<open>The version of the program is set by the build.\<close>

definition default_properties :: "string \<Rightarrow> (string \<times> string) list" where
  "default_properties version =
    [(''net.slp.isDA'', ''false''), (''net.slp.DAHeartBeat'', ''10800''), (''net.slp.DAAttributes'', ''''),
     (''net.slp.useScopes'', ''DEFAULT''), (''net.slp.DAAddresses'', ''''),
     (''net.slp.traceDATraffic'', ''false''), (''net.slp.traceMsg'', ''false''), (''net.slp.traceDrop'', ''false''),
     (''net.slp.traceReg'', ''false''), (''net.slp.appendLog'', ''true''),
     (''net.slp.serializedRegURL'', ''''),
     (''net.slp.isBroadcastOnly'', ''false''), (''net.slp.passiveDADetection'', ''true''),
     (''net.slp.multicastTTL'', ''255''), (''net.slp.DAActiveDiscoveryInterval'', ''900''),
     (''net.slp.multicastMaximumWait'', ''15000''),
     (''net.slp.multicastTimeouts'', ''500,750,1000,1500,2000,3000''),
     (''net.slp.DADiscoveryTimeouts'', ''500,750,1000,1500,2000,3000''),
     (''net.slp.datagramTimeouts'', ''500,750,1000,1500,2000,3000''),
     (''net.slp.randomWaitBound'', ''1000''), (''net.slp.MTU'', ''1400''), (''net.slp.interfaces'', ''''),
     (''net.slp.SAAttributes'', ''''),
     (''net.slp.locale'', ''en''), (''net.slp.maxResults'', ''-1''), (''net.slp.typeHint'', ''''),
     (''net.slp.preferSLPv1'', ''false''),
     (''net.slp.securityEnabled'', ''false''),
     (''net.slp.watchRegistrationPID'', ''true''), (''net.slp.OpenSLPVersion'', version),
     (''net.slp.unicastMaximumWait'', ''5000''),
     (''net.slp.unicastTimeouts'', ''500,750,1000,1500,2000,3000''),
     (''net.slp.DADiscoveryMaximumWait'', ''5000''), (''net.slp.activeDADetection'', ''true''),
     (''net.slp.checkSourceAddr'', ''true''), (''net.slp.broadcastAddr'', ''255.255.255.255''),
     (''net.slp.port'', ''427''), (''net.slp.useDHCP'', ''true''),
     (''net.slp.useIPv6'', ''false''), (''net.slp.useIPv4'', ''true'')]"

fun set_defaults :: "memory \<Rightarrow> (string \<times> string) list \<Rightarrow> SLPProperty list \<Rightarrow> int \<times> SLPProperty list" where
  "set_defaults mem [] ps = (0, ps)"
| "set_defaults mem ((name, val) # ds) ps =
     (let (r, ps') = SLPPropertySet (mem name val) name (Some val) 0 ps
      in if r \<noteq> 0 then (-1, ps') else set_defaults mem ds ps')"

definition SetDefaultValues :: "memory \<Rightarrow> string \<Rightarrow> SLPProperty list \<Rightarrow> int \<times> SLPProperty list" where
  "SetDefaultValues mem version ps = set_defaults mem (default_properties version) ps"

text \<open>The state of the module, and what it asks of the system.\<close>

record prop_state =
  s_PropertyList :: "SLPProperty list"
  s_PropertiesInitialized :: bool
  s_AppPropertyFile :: string
  s_EnvPropertyFile :: string
  s_GlobalPropertyFile :: string
  s_GlobalPropertyMTU :: int
  s_RcvBufSize :: int
  s_SndBufSize :: int

record prop_env =
  pe_version :: string
  pe_files :: "string \<Rightarrow> string option"
  pe_mem :: memory
  pe_linebuf :: bool
  pe_mutex :: bool
  pe_getenv :: "string option"
  pe_socket :: bool
  pe_rcvbuf :: "int option"
  pe_sndbuf :: "int option"
  pe_rcvbuf_set :: "int option"
  pe_sndbuf_set :: "int option"

text \<open>One configuration file, whose name is kept in a property that can no longer be changed.\<close>

definition read_conf :: "prop_env \<Rightarrow> string \<Rightarrow> string \<Rightarrow> SLPProperty list \<Rightarrow> SLPProperty list res" where
  "read_conf env file prop ps =
     (if file = [] then Inr ps
      else bindR (ReadFileProperties (pe_linebuf env) (pe_mem env) (pe_files env) file ps) (\<lambda>(b, ps).
        Inr (if b then snd (SLPPropertySet (pe_mem env prop file) prop (Some file) SLP_PA_READONLY ps) else ps)))"

definition ReadPropertyFiles :: "prop_env \<Rightarrow> prop_state \<Rightarrow> (int \<times> prop_state) res" where
  "ReadPropertyFiles env s =
     (let (r, ps) = SetDefaultValues (pe_mem env) (pe_version env) (s_PropertyList s) in
      if r \<noteq> 0 then Inr (-1, s\<lparr>s_PropertyList := ps\<rparr>)
      else bindR (read_conf env (s_GlobalPropertyFile s) ''net.slp.OpenSLPConfigFile'' ps) (\<lambda>ps.
           bindR (read_conf env (s_EnvPropertyFile s) ''net.slp.EnvConfigFile'' ps) (\<lambda>ps.
           bindR (read_conf env (s_AppPropertyFile s) ''net.slp.AppConfigFile'' ps) (\<lambda>ps.
             Inr (0, s\<lparr>s_PropertyList := ps\<rparr>)))))"

text \<open>
  The size a buffer of the kernel is given: nothing when it is large enough,
  otherwise the size the kernel reports after it was asked for \<open>mtu\<close>, at most \<open>mtu\<close>.
\<close>

definition kernel_buf :: "int \<Rightarrow> int option \<Rightarrow> int option \<Rightarrow> int" where
  "kernel_buf mtu before after =
     (case before of
        Some v \<Rightarrow> (if v < mtu
          then (if mtu \<noteq> 0 then (case after of Some w \<Rightarrow> (if w < mtu then w else mtu) | None \<Rightarrow> mtu) else 0) else 0)
      | None \<Rightarrow> 0)"

fun decimal_nat :: "nat \<Rightarrow> string" where
  "decimal_nat n = (if n < 10 then [char_of (48 + n)] else decimal_nat (n div 10) @ [char_of (48 + n mod 10)])"

declare decimal_nat.simps [simp del]

definition decimal :: "int \<Rightarrow> string" where
  "decimal i = (if i < 0 then CHR ''-'' # decimal_nat (nat (- i)) else decimal_nat (nat i))"

definition InitializeMTUPropertyValue :: "prop_env \<Rightarrow> prop_state \<Rightarrow> prop_state" where
  "InitializeMTUPropertyValue env s =
     (let mtu = SLPPropertyAsInteger ''net.slp.MTU'' (s_PropertyList s);
          rcv = (if pe_socket env then kernel_buf mtu (pe_rcvbuf env) (pe_rcvbuf_set env) else 0);
          snd_size = (if pe_socket env then kernel_buf mtu (pe_sndbuf env) (pe_sndbuf_set env) else 0);
          changed = (rcv \<noteq> 0 \<and> snd_size \<noteq> 0);
          mtu' = (if changed then max rcv snd_size else mtu);
          ps = (if changed
                then snd (SLPPropertySet (pe_mem env ''net.slp.MTU'' (decimal mtu')) ''net.slp.MTU'' (Some (decimal mtu')) 0 (s_PropertyList s))
                else s_PropertyList s)
      in s\<lparr>s_GlobalPropertyMTU := mtu', s_RcvBufSize := rcv, s_SndBufSize := snd_size, s_PropertyList := ps\<rparr>)"

definition SLPPropertyCleanup :: "prop_state \<Rightarrow> prop_state" where
  "SLPPropertyCleanup s = s\<lparr>s_PropertyList := []\<rparr>"

definition SLPPropertyReinit :: "prop_env \<Rightarrow> prop_state \<Rightarrow> (int \<times> prop_state) res" where
  "SLPPropertyReinit env s =
     bindR (ReadPropertyFiles env (SLPPropertyCleanup s)) (\<lambda>(r, s). Inr (r, InitializeMTUPropertyValue env s))"

definition MAX_PATH :: nat where "MAX_PATH = 256"

definition SLPPropertySetAppConfFile :: "string option \<Rightarrow> prop_state \<Rightarrow> int \<times> prop_state" where
  "SLPPropertySetAppConfFile aconffile s =
     (if s_PropertiesInitialized s then (-1, s)
      else (0, case aconffile of Some f \<Rightarrow> s\<lparr>s_AppPropertyFile := take (MAX_PATH - 1) f\<rparr> | None \<Rightarrow> s))"

definition SLPPropertyInit :: "prop_env \<Rightarrow> string option \<Rightarrow> prop_state \<Rightarrow> (int \<times> prop_state) res" where
  "SLPPropertyInit env gconffile s =
     (let s = (case pe_getenv env of Some f \<Rightarrow> s\<lparr>s_EnvPropertyFile := take (MAX_PATH - 1) f\<rparr> | None \<Rightarrow> s);
          s = (case gconffile of Some f \<Rightarrow> s\<lparr>s_GlobalPropertyFile := take (MAX_PATH - 1) f\<rparr> | None \<Rightarrow> s)
      in if \<not> pe_mutex env then Inr (-1, s)
         else bindR (SLPPropertyReinit env s) (\<lambda>(r, s).
           Inr (r, if r \<noteq> 0 then s else s\<lparr>s_PropertiesInitialized := True\<rparr>)))"

definition SLPPropertyExit :: "prop_state \<Rightarrow> prop_state" where
  "SLPPropertyExit s = (SLPPropertyCleanup s)\<lparr>s_PropertiesInitialized := False\<rparr>"

section \<open>Setting and reading back\<close>

lemma Find_property_Cons: "Find_property n (p # ps) = (if pr_name p = n then Some p else Find_property n ps)"
  by (simp add: Find_property_def)

lemma Find_property_Nil [simp]: "Find_property n [] = None"
  by (simp add: Find_property_def)

lemma Find_property_name: "Find_property n ps = Some p \<Longrightarrow> pr_name p = n"
  by (induction ps) (auto simp: Find_property_Cons split: if_splits)

lemma Find_property_None: "Find_property n ps = None \<longleftrightarrow> n \<notin> pr_name ` set ps"
  by (induction ps) (auto simp: Find_property_Cons)

lemma Find_property_remove_other: "pr_name p \<noteq> n \<Longrightarrow> Find_property n (remove1 p ps) = Find_property n ps"
  by (induction ps) (auto simp: Find_property_Cons)

lemma names_remove1: "distinct (map pr_name ps) \<Longrightarrow> p \<in> set ps \<Longrightarrow> distinct (map pr_name (remove1 p ps)) \<and> pr_name p \<notin> pr_name ` set (remove1 p ps)"
proof (induction ps)
  case (Cons q ps)
  have "set (remove1 p ps) \<subseteq> set ps" by (rule set_remove1_subset)
  with Cons show ?case by (cases "q = p") (auto intro: rev_image_eqI)
qed simp

definition settable :: "nat \<Rightarrow> string \<Rightarrow> SLPProperty list \<Rightarrow> bool" where
  "settable attrs name ps \<longleftrightarrow>
     (case Find_property name ps of None \<Rightarrow> True
      | Some p \<Rightarrow> pr_attrs p = 0 \<or> pr_attrs p = SLP_PA_USERSET \<and> attrs = SLP_PA_USERSET)"

text \<open>The list as a map from names to values with their attributes.\<close>

definition props_of :: "SLPProperty list \<Rightarrow> string \<rightharpoonup> string \<times> nat" where
  "props_of ps n = map_option (\<lambda>p. (pr_value p, pr_attrs p)) (Find_property n ps)"

lemma Find_property_in: "Find_property n ps = Some p \<Longrightarrow> p \<in> set ps"
  by (induction ps) (auto simp: Find_property_Cons split: if_splits)

lemma SLPPropertySet_distinct:
  assumes "distinct (map pr_name ps)"
  shows "distinct (map pr_name (snd (SLPPropertySet ok name val attrs ps)))"
proof (cases "Find_property name ps")
  case None
  then have "name \<notin> pr_name ` set ps" by (simp add: Find_property_None)
  then show ?thesis using assms None by (cases val) (auto simp: SLPPropertySet_def Let_def)
next
  case (Some p)
  have "distinct (map pr_name (remove1 p ps))" "name \<notin> pr_name ` set (remove1 p ps)"
    using names_remove1[OF assms Find_property_in[OF Some]] Find_property_name[OF Some] by auto
  then show ?thesis using assms by (simp add: SLPPropertySet_def Let_def Some split: option.split)
qed

lemma SLPPropertySet_refines:
  assumes "distinct (map pr_name ps)" "name \<noteq> []" "ok \<or> val = None"
  shows "props_of (snd (SLPPropertySet ok name val attrs ps)) =
      (if settable attrs name ps then (props_of ps)(name := map_option (\<lambda>v. (v, attrs)) val) else props_of ps)"
    and "fst (SLPPropertySet ok name val attrs ps) = (if settable attrs name ps then 0 else -1)"
proof -
  have gone: "Find_property name (remove1 p ps) = None" if "Find_property name ps = Some p" for p
    using names_remove1[OF assms(1) Find_property_in[OF that]] Find_property_name[OF that] by (simp add: Find_property_None)
  have other: "Find_property n (remove1 p ps) = Find_property n ps" if "Find_property name ps = Some p" "n \<noteq> name" for p n
    using that(2) Find_property_name[OF that(1)] by (intro Find_property_remove_other) auto
  show "props_of (snd (SLPPropertySet ok name val attrs ps)) =
      (if settable attrs name ps then (props_of ps)(name := map_option (\<lambda>v. (v, attrs)) val) else props_of ps)"
  proof (rule ext)
    fix n
    show "props_of (snd (SLPPropertySet ok name val attrs ps)) n =
      (if settable attrs name ps then (props_of ps)(name := map_option (\<lambda>v. (v, attrs)) val) else props_of ps) n"
      using assms(2,3) gone other
      by (cases "n = name"; cases val; cases "Find_property name ps")
        (auto simp: SLPPropertySet_def Let_def props_of_def settable_def Find_property_Cons)
  qed
  show "fst (SLPPropertySet ok name val attrs ps) = (if settable attrs name ps then 0 else -1)"
    using assms(2,3) by (auto simp: SLPPropertySet_def Let_def settable_def split: option.splits)
qed

section \<open>Reading what was written\<close>

definition config_name :: "string \<Rightarrow> bool" where
  "config_name n \<longleftrightarrow> n \<noteq> [] \<and> \<not> blank (hd n) \<and> \<not> blank (last n) \<and> hd n \<notin> set ''#;'' \<and> (\<forall>c\<in>set n. c \<notin> set [NUL, LF, CHR ''=''])"

definition config_value :: "string \<Rightarrow> bool" where
  "config_value v \<longleftrightarrow> v \<noteq> [] \<and> \<not> blank (hd v) \<and> \<not> blank (last v) \<and> (\<forall>c\<in>set v. c \<notin> set [NUL, LF])"

definition config_text :: "string \<times> string \<Rightarrow> string" where
  "config_text a = fst a @ '' = '' @ snd a @ [LF]"

lemma c_fgets_line: "LF \<notin> set l \<Longrightarrow> length l + 1 < sz \<Longrightarrow> c_fgets sz (l @ LF # rest) = Some (l @ [LF], rest)"
proof -
  assume a: "LF \<notin> set l" "length l + 1 < sz"
  have "takeWhile (\<lambda>c. c \<noteq> LF) (l @ LF # rest) = l" using a(1) by (subst takeWhile_append2) auto
  moreover have "min (sz - 1) (length l + 1) = length l + 1" using a(2) by simp
  ultimately show ?thesis by (simp add: c_fgets_def)
qed

lemma trim_right_end: "x \<noteq> [] \<Longrightarrow> \<not> P (last x) \<Longrightarrow> (\<And>c. c \<in> set ys \<Longrightarrow> P c) \<Longrightarrow> trim_right P (x @ ys) = x"
proof -
  assume a: "x \<noteq> []" "\<not> P (last x)" "\<And>c. c \<in> set ys \<Longrightarrow> P c"
  obtain xs l where x: "x = xs @ [l]" using a(1) by (metis rev_exhaust)
  have "dropWhile P (rev ys @ rev x) = dropWhile P (rev x)" by (rule dropWhile_append2) (use a(3) in simp)
  then have "dropWhile P (rev (x @ ys)) = dropWhile P (rev x)" by simp
  then show ?thesis using a(2) by (simp add: trim_right_def x)
qed

lemma blanks [simp]: "blank CHR '' ''" "blank LF" "blank NUL"
  by (simp_all add: blank_def schar_def)

lemma config_line_text:
  assumes "config_name n" "config_value v"
  shows "config_line (n @ '' = '' @ v @ [LF]) = Inr (Some (n, v))"
proof -
  let ?l = "(n @ '' '') @ CHR ''='' # '' '' @ v @ [LF]"
  obtain c n' where n: "n = c # n'" using assms(1) by (cases n) (auto simp: config_name_def)
  obtain d v' where v: "v = d # v'" using assms(2) by (cases v) (auto simp: config_value_def)
  have "NUL \<notin> set ?l" using assms by (auto simp: config_name_def config_value_def)
  then have s: "c_string ?l = ?l" by (rule c_string_id)
  have d: "dropWhile blank ?l = ?l" using assms(1) n by (simp add: config_name_def)
  have m: "c_memchr CHR ''='' ?l = Some (length n + 1)"
    using assms(1) c_memchr_first[of "CHR ''=''" "n @ '' ''"] by (auto simp: config_name_def)
  have tn: "trim_right blank (n @ '' '') = n" using assms(1) by (intro trim_right_end) (auto simp: config_name_def)
  have dv: "dropWhile blank ('' '' @ v @ [LF]) = v @ [LF]" using assms(2) v by (simp add: config_value_def)
  have tv: "trim_right blank (v @ [LF]) = v" using assms(2) by (intro trim_right_end) (auto simp: config_value_def)
  have h: "chd ?l = c" "?l \<noteq> []" "c \<noteq> CHR ''#''" "c \<noteq> CHR '';''" using assms(1) by (auto simp: n chd_def config_name_def)
  have dr: "drop (length n + 1 + 1) ?l = '' '' @ v @ [LF]" "take (length n + 1) ?l = n @ '' ''" by simp_all
  have "config_line ?l = Inr (Some (n, v))"
    unfolding config_line_def Let_def s d m option.case h(1) dr tn dv tv using h(2-) v by simp
  then show ?thesis by simp
qed

lemma config_line_empty_name: "config_line (CHR ''='' # CHR ''x'' # s) = Inl OutOfBounds"
  by (simp add: config_line_def c_string_def blank_def schar_def chd_def)

text \<open>A value loses a last character outside ASCII, which is a negative \<open>char\<close>.\<close>

lemma config_line_utf8: "config_line (''a=b'' @ [CHR 0xC3, CHR 0xA9, LF]) = Inr (Some (''a'', ''b''))"
  by code_simp

lemma config_lines_text:
  assumes "\<And>n v. (n, v) \<in> set as \<Longrightarrow> config_name n \<and> config_value v \<and> length n + length v \<le> 4091"
    and "\<And>n v. mem n v"
  shows "config_lines mem (concat (map config_text as)) ps =
     Inr (fold (\<lambda>(n, v) ps. snd (SLPPropertySet True n (Some v) 0 ps)) as ps)"
  using assms(1)
proof (induction as arbitrary: ps)
  case Nil
  show ?case by (simp add: config_lines.simps c_fgets_def)
next
  case (Cons a as)
  obtain n v where a: "a = (n, v)" by force
  have nv: "config_name n" "config_value v" "length n + length v \<le> 4091" using Cons.prems[of n v] a by auto
  have "LF \<notin> set (n @ '' = '' @ v)" using nv(1,2) by (auto simp: config_name_def config_value_def)
  then have f: "c_fgets CONFFILE_RDBUFSZ (concat (map config_text (a # as))) = Some (n @ '' = '' @ v @ [LF], concat (map config_text as))"
    using c_fgets_line[of "n @ '' = '' @ v" CONFFILE_RDBUFSZ "concat (map config_text as)"] nv(3)
    by (simp add: a config_text_def CONFFILE_RDBUFSZ_def)
  have IH: "config_lines mem (concat (map config_text as)) ps' = Inr (fold (\<lambda>(n, v) ps. snd (SLPPropertySet True n (Some v) 0 ps)) as ps')" for ps'
    by (rule Cons.IH) (use Cons.prems in auto)
  have m: "mem n v = True" using assms(2) by simp
  show ?case
    unfolding config_lines.simps[of mem "concat (map config_text (a # as))"] f option.case prod.case config_line_text[OF nv(1,2)] bindR_simps
    using IH m by (simp add: a)
qed

lemma fold_sets_distinct:
  "distinct (map pr_name ps) \<Longrightarrow>
     distinct (map pr_name (fold (\<lambda>(n, v) ps. snd (SLPPropertySet True n (Some v) 0 ps)) as ps))"
  by (induction as arbitrary: ps) (auto simp: SLPPropertySet_distinct)

lemma fold_sets_props:
  assumes "distinct (map pr_name ps)" "\<And>n v. (n, v) \<in> set as \<Longrightarrow> n \<noteq> []"
  shows "props_of (fold (\<lambda>(n, v) ps. snd (SLPPropertySet True n (Some v) 0 ps)) as ps) n =
      (if settable 0 n ps then (case map_of (rev as) n of Some v \<Rightarrow> Some (v, 0) | None \<Rightarrow> props_of ps n) else props_of ps n)"
  using assms
proof (induction as arbitrary: ps)
  case (Cons a as)
  obtain m v where a: "a = (m, v)" by force
  let ?ps = "snd (SLPPropertySet True m (Some v) 0 ps)"
  have m: "m \<noteq> []" using Cons.prems(2)[of m v] a by simp
  have as: "n \<noteq> []" if "(n, v) \<in> set as" for n v using Cons.prems(2)[of n v] that by simp
  have d: "distinct (map pr_name ?ps)" using Cons.prems(1) by (rule SLPPropertySet_distinct)
  have r: "props_of ?ps = (if settable 0 m ps then (props_of ps)(m \<mapsto> (v, 0)) else props_of ps)"
    using SLPPropertySet_refines(1)[OF Cons.prems(1) m, of True "Some v" 0] by simp
  have set_of: "settable 0 k qs \<longleftrightarrow> (case props_of qs k of None \<Rightarrow> True | Some (v, a) \<Rightarrow> a = 0)" for k qs
    by (auto simp: settable_def props_of_def SLP_PA_USERSET_def split: option.splits)
  have "props_of (fold (\<lambda>(n, v) ps. snd (SLPPropertySet True n (Some v) 0 ps)) (a # as) ps) n =
      (if settable 0 n ?ps then (case map_of (rev as) n of Some v \<Rightarrow> Some (v, 0) | None \<Rightarrow> props_of ?ps n) else props_of ?ps n)"
    using Cons.IH[OF d as] by (simp only: a fold_simps prod.case)
  moreover have "settable 0 n ?ps \<longleftrightarrow> settable 0 n ps"
    using r by (cases "settable 0 m ps"; cases "n = m") (simp_all add: set_of)
  moreover have "map_of (rev (a # as)) n = (case map_of (rev as) n of Some v \<Rightarrow> Some v | None \<Rightarrow> if n = m then Some v else None)"
    by (simp add: a map_add_def split: option.splits)
  ultimately show ?case using r by (auto split: option.splits)
qed simp

text \<open>
  C35: a configuration file of assignments gives every property the last value
  that is assigned to it, except those a user has set or that cannot be changed,
  which keep theirs.
\<close>

theorem config_file_roundtrip:
  assumes "distinct (map pr_name ps)" "\<And>n v. mem n v"
    and "\<And>n v. (n, v) \<in> set as \<Longrightarrow> config_name n \<and> config_value v \<and> length n + length v \<le> 4091"
    and "files conf = Some (concat (map config_text as))"
  shows "\<exists>ps'. ReadFileProperties True mem files conf ps = Inr (True, ps') \<and> distinct (map pr_name ps') \<and>
     (\<forall>n. SLPPropertyGet_ref n ps' =
        (if settable 0 n ps \<and> map_of (rev as) n \<noteq> None then map_of (rev as) n else SLPPropertyGet_ref n ps))"
proof -
  let ?ps = "fold (\<lambda>(n, v) ps. snd (SLPPropertySet True n (Some v) 0 ps)) as ps"
  have names: "n \<noteq> []" if "(n, v) \<in> set as" for n v using assms(3)[OF that] by (simp add: config_name_def)
  have get: "SLPPropertyGet_ref n qs = map_option fst (props_of qs n)" for n qs
    by (simp add: SLPPropertyGet_ref_def props_of_def option.map_comp comp_def)
  have "ReadFileProperties True mem files conf ps = Inr (True, ?ps)"
    by (simp add: ReadFileProperties_def assms(4) config_lines_text[OF assms(3) assms(2)])
  moreover have "distinct (map pr_name ?ps)" using fold_sets_distinct[OF assms(1)] .
  moreover have "SLPPropertyGet_ref n ?ps =
      (if settable 0 n ps \<and> map_of (rev as) n \<noteq> None then map_of (rev as) n else SLPPropertyGet_ref n ps)" for n
    using fold_sets_props[OF assms(1) names, where n = n] by (auto simp: get split: option.splits)
  ultimately show ?thesis by blast
qed

definition sample_conf :: "(string \<times> string) list" where
  "sample_conf = [(''net.slp.isDA'', ''false''), (''net.slp.useScopes'', ''A, B''), (''net.slp.isDA'', ''true'')]"

definition sample_properties :: "SLPProperty list" where
  "sample_properties = [\<lparr>pr_name = ''net.slp.useScopes'', pr_value = ''mine'', pr_attrs = 1\<rparr>]"

theorem config_file_roundtrip_witness:
  "\<exists>ps'. ReadFileProperties True (\<lambda>n v. True) [''slp.conf'' \<mapsto> concat (map config_text sample_conf)] ''slp.conf'' sample_properties = Inr (True, ps')
     \<and> SLPPropertyGet_ref ''net.slp.isDA'' ps' = Some ''true'' \<and> SLPPropertyGet_ref ''net.slp.useScopes'' ps' = Some ''mine''"
proof -
  have "\<exists>ps'. ReadFileProperties True (\<lambda>n v. True) [''slp.conf'' \<mapsto> concat (map config_text sample_conf)] ''slp.conf'' sample_properties = Inr (True, ps')
     \<and> distinct (map pr_name ps') \<and>
     (\<forall>n. SLPPropertyGet_ref n ps' =
        (if settable 0 n sample_properties \<and> map_of (rev sample_conf) n \<noteq> None then map_of (rev sample_conf) n else SLPPropertyGet_ref n sample_properties))"
  proof (rule config_file_roundtrip)
    have "\<forall>(n, v)\<in>set sample_conf. config_name n \<and> config_value v \<and> length n + length v \<le> 4091" by code_simp
    then show "config_name n \<and> config_value v \<and> length n + length v \<le> 4091" if "(n, v) \<in> set sample_conf" for n v
      using that by auto
  qed (simp_all add: sample_properties_def)
  moreover have "settable 0 ''net.slp.isDA'' sample_properties" "\<not> settable 0 ''net.slp.useScopes'' sample_properties"
    "map_of (rev sample_conf) ''net.slp.isDA'' = Some ''true''" "SLPPropertyGet_ref ''net.slp.useScopes'' sample_properties = Some ''mine''"
    by code_simp+
  ultimately show ?thesis by auto
qed

section \<open>The copy into a buffer\<close>

text \<open>
  The copy has room for the terminator in place of the last character of the
  value, whatever the size of the buffer; an empty value is copied with a length
  of the largest number there is.
\<close>

lemma SLPPropertyGet_buf_empty:
  assumes "Find_property name ps = Some p" "pr_value p = []" "buffer \<noteq> []" "length buffer < 2 ^ 63"
  shows "SLPPropertyGet_buf name buffer ps = Inl OutOfBounds"
  using assms by (simp add: SLPPropertyGet_buf_def Let_def wrR_def unsigned_minus_1_eq_mask mask_eq_exp_minus_1)

lemma SLPPropertyGet_buf_truncates:
  "SLPPropertyGet_buf ''a'' (replicate 8 CHR ''x'') [\<lparr>pr_name = ''a'', pr_value = ''abc'', pr_attrs = 0\<rparr>] =
     Inr (Some (''ab'' @ [NUL] @ ''xxxxx'', 3))"
  by code_simp

section \<open>Numbers\<close>

lemma decimal_digit: "c \<in> set (decimal_nat n) \<Longrightarrow> 48 \<le> uchar c \<and> uchar c \<le> 57"
proof (induction n rule: decimal_nat.induct)
  case (1 n)
  then show ?case by (subst (asm) (2) decimal_nat.simps) (auto split: if_splits)
qed

lemma digits_value_decimal_nat:
  "(\<And>c r. rest = c # r \<Longrightarrow> \<not> (48 \<le> uchar c \<and> uchar c \<le> 57)) \<Longrightarrow>
     digits_value v (decimal_nat n @ rest) = 10 ^ length (decimal_nat n) * v + int n"
proof (induction n arbitrary: rest rule: decimal_nat.induct)
  case (1 n)
  have stop: "digits_value w rest = w" for w using 1(2) by (cases rest) auto
  show ?case
  proof (cases "n < 10")
    case True
    then show ?thesis by (simp add: decimal_nat.simps[of n] stop)
  next
    case False
    let ?c = "char_of (48 + n mod 10) :: char"
    have c: "(48 + n mod 10) mod 256 = 48 + n mod 10" "n mod 10 \<le> 9" by simp_all
    have "digits_value v (decimal_nat n @ rest) = digits_value v (decimal_nat (n div 10) @ ?c # rest)"
      using False by (subst decimal_nat.simps) simp
    also have "\<dots> = digits_value (10 ^ length (decimal_nat (n div 10)) * v + int (n div 10)) (?c # rest)"
    proof -
      have split: "digits_value u (ds @ t) = digits_value (digits_value u ds) t"
        if "\<forall>c\<in>set ds. 48 \<le> uchar c \<and> uchar c \<le> 57" for u ds t
        using that by (induction ds arbitrary: u) auto
      have d: "\<forall>c\<in>set (decimal_nat (n div 10)). 48 \<le> uchar c \<and> uchar c \<le> 57" using decimal_digit by blast
      show ?thesis using 1(1)[OF False, of "[]"] by (simp add: split[OF d])
    qed
    also have "\<dots> = 10 * (10 ^ length (decimal_nat (n div 10)) * v + int (n div 10)) + int (n mod 10)"
      by (simp add: stop c)
    also have "\<dots> = 10 ^ length (decimal_nat n) * v + int n"
      using False by (subst (2) decimal_nat.simps) (simp add: zdiv_int zmod_int algebra_simps)
    finally show ?thesis .
  qed
qed

lemma c_atoi_decimal_nat:
  assumes "\<And>c r. rest = c # r \<Longrightarrow> \<not> (48 \<le> uchar c \<and> uchar c \<le> 57)"
  shows "c_atoi (decimal_nat n @ rest) = int n"
proof -
  obtain c ds where d: "decimal_nat n = c # ds" by (cases "decimal_nat n") (auto simp: decimal_nat.simps[of n] split: if_splits)
  then have "48 \<le> uchar c \<and> uchar c \<le> 57" using decimal_digit[of c n] by simp
  then have "\<not> c_isspace c" "c \<noteq> CHR ''-''" "c \<noteq> CHR ''+''" by (auto simp: c_isspace_def uchar_def)
  then show ?thesis using digits_value_decimal_nat[where v = 0 and n = n, OF assms] d by (simp add: c_atoi_def)
qed

end
