(* ===== verification/Libslp_Network.thy ===== *)
theory Libslp_Network
  imports Libslp_Request SLP_Net SLP_StringList SLP_Property
begin

text \<open>
  How the client library exchanges messages: \<open>common/slp_network.c\<close>, which sends
  and receives one message, and \<open>NetworkRqstRply\<close> of \<open>libslp/libslp_network.c\<close>,
  which sends a request again and again, with the list of those that have
  answered, and passes the replies to the callback of the operation.

  The network is a script: what each call of \<open>poll\<close> and of the transfer after it
  brings.  When a script is used up, nothing happens any more and the calls time
  out.  Memory is a function that tells for which sizes it suffices.
\<close>

section \<open>Sending a message\<close>

definition EPIPE :: nat where "EPIPE = 32"
definition ENOTCONN :: nat where "ENOTCONN = 107"
definition ETIMEDOUT :: nat where "ETIMEDOUT = 110"

text \<open>The socket accepts so many bytes, does not become writable in time, or fails.\<close>

datatype send_event = Accepts nat | SendTimeout | SendFails

text \<open>The chunks that were sent, the error, and what is left of the script.\<close>

fun SLPNetworkSendMessage :: "send_event list \<Rightarrow> 8 word list \<Rightarrow> 8 word list list \<times> nat option \<times> send_event list" where
  "SLPNetworkSendMessage [] m = ([], if m = [] then None else Some ETIMEDOUT, [])"
| "SLPNetworkSendMessage (ev # evs) m =
     (if m = [] then ([], None, ev # evs)
      else case ev of
        SendTimeout \<Rightarrow> ([], Some ETIMEDOUT, evs)
      | SendFails \<Rightarrow> ([], Some EPIPE, evs)
      | Accepts n \<Rightarrow>
          (if n > 0 then
             (let (sent, err, evs) = SLPNetworkSendMessage evs (drop n m) in (take n m # sent, err, evs))
           else ([], Some EPIPE, evs)))"

lemma SendMessage_prefix:
  "SLPNetworkSendMessage evs m = (sent, err, evs') \<Longrightarrow>
     \<exists>rest. m = concat sent @ rest \<and> (err = None \<longleftrightarrow> rest = []) \<and> (\<forall>c \<in> set sent. c \<noteq> [] \<and> length c \<le> length m)"
proof (induction evs m arbitrary: sent err evs' rule: SLPNetworkSendMessage.induct)
  case (2 ev evs m)
  show ?case
  proof (cases "m \<noteq> [] \<and> (\<exists>n > 0. ev = Accepts n)")
    case True
    then obtain n where n: "m \<noteq> []" "ev = Accepts n" "n > 0" by blast
    obtain s1 e1 evs1 where r: "SLPNetworkSendMessage evs (drop n m) = (s1, e1, evs1)" by (metis prod_cases3)
    then have out: "sent = take n m # s1" "err = e1" using 2(2) n by auto
    obtain rest where rest: "drop n m = concat s1 @ rest" "(e1 = None) = (rest = [])"
        "\<forall>c \<in> set s1. c \<noteq> [] \<and> length c \<le> length (drop n m)"
      using 2(1)[OF n r] by blast
    have "m = concat sent @ rest" by (metis append_take_drop_id rest(1) out(1) concat.simps(2) append.assoc)
    moreover have "\<forall>c \<in> set sent. c \<noteq> [] \<and> length c \<le> length m"
      using rest(3) n out(1) by (auto intro: le_trans[OF _ diff_le_self])
    ultimately show ?thesis using rest(2) out(2) by blast
  next
    case False
    then have "m = [] \<or> ev = SendTimeout \<or> ev = SendFails \<or> ev = Accepts 0" by (cases ev) auto
    with 2(2) show ?thesis by (auto split: if_splits)
  qed
qed auto

section \<open>Receiving a message\<close>

text \<open>
  A datagram, or bytes of a stream, arrive from an address; no bytes are an empty
  datagram or the end of the stream.  A datagram stays queued while it is only
  looked at, and one call takes it away, whatever the size of the buffer.
\<close>

datatype net_event = Arrives sockaddr "8 word list" | NoData | PollFails

fun recv_fill :: "bool \<Rightarrow> net_event list \<Rightarrow> SLPBuffer \<Rightarrow> (nat option \<times> SLPBuffer \<times> net_event list) res" where
  "recv_fill dgram [] b = Inr (if bcur b < bend b then Some ETIMEDOUT else None, b, [])"
| "recv_fill dgram (ev # evs) b =
     (if bcur b < bend b then
        (case ev of
           NoData \<Rightarrow> Inr (Some ETIMEDOUT, b, evs)
         | PollFails \<Rightarrow> Inr (Some ENOTCONN, b, evs)
         | Arrives a bytes \<Rightarrow>
             (let n = bend b - bcur b in
              if bytes = [] then Inr (Some ENOTCONN, b, if dgram then evs else ev # evs)
              else bindR (put_bytes (take n bytes) b) (\<lambda>(_, b).
                if dgram \<or> length bytes \<le> n then recv_fill dgram evs b
                else Inr (None, b, Arrives a (drop n bytes) # evs))))
      else Inr (None, b, ev # evs))"

text \<open>The error, the buffer, the sender where the socket tells it, and the rest of the script.\<close>

definition SLPNetworkRecvMessage ::
  "(nat \<Rightarrow> bool) \<Rightarrow> (nat \<Rightarrow> 8 word) \<Rightarrow> bool \<Rightarrow> net_event list \<Rightarrow> SLPBuffer option
     \<Rightarrow> (nat option \<times> SLPBuffer option \<times> sockaddr option \<times> net_event list) res" where
  "SLPNetworkRecvMessage mem junk dgram evs buf =
     (case evs of
        [] \<Rightarrow> Inr (Some ETIMEDOUT, buf, None, [])
      | NoData # evs' \<Rightarrow> Inr (Some ETIMEDOUT, buf, None, evs')
      | PollFails # evs' \<Rightarrow> Inr (Some ENOTCONN, buf, None, evs')
      | Arrives a bytes # evs' \<Rightarrow>
          (let peer = (if dgram then Some a else None); peek = take 16 bytes in
           if bytes = [] then Inr (Some ENOTCONN, buf, peer, evs)
           else if length peek \<ge> 5 \<and> (peek ! 0 = 1 \<or> peek ! 0 = 2) then
             (let recvlen = PEEK_LENGTH peek in
              case SLPBufferRealloc (mem recvlen) junk buf recvlen of
                None \<Rightarrow> Inr (Some ENOMEM, None, peer, evs)
              | Some b \<Rightarrow> bindR (recv_fill dgram evs b) (\<lambda>(err, b, evs). Inr (err, Some b, peer, evs)))
           else Inr (Some EINVAL, buf, peer, evs)))"

text \<open>A live buffer as far as its object goes; the cursor may be anywhere.\<close>

definition buffer_sound :: "SLPBuffer \<Rightarrow> bool" where
  "buffer_sound b \<longleftrightarrow> length (bmem b) = allocated b + 1 \<and> bend b \<le> allocated b"

lemma buffer_ok_sound: "buffer_ok b \<longleftrightarrow> buffer_sound b \<and> bcur b \<le> bend b"
  by (auto simp: buffer_ok_def buffer_sound_def)

lemma SLPBufferRealloc_sound:
  "\<forall>b0. buf = Some b0 \<longrightarrow> buffer_sound b0 \<Longrightarrow> SLPBufferRealloc ok junk buf sz = Some b \<Longrightarrow>
     buffer_ok b \<and> bcur b = 0 \<and> bend b = sz"
  by (auto simp: SLPBufferRealloc_def buffer_ok_def buffer_sound_def SLPBufferAlloc_def split: option.splits if_splits)

lemma recv_fill_ok:
  assumes "buffer_ok b"
  obtains err b' evs' where "recv_fill dgram evs b = Inr (err, b', evs')" "buffer_ok b'" "bend b' = bend b"
    "err = None \<Longrightarrow> bcur b' = bend b" "length evs' \<le> length evs" "dgram \<Longrightarrow> set evs' \<subseteq> set evs"
    "dgram \<Longrightarrow> bcur b < bend b \<Longrightarrow> evs = Arrives a bytes # evs0 \<Longrightarrow> length evs' < length evs"
proof -
  have "\<exists>err b' evs'. recv_fill dgram evs b = Inr (err, b', evs') \<and> buffer_ok b' \<and> bend b' = bend b
    \<and> (err = None \<longrightarrow> bcur b' = bend b) \<and> length evs' \<le> length evs \<and> (dgram \<longrightarrow> set evs' \<subseteq> set evs)
    \<and> (dgram \<and> bcur b < bend b \<and> (\<exists>a bytes evs0. evs = Arrives a bytes # evs0) \<longrightarrow> length evs' < length evs)"
    using assms
  proof (induction evs arbitrary: b)
    case (Cons ev evs)
    show ?case
    proof (cases "bcur b < bend b")
      case True
      show ?thesis
      proof (cases ev)
        case (Arrives a bytes)
        show ?thesis
        proof (cases "bytes = []")
          case False
          let ?n = "bend b - bcur b"
          have fit: "bcur b + length (take ?n bytes) \<le> length (bmem b)" using Cons.prems True by (auto simp: buffer_ok_def)
          obtain b1 where b1: "put_bytes (take ?n bytes) b = Inr ((), b1)" using put_bytes_fits[OF fit] by blast
          have "length (bmem b1) = length (bmem b) \<and> allocated b1 = allocated b \<and> bend b1 = bend b \<and> bcur b1 = bcur b + length (take ?n bytes)"
            using b1 fit by (auto simp: put_bytes_def split: if_splits)
          then have ok1: "buffer_ok b1" "bend b1 = bend b" "?n \<le> length bytes \<longrightarrow> bcur b1 = bend b"
            using Cons.prems True by (auto simp: buffer_ok_def)
          show ?thesis
          proof (cases "dgram \<or> length bytes \<le> ?n")
            case True
            obtain err b' evs' where "recv_fill dgram evs b1 = Inr (err, b', evs')" "buffer_ok b'" "bend b' = bend b1"
              "err = None \<longrightarrow> bcur b' = bend b1" "length evs' \<le> length evs" "dgram \<longrightarrow> set evs' \<subseteq> set evs"
              using Cons.IH[OF ok1(1)] by blast
            with True \<open>bcur b < bend b\<close> Arrives False b1 ok1(2) show ?thesis by auto
          next
            case False
            with \<open>bcur b < bend b\<close> Arrives \<open>bytes \<noteq> []\<close> b1 ok1 show ?thesis by auto
          qed
        qed (use Cons.prems True Arrives in auto)
      qed (use Cons.prems True in auto)
    qed (use Cons.prems in \<open>auto simp: buffer_ok_def\<close>)
  qed (auto simp: buffer_ok_def)
  then show ?thesis using that by blast
qed

lemma RecvMessage_ok:
  assumes "\<forall>b. buf = Some b \<longrightarrow> buffer_sound b"
  obtains err buf' peer evs' where
    "SLPNetworkRecvMessage mem junk dgram evs buf = Inr (err, buf', peer, evs')"
    "\<And>b. buf' = Some b \<Longrightarrow> buffer_sound b" "dgram \<Longrightarrow> set evs' \<subseteq> set evs"
    "err = None \<Longrightarrow> \<exists>b a bytes evs0. buf' = Some b \<and> bcur b = bend b \<and> evs = Arrives a bytes # evs0 \<and> 5 \<le> length bytes
       \<and> (bytes ! 0 = 1 \<or> bytes ! 0 = 2) \<and> bend b = PEEK_LENGTH (take 16 bytes)
       \<and> (dgram \<longrightarrow> peer = Some a \<and> (0 < bend b \<longrightarrow> length evs' < length evs))"
proof (cases evs)
  case Nil
  then show ?thesis using that[of "Some ETIMEDOUT" buf None "[]"] assms by (simp add: SLPNetworkRecvMessage_def)
next
  case (Cons ev evs0)
  show ?thesis
  proof (cases ev)
    case (Arrives a bytes)
    let ?peer = "if dgram then Some a else None" and ?peek = "take 16 bytes"
    show ?thesis
    proof (cases "bytes \<noteq> [] \<and> length ?peek \<ge> 5 \<and> (?peek ! 0 = 1 \<or> ?peek ! 0 = 2)")
      case False
      then obtain e where "SLPNetworkRecvMessage mem junk dgram evs buf = Inr (Some e, buf, ?peer, evs)"
        using Cons Arrives that by (cases "bytes = []") (auto simp: SLPNetworkRecvMessage_def Let_def)
      then show ?thesis using that[of "Some e" buf ?peer evs] assms by simp
    next
      case True
      let ?n = "PEEK_LENGTH ?peek"
      show ?thesis
      proof (cases "SLPBufferRealloc (mem ?n) junk buf ?n")
        case None
        then show ?thesis
          using that[of "Some ENOMEM" None ?peer evs] True Cons Arrives by (auto simp: SLPNetworkRecvMessage_def Let_def)
      next
        case (Some b)
        have b: "buffer_ok b" "bcur b = 0" "bend b = ?n" using SLPBufferRealloc_sound[OF assms Some] by auto
        obtain err b' evs' where f: "recv_fill dgram evs b = Inr (err, b', evs')" "buffer_ok b'" "bend b' = bend b"
          "err = None \<Longrightarrow> bcur b' = bend b" "dgram \<Longrightarrow> set evs' \<subseteq> set evs"
          "dgram \<Longrightarrow> bcur b < bend b \<Longrightarrow> evs = Arrives a bytes # evs0 \<Longrightarrow> length evs' < length evs"
          using recv_fill_ok[OF b(1), where dgram = dgram and evs = evs and a = a and bytes = bytes and evs0 = evs0] by metis
        have "SLPNetworkRecvMessage mem junk dgram evs buf = Inr (err, Some b', ?peer, evs')"
          using True Cons Arrives Some f(1) by (auto simp: SLPNetworkRecvMessage_def Let_def)
        moreover have "5 \<le> length bytes" "bytes ! 0 = 1 \<or> bytes ! 0 = 2" using True by auto
        ultimately show ?thesis
          using that[of err "Some b'" ?peer evs'] f b Cons Arrives
          by (auto simp: buffer_ok_sound)
      qed
    qed
  next
    case NoData
    then show ?thesis using that[of "Some ETIMEDOUT" buf None evs0] Cons assms by (auto simp: SLPNetworkRecvMessage_def)
  next
    case PollFails
    then show ?thesis using that[of "Some ENOTCONN" buf None evs0] Cons assms by (auto simp: SLPNetworkRecvMessage_def)
  qed
qed

text \<open>A datagram whose length field is right is read as it was sent.\<close>

lemma RecvMessage_datagram:
  assumes "5 \<le> length bytes" "bytes ! 0 = 1 \<or> bytes ! 0 = 2" "PEEK_LENGTH (take 16 bytes) = length bytes"
    "mem (length bytes)" "\<forall>b. buf = Some b \<longrightarrow> buffer_sound b"
  obtains b where "SLPNetworkRecvMessage mem junk True (Arrives a bytes # evs) buf = Inr (None, Some b, Some a, evs)"
    "buffer_sound b" "bcur b = bend b" "bend b = length bytes" "buf_bytes b = bytes"
proof -
  obtain b0 where b0: "SLPBufferRealloc True junk buf (length bytes) = Some b0" using SLPBufferRealloc_True by blast
  have b: "buffer_ok b0" "bcur b0 = 0" "bend b0 = length bytes" using SLPBufferRealloc_sound[OF assms(5) b0] by auto
  obtain b1 where b1: "put_bytes bytes b0 = Inr ((), b1)"
    using put_bytes_fits[of b0 bytes] b by (auto simp: buffer_ok_def)
  then have 1: "length (bmem b1) = length (bmem b0)" "allocated b1 = allocated b0" "bend b1 = bend b0" "bcur b1 = length bytes"
    "take (length bytes) (bmem b1) = bytes"
    using b by (auto simp: put_bytes_def split: if_splits)
  have "bytes \<noteq> []" using assms(1) by auto
  then have fill: "recv_fill True (Arrives a bytes # evs) b0 = Inr (None, b1, evs)"
    using b b1 1(3,4) by (cases evs) auto
  have "SLPNetworkRecvMessage mem junk True (Arrives a bytes # evs) buf = Inr (None, Some b1, Some a, evs)"
    using assms b0 fill \<open>bytes \<noteq> []\<close> by (simp add: SLPNetworkRecvMessage_def Let_def)
  moreover have "buffer_sound b1" using 1 b by (auto simp: buffer_sound_def buffer_ok_def)
  ultimately show ?thesis using that[of b1] 1 b(3) by (simp add: buf_bytes_def)
qed

section \<open>Requests\<close>

text \<open>The codes of \<open>SLPError\<close> that these functions use.\<close>

datatype SLPError =
  SLP_LAST_CALL | SLP_OK | SLP_PARSE_ERROR | SLP_BUFFER_OVERFLOW | SLP_NETWORK_TIMED_OUT
| SLP_MEMORY_ALLOC_FAILED | SLP_PARAMETER_BAD | SLP_NETWORK_ERROR | SLP_HANDLE_IN_USE | SLP_OTHER int

definition RETRANSMITS :: nat where "RETRANSMITS = 5"
definition MAX_MTU :: int where "MAX_MTU = 65535"
definition SLP_CHAR_UTF8 :: nat where "SLP_CHAR_UTF8 = 106"
definition SLPv1_FLAG_FRESH :: "8 word" where "SLPv1_FLAG_FRESH = 0x08"
definition SLP_FUNCT_DASRVRQST :: nat where "SLP_FUNCT_DASRVRQST = 0x7f"

text \<open>An \<open>int\<close> that becomes a \<open>size_t\<close>: a negative one is very large.\<close>

definition getmtu :: "prop_state \<Rightarrow> nat" where
  "getmtu s = (let mtu = s_GlobalPropertyMTU s in nat (if mtu < 0 \<or> mtu > MAX_MTU then MAX_MTU else mtu))"

definition put_v1_message ::
  "nat \<Rightarrow> nat \<Rightarrow> 64 word \<Rightarrow> 8 word list \<Rightarrow> 8 word list option \<Rightarrow> 8 word list \<Rightarrow> unit parser" where
  "put_v1_message buftype sz xid langtag prlist buf =
     bindP (put_bytes [1]) (\<lambda>_.
     bindP (put_bytes [of_nat buftype]) (\<lambda>_.
     bindP (slp_PutUINT16 (of_nat sz)) (\<lambda>_.
     bindP (put_bytes [if buftype = SLP_FUNCT_SRVREG then SLPv1_FLAG_FRESH else 0]) (\<lambda>_.
     bindP (put_bytes [0]) (\<lambda>_.
     bindP (put_bytes (if length langtag < 2 then bytes_of ''en'' else take 2 langtag)) (\<lambda>_.
     bindP (slp_PutUINT16 (of_nat SLP_CHAR_UTF8)) (\<lambda>_.
     bindP (slp_PutUINT16 xid) (\<lambda>_.
     bindP (case prlist of None \<Rightarrow> retP () | Some pr \<Rightarrow> PutL16String pr) (\<lambda>_.
     put_bytes buf)))))))))"

text \<open>What a request consists of, and what the system offers to it.\<close>

record request =
  rq_langtag :: "8 word list"
  rq_extoffset :: nat
  rq_buf :: "8 word list"
  rq_buftype :: nat
  rq_isV1 :: bool

record net_env =
  ne_mem :: "nat \<Rightarrow> bool"
  ne_junk :: "nat \<Rightarrow> 8 word"
  ne_prlist :: bool
  ne_timeouts :: "int list"
  ne_dgram :: bool
  ne_props :: prop_state
  ne_xid :: "16 word"

text \<open>One message: its header, the list of previous responders where there is one, and the body.\<close>

definition put_request :: "request \<Rightarrow> nat \<Rightarrow> nat \<Rightarrow> bool \<Rightarrow> 16 word \<Rightarrow> string option \<Rightarrow> unit parser" where
  "put_request rq buftype sz mcast xid prlist =
     (let pr = map_option bytes_of prlist in
      if rq_isV1 rq then put_v1_message buftype sz (ucast xid) (rq_langtag rq) pr (rq_buf rq)
      else put_v2_message buftype sz mcast (rq_extoffset rq) (ucast xid) (rq_langtag rq) pr (rq_buf rq))"

text \<open>
  Appending to the list of previous responders, an array of \<open>sz\<close> bytes that
  also holds the terminator.
\<close>

definition prlist_write :: "nat \<Rightarrow> string \<Rightarrow> string \<Rightarrow> string res" where
  "prlist_write sz prlist str =
     (if length prlist + length str + 1 \<le> sz then Inr (prlist @ str) else Inl OutOfBounds)"

definition prlist_add :: "nat \<Rightarrow> string \<Rightarrow> sockaddr \<Rightarrow> string res" where
  "prlist_add mtu prlist a =
     (let addrstr = (case SLPNetSockAddrStorageToString a of None \<Rightarrow> [] | Some s \<Rightarrow> s) in
      if length addrstr > 0 \<and> SLPContainsStringList prlist addrstr = 0 \<and> length prlist + length addrstr + 1 < mtu
      then prlist_write mtu prlist ((if prlist \<noteq> [] then '','' else []) @ addrstr)
      else Inr prlist)"

section \<open>A request and its replies\<close>

text \<open>
  The callback gets a result, the sender and the buffer; it tells whether to go
  on, and leaves the buffer and its cookie changed.
\<close>

type_synonym 'c reply_callback =
  "SLPError \<Rightarrow> sockaddr option \<Rightarrow> SLPBuffer option \<Rightarrow> 'c \<Rightarrow> (bool \<times> SLPBuffer option \<times> 'c) res"

record 'c exchange =
  ex_sends :: "send_event list"
  ex_events :: "net_event list"
  ex_sent :: "8 word list list"
  ex_sendbuf :: "SLPBuffer option"
  ex_recvbuf :: "SLPBuffer option"
  ex_addr :: sockaddr
  ex_prlist :: "string option"
  ex_rplycount :: nat
  ex_waited :: int
  ex_result :: SLPError
  ex_cookie :: 'c

datatype loop_exit = Again | Break | Finished | Cleanup

definition net_error :: "nat \<Rightarrow> SLPError" where
  "net_error e = (if e = ETIMEDOUT then SLP_NETWORK_TIMED_OUT else SLP_NETWORK_ERROR)"

text \<open>A message has been received: the callback gets it if its transaction id is that of the request.\<close>

definition handle_reply ::
  "net_env \<Rightarrow> bool \<Rightarrow> nat \<Rightarrow> sockaddr \<Rightarrow> 'c reply_callback \<Rightarrow> SLPBuffer \<Rightarrow> 'c exchange \<Rightarrow> (loop_exit \<times> 'c exchange) res" where
  "handle_reply env stoploopifrecv mtu peeraddr callback recvbuf s =
     bindR (rdR (bmem recvbuf) 10) (\<lambda>x0.
     bindR (rdR (bmem recvbuf) 11) (\<lambda>x1.
     if AS_UINT16 x0 x1 \<noteq> ne_xid env then Inr (Again, s)
     else
       (let addr = (if ex_addr s = AF_UNSPEC then peeraddr else ex_addr s);
            s = s\<lparr>ex_rplycount := ex_rplycount s + 1, ex_addr := addr\<rparr> in
        bindR (callback (ex_result s) (Some addr) (Some recvbuf) (ex_cookie s)) (\<lambda>(go_on, recvbuf, cookie).
        let s = s\<lparr>ex_recvbuf := recvbuf, ex_cookie := cookie\<rparr> in
        if \<not> go_on then Inr (Cleanup, s)
        else bindR (case ex_prlist s of None \<Rightarrow> Inr None | Some pr \<Rightarrow> bindR (prlist_add mtu pr addr) (\<lambda>pr. Inr (Some pr))) (\<lambda>pr.
          Inr (if stoploopifrecv then Break else Again, s\<lparr>ex_prlist := pr\<rparr>))))))"

text \<open>The receive loop; \<open>None\<close> is a loop that does not end.\<close>

partial_function (option) receive_loop ::
  "net_env \<Rightarrow> bool \<Rightarrow> bool \<Rightarrow> nat \<Rightarrow> sockaddr \<Rightarrow> 'c reply_callback \<Rightarrow> 'c exchange \<Rightarrow> (loop_exit \<times> 'c exchange) res option" where
  "receive_loop env looprecv stoploopifrecv mtu peeraddr callback s =
     (case SLPNetworkRecvMessage (ne_mem env) (ne_junk env) (ne_dgram env) (ex_events s) (ex_recvbuf s) of
        Inl f \<Rightarrow> Some (Inl f)
      | Inr r \<Rightarrow>
          (let (err, buf, from, evs) = r;
               s = s\<lparr>ex_events := evs, ex_recvbuf := buf, ex_addr := (case from of None \<Rightarrow> AF_UNSPEC | Some a \<Rightarrow> a)\<rparr> in
           case err of
             Some e \<Rightarrow> Some (Inr (Break, s\<lparr>ex_result := net_error e\<rparr>))
           | None \<Rightarrow>
               (case handle_reply env stoploopifrecv mtu peeraddr callback (the buf) s of
                  Inl f \<Rightarrow> Some (Inl f)
                | Inr r \<Rightarrow>
                    (if fst r = Again \<and> looprecv then receive_loop env looprecv stoploopifrecv mtu peeraddr callback (snd r)
                     else Some (Inr r)))))"

declare receive_loop.simps [code]

text \<open>Building and sending the message of one pass.\<close>

definition send_request :: "net_env \<Rightarrow> request \<Rightarrow> nat \<Rightarrow> bool \<Rightarrow> nat \<Rightarrow> nat \<Rightarrow> 'c exchange \<Rightarrow> (loop_exit \<times> 'c exchange) res" where
  "send_request env rq buftype mcast mtu xmitcount s =
     (let sz = CalcBufferSize (rq_isV1 rq) buftype (length (rq_langtag rq))
                 (case ex_prlist s of None \<Rightarrow> 0 | Some pr \<Rightarrow> length pr) (length (rq_buf rq)) in
      if ne_dgram env \<and> sz > mtu then
        Inr (Finished, if xmitcount = 0 then s\<lparr>ex_result := SLP_BUFFER_OVERFLOW\<rparr> else s)
      else
        (case SLPBufferRealloc (ne_mem env sz) (ne_junk env) (ex_sendbuf s) sz of
           None \<Rightarrow> Inr (Cleanup, s\<lparr>ex_sendbuf := None, ex_result := SLP_MEMORY_ALLOC_FAILED\<rparr>)
         | Some b \<Rightarrow>
             bindR (put_request rq buftype sz mcast (ne_xid env) (ex_prlist s) b) (\<lambda>(_, b).
             let (sent, err, evs) = SLPNetworkSendMessage (ex_sends s) (take (bcur b) (bmem b));
                 s = s\<lparr>ex_sends := evs, ex_sent := ex_sent s @ sent, ex_sendbuf := Some b\<rparr> in
             Inr (case err of None \<Rightarrow> (Again, s) | Some e \<Rightarrow> (Finished, s\<lparr>ex_result := net_error e\<rparr>)))))"

function retransmit ::
  "net_env \<Rightarrow> request \<Rightarrow> nat \<Rightarrow> bool \<Rightarrow> bool \<Rightarrow> int list \<Rightarrow> int \<Rightarrow> nat \<Rightarrow> sockaddr \<Rightarrow> 'c reply_callback \<Rightarrow> nat \<Rightarrow> 'c exchange
     \<Rightarrow> (loop_exit \<times> 'c exchange) res option" where
  "retransmit env rq buftype looprecv stoploopifrecv timeouts maxwait mtu peeraddr callback xmitcount s =
     (if xmitcount < RETRANSMITS then
        (let s = s\<lparr>ex_result := SLP_OK\<rparr>; mcast = SLPNetIsMCast peeraddr in
         if ne_dgram env \<and> ex_rplycount s \<noteq> 0 \<and> \<not> mcast then Some (Inr (Finished, s))
         else
           (let s = (if ne_dgram env then s\<lparr>ex_waited := ex_waited s + timeouts ! xmitcount\<rparr> else s) in
            if ne_dgram env \<and> (ex_waited s \<ge> maxwait \<or> timeouts ! xmitcount = 0)
            then Some (Inr (Finished, s\<lparr>ex_result := SLP_NETWORK_TIMED_OUT\<rparr>))
            else
              (case send_request env rq buftype mcast mtu xmitcount s of
                 Inl f \<Rightarrow> Some (Inl f)
               | Inr (Again, s) \<Rightarrow>
                   (case receive_loop env looprecv stoploopifrecv mtu peeraddr callback s of
                      None \<Rightarrow> None
                    | Some (Inl f) \<Rightarrow> Some (Inl f)
                    | Some (Inr (exit, s)) \<Rightarrow>
                        (if exit = Cleanup then Some (Inr (Cleanup, s))
                         else retransmit env rq buftype looprecv stoploopifrecv timeouts maxwait mtu peeraddr callback (xmitcount + 1) s))
               | Inr (exit, s) \<Rightarrow> Some (Inr (exit, s)))))
      else Some (Inr (Finished, s)))"
  by pat_completeness auto
termination
  by (relation "measure (\<lambda>(env, rq, buftype, looprecv, stop, timeouts, maxwait, mtu, peeraddr, callback, xmitcount, s). RETRANSMITS - xmitcount)") auto

declare retransmit.simps [simp del]

text \<open>Whether the socket is asked for more than one message, and how often the request is sent.\<close>

definition rqst_settings :: "net_env \<Rightarrow> nat \<Rightarrow> sockaddr \<Rightarrow> int \<times> int list \<times> nat \<times> bool \<times> bool" where
  "rqst_settings env buftype peeraddr =
     (let ps = s_PropertyList (ne_props env); mcast = SLPNetIsMCast peeraddr;
          vec = (\<lambda>name timeouts. snd (SLPPropertyAsIntegerVector name timeouts ps));
          (maxwait, timeouts, xmitcount, looprecv, stoploopifrecv) =
            (if mcast then
               (SLPPropertyAsInteger ''net.slp.multicastMaximumWait'' ps, vec ''net.slp.multicastTimeouts'' (ne_timeouts env),
                0, True, False)
             else
               (SLPPropertyAsInteger ''net.slp.unicastMaximumWait'' ps, vec ''net.slp.unicastTimeouts'' (ne_timeouts env),
                if ne_dgram env then 0 else RETRANSMITS - 1, ne_dgram env, ne_dgram env)) in
      if buftype = SLP_FUNCT_DASRVRQST then
        (SLPPropertyAsInteger ''net.slp.DADiscoveryMaximumWait'' ps, vec ''net.slp.DADiscoveryTimeouts'' timeouts,
         xmitcount, True, False)
      else (maxwait, timeouts, xmitcount, looprecv, stoploopifrecv))"

definition start_exchange :: "send_event list \<Rightarrow> net_event list \<Rightarrow> string option \<Rightarrow> 'c \<Rightarrow> 'c exchange" where
  "start_exchange sends events prlist cookie =
     \<lparr>ex_sends = sends, ex_events = events, ex_sent = [], ex_sendbuf = None, ex_recvbuf = None, ex_addr = AF_UNSPEC,
      ex_prlist = prlist, ex_rplycount = 0, ex_waited = 0, ex_result = SLP_OK, ex_cookie = cookie\<rparr>"

text \<open>The last call of the callback, only if there is a buffer, and the result of the function.\<close>

definition finish_exchange :: "bool \<Rightarrow> 'c reply_callback \<Rightarrow> 'c exchange \<Rightarrow> (SLPError \<times> 'c exchange) res" where
  "finish_exchange mcast callback s =
     (let result = (if ex_rplycount s \<noteq> 0 \<or> ex_result s = SLP_NETWORK_TIMED_OUT \<and> mcast then SLP_LAST_CALL else ex_result s) in
      bindR (case ex_recvbuf s of
               None \<Rightarrow> Inr s
             | Some b \<Rightarrow> bindR (callback result (Some (ex_addr s)) (Some b) (ex_cookie s)) (\<lambda>(_, b, cookie).
                 Inr (s\<lparr>ex_recvbuf := b, ex_cookie := cookie\<rparr>)))
        (\<lambda>s. let result = (if result = SLP_LAST_CALL then SLP_OK else result) in Inr (result, s\<lparr>ex_result := result\<rparr>)))"

text \<open>A socket for several receivers is a datagram socket, whatever \<open>ne_dgram\<close> says of it.\<close>

definition NetworkRqstRply ::
  "net_env \<Rightarrow> sockaddr \<Rightarrow> request \<Rightarrow> 'c reply_callback \<Rightarrow> send_event list \<Rightarrow> net_event list \<Rightarrow> 'c
     \<Rightarrow> (SLPError \<times> 'c exchange) res option" where
  "NetworkRqstRply env peeraddr rq callback sends events cookie =
     (let mcast = SLPNetIsMCast peeraddr;
          env = env\<lparr>ne_dgram := mcast \<or> ne_dgram env\<rparr>;
          (maxwait, timeouts, xmitcount, looprecv, stoploopifrecv) = rqst_settings env (rq_buftype rq) peeraddr;
          buftype = (if rq_buftype rq = SLP_FUNCT_DASRVRQST then SLP_FUNCT_SRVRQST else rq_buftype rq);
          mtu = getmtu (ne_props env) in
      if has_prlist buftype \<and> \<not> ne_prlist env
      then Some (Inr (SLP_MEMORY_ALLOC_FAILED, start_exchange sends events None cookie))
      else if has_prlist buftype \<and> mtu = 0 then Some (Inl OutOfBounds)
      else
        (case retransmit env rq buftype looprecv stoploopifrecv timeouts maxwait mtu peeraddr callback xmitcount
                (start_exchange sends events (if has_prlist buftype then Some [] else None) cookie) of
           None \<Rightarrow> None
         | Some (Inl f) \<Rightarrow> Some (Inl f)
         | Some (Inr (exit, s)) \<Rightarrow>
             Some (if exit = Cleanup then Inr (ex_result s, s) else finish_exchange mcast callback s)))"

section \<open>What is sent\<close>

definition v1_header :: "nat \<Rightarrow> nat \<Rightarrow> 64 word \<Rightarrow> 8 word list \<Rightarrow> 8 word list" where
  "v1_header buftype sz xid lang =
     [1, of_nat buftype] @ TO_UINT16 (of_nat sz) @ [if buftype = SLP_FUNCT_SRVREG then SLPv1_FLAG_FRESH else 0, 0] @
     (if length lang < 2 then bytes_of ''en'' else take 2 lang) @ TO_UINT16 (of_nat SLP_CHAR_UTF8) @ TO_UINT16 xid"

lemma length_v1_header: "length (v1_header buftype sz xid lang) = 12"
  by (simp add: v1_header_def bytes_of_def)

lemma put_v1_message_bytes:
  "put_v1_message buftype sz xid lang pr buf =
     put_bytes (v1_header buftype sz xid lang @ (case pr of None \<Rightarrow> [] | Some p \<Rightarrow> encS p) @ buf)"
  unfolding put_v1_message_def PutL16String_bytes slp_PutUINT16_def
  by (cases pr) (simp_all add: ret_bindP put_norm v1_header_def)

text \<open>The message of a request, for a list of previous responders where it has one.\<close>

definition request_bytes :: "request \<Rightarrow> nat \<Rightarrow> bool \<Rightarrow> 16 word \<Rightarrow> string option \<Rightarrow> 8 word list" where
  "request_bytes rq buftype mcast xid prlist =
     (let pr = map_option bytes_of prlist in
      if rq_isV1 rq then
        v1_header buftype (12 + (case pr of None \<Rightarrow> 0 | Some p \<Rightarrow> 2 + length p) + length (rq_buf rq)) (ucast xid) (rq_langtag rq) @
        (case pr of None \<Rightarrow> [] | Some p \<Rightarrow> encS p) @ rq_buf rq
      else wire_message buftype mcast (rq_extoffset rq) (ucast xid) (rq_langtag rq) pr (rq_buf rq))"

abbreviation pr_len :: "string option \<Rightarrow> nat" where
  "pr_len prlist \<equiv> (case prlist of None \<Rightarrow> 0 | Some pr \<Rightarrow> length pr)"

lemma put_request_bytes:
  fixes rq :: request
  assumes "(prlist \<noteq> None) = has_prlist buftype"
  defines "sz \<equiv> CalcBufferSize (rq_isV1 rq) buftype (length (rq_langtag rq)) (pr_len prlist) (length (rq_buf rq))"
  shows "put_request rq buftype sz mcast xid prlist = put_bytes (request_bytes rq buftype mcast xid prlist)"
    "length (request_bytes rq buftype mcast xid prlist) = sz"
proof -
  have len: "length (request_bytes rq buftype mcast xid prlist) = sz"
    using assms(1) by (cases prlist) (auto simp: sz_def request_bytes_def Let_def CalcBufferSize_def length_v1_header length_wire_message encS_def
        bytes_of_def)
  show "length (request_bytes rq buftype mcast xid prlist) = sz" by (rule len)
  show "put_request rq buftype sz mcast xid prlist = put_bytes (request_bytes rq buftype mcast xid prlist)"
  proof (cases "rq_isV1 rq")
    case True
    have "sz = 12 + (case map_option bytes_of prlist of None \<Rightarrow> 0 | Some p \<Rightarrow> 2 + length p) + length (rq_buf rq)"
      using assms(1) True by (cases prlist) (auto simp: sz_def CalcBufferSize_def bytes_of_def)
    then show ?thesis using True by (simp add: put_request_def request_bytes_def put_v1_message_bytes Let_def)
  next
    case False
    have pr: "map_option bytes_of prlist = (if has_prlist buftype then Some (bytes_of (case prlist of None \<Rightarrow> [] | Some p \<Rightarrow> p)) else None)"
      using assms(1) by (cases prlist) auto
    have "sz = length (wire_message buftype mcast (rq_extoffset rq) (ucast xid) (rq_langtag rq) (map_option bytes_of prlist) (rq_buf rq))"
      using len False by (simp add: request_bytes_def)
    then show ?thesis
      using put_v2_message_bytes[OF pr, of mcast "rq_extoffset rq" "ucast xid" "rq_langtag rq" "rq_buf rq"] False
      by (simp add: put_request_def request_bytes_def)
  qed
qed

section \<open>The loops\<close>

lemma prlist_add_ok:
  assumes "length pr < mtu"
  obtains pr' where "prlist_add mtu pr a = Inr pr'" "length pr' < mtu"
proof -
  define addrstr where "addrstr = (case SLPNetSockAddrStorageToString a of None \<Rightarrow> [] | Some s \<Rightarrow> s)"
  show ?thesis
  proof (cases "length addrstr > 0 \<and> SLPContainsStringList pr addrstr = 0 \<and> length pr + length addrstr + 1 < mtu")
    case True
    then show ?thesis
      using that[of "pr @ (if pr \<noteq> [] then '','' else []) @ addrstr"]
      by (simp add: prlist_add_def prlist_write_def addrstr_def[symmetric] Let_def)
  next
    case False
    then show ?thesis using that[of pr] assms by (auto simp: prlist_add_def addrstr_def[symmetric] Let_def)
  qed
qed

definition carries :: "16 word \<Rightarrow> SLPBuffer \<Rightarrow> bool" where
  "carries xid b \<longleftrightarrow> 12 \<le> length (bmem b) \<and> AS_UINT16 (bmem b ! 10) (bmem b ! 11) = xid"

text \<open>Between two calls: the buffers are live objects and the list of responders fits its array.\<close>

definition exchange_ok :: "nat \<Rightarrow> 'c exchange \<Rightarrow> bool" where
  "exchange_ok mtu s \<longleftrightarrow>
     (\<forall>b. ex_recvbuf s = Some b \<longrightarrow> buffer_sound b) \<and> (\<forall>b. ex_sendbuf s = Some b \<longrightarrow> buffer_sound b)
     \<and> (\<forall>pr. ex_prlist s = Some pr \<longrightarrow> length pr < mtu) \<and> (ex_rplycount s = 0 \<longrightarrow> pr_len (ex_prlist s) = 0)"

text \<open>
  What the callback of an operation keeps: \<open>I\<close> holds of its cookie while replies
  with the transaction id come in, \<open>J\<close> when it has ended the exchange or was told
  of its end.
\<close>

text \<open>Nothing that looks like a message says that it has no bytes at all.\<close>

definition lengths_set :: "net_event list \<Rightarrow> bool" where
  "lengths_set evs \<longleftrightarrow>
     (\<forall>ev \<in> set evs. case ev of Arrives a bytes \<Rightarrow>
        5 \<le> length bytes \<and> (bytes ! 0 = 1 \<or> bytes ! 0 = 2) \<longrightarrow> 0 < PEEK_LENGTH (take 16 bytes) | _ \<Rightarrow> True)"

locale reply_sink =
  fixes callback :: "'c reply_callback" and xid :: "16 word" and I J :: "'c \<Rightarrow> bool"
  assumes reply: "I c \<Longrightarrow> buffer_sound b \<Longrightarrow> carries xid b \<Longrightarrow> callback SLP_OK (Some a) (Some b) c = Inr (go_on, buf, c') \<Longrightarrow>
      (\<forall>b'. buf = Some b' \<longrightarrow> buffer_sound b') \<and> (if go_on then I c' else J c')"
    and told: "I c \<Longrightarrow> (\<forall>b. mb = Some b \<longrightarrow> buffer_sound b) \<Longrightarrow> r \<noteq> SLP_OK \<Longrightarrow> callback r sender mb c = Inr (go_on, buf, c') \<Longrightarrow> J c'"
    and weaken: "I c \<Longrightarrow> J c"
begin

lemma handle_reply_keeps:
  assumes "handle_reply env stop mtu peeraddr callback b s = Inr (exit, s')"
    and "ne_xid env = xid" "ex_result s = SLP_OK" "buffer_sound b" "ex_recvbuf s = Some b" "exchange_ok mtu s" "I (ex_cookie s)"
  shows "exchange_ok mtu s' \<and> ex_result s' = SLP_OK \<and> (if exit = Cleanup then J (ex_cookie s') else I (ex_cookie s'))
    \<and> exit \<noteq> Finished \<and> (exit = Break \<longrightarrow> ex_rplycount s' \<noteq> 0) \<and> ex_rplycount s \<le> ex_rplycount s'
    \<and> ex_sent s' = ex_sent s \<and> ex_sends s' = ex_sends s \<and> ex_waited s' = ex_waited s \<and> ex_events s' = ex_events s
    \<and> ex_sendbuf s' = ex_sendbuf s \<and> (ex_prlist s' = None) = (ex_prlist s = None)"
proof -
  have m: "10 < length (bmem b)" "11 < length (bmem b)"
    using assms(1) by (auto simp: handle_reply_def rdR_def bindR_def split: if_splits)
  show ?thesis
  proof (cases "AS_UINT16 (bmem b ! 10) (bmem b ! 11) = xid")
    case False
    then show ?thesis using assms m by (auto simp: handle_reply_def rdR_def)
  next
    case matches: True
    define addr where "addr = (if ex_addr s = AF_UNSPEC then peeraddr else ex_addr s)"
    let ?s = "s\<lparr>ex_rplycount := ex_rplycount s + 1, ex_addr := addr\<rparr>"
    obtain go_on buf c' where cb: "callback SLP_OK (Some addr) (Some b) (ex_cookie s) = Inr (go_on, buf, c')"
      using assms(1-3) matches m
      by (cases "callback SLP_OK (Some addr) (Some b) (ex_cookie s)") (auto simp: handle_reply_def rdR_def Let_def addr_def)
    have k: "\<forall>b'. buf = Some b' \<longrightarrow> buffer_sound b'" "if go_on then I c' else J c'"
      using reply[OF assms(7,4) _ cb] matches m by (auto simp: carries_def)
    show ?thesis
    proof (cases go_on)
      case False
      then have "exit = Cleanup \<and> s' = ?s\<lparr>ex_recvbuf := buf, ex_cookie := c'\<rparr>"
        using assms(1-3) matches False m cb by (auto simp: handle_reply_def rdR_def Let_def addr_def)
      then show ?thesis using assms(3,6) k False by (auto simp: exchange_ok_def)
    next
      case True
      obtain pr where pr: "(case ex_prlist s of None \<Rightarrow> Inr None | Some pr \<Rightarrow> bindR (prlist_add mtu pr addr) (\<lambda>pr. Inr (Some pr))) = Inr pr"
        "(pr = None) = (ex_prlist s = None)" "\<forall>p. pr = Some p \<longrightarrow> length p < mtu"
      proof (cases "ex_prlist s")
        case (Some p)
        then obtain p' where "prlist_add mtu p addr = Inr p'" "length p' < mtu"
          using prlist_add_ok assms(6) by (metis exchange_ok_def)
        then show ?thesis using that[of "Some p'"] Some by simp
      qed (use that[of None] in simp)
      then have "exit = (if stop then Break else Again) \<and> s' = ?s\<lparr>ex_recvbuf := buf, ex_cookie := c', ex_prlist := pr\<rparr>"
        using assms(1-3) True matches m cb by (auto simp: handle_reply_def rdR_def Let_def addr_def)
      then show ?thesis using assms(3,6) k True pr(2,3) by (auto simp: exchange_ok_def)
    qed
  qed
qed

lemma receive_loop_keeps:
  assumes "receive_loop env looprecv stop mtu peeraddr callback s = Some (Inr (exit, s'))"
    and "ne_xid env = xid" "ex_result s = SLP_OK" "exchange_ok mtu s" "I (ex_cookie s)"
  shows "exchange_ok mtu s' \<and> (if exit = Cleanup then J (ex_cookie s') else I (ex_cookie s')) \<and> exit \<noteq> Finished
    \<and> (exit = Break \<and> ex_result s' = SLP_OK \<longrightarrow> ex_rplycount s' \<noteq> 0) \<and> (exit = Again \<longrightarrow> \<not> looprecv)
    \<and> ex_rplycount s \<le> ex_rplycount s' \<and> ex_sent s' = ex_sent s \<and> ex_sends s' = ex_sends s \<and> ex_waited s' = ex_waited s
    \<and> (ex_prlist s' = None) = (ex_prlist s = None)"
proof -
  let ?P = "\<lambda>(s :: 'c exchange) exit s'. exchange_ok mtu s' \<and> (if exit = Cleanup then J (ex_cookie s') else I (ex_cookie s')) \<and> exit \<noteq> Finished
    \<and> (exit = Break \<and> ex_result s' = SLP_OK \<longrightarrow> ex_rplycount s' \<noteq> 0) \<and> (exit = Again \<longrightarrow> \<not> looprecv)
    \<and> ex_rplycount s \<le> ex_rplycount s' \<and> ex_sent s' = ex_sent s \<and> ex_sends s' = ex_sends s \<and> ex_waited s' = ex_waited s
    \<and> (ex_prlist s' = None) = (ex_prlist s = None)"
  let ?Q = "\<lambda>env' looprecv' stop' mtu' peeraddr' callback' s (r :: (loop_exit \<times> 'c exchange) res).
    env' = env \<and> looprecv' = looprecv \<and> stop' = stop \<and> mtu' = mtu \<and> peeraddr' = peeraddr \<and> callback' = callback \<longrightarrow>
    (\<forall>exit s'. r = Inr (exit, s') \<longrightarrow> ex_result s = SLP_OK \<longrightarrow> exchange_ok mtu s \<longrightarrow> I (ex_cookie s) \<longrightarrow> ?P s exit s')"
  have "?Q env looprecv stop mtu peeraddr callback s (Inr (exit, s'))"
  proof (rule receive_loop.raw_induct[where P = ?Q, OF _ assms(1)], intro impI allI)
    fix loop env' looprecv' stop' mtu' peeraddr' callback' s r exit s'
    assume IH: "\<And>env' looprecv' stop' mtu' peeraddr' callback' s r.
        loop env' looprecv' stop' mtu' peeraddr' callback' s = Some r \<Longrightarrow> ?Q env' looprecv' stop' mtu' peeraddr' callback' s r"
      and body: "(case SLPNetworkRecvMessage (ne_mem env') (ne_junk env') (ne_dgram env') (ex_events s) (ex_recvbuf s) of
        Inl f \<Rightarrow> Some (Inl f)
      | Inr r \<Rightarrow>
          (let (err, buf, from, evs) = r;
               s = s\<lparr>ex_events := evs, ex_recvbuf := buf, ex_addr := (case from of None \<Rightarrow> AF_UNSPEC | Some a \<Rightarrow> a)\<rparr> in
           case err of
             Some e \<Rightarrow> Some (Inr (Break, s\<lparr>ex_result := net_error e\<rparr>))
           | None \<Rightarrow>
               (case handle_reply env' stop' mtu' peeraddr' callback' (the buf) s of
                  Inl f \<Rightarrow> Some (Inl f)
                | Inr r \<Rightarrow>
                    (if fst r = Again \<and> looprecv' then loop env' looprecv' stop' mtu' peeraddr' callback' (snd r)
                     else Some (Inr r))))) = Some r"
      and eqs: "env' = env \<and> looprecv' = looprecv \<and> stop' = stop \<and> mtu' = mtu \<and> peeraddr' = peeraddr \<and> callback' = callback"
      and r: "r = Inr (exit, s')" and s: "ex_result s = SLP_OK" "exchange_ok mtu s" "I (ex_cookie s)"
    have snd: "\<forall>b. ex_recvbuf s = Some b \<longrightarrow> buffer_sound b" using s(2) by (simp add: exchange_ok_def)
    obtain err buf from' evs where rm:
      "SLPNetworkRecvMessage (ne_mem env) (ne_junk env) (ne_dgram env) (ex_events s) (ex_recvbuf s) = Inr (err, buf, from', evs)"
      "\<And>b. buf = Some b \<Longrightarrow> buffer_sound b" "err = None \<Longrightarrow> \<exists>b. buf = Some b"
      using RecvMessage_ok[OF snd, of "ne_mem env" "ne_junk env" "ne_dgram env" "ex_events s"] by metis
    let ?s = "s\<lparr>ex_events := evs, ex_recvbuf := buf, ex_addr := (case from' of None \<Rightarrow> AF_UNSPEC | Some a \<Rightarrow> a)\<rparr>"
    have ok: "exchange_ok mtu ?s" using s(2) rm(2) by (simp add: exchange_ok_def)
    show "?P s exit s'"
    proof (cases err)
      case (Some e)
      have "net_error e \<noteq> SLP_OK" by (simp add: net_error_def)
      moreover have "exit = Break \<and> s' = ?s\<lparr>ex_result := net_error e\<rparr>" using body eqs r rm(1) Some by simp
      ultimately show ?thesis using s ok by (auto simp: exchange_ok_def)
    next
      case None
      then obtain b where b: "buf = Some b" using rm(3) by blast
      obtain ex1 s1 where h: "handle_reply env stop mtu peeraddr callback b ?s = Inr (ex1, s1)"
        using body eqs r rm(1) None b by (cases "handle_reply env stop mtu peeraddr callback b ?s") auto
      note k = handle_reply_keeps[OF h assms(2) _ rm(2)[OF b] _ ok]
      show ?thesis
      proof (cases "ex1 = Again \<and> looprecv")
        case True
        then have "loop env' looprecv' stop' mtu' peeraddr' callback' s1 = Some r" using body eqs rm(1) None b h by simp
        from IH[OF this] eqs r k s b True show ?thesis by simp
      next
        case False
        then have "exit = ex1 \<and> s' = s1" using body eqs r rm(1) None b h by auto
        then show ?thesis using k s b False by auto
      qed
    qed
  qed
  then show ?thesis using assms(3-) by blast
qed

lemma receive_loop_ends:
  assumes "ne_dgram env" "lengths_set (ex_events s)"
    and "ne_xid env = xid" "ex_result s = SLP_OK" "exchange_ok mtu s" "I (ex_cookie s)"
  shows "receive_loop env looprecv stop mtu peeraddr callback s \<noteq> None
    \<and> (\<forall>exit s'. receive_loop env looprecv stop mtu peeraddr callback s = Some (Inr (exit, s')) \<longrightarrow> lengths_set (ex_events s'))"
  using assms
proof (induction "length (ex_events s)" arbitrary: s rule: less_induct)
  case less
  have snd: "\<forall>b. ex_recvbuf s = Some b \<longrightarrow> buffer_sound b" using less.prems(5) by (simp add: exchange_ok_def)
  obtain err buf from' evs where rm:
    "SLPNetworkRecvMessage (ne_mem env) (ne_junk env) (ne_dgram env) (ex_events s) (ex_recvbuf s) = Inr (err, buf, from', evs)"
    "\<And>b. buf = Some b \<Longrightarrow> buffer_sound b" "ne_dgram env \<Longrightarrow> set evs \<subseteq> set (ex_events s)"
    "err = None \<Longrightarrow> \<exists>b a bytes evs0. buf = Some b \<and> bcur b = bend b \<and> ex_events s = Arrives a bytes # evs0 \<and> 5 \<le> length bytes
       \<and> (bytes ! 0 = 1 \<or> bytes ! 0 = 2) \<and> bend b = PEEK_LENGTH (take 16 bytes)
       \<and> (ne_dgram env \<longrightarrow> from' = Some a \<and> (0 < bend b \<longrightarrow> length evs < length (ex_events s)))"
    by (rule RecvMessage_ok[OF snd, of "ne_mem env" "ne_junk env" "ne_dgram env" "ex_events s"], rule that)
  let ?s = "s\<lparr>ex_events := evs, ex_recvbuf := buf, ex_addr := (case from' of None \<Rightarrow> AF_UNSPEC | Some a \<Rightarrow> a)\<rparr>"
  have evs: "lengths_set evs" using less.prems(1,2) rm(3) by (auto simp: lengths_set_def)
  have ok: "exchange_ok mtu ?s" using less.prems(5) rm(2) by (simp add: exchange_ok_def)
  show ?case
  proof (cases err)
    case (Some e)
    then show ?thesis using less.prems(1) rm(1) evs by (subst (1 2) receive_loop.simps) simp
  next
    case None
    then obtain b where b: "buf = Some b" and shorter: "length evs < length (ex_events s)"
      using rm(4) less.prems(1,2) by (auto simp: lengths_set_def)
    show ?thesis
    proof (cases "handle_reply env stop mtu peeraddr callback b ?s")
      case (Inl f)
      then show ?thesis using less.prems(1) rm(1) None b by (subst (1 2) receive_loop.simps) simp
    next
      case (Inr r)
      obtain ex1 s1 where r: "r = (ex1, s1)" by (cases r)
      note k = handle_reply_keeps[OF Inr[unfolded r] less.prems(3) _ rm(2)[OF b] _ ok]
      have step: "receive_loop env looprecv stop mtu peeraddr callback s =
          (if ex1 = Again \<and> looprecv then receive_loop env looprecv stop mtu peeraddr callback s1 else Some (Inr (ex1, s1)))"
        using less.prems(1) rm(1) None b Inr r by (subst receive_loop.simps) simp
      show ?thesis
      proof (cases "ex1 = Again \<and> looprecv")
        case True
        have "length (ex_events s1) < length (ex_events s)" "lengths_set (ex_events s1)"
          using k shorter evs less.prems(4,6) b by auto
        from less.hyps[OF this(1) less.prems(1) this(2) less.prems(3)] k less.prems(4,6) b True step
        show ?thesis by simp
      next
        case False
        then show ?thesis using step k evs less.prems(4,6) b by auto
      qed
    qed
  qed
qed

end

text \<open>What one pass sends.\<close>

lemma send_request_keeps:
  fixes rq :: request and s :: "'c exchange"
  assumes "exchange_ok mtu s" "(ex_prlist s \<noteq> None) = has_prlist buftype"
  obtains exit s' where "send_request env rq buftype mcast mtu xmitcount s = Inr (exit, s')"
    "exchange_ok mtu s'" "ex_cookie s' = ex_cookie s" "ex_prlist s' = ex_prlist s" "ex_rplycount s' = ex_rplycount s"
    "ex_waited s' = ex_waited s" "ex_events s' = ex_events s" "ex_recvbuf s' = ex_recvbuf s"
    "exit \<noteq> Break" "exit = Again \<Longrightarrow> ex_result s' = ex_result s"
    "exit = Cleanup \<Longrightarrow> ex_result s' = SLP_MEMORY_ALLOC_FAILED"
    "exit = Finished \<Longrightarrow> ex_result s' \<noteq> SLP_OK \<or>
       ne_dgram env \<and> xmitcount \<noteq> 0 \<and> mtu < length (request_bytes rq buftype mcast (ne_xid env) (ex_prlist s))"
    "exit = Again \<Longrightarrow> ne_dgram env \<Longrightarrow> length (request_bytes rq buftype mcast (ne_xid env) (ex_prlist s)) \<le> mtu"
    "\<exists>sent rest. ex_sent s' = ex_sent s @ sent \<and> request_bytes rq buftype mcast (ne_xid env) (ex_prlist s) = concat sent @ rest
       \<and> (exit = Again \<longrightarrow> rest = []) \<and> (ne_dgram env \<longrightarrow> (\<forall>m \<in> set sent. length m \<le> mtu))"
proof -
  let ?msg = "request_bytes rq buftype mcast (ne_xid env) (ex_prlist s)"
  let ?sz = "CalcBufferSize (rq_isV1 rq) buftype (length (rq_langtag rq)) (pr_len (ex_prlist s)) (length (rq_buf rq))"
  have len: "length ?msg = ?sz" using put_request_bytes(2)[OF assms(2)] by simp
  show ?thesis
  proof (cases "ne_dgram env \<and> ?sz > mtu")
    case True
    then have "send_request env rq buftype mcast mtu xmitcount s =
        Inr (Finished, if xmitcount = 0 then s\<lparr>ex_result := SLP_BUFFER_OVERFLOW\<rparr> else s)"
      by (simp add: send_request_def)
    then show ?thesis
      by (rule that) (use assms(1) True len in \<open>auto simp: exchange_ok_def\<close>)
  next
    case small: False
    show ?thesis
    proof (cases "SLPBufferRealloc (ne_mem env ?sz) (ne_junk env) (ex_sendbuf s) ?sz")
      case None
      then have "send_request env rq buftype mcast mtu xmitcount s =
          Inr (Cleanup, s\<lparr>ex_sendbuf := None, ex_result := SLP_MEMORY_ALLOC_FAILED\<rparr>)"
        using small by (auto simp: send_request_def Let_def)
      then show ?thesis by (rule that) (use assms(1) in \<open>auto simp: exchange_ok_def\<close>)
    next
      case (Some b0)
      have b0: "buffer_ok b0" "bcur b0 = 0" "bend b0 = ?sz"
        using SLPBufferRealloc_sound[OF _ Some] assms(1) by (auto simp: exchange_ok_def)
      obtain b where b: "put_bytes ?msg b0 = Inr ((), b)"
        using put_bytes_fits[of b0 ?msg] b0 len by (auto simp: buffer_ok_def)
      then have b1: "take (bcur b) (bmem b) = ?msg" "buffer_sound b"
        using b0 len by (auto simp: put_bytes_def buffer_ok_def buffer_sound_def split: if_splits)
      obtain sent err evs where send: "SLPNetworkSendMessage (ex_sends s) ?msg = (sent, err, evs)" by (metis prod_cases3)
      obtain rest where rest: "?msg = concat sent @ rest" "(err = None) = (rest = [])" "\<forall>c \<in> set sent. c \<noteq> [] \<and> length c \<le> length ?msg"
        using SendMessage_prefix[OF send] by blast
      let ?s = "s\<lparr>ex_sends := evs, ex_sent := ex_sent s @ sent, ex_sendbuf := Some b\<rparr>"
      have run: "send_request env rq buftype mcast mtu xmitcount s =
          Inr (case err of None \<Rightarrow> (Again, ?s) | Some e \<Rightarrow> (Finished, ?s\<lparr>ex_result := net_error e\<rparr>))"
        using small Some put_request_bytes(1)[OF assms(2)] b b1(1) send by (auto simp: send_request_def Let_def)
      have short: "ne_dgram env \<longrightarrow> (\<forall>m \<in> set sent. length m \<le> mtu)" using rest(3) len small by fastforce
      have ok: "exchange_ok mtu ?s" using assms(1) b1(2) by (simp add: exchange_ok_def)
      show ?thesis
      proof (cases err)
        case None
        show ?thesis by (rule that[of Again ?s]) (use run None ok len small rest short in auto)
      next
        case (Some e)
        have e: "net_error e \<noteq> SLP_OK" by (simp add: net_error_def)
        have ok': "exchange_ok mtu (?s\<lparr>ex_result := net_error e\<rparr>)" using ok by (simp add: exchange_ok_def)
        show ?thesis by (rule that[of Finished "?s\<lparr>ex_result := net_error e\<rparr>"]) (use run Some ok' e rest short in auto)
      qed
    qed
  qed
qed

text \<open>
  What has been sent in the passes so far: each time a request with this
  transaction id, or the beginning of one where the socket failed; datagrams that
  are not too long; and no pass once the times waited reach the limit.
\<close>

definition passes_ok ::
  "net_env \<Rightarrow> request \<Rightarrow> nat \<Rightarrow> bool \<Rightarrow> nat \<Rightarrow> int list \<Rightarrow> int \<Rightarrow> 8 word list list list \<Rightarrow> bool" where
  "passes_ok env rq buftype mcast mtu timeouts maxwait passes \<longleftrightarrow>
     (\<forall>p \<in> set passes. \<exists>pr rest. request_bytes rq buftype mcast (ne_xid env) pr = concat p @ rest \<and> pr_len pr \<le> mtu)
     \<and> (ne_dgram env \<longrightarrow> (\<forall>p \<in> set passes. \<forall>m \<in> set p. length m \<le> mtu)
         \<and> (passes = [] \<or> sum_list (take (length passes) timeouts) < maxwait))"

lemma pr_len_le: "exchange_ok mtu s \<Longrightarrow> pr_len (ex_prlist s) \<le> mtu"
  by (cases "ex_prlist s") (auto simp: exchange_ok_def intro: less_imp_le)

lemma request_len_cong:
  "(pr \<noteq> None) = has_prlist buftype \<Longrightarrow> (pr' \<noteq> None) = has_prlist buftype \<Longrightarrow> pr_len pr = pr_len pr' \<Longrightarrow>
     length (request_bytes rq buftype mc xid pr) = length (request_bytes rq buftype mc xid pr')"
  by (simp add: put_request_bytes(2))

definition base_prlist :: "nat \<Rightarrow> string option" where
  "base_prlist buftype = (if has_prlist buftype then Some [] else None)"

text \<open>The state in which a pass builds its message, and the pass from there.\<close>

definition pass_state :: "net_env \<Rightarrow> int list \<Rightarrow> nat \<Rightarrow> 'c exchange \<Rightarrow> 'c exchange" where
  "pass_state env timeouts n s =
     (if ne_dgram env then s\<lparr>ex_result := SLP_OK, ex_waited := ex_waited s + timeouts ! n\<rparr> else s\<lparr>ex_result := SLP_OK\<rparr>)"

lemma pass_state_simps [simp]:
  "ex_sends (pass_state env timeouts n s) = ex_sends s" "ex_events (pass_state env timeouts n s) = ex_events s"
  "ex_sent (pass_state env timeouts n s) = ex_sent s" "ex_prlist (pass_state env timeouts n s) = ex_prlist s"
  "ex_rplycount (pass_state env timeouts n s) = ex_rplycount s" "ex_cookie (pass_state env timeouts n s) = ex_cookie s"
  "ex_result (pass_state env timeouts n s) = SLP_OK" "exchange_ok mtu (pass_state env timeouts n s) = exchange_ok mtu s"
  "ne_dgram env \<Longrightarrow> ex_waited (pass_state env timeouts n s) = ex_waited s + timeouts ! n"
  by (simp_all add: pass_state_def exchange_ok_def)

lemma retransmit_answered:
  "n < RETRANSMITS \<Longrightarrow> ne_dgram env \<Longrightarrow> ex_rplycount s \<noteq> 0 \<Longrightarrow> \<not> SLPNetIsMCast peeraddr \<Longrightarrow>
     retransmit env rq buftype looprecv stop timeouts maxwait mtu peeraddr callback n s = Some (Inr (Finished, s\<lparr>ex_result := SLP_OK\<rparr>))"
  by (subst retransmit.simps) simp

lemma retransmit_timed_out:
  assumes "n < RETRANSMITS" "\<not> (ne_dgram env \<and> ex_rplycount s \<noteq> 0 \<and> \<not> SLPNetIsMCast peeraddr)"
    and "ne_dgram env" "ex_waited (pass_state env timeouts n s) \<ge> maxwait \<or> timeouts ! n = 0"
  shows "retransmit env rq buftype looprecv stop timeouts maxwait mtu peeraddr callback n s =
     Some (Inr (Finished, (pass_state env timeouts n s)\<lparr>ex_result := SLP_NETWORK_TIMED_OUT\<rparr>))"
  using assms by (subst retransmit.simps) (auto simp: Let_def pass_state_def)

lemma retransmit_pass:
  assumes "n < RETRANSMITS" "\<not> (ne_dgram env \<and> ex_rplycount s \<noteq> 0 \<and> \<not> SLPNetIsMCast peeraddr)"
    and "\<not> (ne_dgram env \<and> (ex_waited (pass_state env timeouts n s) \<ge> maxwait \<or> timeouts ! n = 0))"
  shows "retransmit env rq buftype looprecv stop timeouts maxwait mtu peeraddr callback n s =
     (case send_request env rq buftype (SLPNetIsMCast peeraddr) mtu n (pass_state env timeouts n s) of
        Inl f \<Rightarrow> Some (Inl f)
      | Inr (exit, s) \<Rightarrow>
          (if exit = Again then
             (case receive_loop env looprecv stop mtu peeraddr callback s of
                None \<Rightarrow> None
              | Some (Inl f) \<Rightarrow> Some (Inl f)
              | Some (Inr (exit, s)) \<Rightarrow>
                  (if exit = Cleanup then Some (Inr (Cleanup, s))
                   else retransmit env rq buftype looprecv stop timeouts maxwait mtu peeraddr callback (n + 1) s))
           else Some (Inr (exit, s))))"
proof -
  let ?s = "pass_state env timeouts n s"
  obtain r where r: "send_request env rq buftype (SLPNetIsMCast peeraddr) mtu n ?s = r" by blast
  show ?thesis
  proof (cases r)
    case (Inl f)
    then show ?thesis using assms r by (subst retransmit.simps) (auto simp: Let_def pass_state_def split: if_splits)
  next
    case (Inr x)
    obtain e s2 where "x = (e, s2)" by (cases x)
    then show ?thesis
      using assms r Inr by (subst retransmit.simps) (cases e; auto simp: Let_def pass_state_def split: if_splits)
  qed
qed

context reply_sink
begin

lemma retransmit_keeps:
  fixes rq :: request
  assumes "retransmit env rq buftype looprecv stop timeouts maxwait mtu peeraddr callback n s = Some (Inr (exit, s'))"
    and "ne_xid env = xid" "exchange_ok mtu s" "I (ex_cookie s)" "(ex_prlist s \<noteq> None) = has_prlist buftype"
    and "n \<le> RETRANSMITS" "length timeouts = RETRANSMITS" "ne_dgram env \<longrightarrow> looprecv"
    and "concat passes = ex_sent s" "length passes \<le> n" "passes_ok env rq buftype (SLPNetIsMCast peeraddr) mtu timeouts maxwait passes"
    and "ne_dgram env \<longrightarrow> length passes = n \<and> ex_waited s = sum_list (take n timeouts)
      \<and> (n \<noteq> 0 \<longrightarrow> (ex_rplycount s \<noteq> 0 \<or> ex_result s \<noteq> SLP_OK)
          \<and> length (request_bytes rq buftype (SLPNetIsMCast peeraddr) xid (base_prlist buftype)) \<le> mtu)"
  shows "exchange_ok mtu s' \<and> (if exit = Cleanup then J (ex_cookie s') else I (ex_cookie s')) \<and> exit \<in> {Finished, Cleanup}
    \<and> (ne_dgram env \<and> exit = Finished \<longrightarrow> ex_rplycount s' \<noteq> 0 \<or> ex_result s' \<noteq> SLP_OK)
    \<and> (\<exists>passes. concat passes = ex_sent s' \<and> length passes \<le> RETRANSMITS
         \<and> passes_ok env rq buftype (SLPNetIsMCast peeraddr) mtu timeouts maxwait passes)"
  using assms
proof (induction "RETRANSMITS - n" arbitrary: n s passes)
  case 0
  then have n: "n = RETRANSMITS" by simp
  then have "exit = Finished \<and> s' = s" using "0.prems"(1) by (subst (asm) retransmit.simps) simp
  moreover have "n \<noteq> 0" using n by (simp add: RETRANSMITS_def)
  ultimately show ?case using "0.prems" n by auto
next
  case (Suc k)
  let ?mc = "SLPNetIsMCast peeraddr"
  have n: "n < RETRANSMITS" using Suc.hyps(2) by simp
  let ?s1 = "pass_state env timeouts n s"
  note keep = Suc.prems(2-)
  have finish: ?case if "Inr (exit, s') = Inr (Finished, t)" "exchange_ok mtu t" "ex_cookie t = ex_cookie s" "ex_sent t = ex_sent s"
      "ne_dgram env \<longrightarrow> ex_rplycount t \<noteq> 0 \<or> ex_result t \<noteq> SLP_OK" for t
    using that keep n by auto
  show ?case
  proof (cases "ne_dgram env \<and> ex_rplycount s \<noteq> 0 \<and> \<not> ?mc")
    case True
    then have "Inr (exit, s') = Inr (Finished, s\<lparr>ex_result := SLP_OK\<rparr>)"
      using Suc.prems(1) True by (simp add: retransmit_answered[OF n])
    then show ?thesis by (rule finish) (use keep True in \<open>auto simp: exchange_ok_def\<close>)
  next
    case going: False
    show ?thesis
    proof (cases "ne_dgram env \<and> (ex_waited ?s1 \<ge> maxwait \<or> timeouts ! n = 0)")
      case True
      then have "Inr (exit, s') = Inr (Finished, ?s1\<lparr>ex_result := SLP_NETWORK_TIMED_OUT\<rparr>)"
        using Suc.prems(1) retransmit_timed_out[OF n going] by auto
      then show ?thesis by (rule finish) (use keep in \<open>auto simp: exchange_ok_def pass_state_def\<close>)
    next
      case waiting: False
      have ok1: "exchange_ok mtu ?s1" "I (ex_cookie ?s1)" "(ex_prlist ?s1 \<noteq> None) = has_prlist buftype"
        using keep by auto
      note run = Suc.prems(1)[unfolded retransmit_pass[OF n going waiting]]
      obtain e2 s2 where sr: "send_request env rq buftype ?mc mtu n ?s1 = Inr (e2, s2)"
        "exchange_ok mtu s2" "ex_cookie s2 = ex_cookie ?s1" "ex_prlist s2 = ex_prlist ?s1" "ex_rplycount s2 = ex_rplycount ?s1"
        "ex_waited s2 = ex_waited ?s1" 
        "e2 \<noteq> Break" "e2 = Again \<Longrightarrow> ex_result s2 = ex_result ?s1"
        "e2 = Finished \<Longrightarrow> ex_result s2 \<noteq> SLP_OK \<or>
           ne_dgram env \<and> n \<noteq> 0 \<and> mtu < length (request_bytes rq buftype ?mc (ne_xid env) (ex_prlist ?s1))"
        "e2 = Again \<Longrightarrow> ne_dgram env \<Longrightarrow> length (request_bytes rq buftype ?mc (ne_xid env) (ex_prlist ?s1)) \<le> mtu"
        "\<exists>sent rest. ex_sent s2 = ex_sent ?s1 @ sent \<and> request_bytes rq buftype ?mc (ne_xid env) (ex_prlist ?s1) = concat sent @ rest
           \<and> (e2 = Again \<longrightarrow> rest = []) \<and> (ne_dgram env \<longrightarrow> (\<forall>m \<in> set sent. length m \<le> mtu))"
        by (rule send_request_keeps[OF ok1(1,3), of env rq ?mc n], rule that)
      have base: "ex_rplycount ?s1 = 0 \<Longrightarrow>
          length (request_bytes rq buftype ?mc xid (ex_prlist ?s1)) = length (request_bytes rq buftype ?mc xid (base_prlist buftype))"
        by (rule request_len_cong[OF ok1(3)]) (use ok1(1) in \<open>auto simp: base_prlist_def exchange_ok_def\<close>)
      obtain sent rest where sent: "ex_sent s2 = ex_sent ?s1 @ sent"
        "request_bytes rq buftype ?mc (ne_xid env) (ex_prlist ?s1) = concat sent @ rest" "ne_dgram env \<longrightarrow> (\<forall>m \<in> set sent. length m \<le> mtu)"
        using sr(11) by blast
      let ?ps = "passes @ [sent]"
      have waited: "ne_dgram env \<longrightarrow> ex_waited ?s1 = sum_list (take (Suc n) timeouts) \<and> ex_waited ?s1 < maxwait"
        using keep(6,11) n waiting by (auto simp: take_Suc_conv_app_nth)
      have ps: "concat ?ps = ex_sent s2" "length ?ps \<le> Suc n" "passes_ok env rq buftype ?mc mtu timeouts maxwait ?ps"
        "ne_dgram env \<longrightarrow> length ?ps = Suc n"
      proof -
        show "passes_ok env rq buftype ?mc mtu timeouts maxwait ?ps"
          using keep(10,11) sent(2,3) pr_len_le[OF ok1(1)] waited unfolding passes_ok_def by auto
      qed (use keep(8,9,11) sent(1) in auto)
      show ?thesis
      proof (cases "e2 = Again")
        case False
        have ret: "Inr (exit, s') = Inr (e2, s2)" using run sr(1) False by simp
        have "e2 = Finished \<or> e2 = Cleanup" using False sr(7) by (cases e2) auto
        moreover have "e2 = Finished \<Longrightarrow> ne_dgram env \<Longrightarrow> ex_rplycount s2 \<noteq> 0 \<or> ex_result s2 \<noteq> SLP_OK"
          using sr(5,9) base keep(1,11) by fastforce
        ultimately show ?thesis
          using ret sr(2,3) ok1(2) weaken n ps(1-3) by (auto intro!: exI[of _ ?ps])
      next
        case True
        let ?loop = "receive_loop env looprecv stop mtu peeraddr callback s2"
        have body: "(case ?loop of None \<Rightarrow> None | Some (Inl f) \<Rightarrow> Some (Inl f)
            | Some (Inr (exit, s)) \<Rightarrow>
                (if exit = Cleanup then Some (Inr (Cleanup, s))
                 else retransmit env rq buftype looprecv stop timeouts maxwait mtu peeraddr callback (n + 1) s)) = Some (Inr (exit, s'))" using run sr(1) True by simp
        then obtain e3 s3 where loop: "?loop = Some (Inr (e3, s3))"
          by (auto split: option.splits sum.splits)
        have r2: "ex_result s2 = SLP_OK" "I (ex_cookie s2)" using sr(3,8) True ok1 by auto
        note k = receive_loop_keeps[OF loop keep(1) r2(1) sr(2) r2(2)]
        show ?thesis
        proof (cases "e3 = Cleanup")
          case True
          then have "exit = Cleanup \<and> s' = s3" using body loop by simp
          then show ?thesis using k True ps n by (auto intro!: exI[of _ ?ps])
        next
          case False
          have ret: "retransmit env rq buftype looprecv stop timeouts maxwait mtu peeraddr callback (Suc n) s3 = Some (Inr (exit, s'))"
            using body loop False by simp
          have later: "ne_dgram env \<longrightarrow> (ex_rplycount s3 \<noteq> 0 \<or> ex_result s3 \<noteq> SLP_OK)
              \<and> length (request_bytes rq buftype ?mc xid (base_prlist buftype)) \<le> mtu"
          proof (intro impI conjI)
            assume d: "ne_dgram env"
            show "ex_rplycount s3 \<noteq> 0 \<or> ex_result s3 \<noteq> SLP_OK" using k False d keep(7) by (cases e3) auto
            have "length (request_bytes rq buftype ?mc xid (ex_prlist ?s1)) \<le> mtu" using sr(10) True d keep(1) by auto
            moreover have "length (request_bytes rq buftype ?mc xid (base_prlist buftype)) \<le> length (request_bytes rq buftype ?mc xid (ex_prlist ?s1))"
              using put_request_bytes(2)[OF ok1(3), of rq ?mc xid] put_request_bytes(2)[of "base_prlist buftype" buftype rq ?mc xid]
              by (auto simp: base_prlist_def CalcBufferSize_def Let_def)
            ultimately show "length (request_bytes rq buftype ?mc xid (base_prlist buftype)) \<le> mtu" by simp
          qed
          show ?thesis
          proof (rule Suc.hyps(1)[OF _ ret keep(1)])
            show "(ex_prlist s3 \<noteq> None) = has_prlist buftype" using k sr(4) ok1(3) by auto
            show "ne_dgram env \<longrightarrow> length ?ps = Suc n \<and> ex_waited s3 = sum_list (take (Suc n) timeouts)
              \<and> (Suc n \<noteq> 0 \<longrightarrow> (ex_rplycount s3 \<noteq> 0 \<or> ex_result s3 \<noteq> SLP_OK)
                  \<and> length (request_bytes rq buftype ?mc xid (base_prlist buftype)) \<le> mtu)"
              using ps(4) waited sr(6) k later by auto
          qed (use k False n ps Suc.hyps(2) keep(6,7) in auto)
        qed
      qed
    qed
  qed
qed

lemma retransmit_ends:
  fixes rq :: request
  assumes "ne_xid env = xid" "exchange_ok mtu s" "I (ex_cookie s)" "(ex_prlist s \<noteq> None) = has_prlist buftype"
    and "ne_dgram env \<and> lengths_set (ex_events s) \<or> \<not> looprecv"
  shows "retransmit env rq buftype looprecv stop timeouts maxwait mtu peeraddr callback n s \<noteq> None"
  using assms
proof (induction "RETRANSMITS - n" arbitrary: n s)
  case 0
  then show ?case by (subst retransmit.simps) simp
next
  case (Suc k)
  have n: "n < RETRANSMITS" using Suc.hyps(2) by simp
  let ?mc = "SLPNetIsMCast peeraddr" and ?s1 = "pass_state env timeouts n s"
  show ?case
  proof (cases "ne_dgram env \<and> ex_rplycount s \<noteq> 0 \<and> \<not> ?mc")
    case True
    then show ?thesis by (simp add: retransmit_answered[OF n])
  next
    case going: False
    show ?thesis
    proof (cases "ne_dgram env \<and> (ex_waited ?s1 \<ge> maxwait \<or> timeouts ! n = 0)")
      case True
      then show ?thesis using retransmit_timed_out[OF n going, where maxwait = maxwait and timeouts = timeouts] by auto
    next
      case waiting: False
      have ok1: "exchange_ok mtu ?s1" "(ex_prlist ?s1 \<noteq> None) = has_prlist buftype" using Suc.prems by auto
      obtain e2 s2 where sr: "send_request env rq buftype ?mc mtu n ?s1 = Inr (e2, s2)"
        "exchange_ok mtu s2" "ex_cookie s2 = ex_cookie ?s1" "ex_prlist s2 = ex_prlist ?s1" "ex_events s2 = ex_events ?s1"
        "e2 = Again \<Longrightarrow> ex_result s2 = ex_result ?s1"
        by (rule send_request_keeps[OF ok1, of env rq ?mc n], rule that)
      show ?thesis
      proof (cases "e2 = Again")
        case False
        then show ?thesis unfolding retransmit_pass[OF n going waiting] sr(1) by simp
      next
        case True
        let ?loop = "receive_loop env looprecv stop mtu peeraddr callback s2"
        have r2: "ex_result s2 = SLP_OK" "I (ex_cookie s2)" using sr(3,6) True Suc.prems(3) by auto
        have ends: "?loop \<noteq> None \<and> (\<forall>exit s'. ?loop = Some (Inr (exit, s')) \<longrightarrow> ne_dgram env \<and> lengths_set (ex_events s') \<or> \<not> looprecv)"
        proof (cases looprecv)
          case False
          then show ?thesis by (subst (1) receive_loop.simps) (auto simp: Let_def split: option.split sum.split)
        next
          case True
          then show ?thesis
            using receive_loop_ends[OF _ _ Suc.prems(1) r2(1) sr(2) r2(2), of looprecv stop peeraddr] Suc.prems(5) sr(5) by auto
        qed
        have "retransmit env rq buftype looprecv stop timeouts maxwait mtu peeraddr callback (n + 1) s3 \<noteq> None"
          if loop: "?loop = Some (Inr (e3, s3))" "e3 \<noteq> Cleanup" for e3 s3
        proof (rule Suc.hyps(1)[OF _ Suc.prems(1)])
          note k = receive_loop_keeps[OF loop(1) Suc.prems(1) r2(1) sr(2) r2(2)]
          show "k = RETRANSMITS - (n + 1)" using Suc.hyps(2) by simp
          show "exchange_ok mtu s3" "I (ex_cookie s3)" "(ex_prlist s3 \<noteq> None) = has_prlist buftype"
            using k loop(2) sr(4) ok1(2) by auto
          show "ne_dgram env \<and> lengths_set (ex_events s3) \<or> \<not> looprecv" using ends loop(1) by blast
        qed
        then show ?thesis
          unfolding retransmit_pass[OF n going waiting] sr(1) using ends True
          by (auto split: option.splits sum.splits)
      qed
    qed
  qed
qed

end

section \<open>The whole exchange\<close>

lemma rqst_settings_facts:
  assumes "rqst_settings env buftype peeraddr = (maxwait, timeouts, xmitcount, looprecv, stop)" "length (ne_timeouts env) = RETRANSMITS"
    and "SLPNetIsMCast peeraddr \<longrightarrow> ne_dgram env"
  shows "length timeouts = RETRANSMITS" "ne_dgram env \<Longrightarrow> looprecv \<and> xmitcount = 0" "xmitcount \<le> RETRANSMITS"
    "\<not> ne_dgram env \<Longrightarrow> buftype \<noteq> SLP_FUNCT_DASRVRQST \<Longrightarrow> \<not> looprecv"
proof -
  have vec: "length xs \<le> n \<Longrightarrow> length (int_vector n s) \<le> n" for n s and xs :: "int list"
  proof (induction n arbitrary: s xs)
    case (Suc n)
    then show ?case by (cases s) (auto intro: Suc.IH[of "[]"])
  qed simp
  have "length (snd (SLPPropertyAsIntegerVector name ts ps)) = length ts" for name ts ps
    using vec[of "[]" "length ts"] by (auto simp: SLPPropertyAsIntegerVector_def Let_def split: option.split)
  then show "length timeouts = RETRANSMITS" "ne_dgram env \<Longrightarrow> looprecv \<and> xmitcount = 0" "xmitcount \<le> RETRANSMITS"
    "\<not> ne_dgram env \<Longrightarrow> buftype \<noteq> SLP_FUNCT_DASRVRQST \<Longrightarrow> \<not> looprecv"
    using assms by (auto simp: rqst_settings_def Let_def RETRANSMITS_def split: if_splits)
qed

context reply_sink
begin

text \<open>On datagram sockets the exchange comes to an end, and what the cookie keeps holds there.\<close>

lemma exchange_datagrams:
  fixes rq :: request
  assumes "ne_xid env = xid" "length (ne_timeouts env) = RETRANSMITS" "SLPNetIsMCast peeraddr \<or> ne_dgram env"
    and "lengths_set events" "I cookie"
  defines "env' \<equiv> env\<lparr>ne_dgram := True\<rparr>"
    and "buftype \<equiv> if rq_buftype rq = SLP_FUNCT_DASRVRQST then SLP_FUNCT_SRVRQST else rq_buftype rq"
  shows "NetworkRqstRply env peeraddr rq callback sends events cookie \<noteq> None"
    "NetworkRqstRply env peeraddr rq callback sends events cookie = Some (Inr (result, s)) \<Longrightarrow>
       J (ex_cookie s) \<and> (\<exists>passes. concat passes = ex_sent s \<and> length passes \<le> RETRANSMITS
         \<and> passes_ok env' rq buftype (SLPNetIsMCast peeraddr) (getmtu (ne_props env))
             (fst (snd (rqst_settings env' (rq_buftype rq) peeraddr))) (fst (rqst_settings env' (rq_buftype rq) peeraddr)) passes)"
proof -
  let ?mc = "SLPNetIsMCast peeraddr" and ?mtu = "getmtu (ne_props env)"
  have e: "env\<lparr>ne_dgram := ?mc \<or> ne_dgram env\<rparr> = env'" using assms(3) by (auto simp: env'_def)
  obtain maxwait timeouts xmitcount looprecv stop where
    st: "rqst_settings env' (rq_buftype rq) peeraddr = (maxwait, timeouts, xmitcount, looprecv, stop)" by (metis prod_cases5)
  have f: "length timeouts = RETRANSMITS" "looprecv" "xmitcount = 0"
    using rqst_settings_facts[OF st] assms(2) by (auto simp: env'_def)
  define hp where "hp = has_prlist buftype"
  let ?s0 = "start_exchange sends events (if hp then Some [] else None) cookie"
  let ?run = "retransmit env' rq buftype looprecv stop timeouts maxwait ?mtu peeraddr callback 0 ?s0"
  have net: "NetworkRqstRply env peeraddr rq callback sends events cookie =
      (if hp \<and> \<not> ne_prlist env
       then Some (Inr (SLP_MEMORY_ALLOC_FAILED, start_exchange sends events None cookie))
       else if hp \<and> ?mtu = 0 then Some (Inl OutOfBounds)
       else (case ?run of
           None \<Rightarrow> None
         | Some (Inl f) \<Rightarrow> Some (Inl f)
         | Some (Inr (exit, s)) \<Rightarrow>
             Some (if exit = Cleanup then Inr (ex_result s, s) else finish_exchange ?mc callback s)))"
    unfolding NetworkRqstRply_def e Let_def st buftype_def[symmetric] hp_def using f(3) by (simp add: env'_def)
  have ok: "exchange_ok ?mtu ?s0" if "\<not> (hp \<and> ?mtu = 0)"
    using that by (auto simp: exchange_ok_def start_exchange_def)
  have x: "ne_xid env' = xid" using assms(1) by (simp add: env'_def)
  have i0: "I (ex_cookie ?s0)" "(ex_prlist ?s0 \<noteq> None) = has_prlist buftype" "ne_dgram env' \<and> lengths_set (ex_events ?s0) \<or> \<not> looprecv"
    using assms(4,5) unfolding hp_def[symmetric] by (auto simp: start_exchange_def env'_def)
  show "NetworkRqstRply env peeraddr rq callback sends events cookie \<noteq> None"
  proof -
    define R where "R = ?run"
    have "\<not> (hp \<and> ?mtu = 0) \<Longrightarrow> R \<noteq> None"
      unfolding R_def by (rule retransmit_ends[OF x ok i0])
    then show ?thesis unfolding net R_def[symmetric] by (auto split: option.splits sum.splits)
  qed
  have none: "passes_ok env' rq buftype ?mc ?mtu timeouts maxwait []" by (simp add: passes_ok_def)
  assume res: "NetworkRqstRply env peeraddr rq callback sends events cookie = Some (Inr (result, s))"
  show "J (ex_cookie s) \<and> (\<exists>passes. concat passes = ex_sent s \<and> length passes \<le> RETRANSMITS
         \<and> passes_ok env' rq buftype ?mc ?mtu
             (fst (snd (rqst_settings env' (rq_buftype rq) peeraddr))) (fst (rqst_settings env' (rq_buftype rq) peeraddr)) passes)"
  proof (cases "hp \<and> \<not> ne_prlist env")
    case True
    then have "s = start_exchange sends events None cookie" using res net by auto
    then show ?thesis using none weaken[OF assms(5)] st by (auto simp: start_exchange_def intro!: exI[of _ "[]"])
  next
    case False
    then have big: "\<not> (hp \<and> ?mtu = 0)" using res net by (auto split: if_splits)
    obtain exit s1 where run: "?run = Some (Inr (exit, s1))"
      "(if exit = Cleanup then Inr (ex_result s1, s1) else finish_exchange ?mc callback s1) = Inr (result, s)"
      using res False big net by (auto split: option.splits sum.splits prod.splits)
    have k: "exchange_ok ?mtu s1 \<and> (if exit = Cleanup then J (ex_cookie s1) else I (ex_cookie s1)) \<and> exit \<in> {Finished, Cleanup}
      \<and> (ne_dgram env' \<and> exit = Finished \<longrightarrow> ex_rplycount s1 \<noteq> 0 \<or> ex_result s1 \<noteq> SLP_OK)
      \<and> (\<exists>passes. concat passes = ex_sent s1 \<and> length passes \<le> RETRANSMITS \<and> passes_ok env' rq buftype ?mc ?mtu timeouts maxwait passes)"
      by (rule retransmit_keeps[OF run(1) x ok[OF big] i0(1,2) _ f(1), of "[]"])
         (use f(2) none in \<open>auto simp: start_exchange_def\<close>)
    show ?thesis
    proof (cases "exit = Cleanup")
      case True
      then show ?thesis using run(2) k st by auto
    next
      case False
      let ?r = "if ex_rplycount s1 \<noteq> 0 \<or> ex_result s1 = SLP_NETWORK_TIMED_OUT \<and> ?mc then SLP_LAST_CALL else ex_result s1"
      have r: "?r \<noteq> SLP_OK" using k False by (auto simp: env'_def)
      have "J (ex_cookie s) \<and> ex_sent s = ex_sent s1"
      proof (cases "ex_recvbuf s1")
        case None
        then have "s = s1\<lparr>ex_result := ex_result s\<rparr>" using run(2) False by (auto simp: finish_exchange_def Let_def)
        then have "ex_cookie s = ex_cookie s1 \<and> ex_sent s = ex_sent s1" by (metis exchange.select_convs(3,11) exchange.surjective exchange.update_convs(10))
        then show ?thesis using k False weaken by auto
      next
        case (Some b)
        have b: "buffer_sound b" using k Some by (simp add: exchange_ok_def)
        obtain go_on buf c where cb: "callback ?r (Some (ex_addr s1)) (Some b) (ex_cookie s1) = Inr (go_on, buf, c)"
          using run(2) False Some
          by (cases "callback ?r (Some (ex_addr s1)) (Some b) (ex_cookie s1)") (auto simp: finish_exchange_def Let_def)
        have "ex_cookie s = c \<and> ex_sent s = ex_sent s1"
          using run(2) False Some cb unfolding finish_exchange_def Let_def by auto
        moreover have "J c" by (rule told[OF _ _ r cb]) (use k False b in auto)
        ultimately show ?thesis by simp
      qed
      then show ?thesis using k st by auto
    qed
  qed
qed

end


definition sample_settings :: prop_state where
  "sample_settings =
     \<lparr>s_PropertyList =
        [\<lparr>pr_name = ''net.slp.unicastMaximumWait'', pr_value = ''5000'', pr_attrs = 0\<rparr>,
         \<lparr>pr_name = ''net.slp.unicastTimeouts'', pr_value = ''500,750'', pr_attrs = 0\<rparr>],
      s_PropertiesInitialized = True, s_AppPropertyFile = [], s_EnvPropertyFile = [], s_GlobalPropertyFile = [],
      s_GlobalPropertyMTU = 1400, s_RcvBufSize = 0, s_SndBufSize = 0\<rparr>"

definition sample_net_env :: "bool \<Rightarrow> net_env" where
  "sample_net_env dgram =
     \<lparr>ne_mem = \<lambda>_. True, ne_junk = \<lambda>_. 0, ne_prlist = True, ne_timeouts = replicate RETRANSMITS 0, ne_dgram = dgram,
      ne_props = sample_settings, ne_xid = 7\<rparr>"

definition sample_request :: request where
  "sample_request =
     \<lparr>rq_langtag = bytes_of ''en'', rq_extoffset = 0, rq_buf = encUrl 60 (bytes_of ''service:x://h'') [] @ [0, 0, 0, 0, 0, 0, 0],
      rq_buftype = SLP_FUNCT_SRVREG, rq_isV1 = False\<rparr>"

text \<open>An acknowledgement without an error, with some transaction id.\<close>

definition sample_ack :: "8 word \<Rightarrow> 8 word list" where
  "sample_ack xid = [2, 5, 0, 0, 18, 0, 0, 0, 0, 0, 0, xid, 0, 2, 101, 110, 0, 0]"


text \<open>What a callback was called with.\<close>

definition logging :: "(SLPError \<times> sockaddr option \<times> 8 word list option) list reply_callback" where
  "logging r a b c = Inr (True, b, c @ [(r, a, map_option buf_bytes b)])"

definition logged ::
  "(SLPError \<times> (SLPError \<times> sockaddr option \<times> 8 word list option) list exchange) res option
     \<Rightarrow> (SLPError \<times> (SLPError \<times> sockaddr option \<times> 8 word list option) list) res option" where
  "logged = map_option (map_sum id (\<lambda>(r, s). (r, ex_cookie s)))"

text \<open>
  On a stream the transaction id is compared, too, but a reply that does not carry
  it still reaches the callback: after the loop, as the last call, and as a success.
\<close>

lemma foreign_reply_delivered:
  "logged (NetworkRqstRply (sample_net_env False) (AF_INET 0x7f000001) sample_request logging
     [Accepts 100] [Arrives (AF_INET 0x7f000001) (sample_ack 8)] [])
   = Some (Inr (SLP_OK, [(SLP_OK, Some AF_UNSPEC, Some (sample_ack 8))]))"
  by code_simp

lemma own_reply_delivered:
  "logged (NetworkRqstRply (sample_net_env False) (AF_INET 0x7f000001) sample_request logging
     [Accepts 100] [Arrives (AF_INET 0x7f000001) (sample_ack 7)] [])
   = Some (Inr (SLP_OK, [(SLP_OK, Some (AF_INET 0x7f000001), Some (sample_ack 7)), (SLP_LAST_CALL, Some (AF_INET 0x7f000001), Some (sample_ack 7))]))"
  by code_simp

text \<open>
  A datagram whose length field is zero is never taken from the socket: once
  another message is in the buffer, the receive loop looks at it for ever.
\<close>

lemma receive_loop_stuck:
  assumes "ne_dgram env" "5 \<le> length z" "z ! 0 = 1 \<or> z ! 0 = 2" "PEEK_LENGTH (take 16 z) = 0"
    and "ex_events s = Arrives a z # evs" "ex_recvbuf s = Some b" "11 \<le> allocated b" "buffer_sound b" "\<not> carries (ne_xid env) b"
  shows "receive_loop env True stop mtu peeraddr callback s = None"
proof (rule ccontr)
  let ?stuck = "\<lambda>s. ex_events s = Arrives a z # evs \<and> (\<exists>b. ex_recvbuf s = Some b \<and> 11 \<le> allocated b \<and> buffer_sound b \<and> \<not> carries (ne_xid env) b)"
  let ?Q = "\<lambda>env' looprecv' stop' mtu' peeraddr' callback' s (r :: (loop_exit \<times> 'a exchange) res).
    env' = env \<and> looprecv' \<longrightarrow> \<not> ?stuck s"
  assume "receive_loop env True stop mtu peeraddr callback s \<noteq> None"
  then obtain r where run: "receive_loop env True stop mtu peeraddr callback s = Some r" by auto
  have "?Q env True stop mtu peeraddr callback s r"
  proof (rule receive_loop.raw_induct[where P = ?Q, OF _ run], intro impI notI)
    fix loop env' looprecv' stop' mtu' peeraddr' callback' s r
    assume IH: "\<And>env' looprecv' stop' mtu' peeraddr' callback' s r.
        loop env' looprecv' stop' mtu' peeraddr' callback' s = Some r \<Longrightarrow> ?Q env' looprecv' stop' mtu' peeraddr' callback' s r"
      and body: "(case SLPNetworkRecvMessage (ne_mem env') (ne_junk env') (ne_dgram env') (ex_events s) (ex_recvbuf s) of
        Inl f \<Rightarrow> Some (Inl f)
      | Inr r \<Rightarrow>
          (let (err, buf, from, evs) = r;
               s = s\<lparr>ex_events := evs, ex_recvbuf := buf, ex_addr := (case from of None \<Rightarrow> AF_UNSPEC | Some a \<Rightarrow> a)\<rparr> in
           case err of
             Some e \<Rightarrow> Some (Inr (Break, s\<lparr>ex_result := net_error e\<rparr>))
           | None \<Rightarrow>
               (case handle_reply env' stop' mtu' peeraddr' callback' (the buf) s of
                  Inl f \<Rightarrow> Some (Inl f)
                | Inr r \<Rightarrow>
                    (if fst r = Again \<and> looprecv' then loop env' looprecv' stop' mtu' peeraddr' callback' (snd r)
                     else Some (Inr r))))) = Some r"
      and eqs: "env' = env \<and> looprecv'" and stuck: "?stuck s"
    obtain b where b: "ex_events s = Arrives a z # evs" "ex_recvbuf s = Some b" "11 \<le> allocated b" "buffer_sound b" "\<not> carries (ne_xid env) b"
      using stuck by blast
    let ?b = "b\<lparr>bcur := 0, bend := 0\<rparr>"
    have z: "z \<noteq> []" "take 16 z ! 0 = 1 \<or> take 16 z ! 0 = 2" using assms(2,3) by auto
    have fill: "recv_fill True (Arrives a z # evs) ?b = Inr (None, ?b, Arrives a z # evs)" by simp
    have rm: "SLPNetworkRecvMessage (ne_mem env) (ne_junk env) True (Arrives a z # evs) (Some b) = Inr (None, Some ?b, Some a, Arrives a z # evs)"
      using assms(2,4) z fill by (simp add: SLPNetworkRecvMessage_def SLPBufferRealloc_def Let_def)
    let ?s = "s\<lparr>ex_events := Arrives a z # evs, ex_recvbuf := Some ?b, ex_addr := a\<rparr>"
    have big: "\<not> length (bmem b) \<le> 10" "\<not> length (bmem b) \<le> 11" using b(3,4) by (auto simp: buffer_sound_def)
    then have "handle_reply env stop' mtu' peeraddr' callback' ?b ?s = Inr (Again, ?s)"
      using b(5) by (auto simp: handle_reply_def rdR_def carries_def not_le)
    then have "loop env looprecv' stop' mtu' peeraddr' callback' ?s = Some r"
      using body eqs rm b(1,2) assms(1) by simp
    from IH[OF this] have "\<not> ?stuck ?s" using eqs by blast
    moreover have "?stuck ?s" using b by (auto simp: buffer_sound_def carries_def)
    ultimately show False by blast
  qed
  then show False using assms by blast
qed

end
