(* ===== verification/Libslp_Find.thy ===== *)
theory Libslp_Find
  imports Libslp_Network
begin

text \<open>
  What the client does with replies: the callbacks that \<open>libslp_findsrvs.c\<close>,
  \<open>libslp_findattrs.c\<close>, \<open>libslp_findsrvtypes.c\<close>, \<open>libslp_reg.c\<close> and
  \<open>libslp_dereg.c\<close> pass to \<open>NetworkRqstRply\<close>, which parse a reply, collect service
  URLs and types from all replies and hand them to the callback of the user.
  That callback is a function from its arguments and the state of the user to its
  result and that state.
\<close>

section \<open>Replies\<close>

text \<open>What a call has of the system; \<open>ae_item\<close> tells for which strings memory suffices.\<close>

record api_env =
  ae_alloc :: bool
  ae_item :: "string \<Rightarrow> bool"
  ae_mok :: "nat \<Rightarrow> bool"
  ae_async :: bool
  ae_props :: "SLPProperty list"

text \<open>The API codes are the negated codes of the protocol.\<close>

definition api_error :: "nat \<Rightarrow> SLPError" where
  "api_error n =
     (case map_of [(0, SLP_OK), (2, SLP_PARSE_ERROR), (18, SLP_BUFFER_OVERFLOW), (19, SLP_NETWORK_TIMED_OUT),
                   (21, SLP_MEMORY_ALLOC_FAILED), (22, SLP_PARAMETER_BAD), (23, SLP_NETWORK_ERROR), (25, SLP_HANDLE_IN_USE)] n of
        Some e \<Rightarrow> e
      | None \<Rightarrow> SLP_OTHER (- int n))"

definition cleared_message :: "sockaddr SLPMessage" where
  "cleared_message = sample_message AF_UNSPEC"

text \<open>
  The message, or the error of the parser, and the buffer with the terminators
  that the parser has written; what a failed parse wrote is not kept.
\<close>

definition parse_reply :: "api_env \<Rightarrow> sockaddr option \<Rightarrow> SLPBuffer \<Rightarrow> ((nat + sockaddr SLPMessage) \<times> SLPBuffer) res" where
  "parse_reply env peeraddr b =
     (case SLPMessageParseBuffer (ae_mok env) peeraddr None cleared_message b of
        Inl (SlpError e) \<Rightarrow> Inr (Inl e, b)
      | Inl OutOfBounds \<Rightarrow> Inl OutOfBounds
      | Inr (m, b') \<Rightarrow> Inr (Inr m, b'))"

text \<open>A string of a reply as the callbacks see it, up to the first NUL.\<close>

definition reply_text :: "SLPBuffer \<Rightarrow> wstr \<Rightarrow> string" where
  "reply_text b s = c_string (chars_of (wbytes (bmem b) s))"

definition INT_MAX :: int where "INT_MAX = 2147483647"

definition maxResults :: "api_env \<Rightarrow> int" where
  "maxResults env = (let n = SLPPropertyAsInteger ''net.slp.maxResults'' (ae_props env) in if n = -1 then INT_MAX else n)"

section \<open>Service URLs\<close>

type_synonym 'u url_callback = "string option \<Rightarrow> nat \<Rightarrow> SLPError \<Rightarrow> 'u \<Rightarrow> bool \<times> 'u"

record 'u find_srvs =
  fs_callbackcount :: int
  fs_collated :: "(string \<times> nat) list"
  fs_user :: 'u

definition CollateToSLPSrvURLCallback ::
  "api_env \<Rightarrow> 'u url_callback \<Rightarrow> string option \<Rightarrow> nat \<Rightarrow> SLPError \<Rightarrow> 'u find_srvs \<Rightarrow> bool \<times> 'u find_srvs" where
  "CollateToSLPSrvURLCallback env user url lifetime errorcode h =
     (if ae_async env then
        (let (go_on, u) = user url lifetime errorcode (fs_user h) in (go_on, h\<lparr>fs_user := u\<rparr>))
      else if errorcode = SLP_LAST_CALL \<or> fs_callbackcount h > maxResults env then
        (let (_, u) = user None 0 SLP_LAST_CALL (fs_user h) in
         (False, h\<lparr>fs_collated := [], fs_callbackcount := 0, fs_user := u\<rparr>))
      else if errorcode \<noteq> SLP_OK then (True, h)
      else
        (let h = h\<lparr>fs_callbackcount := fs_callbackcount h + 1\<rparr>; url = the url in
         if url \<notin> fst ` set (fs_collated h) \<and> ae_item env url then
           (let h = h\<lparr>fs_collated := fs_collated h @ [(url, lifetime)]\<rparr>;
                (go_on, u) = user (Some url) lifetime SLP_OK (fs_user h);
                h = h\<lparr>fs_user := u\<rparr> in
            if go_on then (True, h) else (False, h\<lparr>fs_collated := [], fs_callbackcount := 0\<rparr>))
         else (True, h)))"

definition SLP_LIFETIME_MAXIMUM :: nat where "SLP_LIFETIME_MAXIMUM = 65535"

text \<open>The cast of a lifetime to 16 bits is left out, for it was read as 16 bits.\<close>

fun each_url :: "api_env \<Rightarrow> 'u url_callback \<Rightarrow> SLPBuffer \<Rightarrow> SLPUrlEntry list \<Rightarrow> 'u find_srvs \<Rightarrow> bool \<times> 'u find_srvs" where
  "each_url env user b [] h = (True, h)"
| "each_url env user b (e # es) h =
     (let (result, h) = CollateToSLPSrvURLCallback env user (Some (reply_text b (ue_url e))) (ue_lifetime e) SLP_OK h in
      if result then each_url env user b es h else (False, h))"

definition ProcessSrvRplyCallback :: "api_env \<Rightarrow> 'u url_callback \<Rightarrow> 'u find_srvs reply_callback" where
  "ProcessSrvRplyCallback env user errorcode peeraddr replybuf h =
     (if errorcode \<noteq> SLP_OK then
        (let (go_on, h) = CollateToSLPSrvURLCallback env user None 0 errorcode h in Inr (go_on, replybuf, h))
      else if \<not> ae_alloc env then Inr (True, replybuf, h)
      else
        bindR (parse_reply env peeraddr (the replybuf)) (\<lambda>(m, b).
          let (go_on, h) =
            (case m of
               Inl e \<Rightarrow> (True, h)
             | Inr m \<Rightarrow>
                 (case msg_body m of
                    SrvRply r \<Rightarrow> (if rp_errorcode r = 0 then each_url env user b (rp_urlarray r) h else (True, h))
                  | DAAdvert d \<Rightarrow>
                      (if da_errorcode d = 0
                       then CollateToSLPSrvURLCallback env user (Some (reply_text b (da_url d))) SLP_LIFETIME_MAXIMUM SLP_OK h
                       else (True, h))
                  | SAAdvert s \<Rightarrow>
                      CollateToSLPSrvURLCallback env user (Some (reply_text b (sa_url s))) SLP_LIFETIME_MAXIMUM SLP_OK h
                  | _ \<Rightarrow> (True, h))) in
          Inr (go_on, Some b, h)))"

section \<open>Attributes\<close>

type_synonym 'u attr_callback = "string option \<Rightarrow> SLPError \<Rightarrow> 'u \<Rightarrow> bool \<times> 'u"

definition ProcessAttrRplyCallback :: "api_env \<Rightarrow> 'u attr_callback \<Rightarrow> 'u reply_callback" where
  "ProcessAttrRplyCallback env user errorcode peeraddr replybuf u =
     (if errorcode \<noteq> SLP_OK then (let (_, u) = user None errorcode u in Inr (False, replybuf, u))
      else if \<not> ae_alloc env then Inr (True, replybuf, u)
      else
        bindR (parse_reply env peeraddr (the replybuf)) (\<lambda>(m, b).
          let (go_on, u) =
            (case m of
               Inl e \<Rightarrow> (True, u)
             | Inr m \<Rightarrow>
                 (case msg_body m of
                    AttrRply a \<Rightarrow>
                      (if ap_errorcode a = 0 \<and> wlen (ap_attrlist a) \<noteq> 0
                       then user (Some (reply_text b (ap_attrlist a))) (api_error (ap_errorcode a)) u else (True, u))
                  | _ \<Rightarrow> (True, u))) in
          Inr (go_on, Some b, u)))"

section \<open>Service types\<close>

type_synonym 'u type_callback = "string option \<Rightarrow> SLPError \<Rightarrow> 'u \<Rightarrow> bool \<times> 'u"

record 'u find_types =
  ft_callbackcount :: int
  ft_collated :: "string option"
  ft_user :: 'u

text \<open>
  Should the union not fit its buffer, the collated string would be a buffer
  without a terminator; reading that is an access outside of it.
\<close>

definition collate_types :: "bool \<Rightarrow> string \<Rightarrow> string option \<Rightarrow> string option res" where
  "collate_types ok types collated =
     (if \<not> ok then Inr collated
      else
        (case collated of
           None \<Rightarrow> Inr (Some types)
         | Some c \<Rightarrow>
             bindR (SLPUnionStringList c types True (length types + 1 + length c + 1)) (\<lambda>(r, n, out).
               if r \<noteq> int n then Inl OutOfBounds else Inr (Some out))))"

definition CollateToSLPSrvTypeCallback ::
  "api_env \<Rightarrow> 'u type_callback \<Rightarrow> string option \<Rightarrow> SLPError \<Rightarrow> 'u find_types \<Rightarrow> (bool \<times> 'u find_types) res" where
  "CollateToSLPSrvTypeCallback env user types errorcode h =
     (let h = h\<lparr>ft_callbackcount := ft_callbackcount h + 1\<rparr> in
      if ae_async env then
        (let (go_on, u) = user types errorcode (ft_user h) in Inr (go_on, h\<lparr>ft_user := u\<rparr>))
      else if errorcode = SLP_LAST_CALL \<or> ft_callbackcount h > maxResults env then
        (let u = (case ft_collated h of
                    None \<Rightarrow> ft_user h
                  | Some c \<Rightarrow>
                      (let (go_on, u) = user (Some c) SLP_OK (ft_user h) in
                       if go_on then snd (user None SLP_LAST_CALL u) else u)) in
         Inr (False, h\<lparr>ft_collated := None, ft_callbackcount := 0, ft_user := u\<rparr>))
      else if errorcode \<noteq> SLP_OK then Inr (True, h)
      else bindR (collate_types (ae_item env (the types)) (the types) (ft_collated h)) (\<lambda>c. Inr (True, h\<lparr>ft_collated := c\<rparr>)))"

definition ProcessSrvTypeRplyCallback :: "api_env \<Rightarrow> 'u type_callback \<Rightarrow> 'u find_types reply_callback" where
  "ProcessSrvTypeRplyCallback env user errorcode peeraddr replybuf h =
     (if errorcode \<noteq> SLP_OK then
        bindR (CollateToSLPSrvTypeCallback env user None errorcode h) (\<lambda>(go_on, h). Inr (go_on, replybuf, h))
      else if \<not> ae_alloc env then Inr (True, replybuf, h)
      else
        bindR (parse_reply env peeraddr (the replybuf)) (\<lambda>(m, b).
        bindR
          (case m of
             Inl e \<Rightarrow> Inr (True, h)
           | Inr m \<Rightarrow>
               (case msg_body m of
                  SrvTypeRply t \<Rightarrow>
                    (if tp_errorcode t = 0 \<and> wlen (tp_srvtypelist t) \<noteq> 0
                     then CollateToSLPSrvTypeCallback env user (Some (reply_text b (tp_srvtypelist t))) (api_error (tp_errorcode t)) h
                     else Inr (True, h))
                | _ \<Rightarrow> Inr (True, h)))
          (\<lambda>(go_on, h). Inr (go_on, Some b, h))))"

section \<open>Acknowledgements\<close>

type_synonym 'u reg_callback = "SLPError \<Rightarrow> 'u \<Rightarrow> 'u"

text \<open>Both \<open>CallbackSrvReg\<close> and \<open>CallbackSrvDeReg\<close>.\<close>

definition ack_code :: "nat + sockaddr SLPMessage \<Rightarrow> SLPError" where
  "ack_code m =
     (case m of
        Inl e \<Rightarrow> SLP_NETWORK_ERROR
      | Inr m \<Rightarrow> (case msg_body m of SrvAck a \<Rightarrow> api_error (ak_errorcode a) | _ \<Rightarrow> SLP_NETWORK_ERROR))"

definition CallbackSrvReg :: "api_env \<Rightarrow> 'u reg_callback \<Rightarrow> 'u reply_callback" where
  "CallbackSrvReg env user errorcode peeraddr replybuf u =
     (if errorcode = SLP_OK then
        (if ae_alloc env then
           bindR (parse_reply env peeraddr (the replybuf)) (\<lambda>(m, b). Inr (False, Some b, user (ack_code m) u))
         else Inr (False, replybuf, user SLP_MEMORY_ALLOC_FAILED u))
      else Inr (False, replybuf, user errorcode u))"

definition CallbackSrvDeReg :: "api_env \<Rightarrow> 'u reg_callback \<Rightarrow> 'u reply_callback" where
  "CallbackSrvDeReg env user errorcode peeraddr replybuf u =
     (if errorcode = SLP_OK then
        (if ae_alloc env then
           bindR (parse_reply env peeraddr (the replybuf)) (\<lambda>(m, b). Inr (False, Some b, user (ack_code m) u))
         else Inr (False, replybuf, user SLP_MEMORY_ALLOC_FAILED u))
      else Inr (False, replybuf, user errorcode u))"

section \<open>Parsing leaves the object of the buffer as it is\<close>

definition keepsP :: "'a parser \<Rightarrow> bool" where
  "keepsP p \<longleftrightarrow>
     (\<forall>b x b'. p b = Inr (x, b') \<longrightarrow> length (bmem b') = length (bmem b) \<and> allocated b' = allocated b \<and> bend b' = bend b)"

named_theorems keeps

lemma keepsP_bind [keeps]: "keepsP p \<Longrightarrow> (\<And>x. keepsP (f x)) \<Longrightarrow> keepsP (bindP p f)"
  unfolding keepsP_def by (auto simp: bindP_def res_iff)

lemma keepsP_if [keeps]: "keepsP p \<Longrightarrow> keepsP q \<Longrightarrow> keepsP (if c then p else q)"
  by simp

lemma keepsP_basic [keeps]:
  "keepsP (retP x)" "keepsP (failP e)" "keepsP (needP n)" "keepsP endP" "keepsP GetByte" "keepsP slp_GetUINT16"
  "keepsP slp_GetUINT24" "keepsP slp_GetUINT32" "keepsP (slp_GetStrPtr n)" "keepsP (\<lambda>b. Inr (f b, b))"
  "keepsP (\<lambda>b. Inr ((), b\<lparr>bcur := n\<rparr>))"
  by (auto simp: keepsP_def retP_def failP_def needP_def endP_def GetByte_def slp_GetUINT16_def slp_GetUINT24_def
      slp_GetUINT32_def slp_GetStrPtr_def guardR_def res_iff split: if_splits)

lemma keepsP_terminate [keeps]: "keepsP (terminate s)"
  by (auto simp: terminate_def keepsP_def retP_def PutNul_def wrR_def res_iff split: option.splits if_splits)

lemma keepsP_L16 [keeps]: "keepsP parse_L16_unchecked" "keepsP parse_L16"
  unfolding parse_L16_def parse_L16_unchecked_def by (intro keeps)+

lemma keepsP_auths [keeps]: "keepsP (parse_auths n)"
  by (induction n) (simp_all, intro keeps, simp add: v2ParseAuthBlock_def, intro keeps)

lemma keepsP_autharray [keeps]: "keepsP (parse_autharray mok)"
  unfolding parse_autharray_def by (intro keeps)

lemma keepsP_url [keeps]: "keepsP (v2ParseUrlEntry mok)"
  unfolding v2ParseUrlEntry_def by (intro keeps)

lemma keepsP_urls [keeps]: "keepsP (parse_urls mok n)"
  by (induction n) (simp_all, intro keeps, intro keeps)

lemma keepsP_bodies [keeps]:
  "keepsP v2ParseSrvRqst" "keepsP (v2ParseSrvRply mok)" "keepsP (v2ParseSrvReg mok)" "keepsP (v2ParseSrvDeReg mok)"
  "keepsP v2ParseSrvAck" "keepsP v2ParseAttrRqst" "keepsP (v2ParseAttrRply mok)" "keepsP (v2ParseDAAdvert mok)"
  "keepsP v2ParseSrvTypeRqst" "keepsP v2ParseSrvTypeRply" "keepsP (v2ParseSAAdvert mok)"
  unfolding v2ParseSrvRqst_def v2ParseSrvRply_def v2ParseSrvReg_def v2ParseSrvDeReg_def v2ParseSrvAck_def v2ParseAttrRqst_def
    v2ParseAttrRply_def v2ParseDAAdvert_def v2ParseSrvTypeRqst_def v2ParseSrvTypeRply_def v2ParseSAAdvert_def
  by (intro keeps)+

lemma keepsP_body [keeps]: "keepsP (parse_body mok n)"
  unfolding parse_body_def mapP_def by (intro keeps)

lemma keepsP_ext [keeps]: "keepsP (v2ParseExtension h body)"
proof -
  have "ext_loop fid sz n body b = Inr (x, b') \<Longrightarrow>
      length (bmem b') = length (bmem b) \<and> allocated b' = allocated b \<and> bend b' = bend b" for fid sz n body b x b'
  proof (induction fid sz n body b rule: ext_loop.induct)
    case (1 fid sz n body b)
    show ?case
    proof (cases "n = 0")
      case False
      obtain e b1 nx b2 body1 b3 where
        s: "slp_GetUINT16 (b\<lparr>bcur := n\<rparr>) = Inr (e, b1)" "slp_GetUINT24 b1 = Inr (nx, b2)" "ext_case fid (unat e) body b2 = Inr (body1, b3)"
          "ext_loop fid (sz - 5) (unat nx) body1 b3 = Inr (x, b')" "\<not> sz - 5 \<le> 0" "\<not> n + 5 > bend b"
        using "1.prems" False by (subst (asm) ext_loop.simps) (auto simp: res_iff split: if_splits)
      have "length (bmem b1) = length (bmem b) \<and> allocated b1 = allocated b \<and> bend b1 = bend b"
        using s(1) by (auto simp: slp_GetUINT16_def res_iff)
      moreover have "length (bmem b2) = length (bmem b1) \<and> allocated b2 = allocated b1 \<and> bend b2 = bend b1"
        using s(2) by (auto simp: slp_GetUINT24_def res_iff)
      moreover have "length (bmem b3) = length (bmem b2) \<and> allocated b3 = allocated b2 \<and> bend b3 = bend b2"
        using s(3) by (auto simp: ext_case_def slp_GetUINT32_def bindP_def retP_def res_iff split: if_splits)
      moreover have "length (bmem b') = length (bmem b3) \<and> allocated b' = allocated b3 \<and> bend b' = bend b3"
        using "1.IH"[OF False s(5,6,1) refl s(2) refl s(3) refl s(4)] .
      ultimately show ?thesis by simp
    qed (use "1.prems" in \<open>auto simp: ext_loop.simps[of _ _ 0]\<close>)
  qed
  then show ?thesis by (auto simp: keepsP_def v2ParseExtension_def)
qed

lemma keepsP_header [keeps]: "keepsP SLPv2MessageParseHeader"
proof -
  have p: "keepsP (bindP GetByte (\<lambda>version.
     bindP GetByte (\<lambda>functionid.
     bindP slp_GetUINT24 (\<lambda>len.
     bindP slp_GetUINT16 (\<lambda>flags.
     bindP slp_GetUINT24 (\<lambda>extoffset.
     bindP slp_GetUINT16 (\<lambda>xid.
     bindP parse_L16_unchecked (\<lambda>langtag.
     bindP endP (\<lambda>_.
       if unat functionid < SLP_FUNCT_SRVRQST \<or> unat functionid > SLP_FUNCT_SAADVERT
       then failP SLP_ERROR_PARSE_ERROR
       else if flags AND 0x1fff \<noteq> 0 then failP SLP_ERROR_PARSE_ERROR
       else if unat extoffset > n then failP SLP_ERROR_PARSE_ERROR
       else retP \<lparr>hd_version = unat version, hd_functionid = unat functionid, hd_length = unat len,
                  hd_flags = flags, hd_encoding = 0, hd_extoffset = unat extoffset, hd_xid = xid,
                  hd_langtag = langtag\<rparr>)))))))))" for n
    by (intro keeps)
  show ?thesis
    using p unfolding SLPv2MessageParseHeader_def keepsP_def by (auto simp: res_iff guardR_def split: if_splits)
qed

lemma keepsP_message: "keepsP (SLPMessageParseBuffer mok peer loc mp)"
proof -
  have "keepsP (SLPv2MessageParseBuffer mok)" unfolding SLPv2MessageParseBuffer_def by (intro keeps)
  then show ?thesis
    by (fastforce simp: keepsP_def SLPMessageParseBuffer_def Let_def bindP_def retP_def res_iff split: if_splits)
qed

lemma parse_reply_sound:
  "parse_reply env peer b = Inr (m, b') \<Longrightarrow> buffer_sound b \<Longrightarrow> buffer_sound b'"
  using keepsP_message[of "ae_mok env" peer None cleared_message]
  by (auto simp: parse_reply_def keepsP_def buffer_sound_def split: sum.splits fault.splits prod.splits)

section \<open>What the user of a search is told\<close>

text \<open>A user that writes down each call, and goes on as long as \<open>go\<close> likes what is written.\<close>

type_synonym url_log = "(string option \<times> nat \<times> SLPError) list"

definition url_user :: "(url_log \<Rightarrow> bool) \<Rightarrow> url_log url_callback" where
  "url_user go url lifetime errorcode log = (go log, log @ [(url, lifetime, errorcode)])"

text \<open>The URLs of a message, and those of all messages with a transaction id.\<close>

definition message_urls :: "SLPBuffer \<Rightarrow> sockaddr SLPMessage \<Rightarrow> string list" where
  "message_urls b m =
     (case msg_body m of
        SrvRply r \<Rightarrow> map (\<lambda>e. reply_text b (ue_url e)) (rp_urlarray r)
      | DAAdvert d \<Rightarrow> [reply_text b (da_url d)]
      | SAAdvert s \<Rightarrow> [reply_text b (sa_url s)]
      | _ \<Rightarrow> [])"

definition replied_urls :: "api_env \<Rightarrow> 16 word \<Rightarrow> string set" where
  "replied_urls env xid =
     {url. \<exists>peer b m b'. carries xid b \<and> parse_reply env peer b = Inr (Inr m, b') \<and> url \<in> set (message_urls b' m)}"

abbreviation found :: "(string \<times> nat) list \<Rightarrow> url_log" where
  "found us \<equiv> map (\<lambda>(url, lifetime). (Some url, lifetime, SLP_OK)) us"

definition found_ok :: "api_env \<Rightarrow> 16 word \<Rightarrow> (string \<times> nat) list \<Rightarrow> bool" where
  "found_ok env xid us \<longleftrightarrow>
     distinct (map fst us) \<and> int (length us) \<le> max 0 (maxResults env + 1) \<and> fst ` set us \<subseteq> replied_urls env xid"

definition searching :: "api_env \<Rightarrow> 16 word \<Rightarrow> url_log find_srvs \<Rightarrow> bool" where
  "searching env xid h \<longleftrightarrow>
     fs_user h = found (fs_collated h) \<and> found_ok env xid (fs_collated h)
     \<and> int (length (fs_collated h)) \<le> fs_callbackcount h"

definition searched :: "api_env \<Rightarrow> 16 word \<Rightarrow> url_log find_srvs \<Rightarrow> bool" where
  "searched env xid h \<longleftrightarrow>
     (\<exists>us end_call. fs_user h = found us @ end_call \<and> found_ok env xid us \<and> end_call \<in> {[], [(None, 0, SLP_LAST_CALL)]})"

lemma searching_searched: "searching env xid h \<Longrightarrow> searched env xid h"
  by (auto simp: searching_def searched_def intro!: exI[of _ "fs_collated h"])

lemma Collate_url:
  assumes "CollateToSLPSrvURLCallback env (url_user go) (Some url) life SLP_OK h = (go_on, h')"
    and "searching env xid h" "\<not> ae_async env" "url \<in> replied_urls env xid"
  shows "if go_on then searching env xid h' else searched env xid h'"
proof -
  note s = assms(2)[unfolded searching_def]
  consider "fs_callbackcount h > maxResults env" | "fs_callbackcount h \<le> maxResults env" "url \<in> fst ` set (fs_collated h) \<or> \<not> ae_item env url"
    | "fs_callbackcount h \<le> maxResults env" "url \<notin> fst ` set (fs_collated h)" "ae_item env url" by linarith
  then show ?thesis
  proof cases
    case 1
    then have "\<not> go_on \<and> fs_user h' = found (fs_collated h) @ [(None, 0, SLP_LAST_CALL)]"
      using assms(1,3) s by (auto simp: CollateToSLPSrvURLCallback_def url_user_def)
    then show ?thesis using s by (auto simp: searched_def)
  next
    case 2
    from 2(2) have "go_on \<and> h' = h\<lparr>fs_callbackcount := fs_callbackcount h + 1\<rparr>"
      by (rule disjE) (use assms(1,3) 2(1) in \<open>simp_all add: CollateToSLPSrvURLCallback_def Let_def\<close>)
    then show ?thesis using s by (auto simp: searching_def)
  next
    case 3
    let ?us = "fs_collated h @ [(url, life)]"
    have ok: "found_ok env xid ?us" using s 3 assms(4) by (auto simp: found_ok_def)
    have u: "fs_user h' = found ?us" "go_on \<Longrightarrow> fs_collated h' = ?us \<and> fs_callbackcount h' = fs_callbackcount h + 1"
      using assms(1,3) 3 s by (auto simp: CollateToSLPSrvURLCallback_def url_user_def Let_def split: if_splits)
    show ?thesis
    proof (cases go_on)
      case True
      then show ?thesis using u ok s by (auto simp: searching_def)
    next
      case False
      then show ?thesis using u(1) ok by (auto simp: searched_def intro!: exI[of _ ?us])
    qed
  qed
qed

lemma each_url_keeps:
  assumes "each_url env (url_user go) b es h = (go_on, h')" "searching env xid h" "\<not> ae_async env"
    and "(\<lambda>e. reply_text b (ue_url e)) ` set es \<subseteq> replied_urls env xid"
  shows "if go_on then searching env xid h' else searched env xid h'"
  using assms
proof (induction es arbitrary: h)
  case (Cons e es)
  obtain r h1 where c: "CollateToSLPSrvURLCallback env (url_user go) (Some (reply_text b (ue_url e))) (ue_lifetime e) SLP_OK h = (r, h1)"
    by fastforce
  have k: "if r then searching env xid h1 else searched env xid h1"
    by (rule Collate_url[OF c Cons.prems(2,3)]) (use Cons.prems(4) in auto)
  show ?case
  proof (cases r)
    case True
    then show ?thesis using Cons.IH[of h1] Cons.prems c k by simp
  next
    case False
    then show ?thesis using Cons.prems(1) c k by auto
  qed
qed simp

lemma ProcessSrvRply_reply:
  assumes "ProcessSrvRplyCallback env (url_user go) SLP_OK peer (Some b) h = Inr (go_on, buf, h')"
    and "searching env xid h" "\<not> ae_async env" "buffer_sound b" "carries xid b"
  shows "(\<forall>b'. buf = Some b' \<longrightarrow> buffer_sound b') \<and> (if go_on then searching env xid h' else searched env xid h')"
proof (cases "ae_alloc env")
  case False
  then show ?thesis using assms by (auto simp: ProcessSrvRplyCallback_def)
next
  case True
  obtain m b' where p: "parse_reply env peer b = Inr (m, b')"
    using assms(1) True by (cases "parse_reply env peer b") (auto simp: ProcessSrvRplyCallback_def)
  have buf: "buf = Some b'" using assms(1) True p by (auto simp: ProcessSrvRplyCallback_def Let_def split: prod.splits)
  note snd = parse_reply_sound[OF p assms(4)]
  show ?thesis
  proof (cases m)
    case (Inl e)
    then show ?thesis using assms(1,2) True p buf snd by (auto simp: ProcessSrvRplyCallback_def)
  next
    case (Inr msg)
    have urls: "set (message_urls b' msg) \<subseteq> replied_urls env xid"
      using assms(5) p Inr by (auto simp: replied_urls_def)
    note run = assms(1)[unfolded ProcessSrvRplyCallback_def]
    have "if go_on then searching env xid h' else searched env xid h'"
    proof (cases "msg_body msg")
      case (SrvRply r)
      then have r: "(if rp_errorcode r = 0 then each_url env (url_user go) b' (rp_urlarray r) h else (True, h)) = (go_on, h')"
        using run True p Inr by (auto split: prod.splits if_splits)
      have u: "(\<lambda>e. reply_text b' (ue_url e)) ` set (rp_urlarray r) \<subseteq> replied_urls env xid"
        using urls SrvRply by (auto simp: message_urls_def)
      show ?thesis
      proof (cases "rp_errorcode r = 0")
        case True
        then show ?thesis using each_url_keeps[OF _ assms(2,3) u] r by simp
      qed (use r assms(2) in auto)
    next
      case (DAAdvert d)
      then have r: "(if da_errorcode d = 0
          then CollateToSLPSrvURLCallback env (url_user go) (Some (reply_text b' (da_url d))) SLP_LIFETIME_MAXIMUM SLP_OK h
          else (True, h)) = (go_on, h')"
        using run True p Inr by (auto split: prod.splits if_splits)
      have u: "reply_text b' (da_url d) \<in> replied_urls env xid" using urls DAAdvert by (auto simp: message_urls_def)
      show ?thesis
      proof (cases "da_errorcode d = 0")
        case True
        then show ?thesis using Collate_url[OF _ assms(2,3) u] r by simp
      qed (use r assms(2) in auto)
    next
      case (SAAdvert sa)
      then have r: "CollateToSLPSrvURLCallback env (url_user go) (Some (reply_text b' (sa_url sa))) SLP_LIFETIME_MAXIMUM SLP_OK h = (go_on, h')"
        using run True p Inr by (auto split: prod.splits if_splits)
      have u: "reply_text b' (sa_url sa) \<in> replied_urls env xid" using urls SAAdvert by (auto simp: message_urls_def)
      show ?thesis using Collate_url[OF r assms(2,3) u] .
    qed (use run True p Inr assms(2) in auto)
    then show ?thesis using buf snd by simp
  qed
qed

lemma ProcessSrvRply_told:
  assumes "ProcessSrvRplyCallback env (url_user go) r peer mb h = Inr (go_on, buf, h')" "r \<noteq> SLP_OK"
    and "searching env xid h" "\<not> ae_async env"
  shows "searched env xid h'"
proof -
  note s = assms(3)[unfolded searching_def]
  obtain g h1 where c: "CollateToSLPSrvURLCallback env (url_user go) None 0 r h = (g, h1)" by fastforce
  then have "h' = h1" using assms(1,2) by (simp add: ProcessSrvRplyCallback_def)
  moreover have "fs_user h1 = found (fs_collated h) @ [(None, 0, SLP_LAST_CALL)] \<or> h1 = h"
    using c assms(2,4) s by (auto simp: CollateToSLPSrvURLCallback_def url_user_def split: if_splits)
  moreover have "searched env xid h1" if "fs_user h1 = found (fs_collated h) @ [(None, 0, SLP_LAST_CALL)]"
    using that s by (auto simp: searched_def)
  ultimately show ?thesis using searching_searched[OF assms(3)] by auto
qed

interpretation srv_search: reply_sink "ProcessSrvRplyCallback env (url_user go)" xid
    "\<lambda>h. \<not> ae_async env \<and> searching env xid h" "\<lambda>h. \<not> ae_async env \<and> searched env xid h"
  for env go xid
proof
  show "(\<forall>b'. buf = Some b' \<longrightarrow> buffer_sound b') \<and>
      (if go_on then \<not> ae_async env \<and> searching env xid h' else \<not> ae_async env \<and> searched env xid h')"
    if "\<not> ae_async env \<and> searching env xid h" "buffer_sound b" "carries xid b"
      "ProcessSrvRplyCallback env (url_user go) SLP_OK (Some a) (Some b) h = Inr (go_on, buf, h')" for h b a go_on buf h'
    using ProcessSrvRply_reply[OF that(4) _ _ that(2,3)] that(1) by auto
  show "\<not> ae_async env \<and> searched env xid h'"
    if "\<not> ae_async env \<and> searching env xid h" "\<forall>b. mb = Some b \<longrightarrow> buffer_sound b" "r \<noteq> SLP_OK"
      "ProcessSrvRplyCallback env (url_user go) r sender mb h = Inr (go_on, buf, h')" for h mb r sender go_on buf h'
    using ProcessSrvRply_told[OF that(4,3)] that(1) by auto
  show "\<not> ae_async env \<and> searched env xid h" if "\<not> ae_async env \<and> searching env xid h" for h
    using that searching_searched by auto
qed

definition new_search :: "url_log find_srvs" where
  "new_search = \<lparr>fs_callbackcount = 0, fs_collated = [], fs_user = []\<rparr>"

lemma searching_new: "searching env xid new_search"
  by (simp add: searching_def new_search_def found_ok_def)


definition sample_api :: api_env where
  "sample_api = \<lparr>ae_alloc = True, ae_item = \<lambda>_. True, ae_mok = \<lambda>_. True, ae_async = False,
     ae_props = [\<lparr>pr_name = ''net.slp.maxResults'', pr_value = ''-1'', pr_attrs = 0\<rparr>]\<rparr>"

text \<open>A reply with two URLs of which one is there twice.\<close>

definition sample_srvrply :: "8 word \<Rightarrow> 8 word list" where
  "sample_srvrply xid =
     [2, 2, 0, 0, 47, 0, 0, 0, 0, 0, 0, xid, 0, 2, 101, 110, 0, 0, 0, 3] @
     encUrl 60 (bytes_of ''a:b'') [] @ encUrl 60 (bytes_of ''a:c'') [] @ encUrl 60 (bytes_of ''a:b'') []"


lemma search_run:
  "map_option (map_sum id (\<lambda>(r, s). (r, fs_user (ex_cookie s))))
     (NetworkRqstRply (sample_net_env True) (AF_INET 0x0a000001) sample_request
        (ProcessSrvRplyCallback sample_api (url_user (\<lambda>_. True))) [Accepts 100]
        [Arrives (AF_INET 0x0a000001) (sample_srvrply 7)] new_search)
   = Some (Inr (SLP_OK, [(Some ''a:b'', 60, SLP_OK), (Some ''a:c'', 60, SLP_OK), (None, 0, SLP_LAST_CALL)]))"
  by code_simp

end
