(* ===== verification/SLP_Database.thy ===== *)
theory SLP_Database
  imports SLP_Prelude
begin

text \<open>
  The doubly linked list of \<open>common/slp_linkedlist.c\<close> and the entry database of
  \<open>common/slp_database.c\<close> on top of it, over an explicit heap: an item is a
  node with its two pointers and the payload of the entry it begins.  Following
  a null pointer or a freed item is \<open>OutOfBounds\<close>.  The abstraction of a list is
  the Isabelle list of the addresses linked into it; every operation is shown to
  do on it what its name says, and a scan that removes entries while it runs to
  be the corresponding function on the list of payloads.
\<close>

section \<open>Lists\<close>

record 'e SLPListItem =
  previous :: "nat option"
  succ :: "nat option"
  payload :: 'e

record SLPList =
  head :: "nat option"
  tail :: "nat option"
  lcount :: int

type_synonym 'e heap = "nat \<Rightarrow> 'e SLPListItem option"

definition deref :: "'e heap \<Rightarrow> nat \<Rightarrow> 'e SLPListItem res" where
  "deref h p = (case h p of None \<Rightarrow> Inl OutOfBounds | Some it \<Rightarrow> Inr it)"

definition upd_item :: "'e heap \<Rightarrow> nat option \<Rightarrow> ('e SLPListItem \<Rightarrow> 'e SLPListItem) \<Rightarrow> 'e heap res" where
  "upd_item h q f = (case q of None \<Rightarrow> Inr h | Some p \<Rightarrow> bindR (deref h p) (\<lambda>it. Inr (h(p \<mapsto> f it))))"

definition SLPListUnlink :: "'e heap \<Rightarrow> SLPList \<Rightarrow> nat \<Rightarrow> ('e heap \<times> SLPList) res" where
  "SLPListUnlink h l item =
     bindR (deref h item) (\<lambda>it.
     bindR (upd_item h (previous it) (\<lambda>p. p\<lparr>succ := succ it\<rparr>)) (\<lambda>h.
     bindR (deref h item) (\<lambda>it.
     bindR (upd_item h (succ it) (\<lambda>n. n\<lparr>previous := previous it\<rparr>)) (\<lambda>h.
     bindR (deref h item) (\<lambda>it.
       (let l = (if Some item = head l then l\<lparr>head := succ it\<rparr> else l);
            l = (if Some item = tail l then l\<lparr>tail := previous it\<rparr> else l)
        in Inr (h, l\<lparr>lcount := lcount l - 1\<rparr>)))))))"

definition SLPListLinkHead :: "'e heap \<Rightarrow> SLPList \<Rightarrow> nat \<Rightarrow> ('e heap \<times> SLPList) res" where
  "SLPListLinkHead h l item =
     bindR (upd_item h (Some item) (\<lambda>it. it\<lparr>previous := None, succ := head l\<rparr>)) (\<lambda>h.
     bindR (upd_item h (head l) (\<lambda>n. n\<lparr>previous := Some item\<rparr>)) (\<lambda>h.
       (let l = l\<lparr>head := Some item\<rparr>;
            l = (if tail l = None then l\<lparr>tail := Some item\<rparr> else l)
        in Inr (h, l\<lparr>lcount := lcount l + 1\<rparr>))))"

definition SLPListLinkTail :: "'e heap \<Rightarrow> SLPList \<Rightarrow> nat \<Rightarrow> ('e heap \<times> SLPList) res" where
  "SLPListLinkTail h l item =
     bindR (upd_item h (Some item) (\<lambda>it. it\<lparr>previous := tail l, succ := None\<rparr>)) (\<lambda>h.
     bindR (upd_item h (tail l) (\<lambda>p. p\<lparr>succ := Some item\<rparr>)) (\<lambda>h.
       (let l = l\<lparr>tail := Some item\<rparr>;
            l = (if head l = None then l\<lparr>head := Some item\<rparr> else l)
        in Inr (h, l\<lparr>lcount := lcount l + 1\<rparr>))))"

section \<open>The abstraction\<close>

definition first :: "'a list \<Rightarrow> 'a option \<Rightarrow> 'a option" where
  "first xs n = (case xs of [] \<Rightarrow> n | x # _ \<Rightarrow> Some x)"

definition final :: "'a list \<Rightarrow> 'a option \<Rightarrow> 'a option" where
  "final xs p = (if xs = [] then p else Some (last xs))"

lemma first_simps [simp]: "first [] n = n" "first (x # xs) n = Some x"
  by (simp_all add: first_def)

lemma final_simps [simp]: "final [] p = p" "final (x # xs) p = final xs (Some x)" "final (xs @ [y]) p = Some y"
  by (auto simp: final_def)

lemma first_append [simp]: "first (xs @ ys) n = first xs (first ys n)"
  by (cases xs) simp_all

lemma final_append [simp]: "final (xs @ ys) p = final ys (final xs p)"
  by (auto simp: final_def)

fun linked :: "'e heap \<Rightarrow> nat option \<Rightarrow> nat list \<Rightarrow> nat option \<Rightarrow> bool" where
  "linked h p [] n = True"
| "linked h p (x # xs) n =
     ((\<exists>it. h x = Some it \<and> previous it = p \<and> succ it = first xs n) \<and> linked h (Some x) xs n)"

definition dll :: "'e heap \<Rightarrow> SLPList \<Rightarrow> nat list \<Rightarrow> bool" where
  "dll h l xs \<longleftrightarrow> distinct xs \<and> linked h None xs None \<and>
     head l = first xs None \<and> tail l = final xs None \<and> lcount l = int (length xs)"

definition contents :: "'e heap \<Rightarrow> nat list \<Rightarrow> 'e list" where
  "contents h xs = map (\<lambda>x. payload (the (h x))) xs"

lemma linked_append:
  "linked h p (xs @ ys) n \<longleftrightarrow> linked h p xs (first ys n) \<and> linked h (final xs p) ys n"
  by (induction xs arbitrary: p) auto

lemma linked_other: "x \<notin> set xs \<Longrightarrow> linked (h(x := v)) p xs n = linked h p xs n"
  by (induction xs arbitrary: p) auto

lemma linked_alloc: "linked h p xs n \<Longrightarrow> x \<in> set xs \<Longrightarrow> h x \<noteq> None"
  by (induction xs arbitrary: p) auto

lemma linked_new_next:
  assumes "linked h p (xs @ [y]) n" "y \<notin> set xs" "h y = Some it"
  shows "linked (h(y \<mapsto> it\<lparr>succ := n'\<rparr>)) p (xs @ [y]) n'"
  using assms by (auto simp: linked_append linked_other)

lemma linked_new_prev:
  assumes "linked h p (y # xs) n" "y \<notin> set xs" "h y = Some it"
  shows "linked (h(y \<mapsto> it\<lparr>previous := p'\<rparr>)) p' (y # xs) n"
  using assms by (auto simp: linked_other)

lemma deref_Some [simp]: "h p = Some it \<Longrightarrow> deref h p = Inr it"
  by (simp add: deref_def)

lemma upd_None [simp]: "upd_item h None f = Inr h"
  by (simp add: upd_item_def)

lemma upd_Some [simp]: "h p = Some it \<Longrightarrow> upd_item h (Some p) f = Inr (h(p \<mapsto> f it))"
  by (simp add: upd_item_def)

lemma contents_upd:
  "h y = Some it \<Longrightarrow> payload it' = payload it \<Longrightarrow> contents (h(y \<mapsto> it')) xs = contents h xs"
  by (simp add: contents_def)

lemma LinkTail_dll:
  assumes "dll h l xs" "x \<notin> set xs" "h x = Some it"
  shows "\<exists>h' l'. SLPListLinkTail h l x = Inr (h', l') \<and> dll h' l' (xs @ [x])
    \<and> (\<forall>y. map_option payload (h' y) = map_option payload (h y))"
proof (cases xs rule: rev_cases)
  case Nil
  with assms show ?thesis by (auto simp: dll_def SLPListLinkTail_def)
next
  case (snoc ys y)
  let ?h1 = "h(x \<mapsto> it\<lparr>previous := Some y, succ := None\<rparr>)"
  have lk: "linked h None (ys @ [y]) None" "y \<notin> set ys" "x \<noteq> y" "x \<notin> set ys"
    and tl: "tail l = Some y" and hd: "head l = first ys (Some y)"
    using assms snoc by (auto simp: dll_def)
  obtain ity where y: "h y = Some ity" using linked_alloc[OF lk(1), of y] by auto
  let ?h2 = "?h1(y \<mapsto> ity\<lparr>succ := Some x\<rparr>)"
  have run: "SLPListLinkTail h l x = Inr (?h2, l\<lparr>tail := Some x, lcount := lcount l + 1\<rparr>)"
    using assms(3) tl hd y lk(3) by (cases ys) (auto simp: SLPListLinkTail_def)
  have "linked ?h1 None (ys @ [y]) None" using lk by (simp add: linked_append linked_other)
  then have "linked ?h2 None (ys @ [y]) (Some x)"
    using linked_new_next[of ?h1 None ys y None ity "Some x"] lk y by simp
  moreover have "?h2 x = Some (it\<lparr>previous := Some y, succ := None\<rparr>)"
    using lk(3) by simp
  ultimately have "linked ?h2 None (ys @ [y, x]) None" using lk(3) by (auto simp: linked_append)
  then have "dll ?h2 (l\<lparr>tail := Some x, lcount := lcount l + 1\<rparr>) (xs @ [x])"
    using assms(1,2) snoc by (simp add: dll_def)
  with run show ?thesis using assms(3) y by (auto simp: lk(3))
qed

lemma LinkHead_dll:
  assumes "dll h l xs" "x \<notin> set xs" "h x = Some it"
  shows "\<exists>h' l'. SLPListLinkHead h l x = Inr (h', l') \<and> dll h' l' (x # xs)
    \<and> (\<forall>y. map_option payload (h' y) = map_option payload (h y))"
proof (cases xs)
  case Nil
  with assms show ?thesis by (auto simp: dll_def SLPListLinkHead_def)
next
  case (Cons y ys)
  let ?h1 = "h(x \<mapsto> it\<lparr>previous := None, succ := Some y\<rparr>)"
  have lk: "linked h None (y # ys) None" "y \<notin> set ys" "x \<noteq> y" "x \<notin> set ys"
    and hd: "head l = Some y" and tl: "tail l \<noteq> None"
    using assms Cons by (auto simp: dll_def final_def)
  obtain ity where y: "h y = Some ity" using lk(1) by auto
  let ?h2 = "?h1(y \<mapsto> ity\<lparr>previous := Some x\<rparr>)"
  have run: "SLPListLinkHead h l x = Inr (?h2, l\<lparr>head := Some x, lcount := lcount l + 1\<rparr>)"
    using assms(3) tl hd y lk(3) by (auto simp: SLPListLinkHead_def)
  have "linked ?h1 None (y # ys) None" using lk by (auto simp: linked_other)
  then have "linked ?h2 (Some x) (y # ys) None"
    using linked_new_prev[of ?h1 None y ys None ity "Some x"] lk y by simp
  then have "dll ?h2 (l\<lparr>head := Some x, lcount := lcount l + 1\<rparr>) (x # xs)"
    using assms(1,2) Cons lk(3) by (simp add: dll_def)
  with run show ?thesis using assms(3) y by (auto simp: lk(3))
qed

lemma Unlink_dll:
  assumes "dll h l (xs @ x # ys)"
  shows "\<exists>h' l'. SLPListUnlink h l x = Inr (h', l') \<and> dll h' l' (xs @ ys) \<and> h' x = h x
    \<and> (\<forall>y. map_option payload (h' y) = map_option payload (h y))
    \<and> (\<forall>y. y \<notin> set (xs @ ys) \<longrightarrow> h' y = h y)"
proof -
  have lk: "linked h None xs (Some x)" "linked h (Some x) ys None"
    and dist: "distinct xs" "distinct ys" "x \<notin> set xs" "x \<notin> set ys" "set xs \<inter> set ys = {}"
    and ends: "head l = first xs (Some x)" "tail l = final ys (Some x)" "lcount l = int (length xs + length ys) + 1"
    using assms by (auto simp: dll_def linked_append)
  obtain it where it: "h x = Some it" "previous it = final xs None" "succ it = first ys None"
    using assms by (auto simp: dll_def linked_append)
  define h1 where "h1 = (case final xs None of None \<Rightarrow> h | Some p \<Rightarrow> h(p \<mapsto> (the (h p))\<lparr>succ := succ it\<rparr>))"
  define h2 where "h2 = (case first ys None of None \<Rightarrow> h1 | Some n \<Rightarrow> h1(n \<mapsto> (the (h1 n))\<lparr>previous := previous it\<rparr>))"
  have p: "\<exists>itp. h p = Some itp" "p \<in> set xs" if "final xs None = Some p" for p
    using linked_alloc[OF lk(1), of p] that by (auto simp: final_def split: if_splits)
  have n: "\<exists>itn. h n = Some itn" "n \<in> set ys" if "first ys None = Some n" for n
    using linked_alloc[OF lk(2), of n] that by (auto simp: first_def split: list.splits)
  have u1: "upd_item h (previous it) (\<lambda>p. p\<lparr>succ := succ it\<rparr>) = Inr h1"
    using p it(2) by (auto simp: h1_def split: option.splits)
  have x1: "h1 x = Some it" using p it(1) dist(3) by (auto simp: h1_def split: option.splits)
  have n1: "h1 n = h n" if "n \<in> set ys" for n using p dist(5) that by (auto simp: h1_def split: option.splits)
  have u2: "upd_item h1 (succ it) (\<lambda>n. n\<lparr>previous := previous it\<rparr>) = Inr h2"
    using n n1 it(3) by (auto simp: h2_def split: option.splits)
  have x2: "h2 x = Some it" using n x1 dist(4) by (auto simp: h2_def split: option.splits)
  have "linked h1 None xs (first ys None)"
  proof (cases xs rule: rev_cases)
    case (snoc zs p)
    then obtain itp where hp: "h p = Some itp" using p(1)[of p] by auto
    have "linked (h(p \<mapsto> itp\<lparr>succ := first ys None\<rparr>)) None (zs @ [p]) (first ys None)"
      using linked_new_next[of h None zs p _ itp "first ys None"] hp lk(1) dist(1) snoc by auto
    with snoc hp it(3) show ?thesis by (simp add: h1_def)
  qed simp
  then have lx: "linked h2 None xs (first ys None)"
  proof (cases "first ys None")
    case (Some m)
    assume l1: "linked h1 None xs (first ys None)"
    have "m \<notin> set xs" using n(2)[OF Some] dist(5) by auto
    with l1 Some show ?thesis by (simp add: h2_def linked_other)
  qed (simp add: h2_def)
  have "linked h1 (Some x) ys None"
  proof (cases "final xs None")
    case (Some m)
    then have "m \<notin> set ys" using p(2)[OF Some] dist(5) by auto
    with lk(2) Some show ?thesis by (simp add: h1_def linked_other)
  qed (simp add: h1_def lk(2))
  then have ly: "linked h2 (final xs None) ys None"
  proof (cases ys)
    case (Cons m zs)
    assume l1: "linked h1 (Some x) ys None"
    then obtain itn where hn: "h1 m = Some itn" using Cons by auto
    have "linked (h1(m \<mapsto> itn\<lparr>previous := final xs None\<rparr>)) (final xs None) (m # zs) None"
      using linked_new_prev[of h1 "Some x" m zs None itn "final xs None"] hn l1 dist(2) Cons by auto
    with Cons hn it(2) show ?thesis by (simp add: h2_def)
  qed simp
  define l2 where "l2 = l\<lparr>head := first xs (first ys None), tail := final ys (final xs None), lcount := lcount l - 1\<rparr>"
  have hd: "(if Some x = head l then succ it else head l) = first xs (first ys None)"
    using ends(1) it(3) dist(3) by (cases xs) auto
  have tl: "(if Some x = tail l then previous it else tail l) = final ys (final xs None)"
    using ends(2) it(2) dist(4) by (cases ys rule: rev_cases) auto
  have "SLPListUnlink h l x = Inr (h2, l2)"
    using it(1) u1 x1 u2 x2 hd tl by (cases l) (auto simp: SLPListUnlink_def Let_def l2_def)
  moreover have "dll h2 l2 (xs @ ys)"
    using lx ly dist ends(3) by (auto simp: dll_def linked_append l2_def)
  moreover have "map_option payload (h2 y) = map_option payload (h y)" for y
    using p(1) n n1 by (auto simp: h2_def h1_def split: option.splits)
  moreover have "h2 y = h y" if "y \<notin> set (xs @ ys)" for y
    using p(2) n(2) that by (auto simp: h2_def h1_def split: option.splits)
  ultimately show ?thesis using x2 it(1) by auto
qed

section \<open>Databases\<close>

text \<open>
  A database is a list and the heap its entries live in; a handle is the
  cursor of an enumeration.  \<open>SLPDatabaseEntryCreate\<close> gets the address the
  allocator returned, \<open>None\<close> where it failed; the links of a new entry are not
  initialised.
\<close>

type_synonym 'e database = "'e heap \<times> SLPList"

definition SLPDatabaseEntryCreate ::
  "nat option \<Rightarrow> nat option \<times> nat option \<Rightarrow> 'e \<Rightarrow> 'e database \<Rightarrow> nat option \<times> 'e database" where
  "SLPDatabaseEntryCreate addr junk e db =
     (case addr of
        None \<Rightarrow> (None, db)
      | Some p \<Rightarrow>
          (Some p, ((fst db)(p \<mapsto> \<lparr>previous = fst junk, succ = snd junk, payload = e\<rparr>), snd db)))"

definition SLPDatabaseEntryDestroy :: "'e database \<Rightarrow> nat \<Rightarrow> 'e database res" where
  "SLPDatabaseEntryDestroy db e = bindR (deref (fst db) e) (\<lambda>_. Inr ((fst db)(e := None), snd db))"

definition SLPDatabaseOpen :: "'e database \<Rightarrow> nat option" where
  "SLPDatabaseOpen db = head (snd db)"

definition SLPDatabaseEnum :: "'e database \<Rightarrow> nat option \<Rightarrow> (nat option \<times> nat option) res" where
  "SLPDatabaseEnum db current =
     (case current of
        None \<Rightarrow> Inr (None, None)
      | Some p \<Rightarrow> bindR (deref (fst db) p) (\<lambda>it. Inr (Some p, succ it)))"

definition SLPDatabaseRewind :: "'e database \<Rightarrow> nat option" where
  "SLPDatabaseRewind db = head (snd db)"

definition SLPDatabaseRemove :: "'e database \<Rightarrow> nat \<Rightarrow> 'e database res" where
  "SLPDatabaseRemove db e =
     bindR (SLPListUnlink (fst db) (snd db) e) (\<lambda>db. SLPDatabaseEntryDestroy db e)"

definition SLPDatabaseAdd :: "'e database \<Rightarrow> nat \<Rightarrow> 'e database res" where
  "SLPDatabaseAdd db e = SLPListLinkTail (fst db) (snd db) e"

definition SLPDatabaseCount :: "'e database \<Rightarrow> int" where
  "SLPDatabaseCount db = lcount (snd db)"

definition empty_list :: SLPList where
  "empty_list = \<lparr>head = None, tail = None, lcount = 0\<rparr>"

text \<open>\<open>while (database->count)\<close> with the head dereferenced, whatever it is.\<close>

partial_function (option) deinit_loop :: "'e database \<Rightarrow> 'e database res option" where
  "deinit_loop db =
     (if lcount (snd db) = 0 then Some (Inr (fst db, empty_list))
      else
        (case head (snd db) of
           None \<Rightarrow> Some (Inl OutOfBounds)
         | Some e \<Rightarrow>
             (case SLPDatabaseRemove db e of
                Inl err \<Rightarrow> Some (Inl err)
              | Inr db' \<Rightarrow> deinit_loop db')))"

definition SLPDatabaseDeinit :: "'e database \<Rightarrow> 'e database res option" where
  "SLPDatabaseDeinit db = deinit_loop db"

definition SLPDatabaseInit :: "'e database \<Rightarrow> 'e database res option" where
  "SLPDatabaseInit db = (if head (snd db) \<noteq> None then SLPDatabaseDeinit db else Some (Inr db))"

definition get_entry :: "'e database \<Rightarrow> nat \<Rightarrow> 'e res" where
  "get_entry db e = bindR (deref (fst db) e) (\<lambda>it. Inr (payload it))"

definition set_entry :: "'e database \<Rightarrow> nat \<Rightarrow> 'e \<Rightarrow> 'e database res" where
  "set_entry db e v =
     bindR (upd_item (fst db) (Some e) (\<lambda>it. it\<lparr>payload := v\<rparr>)) (\<lambda>h. Inr (h, snd db))"

text \<open>
  The loop \<open>while ((entry = SLPDatabaseEnum(dh)) != 0)\<close> of the callers.  Its body
  looks at the entry and a state of its own; it keeps the entry, possibly
  changed in place, or removes it, and goes on or stops.
\<close>

datatype 'e act = Keep 'e | Drop | Stop | DropStop

partial_function (option) scan_with ::
  "('d \<Rightarrow> nat option \<Rightarrow> (nat option \<times> nat option) res) \<Rightarrow> ('d \<Rightarrow> nat \<Rightarrow> 'e res) \<Rightarrow> ('d \<Rightarrow> nat \<Rightarrow> 'e \<Rightarrow> 'd res)
     \<Rightarrow> ('d \<Rightarrow> nat \<Rightarrow> 'd res) \<Rightarrow> ('e \<Rightarrow> 's \<Rightarrow> 'e act \<times> 's) \<Rightarrow> 'd \<Rightarrow> nat option \<Rightarrow> 's \<Rightarrow> ('d \<times> 's) res option" where
  "scan_with enum get setv remove f db current s =
     (case enum db current of
        Inl err \<Rightarrow> Some (Inl err)
      | Inr (None, current') \<Rightarrow> Some (Inr (db, s))
      | Inr (Some e, current') \<Rightarrow>
          (case get db e of
             Inl err \<Rightarrow> Some (Inl err)
           | Inr v \<Rightarrow>
               (case f v s of
                  (Keep v', s') \<Rightarrow>
                    (case setv db e v' of
                       Inl err \<Rightarrow> Some (Inl err)
                     | Inr db' \<Rightarrow> scan_with enum get setv remove f db' current' s')
                | (Drop, s') \<Rightarrow>
                    (case remove db e of
                       Inl err \<Rightarrow> Some (Inl err)
                     | Inr db' \<Rightarrow> scan_with enum get setv remove f db' current' s')
                | (Stop, s') \<Rightarrow> Some (Inr (db, s'))
                | (DropStop, s') \<Rightarrow>
                    (case remove db e of
                       Inl err \<Rightarrow> Some (Inl err)
                     | Inr db' \<Rightarrow> Some (Inr (db', s'))))))"

text \<open>What such a loop does to the list of entries.\<close>

fun scan_list :: "('e \<Rightarrow> 's \<Rightarrow> 'e act \<times> 's) \<Rightarrow> 'e list \<Rightarrow> 's \<Rightarrow> 'e list \<times> 's" where
  "scan_list f [] s = ([], s)"
| "scan_list f (x # xs) s =
     (case f x s of
        (Keep y, s') \<Rightarrow> (let (ys, s'') = scan_list f xs s' in (y # ys, s''))
      | (Drop, s') \<Rightarrow> scan_list f xs s'
      | (Stop, s') \<Rightarrow> (x # xs, s')
      | (DropStop, s') \<Rightarrow> (xs, s'))"

section \<open>The contract of an entry database\<close>

text \<open>
  What the daemon relies on: \<open>repr db es\<close> says that \<open>db\<close> holds the entries at the
  addresses \<open>es\<close>, in this order.
\<close>

locale entry_database =
  fixes repr :: "'d \<Rightarrow> nat list \<Rightarrow> bool"
    and opn :: "'d \<Rightarrow> nat option"
    and enum :: "'d \<Rightarrow> nat option \<Rightarrow> (nat option \<times> nat option) res"
    and get :: "'d \<Rightarrow> nat \<Rightarrow> 'e res"
    and set_e :: "'d \<Rightarrow> nat \<Rightarrow> 'e \<Rightarrow> 'd res"
    and remove :: "'d \<Rightarrow> nat \<Rightarrow> 'd res"
  assumes opn: "repr db es \<Longrightarrow> opn db = first es None"
    and enum_None: "enum db None = Inr (None, None)"
    and enum_Some: "repr db (es @ e # fs) \<Longrightarrow> enum db (Some e) = Inr (Some e, first fs None)"
    and get_ok: "repr db es \<Longrightarrow> e \<in> set es \<Longrightarrow> \<exists>v. get db e = Inr v"
    and set_ok: "repr db es \<Longrightarrow> e \<in> set es \<Longrightarrow>
          \<exists>db'. set_e db e v = Inr db' \<and> repr db' es \<and> get db' e = Inr v
            \<and> (\<forall>e' \<in> set es - {e}. get db' e' = get db e')"
    and remove_ok: "repr db (es @ e # fs) \<Longrightarrow>
          \<exists>db'. remove db e = Inr db' \<and> repr db' (es @ fs)
            \<and> (\<forall>e' \<in> set (es @ fs). get db' e' = get db e')"
    and repr_distinct: "repr db es \<Longrightarrow> distinct es"
begin

lemma scan_ok:
  assumes "repr db (es @ fs)" "map (get db) fs = map Inr vs"
  shows "\<exists>db' fs'. scan_with enum get set_e remove f db (first fs None) s = Some (Inr (db', snd (scan_list f vs s)))
    \<and> repr db' (es @ fs') \<and> map (get db') fs' = map Inr (fst (scan_list f vs s))
    \<and> (\<forall>e \<in> set es. get db' e = get db e)"
  using assms
proof (induction fs arbitrary: db es vs s)
  case Nil
  then show ?case by (subst scan_with.simps) (auto simp: enum_None)
next
  case (Cons e fs)
  obtain v ws where vs: "vs = v # ws" "get db e = Inr v" "map (get db) fs = map Inr ws"
    using Cons.prems(2) by (cases vs) auto
  have en: "enum db (Some e) = Inr (Some e, first fs None)" using enum_Some[OF Cons.prems(1)] .
  have dist: "e \<notin> set es" "e \<notin> set fs" "set es \<inter> set fs = {}"
    using repr_distinct[OF Cons.prems(1)] by auto
  obtain a s' where f: "f v s = (a, s')" by fastforce
  obtain db1 where rm: "remove db e = Inr db1" "repr db1 (es @ fs)" "\<forall>e' \<in> set (es @ fs). get db1 e' = get db e'"
    using remove_ok[OF Cons.prems(1)] by auto
  have vals: "map (get db1) fs = map Inr ws" using vs(3) rm(3) by (metis (no_types, lifting) UnCI map_eq_conv set_append)
  show ?case
  proof (cases a)
    case (Keep w)
    obtain db2 where st: "set_e db e w = Inr db2" "repr db2 (es @ e # fs)" "get db2 e = Inr w"
      "\<forall>e' \<in> set (es @ e # fs) - {e}. get db2 e' = get db e'"
      using set_ok[OF Cons.prems(1), of e w] by auto
    have "map (get db2) fs = map Inr ws" using vs(3) st(4) dist(2) by (smt (verit) Diff_iff UnCI list.set_intros(2) map_eq_conv set_append singletonD)
    moreover have "repr db2 ((es @ [e]) @ fs)" using st(2) by simp
    ultimately obtain db' fs' where IH: "scan_with enum get set_e remove f db2 (first fs None) s' = Some (Inr (db', snd (scan_list f ws s')))"
      "repr db' ((es @ [e]) @ fs')" "map (get db') fs' = map Inr (fst (scan_list f ws s'))"
      "\<forall>x \<in> set (es @ [e]). get db' x = get db2 x"
      using Cons.IH by blast
    have "\<forall>x \<in> set es. get db' x = get db x" using IH(4) st(4) dist(1) by auto
    with IH st(1,3) en vs(1,2) f Keep show ?thesis
      by (intro exI[of _ db'] exI[of _ "e # fs'"])
         (simp add: scan_with.simps[of _ _ _ _ _ db] split: prod.split)
  next
    case Drop
    obtain db' fs' where IH: "scan_with enum get set_e remove f db1 (first fs None) s' = Some (Inr (db', snd (scan_list f ws s')))"
      "repr db' (es @ fs')" "map (get db') fs' = map Inr (fst (scan_list f ws s'))"
      "\<forall>x \<in> set es. get db' x = get db1 x"
      using Cons.IH[OF rm(2) vals] by blast
    with rm(1,3) en vs(1,2) f Drop show ?thesis
      by (intro exI[of _ db'] exI[of _ fs']) (simp add: scan_with.simps[of _ _ _ _ _ db])
  next
    case Stop
    with en vs f Cons.prems show ?thesis
      by (intro exI[of _ db] exI[of _ "e # fs"]) (simp add: scan_with.simps[of _ _ _ _ _ db])
  next
    case DropStop
    with rm vals en vs(1,2) f show ?thesis
      by (intro exI[of _ db1] exI[of _ fs]) (simp add: scan_with.simps[of _ _ _ _ _ db])
  qed
qed

end

definition repr :: "'e database \<Rightarrow> nat list \<Rightarrow> bool" where
  "repr db es \<longleftrightarrow> dll (fst db) (snd db) es"

lemma linked_payload:
  "h x = Some it \<Longrightarrow> linked (h(x \<mapsto> it\<lparr>payload := v\<rparr>)) p xs n = linked h p xs n"
  by (induction xs arbitrary: p) auto

lemma dll_entry: "dll h l es \<Longrightarrow> e \<in> set es \<Longrightarrow> \<exists>it. h e = Some it"
  using linked_alloc[of h None es None e] by (auto simp: dll_def)

lemma Remove_repr:
  assumes "repr db (es @ e # fs)"
  shows "\<exists>db'. SLPDatabaseRemove db e = Inr db' \<and> repr db' (es @ fs) \<and> fst db' e = None
    \<and> (\<forall>e' \<in> set (es @ fs). get_entry db' e' = get_entry db e')
    \<and> (\<forall>e'. e' \<notin> set (es @ e # fs) \<longrightarrow> fst db' e' = fst db e')"
proof -
  obtain h' l' where u: "SLPListUnlink (fst db) (snd db) e = Inr (h', l')" "dll h' l' (es @ fs)" "h' e = fst db e"
    "\<forall>y. map_option payload (h' y) = map_option payload (fst db y)"
    "\<forall>y. y \<notin> set (es @ fs) \<longrightarrow> h' y = fst db y"
    using Unlink_dll[of "fst db" "snd db" es e fs] assms by (auto simp: repr_def)
  obtain it where it: "fst db e = Some it" using dll_entry[of "fst db" "snd db" "es @ e # fs" e] assms by (auto simp: repr_def)
  have notin: "e \<notin> set es" "e \<notin> set fs" using assms by (auto simp: repr_def dll_def)
  have run: "SLPDatabaseRemove db e = Inr (h'(e := None), l')"
    using u(1,3) it by (simp add: SLPDatabaseRemove_def SLPDatabaseEntryDestroy_def deref_def)
  have "repr (h'(e := None), l') (es @ fs)"
    using u(2) notin by (auto simp: repr_def dll_def linked_other)
  moreover have "get_entry (h'(e := None), l') e' = get_entry db e'" if "e' \<in> set (es @ fs)" for e'
  proof -
    have "e' \<noteq> e" using that notin by auto
    with u(4)[rule_format, of e'] show ?thesis
      by (cases "h' e'"; cases "fst db e'") (auto simp: get_entry_def deref_def)
  qed
  ultimately show ?thesis using run u(5) by (intro exI[of _ "(h'(e := None), l')"]) auto
qed

interpretation slpdb: entry_database repr SLPDatabaseOpen SLPDatabaseEnum get_entry set_entry SLPDatabaseRemove
proof
  fix db :: "'e database" and es fs :: "nat list" and e v
  show "repr db es \<Longrightarrow> SLPDatabaseOpen db = first es None"
    by (simp add: repr_def dll_def SLPDatabaseOpen_def)
  show "SLPDatabaseEnum db None = Inr (None, None)" by (simp add: SLPDatabaseEnum_def)
  show "repr db (es @ e # fs) \<Longrightarrow> SLPDatabaseEnum db (Some e) = Inr (Some e, first fs None)"
    by (auto simp: repr_def dll_def linked_append SLPDatabaseEnum_def)
  show "repr db es \<Longrightarrow> e \<in> set es \<Longrightarrow> \<exists>v. get_entry db e = Inr v"
    using dll_entry[of "fst db" "snd db" es e] by (auto simp: repr_def get_entry_def)
  show "repr db (es @ e # fs) \<Longrightarrow> \<exists>db'. SLPDatabaseRemove db e = Inr db' \<and> repr db' (es @ fs)
      \<and> (\<forall>e' \<in> set (es @ fs). get_entry db' e' = get_entry db e')"
    using Remove_repr by blast
  show "repr db es \<Longrightarrow> distinct es" by (simp add: repr_def dll_def)
  assume r: "repr db es" "e \<in> set es"
  then obtain it where it: "fst db e = Some it" using dll_entry[of "fst db" "snd db" es e] by (auto simp: repr_def)
  then have "set_entry db e v = Inr ((fst db)(e \<mapsto> it\<lparr>payload := v\<rparr>), snd db)" by (simp add: set_entry_def)
  moreover have "repr ((fst db)(e \<mapsto> it\<lparr>payload := v\<rparr>), snd db) es"
    using r(1) it by (simp add: repr_def dll_def linked_payload)
  ultimately show "\<exists>db'. set_entry db e v = Inr db' \<and> repr db' es \<and> get_entry db' e = Inr v
      \<and> (\<forall>e' \<in> set es - {e}. get_entry db' e' = get_entry db e')"
    by (auto simp: get_entry_def deref_def)
qed

definition entries :: "'e database \<Rightarrow> nat list \<Rightarrow> 'e list" where
  "entries db es = map (\<lambda>e. payload (the (fst db e))) es"

lemma entries_get: "repr db es \<Longrightarrow> map (get_entry db) es = map Inr (entries db es)"
  using dll_entry[of "fst db" "snd db" es] by (fastforce simp: repr_def entries_def get_entry_def)

lemma get_entries: "map (get_entry db) es = map Inr vs \<Longrightarrow> entries db es = vs"
proof (induction es arbitrary: vs)
  case (Cons e es)
  then show ?case by (cases vs) (auto simp: entries_def get_entry_def deref_def split: option.splits)
qed (simp add: entries_def)

text \<open>
  C7: unlinking an entry from the middle, the head or the tail leaves a well-formed
  list of the other entries in their order, with their payloads, and frees the
  entry; nothing else in the heap changes that was not linked.
\<close>

theorem SLPDatabaseRemove_refines:
  assumes "repr db (es @ e # fs)"
  shows "\<exists>db'. SLPDatabaseRemove db e = Inr db' \<and> repr db' (es @ fs)
    \<and> entries db' (es @ fs) = entries db (es @ fs) \<and> fst db' e = None
    \<and> SLPDatabaseCount db' = SLPDatabaseCount db - 1"
proof -
  obtain db' where db': "SLPDatabaseRemove db e = Inr db'" "repr db' (es @ fs)" "fst db' e = None"
    "\<forall>e' \<in> set (es @ fs). get_entry db' e' = get_entry db e'"
    using Remove_repr[OF assms] by blast
  have "repr db (es @ e # fs)" by fact
  then have ok: "map (get_entry db) (es @ e # fs) = map Inr (entries db (es @ e # fs))" by (rule entries_get)
  then have "map (get_entry db) (es @ fs) = map Inr (entries db (es @ fs))" by (simp add: entries_def)
  moreover have "map (get_entry db') (es @ fs) = map (get_entry db) (es @ fs)" using db'(4) by simp
  ultimately have "entries db' (es @ fs) = entries db (es @ fs)" using get_entries by metis
  with db' assms show ?thesis
    by (auto simp: SLPDatabaseCount_def repr_def dll_def)
qed

text \<open>A database of three entries.\<close>

definition sample_db :: "nat database" where
  "sample_db =
     ([1 \<mapsto> \<lparr>previous = None, succ = Some 2, payload = 10\<rparr>,
       2 \<mapsto> \<lparr>previous = Some 1, succ = Some 3, payload = 20\<rparr>,
       3 \<mapsto> \<lparr>previous = Some 2, succ = None, payload = 30\<rparr>],
      \<lparr>head = Some 1, tail = Some 3, lcount = 3\<rparr>)"

lemma sample_db_repr: "repr sample_db [1, 2, 3]"
  by (simp add: repr_def dll_def sample_db_def)

theorem SLPDatabaseRemove_refines_witness:
  "\<exists>db'. SLPDatabaseRemove sample_db 2 = Inr db' \<and> repr db' ([1] @ [3])
    \<and> entries db' ([1] @ [3]) = entries sample_db ([1] @ [3]) \<and> fst db' 2 = None
    \<and> SLPDatabaseCount db' = SLPDatabaseCount sample_db - 1"
  using SLPDatabaseRemove_refines[of sample_db "[1]" 2 "[3]"] sample_db_repr by simp

text \<open>
  C6: an enumeration that changes, keeps and removes entries while it runs
  follows no pointer of a freed entry, and what it leaves in the database and in
  the state of its body is what the loop over the list of entries gives.
\<close>

theorem scan_refines:
  assumes "repr db es"
  shows "\<exists>db' es'. scan_with SLPDatabaseEnum get_entry set_entry SLPDatabaseRemove f db (SLPDatabaseOpen db) s
      = Some (Inr (db', snd (scan_list f (entries db es) s)))
    \<and> repr db' es' \<and> entries db' es' = fst (scan_list f (entries db es) s)"
proof -
  have "repr db ([] @ es)" using assms by simp
  from slpdb.scan_ok[OF this entries_get[OF assms], of f s] slpdb.opn[OF assms] show ?thesis
    using get_entries by fastforce
qed

theorem scan_refines_witness:
  "\<exists>db' es'. scan_with SLPDatabaseEnum get_entry set_entry SLPDatabaseRemove
        (\<lambda>v s. (if v = 20 then Drop else Keep (v + 1), s + v)) sample_db (SLPDatabaseOpen sample_db) 0
      = Some (Inr (db', 60)) \<and> repr db' es' \<and> entries db' es' = [11, 31]"
  using scan_refines[OF sample_db_repr, of "\<lambda>v s. (if v = 20 then Drop else Keep (v + 1), s + v)" 0]
  by (simp add: entries_def sample_db_def)

lemma Add_repr:
  assumes "repr db es" "e \<notin> set es" "fst db e = Some it"
  shows "\<exists>db'. SLPDatabaseAdd db e = Inr db' \<and> repr db' (es @ [e])
    \<and> entries db' (es @ [e]) = entries db es @ [payload it]"
proof -
  obtain h' l' where a: "SLPListLinkTail (fst db) (snd db) e = Inr (h', l')" "dll h' l' (es @ [e])"
    "\<forall>y. map_option payload (h' y) = map_option payload (fst db y)"
    using LinkTail_dll[of "fst db" "snd db" es e it] assms by (auto simp: repr_def)
  have "payload (the (h' y)) = payload (the (fst db y))" if y: "y \<in> set (es @ [e])" for y
  proof -
    obtain it2 where "fst db y = Some it2" using y assms dll_entry[of "fst db" "snd db" es y] by (auto simp: repr_def)
    with a(3)[rule_format, of y] show ?thesis by auto
  qed
  then have "entries (h', l') (es @ [e]) = entries db (es @ [e])" by (simp add: entries_def)
  with a assms(3) show ?thesis by (simp add: SLPDatabaseAdd_def repr_def entries_def)
qed

text \<open>
  Creating an entry at an unused address and adding it appends it to the
  entries of the database.
\<close>

theorem SLPDatabaseAdd_refines:
  assumes "repr db es" "fst db p = None"
  shows "\<exists>db1 db'. SLPDatabaseEntryCreate (Some p) junk v db = (Some p, db1) \<and> SLPDatabaseAdd db1 p = Inr db'
    \<and> repr db' (es @ [p]) \<and> entries db' (es @ [p]) = entries db es @ [v]
    \<and> SLPDatabaseCount db' = SLPDatabaseCount db + 1"
proof -
  let ?it = "\<lparr>previous = fst junk, succ = snd junk, payload = v\<rparr>"
  let ?db1 = "((fst db)(p \<mapsto> ?it), snd db)"
  have p: "p \<notin> set es" using assms dll_entry[of "fst db" "snd db" es p] by (auto simp: repr_def)
  have r1: "repr ?db1 es" using assms(1) p by (simp add: repr_def dll_def linked_other)
  have e1: "entries ?db1 es = entries db es" using p by (auto simp: entries_def)
  obtain db' where a: "SLPDatabaseAdd ?db1 p = Inr db'" "repr db' (es @ [p])" "entries db' (es @ [p]) = entries db es @ [v]"
    using Add_repr[OF r1 p, of ?it] e1 by auto
  have "SLPDatabaseCount db' = SLPDatabaseCount db + 1"
    using a(2) assms(1) by (simp add: SLPDatabaseCount_def repr_def dll_def)
  with a show ?thesis by (cases db') (simp add: SLPDatabaseEntryCreate_def)
qed

theorem SLPDatabaseAdd_refines_witness:
  "\<exists>db1 db'. SLPDatabaseEntryCreate (Some 9) (Some 5, Some 5) 40 sample_db = (Some 9, db1) \<and> SLPDatabaseAdd db1 9 = Inr db'
    \<and> repr db' ([1, 2, 3] @ [9]) \<and> entries db' ([1, 2, 3] @ [9]) = entries sample_db [1, 2, 3] @ [40]
    \<and> SLPDatabaseCount db' = SLPDatabaseCount sample_db + 1"
  by (rule SLPDatabaseAdd_refines[OF sample_db_repr]) (simp add: sample_db_def)

text \<open>
  Deinitialising a database ends, frees every entry and leaves the empty list.
\<close>

theorem SLPDatabaseDeinit_frees:
  assumes "repr db es"
  shows "\<exists>h. SLPDatabaseDeinit db = Some (Inr (h, empty_list)) \<and> (\<forall>e \<in> set es. h e = None)
    \<and> (\<forall>e. e \<notin> set es \<longrightarrow> h e = fst db e)"
  using assms
proof (induction es arbitrary: db)
  case Nil
  then show ?case by (auto simp: SLPDatabaseDeinit_def deinit_loop.simps[of db] repr_def dll_def)
next
  case (Cons e es)
  obtain db1 where r: "SLPDatabaseRemove db e = Inr db1" "repr db1 es" "fst db1 e = None"
    "\<forall>e'. e' \<notin> set (e # es) \<longrightarrow> fst db1 e' = fst db e'"
    using Remove_repr[of db "[]" e es] Cons.prems by auto
  have nz: "lcount (snd db) \<noteq> 0" "head (snd db) = Some e" "e \<notin> set es" using Cons.prems by (auto simp: repr_def dll_def)
  obtain h where "SLPDatabaseDeinit db1 = Some (Inr (h, empty_list))" "\<forall>e \<in> set es. h e = None"
    "\<forall>e. e \<notin> set es \<longrightarrow> h e = fst db1 e"
    using Cons.IH[OF r(2)] by blast
  with r nz show ?case by (auto simp: SLPDatabaseDeinit_def deinit_loop.simps[of db])
qed

theorem SLPDatabaseDeinit_frees_witness:
  "\<exists>h. SLPDatabaseDeinit sample_db = Some (Inr (h, empty_list)) \<and> (\<forall>e \<in> set [1, 2, 3]. h e = None)
    \<and> (\<forall>e. e \<notin> set [1, 2, 3] \<longrightarrow> h e = fst sample_db e)"
  by (rule SLPDatabaseDeinit_frees[OF sample_db_repr])

end
