(* ===== verification/SLPD_Index.thy ===== *)
theory SLPD_Index
  imports SLP_Prelude "HOL-Library.Char_ord" "HOL-Library.List_Lexorder" "HOL-Library.Sublist"
begin

text \<open>
  The index trees of the daemon, \<open>slpd/slpd_index.c\<close>: height-balanced search
  trees from strings to the set of locations (database entries) that have the
  string.  A node is a value; its parent pointer, which the code uses to walk
  up from a leaf, is the recursion here.  The depths are the fields of the
  node, not the heights of its subtrees, so that a depth that is not brought
  up to date is visible.  \<open>ok\<close> tells whether the allocator has memory.
\<close>

section \<open>Comparison\<close>

definition compare_string :: "string \<Rightarrow> string \<Rightarrow> int" where
  "compare_string str1 str2 =
     (let len = min (length str1) (length str2); result = c_memcmp len str1 str2 in
      if result \<noteq> 0 then result else int (length str1) - int (length str2))"

definition compare_string_leading :: "string \<Rightarrow> string \<Rightarrow> int" where
  "compare_string_leading str1 str2 =
     (let len = min (length str1) (length str2);
          result = compare_string (take len str1) (take len str2)
      in if result = 0 then int (length str1) - int len else result)"

section \<open>Trees\<close>

datatype 'p IndexTree =
    Null
  | Node (left_node: "'p IndexTree") (left_depth: int) (value_str: string) (vals: "'p list")
      (right_node: "'p IndexTree") (right_depth: int)

definition create_index_tree_node :: "bool \<Rightarrow> string \<Rightarrow> 'p \<Rightarrow> 'p IndexTree" where
  "create_index_tree_node ok str p = (if ok then Node Null 0 str [p] Null 0 else Null)"

text \<open>On failure the old list stays as it is, and the caller does not notice.\<close>

definition index_value_insert :: "bool \<Rightarrow> 'p list \<Rightarrow> 'p \<Rightarrow> 'p list" where
  "index_value_insert ok vs p = (if ok then p # vs else vs)"

fun tree_depth :: "'p IndexTree \<Rightarrow> int" where
  "tree_depth Null = 0"
| "tree_depth (Node l ld k vs r rd) = 1 + max ld rd"

text \<open>The pivot of a rotation is dereferenced whatever it is.\<close>

definition rotate_right :: "'p IndexTree \<Rightarrow> 'p IndexTree res" where
  "rotate_right root =
     (case root of
        Node (Node ll lld lk lvs lr lrd) ld k vs r rd \<Rightarrow>
          (if tree_depth lr > tree_depth ll then
             (case lr of
                Node a ad mk mvs c cd \<Rightarrow>
                  (let pivot = Node ll lld lk lvs a ad; root' = Node c cd k vs r rd
                   in Inr (Node pivot (tree_depth pivot) mk mvs root' (tree_depth root')))
              | Null \<Rightarrow> Inl OutOfBounds)
           else
             (let root' = Node lr lrd k vs r rd in Inr (Node ll lld lk lvs root' (tree_depth root'))))
      | _ \<Rightarrow> Inl OutOfBounds)"

definition rotate_left :: "'p IndexTree \<Rightarrow> 'p IndexTree res" where
  "rotate_left root =
     (case root of
        Node l ld k vs (Node rl rld rk rvs rr rrd) rd \<Rightarrow>
          (if tree_depth rl > tree_depth rr then
             (case rl of
                Node a ad mk mvs c cd \<Rightarrow>
                  (let pivot = Node c cd rk rvs rr rrd; root' = Node l ld k vs a ad
                   in Inr (Node root' (tree_depth root') mk mvs pivot (tree_depth pivot)))
              | Null \<Rightarrow> Inl OutOfBounds)
           else
             (let root' = Node l ld k vs rl rld in Inr (Node root' (tree_depth root') rk rvs rr rrd)))
      | _ \<Rightarrow> Inl OutOfBounds)"

definition rebalance_tree :: "'p IndexTree \<Rightarrow> 'p IndexTree res" where
  "rebalance_tree root =
     (case root of
        Null \<Rightarrow> Inl OutOfBounds
      | Node l ld k vs r rd \<Rightarrow>
          (if ld - rd = 2 then rotate_right root
           else if rd - ld = 2 then rotate_left root
           else Inr root))"

text \<open>A null result is the error return.\<close>

fun index_tree_insert :: "bool \<Rightarrow> 'p IndexTree \<Rightarrow> string \<Rightarrow> 'p \<Rightarrow> 'p IndexTree res" where
  "index_tree_insert ok Null str p = Inl OutOfBounds"
| "index_tree_insert ok (Node l ld k vs r rd) str p =
     (let cmp = compare_string str k in
      if cmp < 0 then
        bindR (if l = Null then Inr (create_index_tree_node ok str p) else index_tree_insert ok l str p)
          (\<lambda>l'. if l' = Null then Inr Null else rebalance_tree (Node l' (if l = Null then 1 else tree_depth l') k vs r rd))
      else if cmp > 0 then
        bindR (if r = Null then Inr (create_index_tree_node ok str p) else index_tree_insert ok r str p)
          (\<lambda>r'. if r' = Null then Inr Null else rebalance_tree (Node l ld k vs r' (if r = Null then 1 else tree_depth r')))
      else rebalance_tree (Node l ld k (index_value_insert ok vs p) r rd))"

definition add_to_index :: "bool \<Rightarrow> 'p IndexTree \<Rightarrow> string \<Rightarrow> 'p \<Rightarrow> 'p IndexTree res" where
  "add_to_index ok root str p =
     (if root \<noteq> Null then index_tree_insert ok root str p else Inr (create_index_tree_node ok str p))"

fun find_in_index :: "'p IndexTree \<Rightarrow> string \<Rightarrow> 'p list" where
  "find_in_index Null str = []"
| "find_in_index (Node l ld k vs r rd) str =
     (let cmp = compare_string str k in
      if cmp < 0 then find_in_index l str
      else if cmp > 0 then find_in_index r str
      else vs)"

text \<open>
  The new subtree and the extracted node.  The parent of the extracted node
  gets the depth of its new child; the nodes above it get the rebalanced child,
  but keep the depth they had.
\<close>

fun extract_leftmost :: "'p IndexTree \<Rightarrow> ('p IndexTree \<times> 'p IndexTree) res" where
  "extract_leftmost Null = Inl OutOfBounds"
| "extract_leftmost (Node Null ld k vs r rd) = Inr (r, Node Null ld k vs r rd)"
| "extract_leftmost (Node (Node ll lld lk lvs lr lrd) ld k vs r rd) =
     bindR (extract_leftmost (Node ll lld lk lvs lr lrd)) (\<lambda>(l', leftmost).
       bindR (rebalance_tree (Node l' (if ll = Null then tree_depth l' else ld) k vs r rd)) (\<lambda>t.
       Inr (t, leftmost)))"

fun extract_rightmost :: "'p IndexTree \<Rightarrow> ('p IndexTree \<times> 'p IndexTree) res" where
  "extract_rightmost Null = Inl OutOfBounds"
| "extract_rightmost (Node l ld k vs Null rd) = Inr (l, Node l ld k vs Null rd)"
| "extract_rightmost (Node l ld k vs (Node rl rld rk rvs rr rrd) rd) =
     bindR (extract_rightmost (Node rl rld rk rvs rr rrd)) (\<lambda>(r', rightmost).
       bindR (rebalance_tree (Node l ld k vs r' (if rr = Null then tree_depth r' else rd))) (\<lambda>t.
       Inr (t, rightmost)))"

definition replace_node :: "'p IndexTree \<Rightarrow> 'p IndexTree \<Rightarrow> int \<Rightarrow> 'p IndexTree \<Rightarrow> int \<Rightarrow> 'p IndexTree res" where
  "replace_node replacement l ld r rd =
     (case replacement of
        Null \<Rightarrow> Inl OutOfBounds
      | Node _ _ k vs _ _ \<Rightarrow> rebalance_tree (Node l ld k vs r rd))"

fun index_tree_delete :: "'p IndexTree \<Rightarrow> string \<Rightarrow> 'p \<Rightarrow> 'p IndexTree res" where
  "index_tree_delete Null str p = Inr Null"
| "index_tree_delete (Node l ld k vs r rd) str p =
     (let cmp = compare_string str k in
      if cmp < 0 then
        bindR (index_tree_delete l str p) (\<lambda>l'. rebalance_tree (Node l' (tree_depth l') k vs r rd))
      else if cmp > 0 then
        bindR (index_tree_delete r str p) (\<lambda>r'. rebalance_tree (Node l ld k vs r' (tree_depth r')))
      else if p \<notin> set vs then Inr (Node l ld k vs r rd)
      else
        (let vs' = remove1 p vs in
         if vs' \<noteq> [] then Inr (Node l ld k vs' r rd)
         else if ld > rd then
           bindR (extract_rightmost l) (\<lambda>(l', m). replace_node m l' (tree_depth l') r rd)
         else if r \<noteq> Null then
           bindR (extract_leftmost r) (\<lambda>(r', m). replace_node m l ld r' (tree_depth r'))
         else Inr Null))"

text \<open>The callbacks: \<open>f\<close> changes the cookie; the result is the number of calls and the cookie.\<close>

fun value_set_call :: "'p list \<Rightarrow> ('p \<Rightarrow> 's \<Rightarrow> 's) \<Rightarrow> 's \<Rightarrow> nat \<times> 's" where
  "value_set_call [] f s = (0, s)"
| "value_set_call (p # vs) f s = (let (n, s') = value_set_call vs f (f p s) in (n + 1, s'))"

fun find_and_call :: "'p IndexTree \<Rightarrow> string \<Rightarrow> ('p \<Rightarrow> 's \<Rightarrow> 's) \<Rightarrow> 's \<Rightarrow> nat \<times> 's" where
  "find_and_call Null str f s = (0, s)"
| "find_and_call (Node l ld k vs r rd) str f s =
     (let cmp = compare_string str k in
      if cmp < 0 then find_and_call l str f s
      else if cmp = 0 then value_set_call vs f s
      else find_and_call r str f s)"

fun find_leading_and_call :: "'p IndexTree \<Rightarrow> string \<Rightarrow> ('p \<Rightarrow> 's \<Rightarrow> 's) \<Rightarrow> 's \<Rightarrow> nat \<times> 's" where
  "find_leading_and_call Null str f s = (0, s)"
| "find_leading_and_call (Node l ld k vs r rd) str f s =
     (let cmp = compare_string_leading str k;
          (n1, s) = (if cmp \<le> 0 then find_leading_and_call l str f s else (0, s));
          (n2, s) = (if cmp = 0 then value_set_call vs f s else (0, s));
          (n3, s) = (if cmp \<ge> 0 then find_leading_and_call r str f s else (0, s))
      in (n1 + n2 + n3, s))"

section \<open>Comparison is the lexicographic order\<close>

lemma uchar_less_iff: "uchar a < uchar b \<longleftrightarrow> a < b"
  by (simp add: less_char_def uchar_def)

lemma compare_string_Cons:
  "compare_string (a # s) (b # t) = (if a = b then compare_string s t else int (uchar a) - int (uchar b))"
proof -
  have "a \<noteq> b \<Longrightarrow> int (uchar a) - int (uchar b) \<noteq> 0" by simp
  then show ?thesis by (simp add: compare_string_def Let_def)
qed

lemma compare_string_Nil: "compare_string [] t = - int (length t)" "compare_string s [] = int (length s)"
  by (simp_all add: compare_string_def)

lemma compare_string_less: "compare_string s t < 0 \<longleftrightarrow> s < t"
proof (induction s arbitrary: t)
  case Nil
  then show ?case by (cases t) (simp_all add: compare_string_Nil)
next
  case (Cons a s)
  show ?case
  proof (cases t)
    case (Cons b u)
    have "int (uchar a) - int (uchar b) < 0 \<longleftrightarrow> a < b" using uchar_less_iff[of a b] by linarith
    with Cons.IH[of u] Cons show ?thesis by (auto simp: compare_string_Cons)
  qed (simp add: compare_string_Nil)
qed

lemma compare_string_greater: "compare_string s t > 0 \<longleftrightarrow> t < s"
proof (induction s arbitrary: t)
  case Nil
  then show ?case by (simp add: compare_string_Nil)
next
  case (Cons a s)
  show ?case
  proof (cases t)
    case (Cons b u)
    have "int (uchar a) - int (uchar b) > 0 \<longleftrightarrow> b < a" using uchar_less_iff[of b a] by linarith
    with Cons.IH[of u] Cons show ?thesis by (auto simp: compare_string_Cons)
  qed (simp add: compare_string_Nil)
qed

lemma compare_string_0: "compare_string s t = 0 \<longleftrightarrow> s = t"
  using compare_string_less[of s t] compare_string_greater[of s t] by force

lemmas compare_iffs = compare_string_less compare_string_greater compare_string_0

section \<open>What a tree holds\<close>

fun toc :: "'p IndexTree \<Rightarrow> (string \<times> 'p list) list" where
  "toc Null = []"
| "toc (Node l ld k vs r rd) = toc l @ (k, vs) # toc r"

text \<open>A depth field is zero exactly for an absent subtree; no value set is empty.\<close>

fun sane :: "'p IndexTree \<Rightarrow> bool" where
  "sane Null = True"
| "sane (Node l ld k vs r rd) \<longleftrightarrow>
     0 \<le> ld \<and> 0 \<le> rd \<and> (l = Null \<longleftrightarrow> ld = 0) \<and> (r = Null \<longleftrightarrow> rd = 0) \<and> vs \<noteq> [] \<and> sane l \<and> sane r"

definition index_ok :: "'p IndexTree \<Rightarrow> bool" where
  "index_ok t \<longleftrightarrow> sane t \<and> sorted_wrt (<) (map fst (toc t))"

lemma tree_depth_sane: "sane t \<Longrightarrow> 0 \<le> tree_depth t \<and> (tree_depth t = 0 \<longleftrightarrow> t = Null)"
  by (cases t) auto

lemma rotate_right_ok:
  assumes "sane (Node l ld k vs r rd)" "l \<noteq> Null"
  shows "\<exists>t. rotate_right (Node l ld k vs r rd) = Inr t \<and> toc t = toc l @ (k, vs) # toc r \<and> sane t \<and> t \<noteq> Null"
proof -
  obtain ll lld lk lvs lr lrd where l: "l = Node ll lld lk lvs lr lrd" using assms(2) by (cases l) auto
  show ?thesis
  proof (cases "tree_depth lr > tree_depth ll")
    case True
    then have "lr \<noteq> Null" using assms(1) l tree_depth_sane[of ll] by auto
    then obtain a ad mk mvs c cd where "lr = Node a ad mk mvs c cd" by (cases lr) auto
    with True l assms(1) show ?thesis by (auto simp: rotate_right_def Let_def)
  next
    case False
    with l assms(1) show ?thesis by (auto simp: rotate_right_def Let_def)
  qed
qed

lemma rotate_left_ok:
  assumes "sane (Node l ld k vs r rd)" "r \<noteq> Null"
  shows "\<exists>t. rotate_left (Node l ld k vs r rd) = Inr t \<and> toc t = toc l @ (k, vs) # toc r \<and> sane t \<and> t \<noteq> Null"
proof -
  obtain rl rld rk rvs rr rrd where r: "r = Node rl rld rk rvs rr rrd" using assms(2) by (cases r) auto
  show ?thesis
  proof (cases "tree_depth rl > tree_depth rr")
    case True
    then have "rl \<noteq> Null" using assms(1) r tree_depth_sane[of rr] by auto
    then obtain a ad mk mvs c cd where "rl = Node a ad mk mvs c cd" by (cases rl) auto
    with True r assms(1) show ?thesis by (auto simp: rotate_left_def Let_def)
  next
    case False
    with r assms(1) show ?thesis by (auto simp: rotate_left_def Let_def)
  qed
qed

lemma rebalance_ok:
  assumes "sane (Node l ld k vs r rd)"
  obtains t where "rebalance_tree (Node l ld k vs r rd) = Inr t" "toc t = toc l @ (k, vs) # toc r" "sane t" "t \<noteq> Null"
proof -
  consider "ld - rd = 2" | "rd - ld = 2" | "ld - rd \<noteq> 2" "rd - ld \<noteq> 2" by blast
  then have "\<exists>t. rebalance_tree (Node l ld k vs r rd) = Inr t \<and> toc t = toc l @ (k, vs) # toc r \<and> sane t \<and> t \<noteq> Null"
  proof cases
    case 1
    then have "l \<noteq> Null" using assms by auto
    from rotate_right_ok[OF assms this] 1 show ?thesis by (simp add: rebalance_tree_def)
  next
    case 2
    then have "r \<noteq> Null" using assms by auto
    from rotate_left_ok[OF assms this] 2 show ?thesis by (simp add: rebalance_tree_def)
  next
    case 3
    with assms show ?thesis by (auto simp: rebalance_tree_def)
  qed
  with that show ?thesis by blast
qed

section \<open>Sorted tables\<close>

fun add_list :: "string \<Rightarrow> 'p \<Rightarrow> (string \<times> 'p list) list \<Rightarrow> (string \<times> 'p list) list" where
  "add_list k p [] = [(k, [p])]"
| "add_list k p ((k', vs) # al) =
     (if k < k' then (k, [p]) # (k', vs) # al
      else if k = k' then (k', p # vs) # al
      else (k', vs) # add_list k p al)"

fun del_list :: "string \<Rightarrow> 'p \<Rightarrow> (string \<times> 'p list) list \<Rightarrow> (string \<times> 'p list) list" where
  "del_list k p [] = []"
| "del_list k p ((k', vs) # al) =
     (if k = k' then (if remove1 p vs = [] then al else (k', remove1 p vs) # al)
      else (k', vs) # del_list k p al)"

definition find_list :: "(string \<times> 'p list) list \<Rightarrow> string \<Rightarrow> 'p list" where
  "find_list al k = (case map_of al k of None \<Rightarrow> [] | Some vs \<Rightarrow> vs)"

abbreviation keys_sorted :: "(string \<times> 'p list) list \<Rightarrow> bool" where
  "keys_sorted al \<equiv> sorted_wrt (<) (map fst al)"

lemma add_list_left:
  "keys_sorted (al @ (k', vs) # bl) \<Longrightarrow> k < k' \<Longrightarrow> add_list k p (al @ (k', vs) # bl) = add_list k p al @ (k', vs) # bl"
  by (induction al) (auto split: if_splits)

lemma add_list_right:
  "keys_sorted (al @ (k', vs) # bl) \<Longrightarrow> k' < k \<Longrightarrow> add_list k p (al @ (k', vs) # bl) = al @ (k', vs) # add_list k p bl"
  by (induction al) (auto dest: order.strict_trans)

lemma add_list_here:
  "keys_sorted (al @ (k, vs) # bl) \<Longrightarrow> add_list k p (al @ (k, vs) # bl) = al @ (k, p # vs) # bl"
  by (induction al) auto

lemma del_list_left:
  "keys_sorted (al @ (k', vs) # bl) \<Longrightarrow> k < k' \<Longrightarrow> del_list k p (al @ (k', vs) # bl) = del_list k p al @ (k', vs) # bl"
proof (induction al)
  case Nil
  then have "del_list k p bl = bl" by (induction bl) (auto dest: order.strict_trans)
  with Nil show ?case by auto
qed auto

lemma del_list_right:
  "keys_sorted (al @ (k', vs) # bl) \<Longrightarrow> k' < k \<Longrightarrow> del_list k p (al @ (k', vs) # bl) = al @ (k', vs) # del_list k p bl"
  by (induction al) (auto dest: order.strict_trans)

lemma del_list_here:
  "keys_sorted (al @ (k, vs) # bl) \<Longrightarrow>
     del_list k p (al @ (k, vs) # bl) = al @ (if remove1 p vs = [] then bl else (k, remove1 p vs) # bl)"
  by (induction al) auto

lemma set_keys_add: "set (map fst (add_list k p al)) = insert k (set (map fst al))"
  by (induction k p al rule: add_list.induct) (simp_all add: insert_commute)

lemma set_keys_del: "x \<in> set (map fst (del_list k p al)) \<Longrightarrow> x \<in> set (map fst al)"
  by (induction k p al rule: del_list.induct) (auto simp del: set_map simp: set_map[symmetric] split: if_splits)

lemma keys_sorted_add: "keys_sorted al \<Longrightarrow> keys_sorted (add_list k p al)"
proof (induction al)
  case (Cons a al)
  obtain k' vs where a: "a = (k', vs)" by fastforce
  show ?case
  proof (cases "k < k' \<or> k = k'")
    case True
    with Cons a show ?thesis by (auto dest: order.strict_trans)
  next
    case False
    then have "k' < k" by auto
    with Cons a False set_keys_add[of k p al] show ?thesis by auto
  qed
qed simp

lemma keys_sorted_del: "keys_sorted al \<Longrightarrow> keys_sorted (del_list k p al)"
proof (induction al)
  case (Cons a al)
  then show ?case using set_keys_del[of _ k p al] by (cases a) (fastforce simp del: set_map)
qed simp

lemma find_add_list:
  "keys_sorted al \<Longrightarrow> find_list (add_list k p al) k' = (if k' = k then p # find_list al k else find_list al k')"
proof (induction al)
  case (Cons a al)
  obtain k1 vs where a: "a = (k1, vs)" by fastforce
  have "map_of al k = None" if "k < k1"
  proof -
    have "k \<notin> set (map fst al)" using Cons.prems a that by auto
    then show ?thesis by (simp add: map_of_eq_None_iff)
  qed
  with Cons a show ?case by (auto simp: find_list_def)
qed (simp add: find_list_def)

lemma find_del_list:
  "keys_sorted al \<Longrightarrow> find_list (del_list k p al) k' = (if k' = k then remove1 p (find_list al k) else find_list al k')"
proof (induction al)
  case (Cons a al)
  obtain k1 vs where a: "a = (k1, vs)" by fastforce
  have "map_of al k = None" if "k = k1"
  proof -
    have "k \<notin> set (map fst al)" using Cons.prems a that by auto
    then show ?thesis by (simp add: map_of_eq_None_iff)
  qed
  with Cons a show ?case by (auto simp: find_list_def)
qed (simp add: find_list_def)

section \<open>The operations on trees\<close>

lemma insert_toc:
  assumes "sane t" "keys_sorted (toc t)" "t \<noteq> Null"
  shows "\<exists>t'. index_tree_insert True t k p = Inr t' \<and> toc t' = add_list k p (toc t) \<and> sane t' \<and> t' \<noteq> Null"
  using assms
proof (induction t)
  case (Node l ld kn vs r rd)
  have srt: "keys_sorted (toc l)" "keys_sorted (toc r)" using Node.prems(2) by (auto simp: sorted_wrt_append)
  consider "k < kn" | "kn < k" | "k = kn" by force
  then show ?case
  proof cases
    case 1
    obtain l' where l': "(if l = Null then Inr (create_index_tree_node True k p) else index_tree_insert True l k p) = Inr l'"
      "toc l' = add_list k p (toc l)" "sane l'" "l' \<noteq> Null" "l = Null \<Longrightarrow> tree_depth l' = 1"
      using Node.IH(1) Node.prems(1) srt(1) by (cases "l = Null") (auto simp: create_index_tree_node_def)
    have "sane (Node l' (if l = Null then 1 else tree_depth l') kn vs r rd)"
      using Node.prems(1) l' tree_depth_sane[of l'] by auto
    then obtain t where "rebalance_tree (Node l' (if l = Null then 1 else tree_depth l') kn vs r rd) = Inr t"
      "toc t = toc l' @ (kn, vs) # toc r" "sane t" "t \<noteq> Null" by (rule rebalance_ok)
    with 1 l' Node.prems(2) show ?thesis by (auto simp: Let_def compare_iffs add_list_left)
  next
    case 2
    obtain r' where r': "(if r = Null then Inr (create_index_tree_node True k p) else index_tree_insert True r k p) = Inr r'"
      "toc r' = add_list k p (toc r)" "sane r'" "r' \<noteq> Null" "r = Null \<Longrightarrow> tree_depth r' = 1"
      using Node.IH(2) Node.prems(1) srt(2) by (cases "r = Null") (auto simp: create_index_tree_node_def)
    have "sane (Node l ld kn vs r' (if r = Null then 1 else tree_depth r'))"
      using Node.prems(1) r' tree_depth_sane[of r'] by auto
    then obtain t where "rebalance_tree (Node l ld kn vs r' (if r = Null then 1 else tree_depth r')) = Inr t"
      "toc t = toc l @ (kn, vs) # toc r'" "sane t" "t \<noteq> Null" by (rule rebalance_ok)
    moreover have "\<not> k < kn" using 2 by auto
    ultimately show ?thesis using 2 r' Node.prems(2) by (auto simp: Let_def compare_iffs add_list_right)
  next
    case 3
    have "sane (Node l ld kn (p # vs) r rd)" using Node.prems(1) by simp
    then obtain t where "rebalance_tree (Node l ld kn (p # vs) r rd) = Inr t"
      "toc t = toc l @ (kn, p # vs) # toc r" "sane t" "t \<noteq> Null" by (rule rebalance_ok)
    with 3 Node.prems(2) show ?thesis
      by (auto simp: Let_def compare_iffs add_list_here index_value_insert_def)
  qed
qed simp

lemma add_to_index_key:
  assumes "index_ok t"
  shows "\<exists>t'. add_to_index True t k p = Inr t' \<and> toc t' = add_list k p (toc t) \<and> index_ok t'"
  using assms insert_toc[of t k p] keys_sorted_add[of "toc t" k p]
  by (cases "t = Null") (auto simp: index_ok_def add_to_index_def create_index_tree_node_def)

lemma extract_leftmost_ok:
  assumes "sane t" "t \<noteq> Null"
  shows "\<exists>t' l ld k vs r rd. extract_leftmost t = Inr (t', Node l ld k vs r rd) \<and> toc t = (k, vs) # toc t' \<and> sane t'
    \<and> vs \<noteq> [] \<and> (t' = Null \<longrightarrow> left_node t = Null)"
  using assms
proof (induction t rule: extract_leftmost.induct)
  case (3 ll lld lk lvs lr lrd ld k vs r rd)
  let ?l = "Node ll lld lk lvs lr lrd"
  obtain l' ml mld mk mvs mr mrd where e: "extract_leftmost ?l = Inr (l', Node ml mld mk mvs mr mrd)"
    "toc ?l = (mk, mvs) # toc l'" "sane l'" "mvs \<noteq> []" "l' = Null \<longrightarrow> ll = Null"
    using "3.IH" "3.prems" by auto
  have "sane (Node l' (if ll = Null then tree_depth l' else ld) k vs r rd)"
    using "3.prems"(1) e(3,5) tree_depth_sane[OF e(3)] by auto
  then obtain t where "rebalance_tree (Node l' (if ll = Null then tree_depth l' else ld) k vs r rd) = Inr t"
    "toc t = toc l' @ (k, vs) # toc r" "sane t" "t \<noteq> Null" by (rule rebalance_ok)
  with e show ?case by auto
qed auto

lemma extract_rightmost_ok:
  assumes "sane t" "t \<noteq> Null"
  shows "\<exists>t' l ld k vs r rd. extract_rightmost t = Inr (t', Node l ld k vs r rd) \<and> toc t = toc t' @ [(k, vs)] \<and> sane t'
    \<and> vs \<noteq> [] \<and> (t' = Null \<longrightarrow> right_node t = Null)"
  using assms
proof (induction t rule: extract_rightmost.induct)
  case (3 l ld k vs rl rld rk rvs rr rrd rd)
  let ?r = "Node rl rld rk rvs rr rrd"
  obtain r' ml mld mk mvs mr mrd where e: "extract_rightmost ?r = Inr (r', Node ml mld mk mvs mr mrd)"
    "toc ?r = toc r' @ [(mk, mvs)]" "sane r'" "mvs \<noteq> []" "r' = Null \<longrightarrow> rr = Null"
    using "3.IH" "3.prems" by auto
  have "sane (Node l ld k vs r' (if rr = Null then tree_depth r' else rd))"
    using "3.prems"(1) e(3,5) tree_depth_sane[OF e(3)] by auto
  then obtain t where "rebalance_tree (Node l ld k vs r' (if rr = Null then tree_depth r' else rd)) = Inr t"
    "toc t = toc l @ (k, vs) # toc r'" "sane t" "t \<noteq> Null" by (rule rebalance_ok)
  with e show ?case by auto
qed auto

lemma replace_node_ok:
  assumes "sane (Node l ld k vs r rd)"
  obtains t where "replace_node (Node ml mld k vs mr mrd) l ld r rd = Inr t" "toc t = toc l @ (k, vs) # toc r" "sane t"
  using rebalance_ok[OF assms] by (auto simp: replace_node_def)

lemma delete_toc:
  assumes "sane t" "keys_sorted (toc t)"
  shows "\<exists>t'. index_tree_delete t k p = Inr t' \<and> toc t' = del_list k p (toc t) \<and> sane t'"
  using assms
proof (induction t)
  case (Node l ld kn vs r rd)
  have srt: "keys_sorted (toc l)" "keys_sorted (toc r)" using Node.prems(2) by (auto simp: sorted_wrt_append)
  consider "k < kn" | "kn < k" | "k = kn" by force
  then show ?case
  proof cases
    case 1
    obtain l' where l': "index_tree_delete l k p = Inr l'" "toc l' = del_list k p (toc l)" "sane l'"
      using Node.IH(1) Node.prems(1) srt(1) by auto
    have "sane (Node l' (tree_depth l') kn vs r rd)" using Node.prems(1) l'(3) tree_depth_sane[OF l'(3)] by auto
    then obtain t where "rebalance_tree (Node l' (tree_depth l') kn vs r rd) = Inr t"
      "toc t = toc l' @ (kn, vs) # toc r" "sane t" by (rule rebalance_ok)
    with 1 l' Node.prems(2) show ?thesis by (auto simp: Let_def compare_iffs del_list_left)
  next
    case 2
    obtain r' where r': "index_tree_delete r k p = Inr r'" "toc r' = del_list k p (toc r)" "sane r'"
      using Node.IH(2) Node.prems(1) srt(2) by auto
    have "sane (Node l ld kn vs r' (tree_depth r'))" using Node.prems(1) r'(3) tree_depth_sane[OF r'(3)] by auto
    then obtain t where "rebalance_tree (Node l ld kn vs r' (tree_depth r')) = Inr t"
      "toc t = toc l @ (kn, vs) # toc r'" "sane t" by (rule rebalance_ok)
    moreover have "\<not> k < kn" using 2 by auto
    ultimately show ?thesis using 2 r' Node.prems(2) by (auto simp: Let_def compare_iffs del_list_right)
  next
    case 3
    note here = del_list_here[of "toc l" kn vs "toc r" p]
    have eq: "compare_string k kn = 0" using 3 by (simp add: compare_iffs)
    show ?thesis
    proof (cases "p \<in> set vs \<and> remove1 p vs = []")
      case False
      with 3 eq here Node.prems show ?thesis by (auto simp: Let_def remove1_idem)
    next
      case True
      show ?thesis
      proof (cases "ld > rd")
        case left: True
        then have "l \<noteq> Null" "sane l" using Node.prems(1) by auto
        then obtain l' ml mld mk mvs mr mrd where e: "extract_rightmost l = Inr (l', Node ml mld mk mvs mr mrd)"
          "toc l = toc l' @ [(mk, mvs)]" "sane l'" "mvs \<noteq> []"
          using extract_rightmost_ok[of l] by blast
        have "sane (Node l' (tree_depth l') mk mvs r rd)"
          using Node.prems(1) e(3,4) tree_depth_sane[OF e(3)] by auto
        then obtain t where "replace_node (Node ml mld mk mvs mr mrd) l' (tree_depth l') r rd = Inr t"
          "toc t = toc l' @ (mk, mvs) # toc r" "sane t" by (rule replace_node_ok)
        with True left 3 eq here e Node.prems show ?thesis by (auto simp: Let_def)
      next
        case right: False
        show ?thesis
        proof (cases "r = Null")
          case False
          then obtain r' ml mld mk mvs mr mrd where e: "extract_leftmost r = Inr (r', Node ml mld mk mvs mr mrd)"
            "toc r = (mk, mvs) # toc r'" "sane r'" "mvs \<noteq> []"
            using extract_leftmost_ok[of r] Node.prems(1) by auto
          have "sane (Node l ld mk mvs r' (tree_depth r'))"
            using Node.prems(1) e(3,4) tree_depth_sane[OF e(3)] by auto
          then obtain t where "replace_node (Node ml mld mk mvs mr mrd) l ld r' (tree_depth r') = Inr t"
            "toc t = toc l @ (mk, mvs) # toc r'" "sane t" by (rule replace_node_ok)
          with True right False 3 eq here e Node.prems show ?thesis by (auto simp: Let_def)
        next
          case leaf: True
          then have "l = Null" using right Node.prems(1) by auto
          with True right leaf 3 eq here Node.prems show ?thesis by (auto simp: Let_def)
        qed
      qed
    qed
  qed
qed simp

lemma index_tree_delete_key:
  assumes "index_ok t"
  shows "\<exists>t'. index_tree_delete t k p = Inr t' \<and> toc t' = del_list k p (toc t) \<and> index_ok t'"
  using delete_toc[of t k p] keys_sorted_del[of "toc t" k p] assms by (auto simp: index_ok_def)

lemma map_of_sorted_left:
  "keys_sorted (al @ (k', vs) # bl) \<Longrightarrow> k < k' \<Longrightarrow> map_of (al @ (k', vs) # bl) k = map_of al k"
proof -
  assume a: "keys_sorted (al @ (k', vs) # bl)" "k < k'"
  then have "k \<notin> set (map fst ((k', vs) # bl))" by (auto simp: sorted_wrt_append dest: order.strict_trans)
  then have "map_of ((k', vs) # bl) k = None" by (simp add: map_of_eq_None_iff)
  then show ?thesis by (auto simp: map_add_def split: option.splits if_splits)
qed

lemma map_of_sorted_right:
  "keys_sorted (al @ (k', vs) # bl) \<Longrightarrow> k' < k \<Longrightarrow> map_of (al @ (k', vs) # bl) k = map_of bl k"
proof -
  assume a: "keys_sorted (al @ (k', vs) # bl)" "k' < k"
  then have "k \<notin> set (map fst al)" by (auto simp: sorted_wrt_append dest: order.strict_trans)
  then have "map_of al k = None" by (simp add: map_of_eq_None_iff)
  with a(2) show ?thesis by (auto simp: map_add_def split: option.splits)
qed

lemma find_toc: "keys_sorted (toc t) \<Longrightarrow> find_in_index t k = find_list (toc t) k"
proof (induction t)
  case (Node l ld kn vs r rd)
  have srt: "keys_sorted (toc l)" "keys_sorted (toc r)" using Node.prems by (auto simp: sorted_wrt_append)
  consider "k < kn" | "kn < k" | "k = kn" by force
  then show ?case
  proof cases
    case 1
    with Node.IH(1) srt map_of_sorted_left[of "toc l" kn vs "toc r" k] Node.prems show ?thesis
      by (simp add: Let_def compare_iffs find_list_def)
  next
    case 2
    moreover have "\<not> k < kn" using 2 by auto
    ultimately show ?thesis
      using Node.IH(2) srt map_of_sorted_right[of "toc l" kn vs "toc r" k] Node.prems
      by (simp add: Let_def compare_iffs find_list_def)
  next
    case 3
    have "kn \<notin> set (map fst (toc l))" using Node.prems by (auto simp: sorted_wrt_append)
    then have "map_of (toc l) kn = None" by (simp add: map_of_eq_None_iff)
    with 3 show ?thesis by (simp add: Let_def compare_iffs find_list_def map_add_def)
  qed
qed (simp add: find_list_def)

lemma value_set_call_eq: "value_set_call vs f s = (length vs, fold f vs s)"
  by (induction vs arbitrary: s) auto

lemma find_and_call_eq: "find_and_call t k f s = (length (find_in_index t k), fold f (find_in_index t k) s)"
  by (induction t) (auto simp: Let_def value_set_call_eq)

section \<open>The contract of an index\<close>

text \<open>
  What the database relies on: from a good index, adding and deleting a location
  give a good index in which exactly the set of that string has changed, and a
  search calls back for exactly the locations of the string.
\<close>

locale value_index =
  fixes good :: "'t \<Rightarrow> bool" and add :: "'t \<Rightarrow> string \<Rightarrow> 'p \<Rightarrow> 't res" and delete :: "'t \<Rightarrow> string \<Rightarrow> 'p \<Rightarrow> 't res"
    and lookup :: "'t \<Rightarrow> string \<Rightarrow> 'p list" and empty :: 't
  assumes empty: "good empty" "lookup empty k = []"
    and add_ok: "good t \<Longrightarrow> \<exists>t'. add t k p = Inr t' \<and> good t'
          \<and> (\<forall>k'. lookup t' k' = (if k' = k then p # lookup t k else lookup t k'))"
    and delete_ok: "good t \<Longrightarrow> \<exists>t'. delete t k p = Inr t' \<and> good t'
          \<and> (\<forall>k'. lookup t' k' = (if k' = k then remove1 p (lookup t k) else lookup t k'))"
begin

text \<open>An index that has, for every string, the entries of a set whose key it is.\<close>

definition indexes :: "'t \<Rightarrow> ('p \<Rightarrow> string option) \<Rightarrow> bool" where
  "indexes t key \<longleftrightarrow> good t \<and> (\<forall>k. distinct (lookup t k) \<and> set (lookup t k) = {p. key p = Some k})"

lemma indexes_add:
  assumes "indexes t key" "key p = None"
  shows "\<exists>t'. add t k p = Inr t' \<and> indexes t' (key(p := Some k))"
  using assms add_ok[of t k p] by (auto simp: indexes_def)

lemma indexes_delete:
  assumes "indexes t key" "key p = Some k"
  shows "\<exists>t'. delete t k p = Inr t' \<and> indexes t' (key(p := None))"
proof -
  obtain t' where t': "delete t k p = Inr t'" "good t'"
    "\<forall>k'. lookup t' k' = (if k' = k then remove1 p (lookup t k) else lookup t k')"
    using delete_ok[of t k p] assms(1) by (auto simp: indexes_def)
  have "distinct (lookup t' k') \<and> set (lookup t' k') = {q. (key(p := None)) q = Some k'}" for k'
    using assms t'(3) by (auto simp: indexes_def set_remove1_eq)
  with t' show ?thesis by (auto simp: indexes_def)
qed

end

interpretation idx: value_index index_ok "add_to_index True" index_tree_delete find_in_index Null
proof
  show "index_ok Null" "find_in_index Null k = []" for k by (simp_all add: index_ok_def)
  fix t :: "'p IndexTree" and k p
  assume t: "index_ok t"
  obtain t1 where 1: "add_to_index True t k p = Inr t1" "toc t1 = add_list k p (toc t)" "index_ok t1"
    using add_to_index_key[OF t] by blast
  obtain t2 where 2: "index_tree_delete t k p = Inr t2" "toc t2 = del_list k p (toc t)" "index_ok t2"
    using index_tree_delete_key[OF t] by blast
  have s: "keys_sorted (toc t)" "keys_sorted (toc t1)" "keys_sorted (toc t2)"
    using t 1(3) 2(3) by (auto simp: index_ok_def)
  show "\<exists>t'. add_to_index True t k p = Inr t' \<and> index_ok t'
      \<and> (\<forall>k'. find_in_index t' k' = (if k' = k then p # find_in_index t k else find_in_index t k'))"
    using 1 find_add_list[OF s(1), of k p] find_toc[OF s(1)] find_toc[OF s(2)] by simp
  show "\<exists>t'. index_tree_delete t k p = Inr t' \<and> index_ok t'
      \<and> (\<forall>k'. find_in_index t' k' = (if k' = k then remove1 p (find_in_index t k) else find_in_index t k'))"
    using 2 find_del_list[OF s(1), of k p] find_toc[OF s(1)] find_toc[OF s(3)] by simp
qed

text \<open>
  C5: adding a location to a good index and deleting one from it dereference no
  null pointer and give a good index, in which a search finds the old locations of
  every other string, and those of the string with the location in front or its
  first occurrence gone.
\<close>

theorem index_update_lookup:
  assumes "index_ok t"
  shows "(\<exists>t'. add_to_index True t k p = Inr t' \<and> index_ok t'
      \<and> (\<forall>k' f s. find_and_call t' k' f s =
           (let vs = (if k' = k then p # find_in_index t k else find_in_index t k') in (length vs, fold f vs s))))
    \<and> (\<exists>t'. index_tree_delete t k p = Inr t' \<and> index_ok t'
      \<and> (\<forall>k' f s. find_and_call t' k' f s =
           (let vs = (if k' = k then remove1 p (find_in_index t k) else find_in_index t k') in (length vs, fold f vs s))))"
  using idx.add_ok[OF assms, of k p] idx.delete_ok[OF assms, of k p]
  by (auto simp: find_and_call_eq Let_def)

theorem index_update_lookup_witness:
  "\<exists>t'. index_tree_delete (Node Null 0 ''b'' [7, 8 :: nat] (Node Null 0 ''d'' [9] Null 0) 1) ''b'' 8 = Inr t'
    \<and> find_and_call t' ''b'' (\<lambda>p s. s @ [p]) [] = (1, [7])"
proof -
  have "index_ok (Node Null 0 ''b'' [7, 8 :: nat] (Node Null 0 ''d'' [9] Null 0) 1)"
    by (simp add: index_ok_def less_char_def)
  from index_update_lookup[OF this, of "''b''" 8] show ?thesis by (auto simp: Let_def compare_string_def)
qed

section \<open>Searching by prefix\<close>

lemma compare_leading_Cons:
  "compare_string_leading (a # s) (b # t) = (if a = b then compare_string_leading s t else int (uchar a) - int (uchar b))"
proof -
  have "a \<noteq> b \<Longrightarrow> int (uchar a) - int (uchar b) \<noteq> 0" by simp
  then show ?thesis by (simp add: compare_string_leading_def compare_string_Cons Let_def)
qed

lemma compare_leading_Nil:
  "compare_string_leading [] t = 0" "compare_string_leading (a # s) [] = int (length (a # s))"
  by (simp_all add: compare_string_leading_def compare_string_def)

lemma leading_0: "compare_string_leading s k = 0 \<longleftrightarrow> prefix s k"
proof (induction s arbitrary: k)
  case (Cons a s)
  then show ?case by (cases k) (auto simp: compare_leading_Cons compare_leading_Nil)
qed (simp add: compare_leading_Nil)

lemma leading_less: "compare_string_leading s k < 0 \<longleftrightarrow> s < k \<and> \<not> prefix s k"
proof (induction s arbitrary: k)
  case (Cons a s)
  show ?case
  proof (cases k)
    case (Cons b u)
    have "int (uchar a) - int (uchar b) < 0 \<longleftrightarrow> a < b" using uchar_less_iff[of a b] by linarith
    with Cons.IH[of u] Cons show ?thesis by (auto simp: compare_leading_Cons)
  qed (simp add: compare_leading_Nil)
qed (simp add: compare_leading_Nil)

lemma prefix_between: "s \<le> k \<Longrightarrow> k \<le> k' \<Longrightarrow> prefix s k' \<Longrightarrow> prefix s (k :: string)"
proof (induction s arbitrary: k k')
  case (Cons a s)
  obtain t' where k': "k' = a # t'" "prefix s t'" using Cons.prems(3) by (cases k') auto
  obtain b t where k: "k = b # t" using Cons.prems(1) by (cases k) auto
  have "a = b" using Cons.prems(1,2) k k' by (auto simp: Cons_le_Cons)
  with Cons k k' show ?case by (auto simp: Cons_le_Cons)
qed simp

lemma prefix_le: "prefix s k \<Longrightarrow> s \<le> (k :: string)"
proof (induction s arbitrary: k)
  case (Cons a s)
  then show ?case by (cases k) (auto simp: Cons_le_Cons)
qed simp

definition leading_list :: "(string \<times> 'p list) list \<Rightarrow> string \<Rightarrow> 'p list" where
  "leading_list al s = concat (map snd (filter (\<lambda>(k, vs). prefix s k) al))"

lemma leading_list_append: "leading_list (al @ bl) s = leading_list al s @ leading_list bl s"
  by (simp add: leading_list_def)

lemma leading_list_none: "(\<And>k. k \<in> set (map fst al) \<Longrightarrow> \<not> prefix s k) \<Longrightarrow> leading_list al s = []"
  by (induction al) (auto simp: leading_list_def)

text \<open>
  C18: the search by a leading string calls back for exactly the locations of the
  strings it is a prefix of, in the order of the strings, and counts them.
\<close>

theorem find_leading_and_call_prefix:
  assumes "index_ok t"
  shows "find_leading_and_call t str f s =
     (let ps = concat (map snd (filter (\<lambda>(k, vs). prefix str k) (toc t))) in (length ps, fold f ps s))"
proof -
  have "keys_sorted (toc t) \<Longrightarrow> find_leading_and_call t str f s = (length (leading_list (toc t) str), fold f (leading_list (toc t) str) s)"
  proof (induction t arbitrary: s)
    case (Node l ld k vs r rd)
    have srt: "keys_sorted (toc l)" "keys_sorted (toc r)"
      "\<And>k'. k' \<in> set (map fst (toc l)) \<Longrightarrow> k' < k" "\<And>k'. k' \<in> set (map fst (toc r)) \<Longrightarrow> k < k'"
      using Node.prems by (auto simp: sorted_wrt_append)
    have right: "leading_list (toc r) str = []" if "compare_string_leading str k < 0"
    proof (rule leading_list_none)
      fix k'
      assume "k' \<in> set (map fst (toc r))"
      then have "k < k'" by (rule srt(4))
      moreover have "str < k" "\<not> prefix str k" using that by (simp_all add: leading_less)
      ultimately show "\<not> prefix str k'" by (meson less_imp_le prefix_between)
    qed
    have left: "leading_list (toc l) str = []" if "0 < compare_string_leading str k"
    proof (rule leading_list_none)
      fix k'
      assume "k' \<in> set (map fst (toc l))"
      then have "k' < k" by (rule srt(3))
      moreover have "k \<le> str" using that leading_0[of str k] leading_less[of str k] by auto
      ultimately show "\<not> prefix str k'" using prefix_le[of str k'] by auto
    qed
    have mid: "leading_list [(k, vs)] str = (if compare_string_leading str k = 0 then vs else [])"
      by (simp add: leading_list_def leading_0)
    have toc: "toc (Node l ld k vs r rd) = toc l @ [(k, vs)] @ toc r" by simp
    consider "compare_string_leading str k < 0" | "compare_string_leading str k = 0" | "0 < compare_string_leading str k"
      by linarith
    then show ?case
      unfolding toc leading_list_append mid
      using Node.IH srt(1,2) left right
      by cases (auto simp: Let_def value_set_call_eq)
  qed (simp add: leading_list_def)
  then show ?thesis using assms by (simp add: index_ok_def leading_list_def Let_def)
qed

theorem find_leading_and_call_prefix_witness:
  "find_leading_and_call (Node (Node Null 0 ''ab'' [1 :: nat] Null 0) 1 ''b'' [2] (Node Null 0 ''bc'' [3] Null 0) 1) ''b'' (\<lambda>p s. s @ [p]) []
   = (let ps = concat (map snd (filter (\<lambda>(k, vs). prefix ''b'' k)
         (toc (Node (Node Null 0 ''ab'' [1] Null 0) 1 ''b'' [2] (Node Null 0 ''bc'' [3] Null 0) 1)))) in (length ps, fold (\<lambda>p s. s @ [p]) ps []))"
  by (rule find_leading_and_call_prefix) (simp add: index_ok_def less_char_def)

section \<open>Balance\<close>

fun height :: "'p IndexTree \<Rightarrow> int" where
  "height Null = 0"
| "height (Node l ld k vs r rd) = 1 + max (height l) (height r)"

text \<open>The depth fields are the heights, and they differ by at most one.\<close>

fun balanced :: "'p IndexTree \<Rightarrow> bool" where
  "balanced Null = True"
| "balanced (Node l ld k vs r rd) \<longleftrightarrow>
     ld = height l \<and> rd = height r \<and> \<bar>ld - rd\<bar> \<le> 1 \<and> balanced l \<and> balanced r"

lemma height_ge: "0 \<le> height t"
  by (induction t) auto

lemma tree_depth_balanced: "balanced t \<Longrightarrow> tree_depth t = height t"
  by (cases t) auto

lemma rebalance_balanced:
  assumes "balanced l" "balanced r" "\<bar>height l - height r\<bar> \<le> 2"
    and "rebalance_tree (Node l (height l) k vs r (height r)) = Inr t"
  shows "balanced t \<and> (height t = 1 + max (height l) (height r) \<or> height t = max (height l) (height r))
    \<and> (\<bar>height l - height r\<bar> \<le> 1 \<longrightarrow> height t = 1 + max (height l) (height r))"
proof -
  consider "height l - height r = 2" | "height r - height l = 2" | "\<bar>height l - height r\<bar> \<le> 1" using assms(3) by linarith
  then show ?thesis
  proof cases
    case 1
    then have run: "rotate_right (Node l (height l) k vs r (height r)) = Inr t"
      using assms(4) by (simp add: rebalance_tree_def)
    obtain ll lld lk lvs lr lrd where l: "l = Node ll lld lk lvs lr lrd" using 1 height_ge[of r] by (cases l) auto
    show ?thesis
    proof (cases "tree_depth lr > tree_depth ll")
      case True
      then obtain a ad mk mvs c cd where lr: "lr = Node a ad mk mvs c cd"
        using tree_depth_balanced[of ll] height_ge[of ll] assms(1) l by (cases lr) auto
      with True run l 1 assms(1,2) show ?thesis
        by (auto simp: rotate_right_def Let_def tree_depth_balanced max_def split: if_splits)
    next
      case False
      with run l 1 assms(1,2) show ?thesis
        by (auto simp: rotate_right_def Let_def tree_depth_balanced max_def split: if_splits)
    qed
  next
    case 2
    then have run: "rotate_left (Node l (height l) k vs r (height r)) = Inr t"
      using assms(4) by (simp add: rebalance_tree_def)
    obtain rl rld rk rvs rr rrd where r: "r = Node rl rld rk rvs rr rrd" using 2 height_ge[of l] by (cases r) auto
    show ?thesis
    proof (cases "tree_depth rl > tree_depth rr")
      case True
      then obtain a ad mk mvs c cd where rl: "rl = Node a ad mk mvs c cd"
        using tree_depth_balanced[of rr] height_ge[of rr] assms(2) r by (cases rl) auto
      with True run r 2 assms(1,2) show ?thesis
        by (auto simp: rotate_left_def Let_def tree_depth_balanced max_def split: if_splits)
    next
      case False
      with run r 2 assms(1,2) show ?thesis
        by (auto simp: rotate_left_def Let_def tree_depth_balanced max_def split: if_splits)
    qed
  next
    case 3
    with assms have "t = Node l (height l) k vs r (height r)" by (auto simp: rebalance_tree_def split: if_splits)
    with 3 assms(1,2) show ?thesis by simp
  qed
qed

text \<open>The step of an insertion above the subtree that has grown.\<close>

lemma grown_left:
  assumes "balanced l'" "balanced r" "\<bar>height l - height r\<bar> \<le> 1"
    and "height l' = height l \<or> height l' = height l + 1"
    and "rebalance_tree (Node l' (height l') k vs r (height r)) = Inr t"
  shows "balanced t \<and> (height t = 1 + max (height l) (height r) \<or> height t = 2 + max (height l) (height r))"
proof -
  have "\<bar>height l' - height r\<bar> \<le> 2" using assms(3,4) by linarith
  from rebalance_balanced[OF assms(1,2) this assms(5)] assms(3,4) show ?thesis by (auto simp: max_def split: if_splits)
qed

lemma grown_right:
  assumes "balanced l" "balanced r'" "\<bar>height l - height r\<bar> \<le> 1"
    and "height r' = height r \<or> height r' = height r + 1"
    and "rebalance_tree (Node l (height l) k vs r' (height r')) = Inr t"
  shows "balanced t \<and> (height t = 1 + max (height l) (height r) \<or> height t = 2 + max (height l) (height r))"
proof -
  have "\<bar>height l - height r'\<bar> \<le> 2" using assms(3,4) by linarith
  from rebalance_balanced[OF assms(1,2) this assms(5)] assms(3,4) show ?thesis by (auto simp: max_def split: if_splits)
qed

definition insert_sub :: "'p IndexTree \<Rightarrow> string \<Rightarrow> 'p \<Rightarrow> 'p IndexTree res" where
  "insert_sub t k p = (if t = Null then Inr (create_index_tree_node True k p) else index_tree_insert True t k p)"

lemma created_balanced: "balanced (create_index_tree_node True k p) \<and> height (create_index_tree_node True k p) = 1
    \<and> create_index_tree_node True k p \<noteq> Null"
  by (simp add: create_index_tree_node_def)

lemma insert_sub_balanced:
  assumes "balanced t \<Longrightarrow> t \<noteq> Null \<Longrightarrow> index_tree_insert True t k p = Inr t' \<Longrightarrow>
      balanced t' \<and> (height t' = height t \<or> height t' = height t + 1)"
    and "balanced t" "insert_sub t k p = Inr t'"
  shows "balanced t' \<and> (height t' = height t \<or> height t' = height t + 1) \<and> t' \<noteq> Null
      \<and> (if t = Null then 1 else tree_depth t') = height t'"
proof (cases "t = Null")
  case True
  with assms(3) created_balanced[of k p] show ?thesis by (auto simp: insert_sub_def)
next
  case False
  with assms have h: "balanced t'" "height t' = height t \<or> height t' = height t + 1" by (auto simp: insert_sub_def)
  moreover have "0 < height t" using False height_ge[of "t"] by (cases t) (auto simp: max_def height_ge add_pos_nonneg)
  ultimately have "t' \<noteq> Null" by auto
  with h False show ?thesis by (simp add: tree_depth_balanced)
qed

lemma insert_balanced:
  assumes "balanced t" "t \<noteq> Null" "index_tree_insert True t k p = Inr t'"
  shows "balanced t' \<and> (height t' = height t \<or> height t' = height t + 1)"
  using assms
proof (induction t arbitrary: t')
  case (Node l ld kn vs r rd)
  have d: "ld = height l" "rd = height r" "balanced l" "balanced r" "\<bar>height l - height r\<bar> \<le> 1"
    using Node.prems(1) by auto
  consider "k < kn" | "kn < k" | "k = kn" by force
  then show ?case
  proof cases
    case 1
    have c: "compare_string k kn < 0" using 1 by (simp add: compare_iffs)
    from Node.prems(3) obtain l' where l': "insert_sub l k p = Inr l'"
      "(if l' = Null then Inr Null else rebalance_tree (Node l' (if l = Null then 1 else tree_depth l') kn vs r rd)) = Inr t'"
      unfolding index_tree_insert.simps(2) Let_def if_P[OF c] bindR_Inr_iff insert_sub_def by blast
    have s: "balanced l' \<and> (height l' = height l \<or> height l' = height l + 1) \<and> l' \<noteq> Null
        \<and> (if l = Null then 1 else tree_depth l') = height l'"
      by (rule insert_sub_balanced[OF _ d(3) l'(1)]) (rule Node.IH(1))
    then have "rebalance_tree (Node l' (height l') kn vs r (height r)) = Inr t'" using l'(2) d(2) by simp
    with grown_left[of l' r l] s d show ?thesis by auto
  next
    case 2
    have c: "\<not> compare_string k kn < 0" "compare_string k kn > 0" using 2 by (simp_all add: compare_iffs)
    from Node.prems(3) obtain r' where r': "insert_sub r k p = Inr r'"
      "(if r' = Null then Inr Null else rebalance_tree (Node l ld kn vs r' (if r = Null then 1 else tree_depth r'))) = Inr t'"
      unfolding index_tree_insert.simps(2) Let_def if_not_P[OF c(1)] if_P[OF c(2)] bindR_Inr_iff insert_sub_def by blast
    have s: "balanced r' \<and> (height r' = height r \<or> height r' = height r + 1) \<and> r' \<noteq> Null
        \<and> (if r = Null then 1 else tree_depth r') = height r'"
      by (rule insert_sub_balanced[OF _ d(4) r'(1)]) (rule Node.IH(2))
    then have "rebalance_tree (Node l (height l) kn vs r' (height r')) = Inr t'" using r'(2) d(1) by simp
    with grown_right[of l r' r] s d show ?thesis by auto
  next
    case 3
    have "compare_string k kn = 0" using 3 by (simp add: compare_iffs)
    with Node.prems(3) d have "t' = Node l ld kn (index_value_insert True vs p) r rd"
      by (auto simp: rebalance_tree_def split: if_splits)
    with Node.prems(1) show ?thesis by auto
  qed
qed simp

text \<open>
  C19: adding a location keeps the tree an AVL tree: the depth fields stay the
  heights of the subtrees and these differ by at most one.
\<close>

theorem add_to_index_balanced:
  assumes "balanced t" "add_to_index True t k p = Inr t'"
  shows "balanced t' \<and> (height t' = height t \<or> height t' = height t + 1)"
proof (cases "t = Null")
  case True
  with assms(2) created_balanced[of k p] show ?thesis by (auto simp: add_to_index_def)
next
  case False
  with assms insert_balanced[of t k p t'] show ?thesis by (auto simp: add_to_index_def)
qed

theorem add_to_index_balanced_witness:
  "balanced (Node (Node Null 0 ''a'' [1 :: nat] Null 0) 1 ''b'' [2] (Node Null 0 ''c'' [3] Null 0) 1)"
proof -
  have i: "add_to_index True (Node Null 0 ''a'' [1] (Node Null 0 ''b'' [2 :: nat] Null 0) 1) ''c'' 3
      = Inr (Node (Node Null 0 ''a'' [1] Null 0) 1 ''b'' [2] (Node Null 0 ''c'' [3] Null 0) 1)"
    by (simp add: add_to_index_def compare_string_def create_index_tree_node_def rebalance_tree_def rotate_left_def Let_def uchar_def)
  have "balanced (Node Null 0 ''a'' [1] (Node Null 0 ''b'' [2 :: nat] Null 0) 1)" by simp
  from conjunct1[OF add_to_index_balanced[OF this i]] show ?thesis .
qed

text \<open>Adding locations one after the other.\<close>

fun add_all :: "'p IndexTree \<Rightarrow> (string \<times> 'p) list \<Rightarrow> 'p IndexTree res" where
  "add_all t [] = Inr t"
| "add_all t ((k, p) # kps) = bindR (add_to_index True t k p) (\<lambda>t'. add_all t' kps)"

text \<open>
  A deletion does not keep the tree balanced.  Taking the replacement for a
  deleted node out of a subtree updates the depth field of its parent only: in the
  tree of these eight additions, which is an AVL tree, deleting the root leaves a
  node whose depth field is not the height of its subtree.
\<close>

theorem index_tree_delete_stale_depth:
  "\<exists>t t'. add_all Null (map (\<lambda>k. (k, 1 :: nat)) [''h'', ''d'', ''p'', ''b'', ''f'', ''l'', ''r'', ''j'']) = Inr t
     \<and> balanced t \<and> index_tree_delete t ''h'' 1 = Inr t' \<and> \<not> balanced t'"
  by (simp add: add_to_index_def compare_string_def create_index_tree_node_def rebalance_tree_def rotate_left_def
      rotate_right_def Let_def uchar_def replace_node_def)

end
