(* ===== verification/SLP_Attr.thy ===== *)
theory SLP_Attr
  imports SLP_Prelude
begin

text \<open>
  The attribute library, \<open>libslpattr/libslpattr.c\<close>: attribute lists as the
  daemon and the client library keep them, set, read, parsed from and written
  to the wire form.  A pointer into a C string is the rest of the string behind
  it, so that the end of the list is the terminator.  The library is the one of
  a build without \<open>DEBUG\<close>, where \<open>SLP_ASSERT\<close> does nothing.  A value's string
  length that the code never sets is \<open>None\<close>.  \<open>ok\<close> tells whether the memory an
  operation asks for is there; in the parser it depends on how much of the
  text is left, every allocation of a parse being made at another point.
\<close>

section \<open>Values, attributes and attribute lists\<close>

datatype SLPType = SLP_BOOLEAN | SLP_INTEGER | SLP_KEYWORD | SLP_STRING | SLP_OPAQUE

datatype SLPData = VaBool bool | VaInt int | VaStr string

record value_t =
  escaped_len :: nat
  unescaped_len :: "nat option"
  vdata :: SLPData

record var_t =
  vtype :: SLPType
  vtag :: string
  vlist :: "value_t list"
  list_size :: int
  modified :: bool

record SLPAttributes =
  alang :: string
  attrs :: "var_t list"
  attr_count :: int

datatype SLPInsertionPolicy = SLP_ADD | SLP_REPLACE

datatype SLPError =
  SLP_OK | SLP_PARAMETER_BAD | SLP_MEMORY_ALLOC_FAILED | SLP_TAG_ERROR | SLP_TYPE_ERROR
  | SLP_NOT_IMPLEMENTED | SLP_BUFFER_OVERFLOW | SLP_PARSE_ERROR

section \<open>Characters and escapes\<close>

abbreviation ESCAPE_CHARACTER :: char where
  "ESCAPE_CHARACTER \<equiv> CHR 0x5C"

definition IS_RESERVED :: "char \<Rightarrow> bool" where
  "IS_RESERVED x =
     (x = CHR ''('' \<or> x = CHR '')'' \<or> x = CHR '','' \<or> x = ESCAPE_CHARACTER \<or> x = CHR ''!'' \<or> x = CHR ''<''
      \<or> x = CHR ''='' \<or> x = CHR ''>'' \<or> x = CHR 0x7E \<or> (1 \<le> uchar x \<and> uchar x \<le> 0x1F) \<or> uchar x = 0x7F)"

definition IS_INVALID_TAG_CHAR :: "char \<Rightarrow> bool" where
  "IS_INVALID_TAG_CHAR x =
     (IS_RESERVED x \<or> x = CHR ''*'' \<or> uchar x = 0x0D \<or> uchar x = 0x0A \<or> uchar x = 0x09 \<or> x = CHR ''_'')"

definition IS_DIGIT :: "char \<Rightarrow> bool" where
  "IS_DIGIT x = (48 \<le> uchar x \<and> uchar x \<le> 57)"

definition IS_VALID_HEX :: "char \<Rightarrow> bool" where
  "IS_VALID_HEX x = (IS_DIGIT x \<or> 65 \<le> uchar x \<and> uchar x \<le> 70 \<or> 97 \<le> uchar x \<and> uchar x \<le> 102)"

definition find_tag_end :: "string \<Rightarrow> string" where
  "find_tag_end tag = dropWhile (\<lambda>c. \<not> IS_INVALID_TAG_CHAR c) tag"

text \<open>The value of one digit as \<open>unescape\<close> computes it.\<close>

definition hexdigit :: "char \<Rightarrow> int" where
  "hexdigit d =
     (if 65 \<le> uchar d \<and> uchar d \<le> 70 then int (uchar d) - 65 + 10
      else if 97 \<le> uchar d \<and> uchar d \<le> 102 then int (uchar d) - 97 + 10
      else int (uchar d) - 48)"

definition unescape :: "char \<Rightarrow> char \<Rightarrow> char" where
  "unescape d1 d2 = char_of (nat ((hexdigit d2 + hexdigit d1 * 16) mod 256))"

fun unescape_into :: "string \<Rightarrow> string option" where
  "unescape_into [] = Some []"
| "unescape_into (c # s) =
     (if c = ESCAPE_CHARACTER then
        (case s of
           d1 # d2 # s' \<Rightarrow>
             (if IS_VALID_HEX d1 \<and> IS_VALID_HEX d2
              then map_option ((#) (unescape d1 d2)) (unescape_into s') else None)
         | _ \<Rightarrow> None)
      else map_option ((#) c) (unescape_into s))"

definition is_legal_slp_char :: "char \<Rightarrow> bool" where
  "is_legal_slp_char x =
     (\<not> (x = CHR ''('' \<or> x = CHR '')'' \<or> x = CHR '','' \<or> x = ESCAPE_CHARACTER \<or> x = CHR ''!'' \<or> x = CHR ''<''
         \<or> x = CHR ''='' \<or> x = CHR ''>'' \<or> x = CHR 0x7E \<or> x = NUL))"

text \<open>
  The digit written for \<open>hex_digit\<close>, an \<open>unsigned char\<close>.  The first digit is
  \<open>to_escape >> 4\<close> of a signed character.
\<close>

definition digit_char :: "int \<Rightarrow> char" where
  "digit_char h = (let u = h mod 256 in char_of (nat ((u + (if u < 10 then 48 else 55)) mod 256)))"

definition escape :: "bool \<Rightarrow> char \<Rightarrow> string" where
  "escape legal c =
     (if \<not> legal then [ESCAPE_CHARACTER, digit_char (schar c div 16), digit_char (schar c mod 16)] else [c])"

definition escape_into :: "string \<Rightarrow> string" where
  "escape_into src = concat (map (\<lambda>c. escape (is_legal_slp_char c) c) src)"

definition escape_opaque_into :: "string \<Rightarrow> string" where
  "escape_opaque_into src = concat (map (escape False) src)"

definition find_unescaped_size :: "string \<Rightarrow> int" where
  "find_unescaped_size str = int (length str) - 2 * int (length (filter (\<lambda>c. c = ESCAPE_CHARACTER) str))"

definition find_escaped_size :: "string \<Rightarrow> nat" where
  "find_escaped_size str = sum_list (map (\<lambda>c. if is_legal_slp_char c then 1 else 3) str)"

text \<open>\<open>ceil(log10(n))\<close>, and the number of characters the code expects an integer to need.\<close>

fun ceil_log10 :: "nat \<Rightarrow> nat" where
  "ceil_log10 n = (if n \<le> 1 then 0 else 1 + ceil_log10 ((n + 9) div 10))"

declare ceil_log10.simps [simp del]

definition count_digits :: "int \<Rightarrow> nat" where
  "count_digits number =
     (if number = 1 then 1
      else if number = -1 then 2
      else
        (let count = (if number < 0 then 1 else 0) in
         if number = 0 then 1 + count else count + ceil_log10 (nat \<bar>number\<bar>)))"

section \<open>Finding the end of a value list\<close>

datatype type_guess = TYPE_UNKNOWN | TYPE_INT | TYPE_OPAQUE | TYPE_STR | TYPE_BOOL

text \<open>What an escape at the start of a value does to the type.\<close>

definition start_escape :: "type_guess \<Rightarrow> char \<Rightarrow> char \<Rightarrow> type_guess option" where
  "start_escape type_guess d1 d2 =
     (let this_type = (if (d1 = CHR ''F'' \<or> d1 = CHR ''f'') \<and> (d2 = CHR ''F'' \<or> d2 = CHR ''f'')
                       then TYPE_OPAQUE else TYPE_STR) in
      if type_guess = TYPE_UNKNOWN then Some this_type
      else if this_type \<noteq> TYPE_OPAQUE \<and> type_guess = TYPE_OPAQUE
              \<or> this_type = TYPE_OPAQUE \<and> type_guess \<noteq> TYPE_OPAQUE then None
      else if this_type = TYPE_STR then Some TYPE_STR
      else Some type_guess)"

text \<open>What a plain character does to it; \<open>n\<close> is the unescaped length so far.\<close>

definition plain_char :: "bool \<Rightarrow> type_guess \<Rightarrow> nat \<Rightarrow> char \<Rightarrow> type_guess option" where
  "plain_char in_val type_guess n c =
     (case type_guess of
        TYPE_OPAQUE \<Rightarrow> None
      | TYPE_INT \<Rightarrow> Some (if \<not> (IS_DIGIT c \<or> \<not> in_val \<and> c = CHR ''-'') then TYPE_STR else TYPE_INT)
      | TYPE_BOOL \<Rightarrow>
          Some (if n < 4 \<and> c = ''true'' ! n \<or> n < 5 \<and> c = ''false'' ! n then TYPE_BOOL else TYPE_STR)
      | TYPE_UNKNOWN \<Rightarrow>
          Some (if IS_DIGIT c \<or> \<not> in_val \<and> c = CHR ''-'' then TYPE_INT
                else if \<not> in_val \<and> (c = CHR ''t'' \<or> c = CHR ''f'') then TYPE_BOOL
                else TYPE_STR)
      | TYPE_STR \<Rightarrow> Some TYPE_STR)"

text \<open>The result: the number of values, the type, the unescaped length, the end.\<close>

fun value_list_loop ::
  "bool \<Rightarrow> type_guess \<Rightarrow> nat \<Rightarrow> nat \<Rightarrow> string \<Rightarrow> (nat \<times> type_guess \<times> nat \<times> string) option" where
  "value_list_loop in_val type_guess value_count n [] = Some (value_count, type_guess, n, [])"
| "value_list_loop in_val type_guess value_count n (c # cur) =
     (if c = ESCAPE_CHARACTER then
        (case cur of
           d1 # d2 # cur' \<Rightarrow>
             (if IS_VALID_HEX d1 \<and> IS_VALID_HEX d2 then
                (if \<not> in_val then
                   (case start_escape type_guess d1 d2 of
                      None \<Rightarrow> None
                    | Some g \<Rightarrow> value_list_loop True g value_count n cur')
                 else value_list_loop True type_guess value_count (n + 1) cur')
              else None)
         | _ \<Rightarrow> None)
      else if c = CHR '','' then
        (if \<not> in_val then None
         else value_list_loop False (if type_guess = TYPE_BOOL then TYPE_STR else type_guess) (value_count + 1) n cur)
      else if c = CHR '')'' then Some (value_count, type_guess, n, c # cur)
      else if IS_RESERVED c then None
      else
        (case plain_char in_val type_guess n c of
           None \<Rightarrow> None
         | Some g \<Rightarrow> value_list_loop True g value_count (n + 1) cur))"

definition find_value_list_end :: "string \<Rightarrow> (nat \<times> type_guess \<times> nat \<times> string) option" where
  "find_value_list_end value = value_list_loop False TYPE_UNKNOWN 1 0 value"

section \<open>Setting attributes\<close>

definition SLPAttrAlloc :: "bool \<Rightarrow> string \<Rightarrow> bool \<Rightarrow> bool \<Rightarrow> SLPError \<times> SLPAttributes option" where
  "SLPAttrAlloc ok lang template_h strict =
     (if \<not> strict \<and> template_h then (SLP_PARAMETER_BAD, None)
      else if strict then (SLP_NOT_IMPLEMENTED, None)
      else if template_h then (SLP_NOT_IMPLEMENTED, None)
      else if \<not> ok then (SLP_MEMORY_ALLOC_FAILED, None)
      else (SLP_OK, Some \<lparr>alang = lang, attrs = [], attr_count = 0\<rparr>))"

definition attr_add :: "SLPAttributes \<Rightarrow> var_t \<Rightarrow> SLPAttributes" where
  "attr_add a var = a\<lparr>attrs := var # attrs a, attr_count := attr_count a + 1\<rparr>"

definition tag_matches :: "string \<Rightarrow> var_t \<Rightarrow> bool" where
  "tag_matches tag var = (length (vtag var) = length tag \<and> c_strncasecmp (length tag) (vtag var) tag = 0)"

text \<open>The position of the attribute in the list stands for the pointer to it.\<close>

fun find_var :: "var_t list \<Rightarrow> string \<Rightarrow> nat option" where
  "find_var [] tag = None"
| "find_var (v # vs) tag = (if tag_matches tag v then Some 0 else map_option Suc (find_var vs tag))"

definition attr_val_find_str :: "SLPAttributes \<Rightarrow> string \<Rightarrow> nat option" where
  "attr_val_find_str a tag = find_var (attrs a) tag"

definition var_list_destroy :: "var_t \<Rightarrow> var_t" where
  "var_list_destroy var = var\<lparr>vlist := [], list_size := 0\<rparr>"

definition var_insert :: "var_t \<Rightarrow> value_t option \<Rightarrow> SLPInsertionPolicy \<Rightarrow> var_t" where
  "var_insert var value policy =
     (case value of
        None \<Rightarrow> var
      | Some v \<Rightarrow>
          (let var = (if policy = SLP_REPLACE then var_list_destroy var else var) in
           var\<lparr>vlist := v # vlist var, list_size := list_size var + 1, modified := True\<rparr>))"

definition generic_set_val ::
  "bool \<Rightarrow> SLPAttributes \<Rightarrow> string \<Rightarrow> value_t option \<Rightarrow> SLPInsertionPolicy \<Rightarrow> SLPType \<Rightarrow> SLPError \<times> SLPAttributes" where
  "generic_set_val ok a tag value policy attr_type =
     (case attr_val_find_str a tag of
        None \<Rightarrow>
          (if ok then
             (SLP_OK, attr_add a (var_insert
                \<lparr>vtype = attr_type, vtag = tag, vlist = [], list_size = 0, modified = True\<rparr> value policy))
           else (SLP_MEMORY_ALLOC_FAILED, a))
      | Some i \<Rightarrow>
          (let var = attrs a ! i in
           if vtype var = attr_type then
             (SLP_OK, a\<lparr>attrs := (attrs a)[i := var_insert var value policy]\<rparr>)
           else if policy = SLP_REPLACE then
             (SLP_OK, a\<lparr>attrs := (attrs a)[i := var_insert ((var_list_destroy var)\<lparr>vtype := attr_type\<rparr>) value policy]\<rparr>)
           else (SLP_TYPE_ERROR, a)))"

definition SLPAttrSet_bool :: "bool \<Rightarrow> SLPAttributes \<Rightarrow> string \<Rightarrow> bool \<Rightarrow> SLPError \<times> SLPAttributes" where
  "SLPAttrSet_bool ok a tag val =
     (if \<not> ok then (SLP_MEMORY_ALLOC_FAILED, a)
      else generic_set_val ok a tag
        (Some \<lparr>escaped_len = (if val then 4 else 5), unescaped_len = None, vdata = VaBool val\<rparr>) SLP_REPLACE SLP_BOOLEAN)"

definition SLPAttrSet_str ::
  "bool \<Rightarrow> SLPAttributes \<Rightarrow> string \<Rightarrow> string \<Rightarrow> SLPInsertionPolicy \<Rightarrow> SLPError \<times> SLPAttributes" where
  "SLPAttrSet_str ok a tag val policy =
     (if \<not> ok then (SLP_MEMORY_ALLOC_FAILED, a)
      else generic_set_val ok a tag
        (Some \<lparr>escaped_len = find_escaped_size val, unescaped_len = Some (length val), vdata = VaStr val\<rparr>) policy SLP_STRING)"

definition SLPAttrSet_keyw_len :: "bool \<Rightarrow> SLPAttributes \<Rightarrow> string \<Rightarrow> SLPError \<times> SLPAttributes" where
  "SLPAttrSet_keyw_len ok a tag = generic_set_val ok a tag None SLP_REPLACE SLP_KEYWORD"

definition SLPAttrSet_int ::
  "bool \<Rightarrow> SLPAttributes \<Rightarrow> string \<Rightarrow> int \<Rightarrow> SLPInsertionPolicy \<Rightarrow> SLPError \<times> SLPAttributes" where
  "SLPAttrSet_int ok a tag val policy =
     (if \<not> ok then (SLP_MEMORY_ALLOC_FAILED, a)
      else generic_set_val ok a tag
        (Some \<lparr>escaped_len = count_digits val, unescaped_len = None, vdata = VaInt val\<rparr>) policy SLP_INTEGER)"

text \<open>The value's string pointer is still null when the bytes are copied to it.\<close>

definition SLPAttrSet_opaque ::
  "bool \<Rightarrow> SLPAttributes \<Rightarrow> string \<Rightarrow> string \<Rightarrow> SLPInsertionPolicy \<Rightarrow> (SLPError \<times> SLPAttributes) res" where
  "SLPAttrSet_opaque ok a tag val policy =
     (if \<not> ok then Inr (SLP_MEMORY_ALLOC_FAILED, a)
      else if val \<noteq> [] then Inl OutOfBounds
      else Inr (generic_set_val ok a tag
        (Some \<lparr>escaped_len = 0 * 3 + 3, unescaped_len = Some 0, vdata = VaStr []\<rparr>) policy SLP_OPAQUE))"

section \<open>Setting an attribute of unknown type\<close>

text \<open>How many characters \<open>unescape_into\<close> has written when it returns.\<close>

fun unescape_count :: "string \<Rightarrow> nat" where
  "unescape_count [] = 0"
| "unescape_count (c # s) =
     (if c = ESCAPE_CHARACTER then
        (case s of
           d1 # d2 # s' \<Rightarrow> (if IS_VALID_HEX d1 \<and> IS_VALID_HEX d2 then 1 + unescape_count s' else 0)
         | _ \<Rightarrow> 0)
      else 1 + unescape_count s)"

text \<open>
  \<open>strtol\<close> without leading white space or prefix \<open>0x\<close>, which its callers
  exclude, and the conversion of its result to \<open>int\<close>.
\<close>

definition digit_run :: "nat \<Rightarrow> string \<Rightarrow> int" where
  "digit_run base s =
     foldl (\<lambda>n c. n * int base + (int (uchar c) - 48)) 0 (takeWhile (\<lambda>c. 48 \<le> uchar c \<and> uchar c < 48 + base) s)"

definition to_int32 :: "int \<Rightarrow> int" where
  "to_int32 x = (x + 2 ^ 31) mod 2 ^ 32 - 2 ^ 31"

definition c_strtol :: "bool \<Rightarrow> string \<Rightarrow> int" where
  "c_strtol base0 s =
     (let neg = (s \<noteq> [] \<and> hd s = CHR ''-''); t = (if neg then tl s else s);
          base = (if base0 \<and> t \<noteq> [] \<and> hd t = CHR ''0'' then 8 else 10);
          n = digit_run base t; n = (if neg then - n else n)
      in max (- (2 ^ 63)) (min (2 ^ 63 - 1) n))"

definition SLPAttrStore ::
  "bool \<Rightarrow> SLPAttributes \<Rightarrow> string \<Rightarrow> string \<Rightarrow> SLPInsertionPolicy \<Rightarrow> (SLPError \<times> SLPAttributes) res" where
  "SLPAttrStore ok a tag val policy =
     (if take 3 val = [ESCAPE_CHARACTER, CHR ''F'', CHR ''F''] then
        (if length val mod 3 \<noteq> 0 then Inr (SLP_PARAMETER_BAD, a)
         else if \<not> ok then Inr (SLP_MEMORY_ALLOC_FAILED, a)
         else if unescape_count (drop 3 val) > length val div 3 - 1 then Inl OutOfBounds
         else (case unescape_into (drop 3 val) of
             None \<Rightarrow> Inr (SLP_PARAMETER_BAD, a)
           | Some u \<Rightarrow> SLPAttrSet_opaque ok a tag (take ((length val - 3) div 3) u) policy))
      else if val = ''true'' then Inr (SLPAttrSet_bool ok a tag True)
      else if val = ''false'' then Inr (SLPAttrSet_bool ok a tag False)
      else if val \<noteq> [] \<and> (hd val = CHR ''-'' \<or> IS_DIGIT (hd val)) \<and> (\<forall>c \<in> set (tl val). IS_DIGIT c) then
        Inr (SLPAttrSet_int ok a tag (to_int32 (c_strtol False val)) policy)
      else if \<forall>c \<in> set val. \<not> (IS_RESERVED c \<and> c \<noteq> ESCAPE_CHARACTER) then
        (if \<not> ok \<or> find_unescaped_size val + 1 < 0 then Inr (SLP_MEMORY_ALLOC_FAILED, a)
         else if int (unescape_count val) > find_unescaped_size val + 1 then Inl OutOfBounds
         else (case unescape_into val of
             None \<Rightarrow> Inr (SLP_PARAMETER_BAD, a)
           | Some u \<Rightarrow> Inr (SLPAttrSet_str ok a tag (takeWhile (\<lambda>c. c \<noteq> NUL) u) policy)))
      else Inr (SLP_PARAMETER_BAD, a))"

text \<open>The values between commas, as the \<open>do\<close> loop visits them.\<close>

function guess_loop :: "bool \<Rightarrow> SLPAttributes \<Rightarrow> string \<Rightarrow> string \<Rightarrow> (SLPError \<times> SLPAttributes) res" where
  "guess_loop ok a tag cur =
     (let val = takeWhile (\<lambda>c. c \<noteq> CHR '','') cur; end = dropWhile (\<lambda>c. c \<noteq> CHR '','') cur in
      bindR (SLPAttrStore ok a tag val SLP_ADD) (\<lambda>(err, a).
        if err \<noteq> SLP_OK then Inr (err, a)
        else if end = [] then Inr (SLP_OK, a)
        else guess_loop ok a tag (tl end)))"
  by pat_completeness auto
termination
proof (relation "measure (\<lambda>(ok, a, tag, cur). length cur)")
  fix ok :: bool and a a' :: SLPAttributes and tag cur val "end" :: string and x :: "SLPError \<times> SLPAttributes" and err :: SLPError
  assume "end = dropWhile (\<lambda>c. c \<noteq> CHR '','') cur" "end \<noteq> []"
  then have "length end \<le> length cur" "end \<noteq> []" by (simp_all add: length_dropWhile_le)
  then show "((ok, a', tag, tl end), ok, a, tag, cur) \<in> measure (\<lambda>(ok, a, tag, cur). length cur)"
    by (cases "end") auto
qed simp

declare guess_loop.simps [simp del]

definition SLPAttrSet_guess ::
  "bool \<Rightarrow> SLPAttributes \<Rightarrow> string \<Rightarrow> string \<Rightarrow> SLPInsertionPolicy \<Rightarrow> (SLPError \<times> SLPAttributes) res" where
  "SLPAttrSet_guess ok a tag val policy =
     (let a = (if policy = SLP_REPLACE then
                 (case attr_val_find_str a tag of
                    None \<Rightarrow> a
                  | Some i \<Rightarrow> a\<lparr>attrs := (attrs a)[i := var_list_destroy (attrs a ! i)]\<rparr>)
               else a)
      in guess_loop ok a tag val)"

section \<open>Getting attributes\<close>

text \<open>The common part of the typed queries: the attribute, or the error.\<close>

definition get_var :: "SLPAttributes \<Rightarrow> string \<Rightarrow> SLPType \<Rightarrow> SLPError + var_t" where
  "get_var a tag ty =
     (case attr_val_find_str a tag of
        None \<Rightarrow> Inl SLP_TAG_ERROR
      | Some i \<Rightarrow> (if vtype (attrs a ! i) \<noteq> ty then Inl SLP_TYPE_ERROR else Inr (attrs a ! i)))"

text \<open>The values the loop \<open>for (i = 0; i < var->list_size; i++)\<close> dereferences.\<close>

definition list_values :: "var_t \<Rightarrow> value_t list res" where
  "list_values var =
     (if nat (list_size var) \<le> length (vlist var) then Inr (take (nat (list_size var)) (vlist var)) else Inl OutOfBounds)"

definition va_bool :: "value_t \<Rightarrow> bool" where
  "va_bool v = (case vdata v of VaBool b \<Rightarrow> b | _ \<Rightarrow> False)"
definition va_int :: "value_t \<Rightarrow> int" where
  "va_int v = (case vdata v of VaInt n \<Rightarrow> n | _ \<Rightarrow> 0)"
definition va_str :: "value_t \<Rightarrow> string" where
  "va_str v = (case vdata v of VaStr s \<Rightarrow> s | _ \<Rightarrow> [])"

definition SLPAttrGet_bool :: "SLPAttributes \<Rightarrow> string \<Rightarrow> (SLPError \<times> bool option) res" where
  "SLPAttrGet_bool a tag =
     (case get_var a tag SLP_BOOLEAN of
        Inl e \<Rightarrow> Inr (e, None)
      | Inr var \<Rightarrow> (case vlist var of [] \<Rightarrow> Inl OutOfBounds | v # _ \<Rightarrow> Inr (SLP_OK, Some (va_bool v))))"

definition SLPAttrGet_keyw :: "SLPAttributes \<Rightarrow> string \<Rightarrow> SLPError" where
  "SLPAttrGet_keyw a tag = (case get_var a tag SLP_KEYWORD of Inl e \<Rightarrow> e | Inr var \<Rightarrow> SLP_OK)"

definition SLPAttrGet_int :: "bool \<Rightarrow> SLPAttributes \<Rightarrow> string \<Rightarrow> (SLPError \<times> int list) res" where
  "SLPAttrGet_int ok a tag =
     (case get_var a tag SLP_INTEGER of
        Inl e \<Rightarrow> Inr (e, [])
      | Inr var \<Rightarrow>
          (if \<not> ok then Inr (SLP_MEMORY_ALLOC_FAILED, [])
           else bindR (list_values var) (\<lambda>vs. Inr (SLP_OK, map va_int vs))))"

definition SLPAttrGet_str :: "bool \<Rightarrow> SLPAttributes \<Rightarrow> string \<Rightarrow> (SLPError \<times> string list) res" where
  "SLPAttrGet_str ok a tag =
     (case get_var a tag SLP_STRING of
        Inl e \<Rightarrow> Inr (e, [])
      | Inr var \<Rightarrow>
          (if \<not> ok then Inr (SLP_MEMORY_ALLOC_FAILED, [])
           else bindR (list_values var) (\<lambda>vs. Inr (SLP_OK, map va_str vs))))"

text \<open>
  The test after the allocation of an element looks at a field of the new
  memory: \<open>junk0 i\<close> says that this field of element \<open>i\<close> happens to be null.
\<close>

definition SLPAttrGet_opaque :: "bool \<Rightarrow> (nat \<Rightarrow> bool) \<Rightarrow> SLPAttributes \<Rightarrow> string \<Rightarrow> (SLPError \<times> string list) res" where
  "SLPAttrGet_opaque ok junk0 a tag =
     (case get_var a tag SLP_OPAQUE of
        Inl e \<Rightarrow> Inr (e, [])
      | Inr var \<Rightarrow>
          (if \<not> ok then Inr (SLP_MEMORY_ALLOC_FAILED, [])
           else bindR (list_values var) (\<lambda>vs.
             if \<exists>i \<in> set [0..<length vs]. junk0 i then Inr (SLP_MEMORY_ALLOC_FAILED, [])
             else Inr (SLP_OK, map va_str vs))))"

definition SLPAttrGetType_len :: "SLPAttributes \<Rightarrow> string \<Rightarrow> SLPError \<times> SLPType option" where
  "SLPAttrGetType_len a tag =
     (case attr_val_find_str a tag of
        None \<Rightarrow> (SLP_TAG_ERROR, None)
      | Some i \<Rightarrow> (SLP_OK, Some (vtype (attrs a ! i))))"

section \<open>Storing parsed values\<close>

text \<open>
  The values of one attribute share one block of memory: for each value its
  structure (48 bytes on the 64-bit platforms), then its text, padded to a
  multiple of 8.  \<open>mem\<close> is the offset of \<open>mem_block\<close> in a block of
  \<open>block_size\<close> bytes, \<open>attr\<close> the text from \<open>cur_start\<close> to the end of the list.
\<close>

definition SIZEOF_VALUE :: nat where "SIZEOF_VALUE = 48"

definition fix_memory_alignment :: "nat \<Rightarrow> nat" where
  "fix_memory_alignment p = (p + 7) div 8 * 8"

definition store_value :: "SLPType \<Rightarrow> nat \<Rightarrow> nat \<Rightarrow> string \<Rightarrow> (value_t \<times> nat) res" where
  "store_value ty block_size mem piece =
     (if mem + SIZEOF_VALUE > block_size then Inl OutOfBounds
      else
        (let mem = mem + SIZEOF_VALUE in
         case ty of
           SLP_BOOLEAN \<Rightarrow>
             (if piece \<noteq> [] \<and> (hd piece = CHR ''t'' \<or> hd piece = CHR ''T'')
              then Inr (\<lparr>escaped_len = 4, unescaped_len = None, vdata = VaBool True\<rparr>, mem)
              else if piece \<noteq> [] \<and> (hd piece = CHR ''f'' \<or> hd piece = CHR ''F'')
              then Inr (\<lparr>escaped_len = 5, unescaped_len = None, vdata = VaBool False\<rparr>, mem)
              else Inl OutOfBounds)
         | SLP_INTEGER \<Rightarrow>
             (let n = to_int32 (c_strtol True piece) in
              Inr (\<lparr>escaped_len = count_digits n, unescaped_len = None, vdata = VaInt n\<rparr>, mem))
         | _ \<Rightarrow>
             (if mem + unescape_count piece > block_size then Inl OutOfBounds
              else (case unescape_into piece of
                  None \<Rightarrow> Inl OutOfBounds
                | Some u \<Rightarrow>
                    Inr (\<lparr>escaped_len = length piece, unescaped_len = Some (length u), vdata = VaStr u\<rparr>,
                         mem + length u)))))"

function store_values :: "SLPType \<Rightarrow> nat \<Rightarrow> nat \<Rightarrow> string \<Rightarrow> value_t list res" where
  "store_values ty block_size mem attr =
     (let piece = takeWhile (\<lambda>c. c \<noteq> CHR '','') attr; rest = dropWhile (\<lambda>c. c \<noteq> CHR '','') attr in
      bindR (store_value ty block_size mem piece) (\<lambda>(v, mem).
        if rest = [] then Inr [v]
        else bindR (store_values ty block_size (fix_memory_alignment mem) (tl rest)) (\<lambda>vs. Inr (v # vs))))"
  by pat_completeness auto
termination
proof (relation "measure (\<lambda>(ty, bs, mem, attr). length attr)")
  fix ty bs mem attr piece rest x v mem'
  assume "rest = dropWhile (\<lambda>c. c \<noteq> CHR '','') attr" "rest \<noteq> []"
  then have "length rest \<le> length attr" "rest \<noteq> []" by (simp_all add: length_dropWhile_le)
  then show "((ty, bs, fix_memory_alignment mem', tl rest), ty, bs, mem, attr) \<in> measure (\<lambda>(ty, bs, mem, attr). length attr)"
    by (cases rest) auto
qed simp

declare store_values.simps [simp del]

definition block_size :: "nat \<Rightarrow> nat \<Rightarrow> nat" where
  "block_size val_count unesc_len = val_count * SIZEOF_VALUE + unesc_len + val_count * (8 - 1)"

text \<open>\<open>None\<close> is the error return.\<close>

definition internal_store ::
  "bool \<Rightarrow> SLPAttributes \<Rightarrow> string \<Rightarrow> string \<Rightarrow> nat \<Rightarrow> SLPType \<Rightarrow> nat \<Rightarrow> SLPAttributes option res" where
  "internal_store ok a tag attr val_count ty unesc_len =
     (if \<not> ok then Inr None
      else bindR (store_values ty (block_size val_count unesc_len) 0 attr) (\<lambda>vs.
        Inr (Some (attr_add a
          \<lparr>vtype = ty, vtag = tag, vlist = vs, list_size = int val_count, modified = True\<rparr>))))"

section \<open>Parsing an attribute list\<close>

datatype attr_state = START_ATTR | START_TAG | VALUE | STOP_VALUE

definition type_of_guess :: "type_guess \<Rightarrow> SLPType" where
  "type_of_guess g =
     (case g of TYPE_INT \<Rightarrow> SLP_INTEGER | TYPE_OPAQUE \<Rightarrow> SLP_OPAQUE | TYPE_BOOL \<Rightarrow> SLP_BOOLEAN | _ \<Rightarrow> SLP_STRING)"

lemma value_list_loop_length:
  "value_list_loop iv g vc n s = Some (vc', g', n', cur) \<Longrightarrow> length cur \<le> length s"
proof (induction iv g vc n s rule: value_list_loop.induct)
  case (2 in_val type_guess value_count n c cur0)
  show ?case
  proof (cases "c = ESCAPE_CHARACTER")
    case True
    with "2.prems" obtain d1 d2 cur' where d: "cur0 = d1 # d2 # cur'" "IS_VALID_HEX d1" "IS_VALID_HEX d2"
      by (auto split: list.splits if_splits)
    show ?thesis
    proof (cases in_val)
      case True
      with "2.prems" "2.IH"(2)[OF \<open>c = ESCAPE_CHARACTER\<close> d(1) refl] d \<open>c = ESCAPE_CHARACTER\<close> show ?thesis by auto
    next
      case False
      with "2.prems" d \<open>c = ESCAPE_CHARACTER\<close> obtain g where g: "start_escape type_guess d1 d2 = Some g"
        "value_list_loop True g value_count n cur' = Some (vc', g', n', cur)"
        by (auto split: option.splits)
      with "2.IH"(1)[OF \<open>c = ESCAPE_CHARACTER\<close> d(1) refl _ False g(1)] d show ?thesis by auto
    qed
  next
    case False
    with "2.prems" "2.IH"(3,4) show ?thesis by (auto split: if_splits option.splits)
  qed
qed simp

lemma find_value_list_end_length: "find_value_list_end s = Some (vc', g', n', cur) \<Longrightarrow> length cur \<le> length s"
  by (auto simp: find_value_list_end_def dest: value_list_loop_length)

lemma find_tag_end_length: "length (find_tag_end s) \<le> length s"
  by (simp add: find_tag_end_def length_dropWhile_le)

text \<open>The text between two pointers into the same string.\<close>

definition upto_ptr :: "string \<Rightarrow> string \<Rightarrow> string" where
  "upto_ptr start end = take (length start - length end) start"

function destringify_loop ::
  "(nat \<Rightarrow> bool) \<Rightarrow> attr_state \<Rightarrow> string \<Rightarrow> string \<Rightarrow> SLPAttributes \<Rightarrow> (SLPError \<times> SLPAttributes) res" where
  "destringify_loop mok state tag cur a =
     (if cur = [] then Inr (SLP_OK, a)
      else
        (case state of
           START_ATTR \<Rightarrow>
             (if hd cur = CHR ''('' then destringify_loop mok START_TAG tag (tl cur) a
              else
                (let end = find_tag_end cur in
                 if end = [] then Inr (SLP_OK, snd (SLPAttrSet_keyw_len (mok (length cur)) a cur))
                 else if hd end = CHR '','' then
                   destringify_loop mok START_ATTR tag (tl end) (snd (SLPAttrSet_keyw_len (mok (length cur)) a (upto_ptr cur end)))
                 else Inr (SLP_PARAMETER_BAD, a)))
         | START_TAG \<Rightarrow>
             (let end = find_tag_end cur in
              if end = [] then Inr (SLP_PARAMETER_BAD, a)
              else if hd end = CHR ''='' then destringify_loop mok VALUE (upto_ptr cur end) (tl end) a
              else Inr (SLP_PARAMETER_BAD, a))
         | VALUE \<Rightarrow>
             (case find_value_list_end cur of
                None \<Rightarrow> Inr (SLP_PARAMETER_BAD, a)
              | Some (val_count, g, unesc_len, end) \<Rightarrow>
                  (if unesc_len \<noteq> 0 then
                     bindR (internal_store (mok (length cur)) a tag (upto_ptr cur end) val_count (type_of_guess g) unesc_len)
                       (\<lambda>r. case r of
                          None \<Rightarrow> Inr (SLP_MEMORY_ALLOC_FAILED, a)
                        | Some a' \<Rightarrow> destringify_loop mok STOP_VALUE tag end a')
                   else destringify_loop mok STOP_VALUE tag end a))
         | STOP_VALUE \<Rightarrow>
             (if hd cur = CHR '')'' then
                (if tl cur = [] then Inr (SLP_OK, a)
                 else if hd (tl cur) \<noteq> CHR '','' then Inr (SLP_PARAMETER_BAD, a)
                 else destringify_loop mok START_ATTR [] (tl (tl cur)) a)
              else Inr (SLP_PARAMETER_BAD, a))))"
  by pat_completeness auto
termination
proof (relation "measure (\<lambda>(mok, st, tag, cur, a). 2 * length cur + (if st = VALUE then 1 else 0))", goal_cases)
  case (3 mok state tag cur a x)
  then show ?case using find_tag_end_length[of cur] by (cases "find_tag_end cur") auto
next
  case (4 mok state tag cur a x)
  then show ?case using find_tag_end_length[of cur] by (cases "find_tag_end cur") auto
next
  case (5 mok state tag cur a x2 x y xa ya xb yb)
  then show ?case by (auto dest: find_value_list_end_length)
next
  case (6 mok state tag cur a x2 x y xa ya xb yb)
  then show ?case by (auto dest: find_value_list_end_length)
next
  case (2 mok state tag cur a)
  then show ?case by (cases cur) auto
next
  case (7 mok state tag cur a)
  then show ?case by (cases cur; cases "tl cur") auto
qed simp

declare destringify_loop.simps [simp del]

definition attr_destringify :: "(nat \<Rightarrow> bool) \<Rightarrow> SLPAttributes \<Rightarrow> string \<Rightarrow> (SLPError \<times> SLPAttributes) res" where
  "attr_destringify mok a str = destringify_loop mok START_ATTR [] str a"

definition SLPAttrAllocStr ::
  "bool \<Rightarrow> (nat \<Rightarrow> bool) \<Rightarrow> string \<Rightarrow> bool \<Rightarrow> bool \<Rightarrow> string \<Rightarrow> (SLPError \<times> SLPAttributes option) res" where
  "SLPAttrAllocStr ok mok lang template_h strict str =
     (case SLPAttrAlloc ok lang template_h strict of
        (SLP_OK, Some a) \<Rightarrow>
          bindR (attr_destringify mok a str) (\<lambda>(err, a). Inr (err, if err = SLP_OK then Some a else None))
      | (err, r) \<Rightarrow> Inr (err, r))"

definition SLPAttrFreshen :: "(nat \<Rightarrow> bool) \<Rightarrow> SLPAttributes \<Rightarrow> string \<Rightarrow> (SLPError \<times> SLPAttributes) res" where
  "SLPAttrFreshen mok a str = attr_destringify mok a str"

definition SLPAttributeSearchString :: "bool \<Rightarrow> string \<Rightarrow> SLPError \<times> string option" where
  "SLPAttributeSearchString ok search_str =
     (if \<not> ok then (SLP_MEMORY_ALLOC_FAILED, None)
      else (case unescape_into search_str of
          None \<Rightarrow> (SLP_PARSE_ERROR, None)
        | Some u \<Rightarrow> (SLP_OK, Some u)))"

section \<open>Iterators\<close>

text \<open>The positions stand for the pointers to the current attribute and value.\<close>

record SLPAttrIterator =
  it_current :: "nat option"
  it_value :: "nat option"

definition SLPAttrIteratorAlloc :: "bool \<Rightarrow> SLPError \<times> SLPAttrIterator option" where
  "SLPAttrIteratorAlloc ok =
     (if ok then (SLP_OK, Some \<lparr>it_current = None, it_value = None\<rparr>) else (SLP_MEMORY_ALLOC_FAILED, None))"

definition SLPAttrIterNext :: "SLPAttributes \<Rightarrow> SLPAttrIterator \<Rightarrow> (string \<times> SLPType) option \<times> SLPAttrIterator" where
  "SLPAttrIterNext a it =
     (let i = (case it_current it of None \<Rightarrow> 0 | Some i \<Rightarrow> i + 1) in
      if i < length (attrs a)
      then (Some (vtag (attrs a ! i), vtype (attrs a ! i)), \<lparr>it_current = Some i, it_value = None\<rparr>)
      else (None, \<lparr>it_current = None, it_value = None\<rparr>))"

definition SLPAttrIterValueNext :: "SLPAttributes \<Rightarrow> SLPAttrIterator \<Rightarrow> value_t option \<times> SLPAttrIterator" where
  "SLPAttrIterValueNext a it =
     (let cur = (case it_current it of None \<Rightarrow> (if attrs a = [] then None else Some 0) | Some i \<Rightarrow> Some i) in
      case cur of
        None \<Rightarrow> (None, it)
      | Some i \<Rightarrow>
          (let j = (case it_value it of None \<Rightarrow> 0 | Some j \<Rightarrow> j + 1) in
           if j < length (vlist (attrs a ! i))
           then (Some (vlist (attrs a ! i) ! j), \<lparr>it_current = Some i, it_value = Some j\<rparr>)
           else (None, \<lparr>it_current = Some i, it_value = None\<rparr>)))"

section \<open>Writing an attribute list\<close>

text \<open>
  \<open>var_iter\<close>: \<open>tags\<close> is \<open>None\<close> where all attributes are wanted, otherwise the
  state is the pair of \<open>tag_cur\<close> and \<open>tag_end\<close>.  It returns the next attribute,
  \<open>None\<close> for a tag that is not there; no result ends the loop.
\<close>

type_synonym iter_state = "(string \<times> string) option \<times> nat option"

definition var_iter :: "SLPAttributes \<Rightarrow> iter_state \<Rightarrow> (nat option \<times> iter_state) option" where
  "var_iter a st =
     (case st of
        (Some (tag_cur, tag_end), var) \<Rightarrow>
          (if tag_end = [] then None
           else
             (let tag_cur = (if length tag_end \<noteq> length tag_cur then tl tag_end else tag_cur);
                  tag_end = dropWhile (\<lambda>c. c \<noteq> CHR '','') tag_cur;
                  var = attr_val_find_str a (takeWhile (\<lambda>c. c \<noteq> CHR '','') tag_cur)
              in Some (var, (Some (tag_cur, tag_end), var))))
      | (None, var) \<Rightarrow>
          (let i = (case var of None \<Rightarrow> 0 | Some i \<Rightarrow> i + 1) in
           if i < length (attrs a) then Some (Some i, (None, Some i)) else None))"

text \<open>The attributes a whole iteration visits, at most \<open>fuel\<close> of them; \<open>None\<close> where it goes on.\<close>

fun var_seq :: "nat \<Rightarrow> SLPAttributes \<Rightarrow> iter_state \<Rightarrow> nat option list option" where
  "var_seq 0 a st = (case var_iter a st of None \<Rightarrow> Some [] | Some _ \<Rightarrow> None)"
| "var_seq (Suc fuel) a st =
     (case var_iter a st of
        None \<Rightarrow> Some []
      | Some (var, st') \<Rightarrow> map_option ((#) var) (var_seq fuel a st'))"

definition iter_start :: "string \<Rightarrow> iter_state" where
  "iter_start tags = (if tags = [] then (None, None) else (Some (tags, tags), None))"

text \<open>The size the first pass computes; a \<open>size_t\<close>, kept as an integer.\<close>

definition skipped :: "bool \<Rightarrow> var_t \<Rightarrow> bool" where
  "skipped find_delta var = (find_delta \<and> \<not> modified var)"

definition var_size :: "var_t \<Rightarrow> int" where
  "var_size var =
     int (length (vtag var))
     + (if vtype var \<noteq> SLP_KEYWORD
        then int (sum_list (map escaped_len (vlist var))) + (list_size var - 1) + 3 else 0)"

definition vars_size :: "var_t list \<Rightarrow> int" where
  "vars_size vs = sum_list (map var_size vs) + (if vs \<noteq> [] then int (length vs) - 1 else 0)"

text \<open>
  Writing at the end of \<open>out\<close>, in a buffer of \<open>cap\<close> bytes; \<open>slack\<close> more bytes
  are written behind it than the pointer moves.
\<close>

definition emit :: "nat \<Rightarrow> nat \<Rightarrow> string \<Rightarrow> string \<Rightarrow> string res" where
  "emit cap slack s out = (if length out + length s + slack \<le> cap then Inr (out @ s) else Inl OutOfBounds)"

fun dec_nat :: "nat \<Rightarrow> string" where
  "dec_nat n = (if n < 10 then [char_of (48 + n)] else dec_nat (n div 10) @ [char_of (48 + n mod 10)])"

declare dec_nat.simps [simp del]

definition dec_int :: "int \<Rightarrow> string" where
  "dec_int n = (if n < 0 then CHR ''-'' # dec_nat (nat (- n)) else dec_nat (nat n))"

definition emit_value :: "nat \<Rightarrow> SLPType \<Rightarrow> value_t \<Rightarrow> string \<Rightarrow> string res" where
  "emit_value cap ty value out =
     (case ty of
        SLP_BOOLEAN \<Rightarrow> emit cap 0 (if va_bool value then ''true'' else ''false'') out
      | SLP_INTEGER \<Rightarrow>
          (let s = dec_int (va_int value) in
           emit cap (length s + 1 - length (take (escaped_len value) s)) (take (escaped_len value) s) out)
      | SLP_OPAQUE \<Rightarrow> emit cap 0 ([ESCAPE_CHARACTER, CHR ''F'', CHR ''F''] @ escape_opaque_into (va_str value)) out
      | _ \<Rightarrow> emit cap 0 (escape_into (va_str value)) out)"

fun emit_values :: "nat \<Rightarrow> SLPType \<Rightarrow> value_t list \<Rightarrow> string \<Rightarrow> string res" where
  "emit_values cap ty [] out = Inr out"
| "emit_values cap ty (v # vs) out =
     bindR (emit_value cap ty v out) (\<lambda>out.
     bindR (if vs \<noteq> [] then emit cap 1 '','' out else Inr out) (\<lambda>out.
     emit_values cap ty vs out))"

definition emit_var :: "nat \<Rightarrow> var_t \<Rightarrow> string \<Rightarrow> string res" where
  "emit_var cap var out =
     (if vtype var = SLP_KEYWORD then emit cap 0 (vtag var) out
      else
        bindR (emit cap 0 (''('' @ vtag var @ ''='') out) (\<lambda>out.
        bindR (emit_values cap (vtype var) (vlist var) out) (\<lambda>out.
        emit cap 1 '')'' out)))"

text \<open>The second pass, which also clears the flags of what it writes.\<close>

fun emit_vars :: "nat \<Rightarrow> bool \<Rightarrow> nat option list \<Rightarrow> SLPAttributes \<Rightarrow> string \<Rightarrow> (string \<times> SLPAttributes) res" where
  "emit_vars sz find_delta [] a out = Inr (out, a)"
| "emit_vars sz find_delta (None # is) a out = emit_vars sz find_delta is a out"
| "emit_vars sz find_delta (Some i # is) a out =
     (let var = attrs a ! i in
      if skipped find_delta var then emit_vars sz find_delta is a out
      else
        bindR (emit_var (sz + 1) var out) (\<lambda>out.
        bindR (if length out < sz then emit (sz + 1) 1 '','' out else Inr out) (\<lambda>out.
        emit_vars sz find_delta is (a\<lparr>attrs := (attrs a)[i := var\<lparr>modified := False\<rparr>]\<rparr>) out)))"

text \<open>
  \<open>bufferlen\<close> is \<open>None\<close> where the buffer is allocated.  The result is the error
  code, the size needed and the text; no result at all is an iteration that has
  not ended after \<open>fuel\<close> attributes.
\<close>

definition SLPAttrSerialize ::
  "nat \<Rightarrow> bool \<Rightarrow> SLPAttributes \<Rightarrow> string \<Rightarrow> nat option \<Rightarrow> bool
     \<Rightarrow> (SLPError \<times> int \<times> string option \<times> SLPAttributes) res option" where
  "SLPAttrSerialize fuel ok a tags bufferlen find_delta =
     (case var_seq fuel a (iter_start tags) of
        None \<Rightarrow> None
      | Some is \<Rightarrow>
          (let wanted = filter (\<lambda>v. \<not> skipped find_delta v) (map (\<lambda>i. attrs a ! i) (map the (filter (\<lambda>i. i \<noteq> None) is)));
               sz = vars_size wanted
           in Some
             (if bufferlen = None \<and> \<not> ok then Inr (SLP_MEMORY_ALLOC_FAILED, sz + 1, None, a)
              else if bufferlen \<noteq> None \<and> sz + 1 > int (the bufferlen) then Inr (SLP_BUFFER_OVERFLOW, sz + 1, None, a)
              else bindR (emit_vars (nat sz) find_delta is a []) (\<lambda>(out, a). Inr (SLP_OK, sz + 1, Some out, a)))))"

section \<open>The invariant of attribute lists\<close>

text \<open>
  The values of an attribute have its type, a keyword has none, the counters
  are the lengths of what they count.
\<close>

definition value_ok :: "SLPType \<Rightarrow> value_t \<Rightarrow> bool" where
  "value_ok ty v =
     (case ty of
        SLP_BOOLEAN \<Rightarrow> (case vdata v of VaBool _ \<Rightarrow> True | _ \<Rightarrow> False)
      | SLP_INTEGER \<Rightarrow> (case vdata v of VaInt n \<Rightarrow> escaped_len v = count_digits n | _ \<Rightarrow> False)
      | SLP_KEYWORD \<Rightarrow> False
      | _ \<Rightarrow> (case vdata v of VaStr s \<Rightarrow> unescaped_len v = Some (length s) | _ \<Rightarrow> False))"

definition wf_var :: "var_t \<Rightarrow> bool" where
  "wf_var var = (list_size var = int (length (vlist var)) \<and> list_all (value_ok (vtype var)) (vlist var))"

definition wf_attrs :: "SLPAttributes \<Rightarrow> bool" where
  "wf_attrs a = (attr_count a = int (length (attrs a)) \<and> list_all wf_var (attrs a))"

lemma wf_keyword: "wf_var var \<Longrightarrow> vtype var = SLP_KEYWORD \<Longrightarrow> vlist var = []"
  by (cases "vlist var") (auto simp: wf_var_def value_ok_def)

lemma wf_destroy: "wf_var (var_list_destroy var)"
  by (simp add: wf_var_def var_list_destroy_def)

lemma wf_insert:
  "wf_var var \<Longrightarrow> (case value of None \<Rightarrow> True | Some v \<Rightarrow> value_ok (vtype var) v) \<Longrightarrow> wf_var (var_insert var value policy)"
  by (auto simp: var_insert_def wf_var_def var_list_destroy_def Let_def split: option.splits)

lemma wf_attr_add: "wf_attrs a \<Longrightarrow> wf_var var \<Longrightarrow> wf_attrs (attr_add a var)"
  by (simp add: wf_attrs_def attr_add_def)

lemma find_var_bound: "find_var vs tag = Some i \<Longrightarrow> i < length vs \<and> tag_matches tag (vs ! i)"
  by (induction vs arbitrary: i) (auto split: if_splits)

lemma wf_update: "wf_attrs a \<Longrightarrow> wf_var var \<Longrightarrow> wf_attrs (a\<lparr>attrs := (attrs a)[i := var]\<rparr>)"
  by (auto simp: wf_attrs_def list_all_iff dest: set_update_subset_insert[THEN subsetD])

lemma generic_set_val_wf:
  assumes "wf_attrs a" "case value of None \<Rightarrow> True | Some v \<Rightarrow> value_ok ty v"
  shows "wf_attrs (snd (generic_set_val ok a tag value policy ty))"
proof (cases "attr_val_find_str a tag")
  case None
  have "wf_var (var_insert \<lparr>vtype = ty, vtag = tag, vlist = [], list_size = 0, modified = True\<rparr> value policy)"
    using assms(2) by (intro wf_insert) (auto simp: wf_var_def split: option.splits)
  with assms(1) None show ?thesis by (simp add: generic_set_val_def wf_attr_add)
next
  case (Some i)
  then have "i < length (attrs a)" by (auto simp: attr_val_find_str_def dest: find_var_bound)
  with assms(1) have v: "wf_var (attrs a ! i)" by (simp add: wf_attrs_def list_all_length)
  show ?thesis
  proof (cases "vtype (attrs a ! i) = ty")
    case True
    with v assms(2) have "wf_var (var_insert (attrs a ! i) value policy)" by (intro wf_insert) auto
    with assms(1) Some True show ?thesis by (simp add: generic_set_val_def Let_def wf_update)
  next
    case False
    have "wf_var (var_insert ((var_list_destroy (attrs a ! i))\<lparr>vtype := ty\<rparr>) value policy)"
      using assms(2) by (intro wf_insert) (auto simp: wf_var_def var_list_destroy_def split: option.splits)
    with assms(1) Some False show ?thesis by (cases policy) (simp_all add: generic_set_val_def Let_def wf_update)
  qed
qed

section \<open>What the setters share\<close>

text \<open>The values a query of the type would see.\<close>

definition typed_values :: "SLPAttributes \<Rightarrow> string \<Rightarrow> SLPType \<Rightarrow> value_t list option" where
  "typed_values a tag ty = (case get_var a tag ty of Inl e \<Rightarrow> None | Inr var \<Rightarrow> Some (vlist var))"

lemma find_var_update:
  "find_var vs tag = Some i \<Longrightarrow> vtag var = vtag (vs ! i) \<Longrightarrow> find_var (vs[i := var]) tag' = find_var vs tag'"
proof (induction vs arbitrary: i)
  case (Cons v vs)
  then show ?case by (cases i) (auto simp: tag_matches_def split: if_splits)
qed simp

lemma vtag_insert [simp]: "vtag (var_insert var value policy) = vtag var"
  and vtype_insert [simp]: "vtype (var_insert var value policy) = vtype var"
  and vtag_destroy [simp]: "vtag (var_list_destroy var) = vtag var"
  by (simp_all add: var_insert_def var_list_destroy_def Let_def split: option.splits)

lemma tag_matches_self: "tag_matches tag var \<Longrightarrow> vtag var = tag \<or> tag_matches tag var" by simp

lemma vlist_insert:
  "vlist (var_insert var (Some v) policy) = v # (if policy = SLP_REPLACE then [] else vlist var)"
  by (simp add: var_insert_def var_list_destroy_def Let_def)

lemma tag_matches_refl: "vtag var = tag \<Longrightarrow> tag_matches tag var"
  by (simp add: tag_matches_def c_strncasecmp_0_iff)

lemma generic_set_val_get:
  assumes "generic_set_val ok a tag (Some v) policy ty = (SLP_OK, a')"
  shows "typed_values a' tag ty =
    Some (v # (if policy = SLP_REPLACE then [] else case typed_values a tag ty of None \<Rightarrow> [] | Some vs \<Rightarrow> vs))"
proof (cases "attr_val_find_str a tag")
  case None
  with assms have a': "a' = attr_add a (var_insert \<lparr>vtype = ty, vtag = tag, vlist = [], list_size = 0, modified = True\<rparr> (Some v) policy)"
    by (simp add: generic_set_val_def split: if_splits)
  have "attr_val_find_str a' tag = Some 0"
    by (simp add: a' attr_val_find_str_def attr_add_def tag_matches_refl)
  with None show ?thesis
    by (simp add: typed_values_def get_var_def a' attr_add_def vlist_insert)
next
  case (Some i)
  let ?var = "attrs a ! i"
  have i: "i < length (attrs a)" using Some by (auto simp: attr_val_find_str_def dest: find_var_bound)
  show ?thesis
  proof (cases "vtype ?var = ty")
    case True
    with Some assms have a': "a' = a\<lparr>attrs := (attrs a)[i := var_insert ?var (Some v) policy]\<rparr>"
      by (simp add: generic_set_val_def Let_def)
    have "attr_val_find_str a' tag = Some i"
      using Some by (simp add: a' attr_val_find_str_def find_var_update)
    with Some True i show ?thesis
      by (simp add: typed_values_def get_var_def a' vlist_insert)
  next
    case False
    with Some assms have a': "policy = SLP_REPLACE"
      "a' = a\<lparr>attrs := (attrs a)[i := var_insert ((var_list_destroy ?var)\<lparr>vtype := ty\<rparr>) (Some v) policy]\<rparr>"
      by (simp_all add: generic_set_val_def Let_def split: if_splits)
    have "attr_val_find_str a' tag = Some i"
      using Some by (simp add: a' attr_val_find_str_def find_var_update)
    with Some False i show ?thesis
      by (simp add: typed_values_def get_var_def a' vlist_insert)
  qed
qed

text \<open>An attribute whose tag differs is the same before and after.\<close>

lemma tag_matches_trans: "tag_matches t var \<Longrightarrow> tag_matches t' var \<Longrightarrow> cfold t = cfold t'"
  by (auto simp: tag_matches_def c_strncasecmp_0_iff)

lemma find_var_head_other:
  "\<not> tag_matches tag' v \<Longrightarrow> find_var (v # vs) tag' = map_option Suc (find_var vs tag')"
  by simp

lemma generic_set_val_other:
  assumes "cfold tag' \<noteq> cfold tag"
  shows "typed_values (snd (generic_set_val ok a tag value policy ty)) tag' ty' = typed_values a tag' ty'"
proof (cases "attr_val_find_str a tag")
  case None
  have "\<not> tag_matches tag' (var_insert \<lparr>vtype = ty, vtag = tag, vlist = [], list_size = 0, modified = True\<rparr> value policy)"
    using assms by (auto simp: tag_matches_def c_strncasecmp_0_iff)
  with None show ?thesis
    by (cases "find_var (attrs a) tag'")
      (auto simp: generic_set_val_def typed_values_def get_var_def attr_val_find_str_def attr_add_def split: if_splits)
next
  case (Some i)
  have ne: "find_var (attrs a) tag' \<noteq> Some i"
    using Some assms find_var_bound[of "attrs a" tag i] find_var_bound[of "attrs a" tag' i] tag_matches_trans
    by (auto simp: attr_val_find_str_def)
  have upd: "typed_values (a\<lparr>attrs := (attrs a)[i := var]\<rparr>) tag' ty' = typed_values a tag' ty'"
    if "vtag var = vtag (attrs a ! i)" for var
    using Some ne that find_var_update[of "attrs a" tag i var tag']
    by (cases "find_var (attrs a) tag'") (auto simp: typed_values_def get_var_def attr_val_find_str_def)
  show ?thesis using Some by (auto simp: generic_set_val_def Let_def intro!: upd)
qed

locale typed_setter =
  fixes setter :: "SLPAttributes \<Rightarrow> string \<Rightarrow> 'v \<Rightarrow> SLPError \<times> SLPAttributes"
    and ty :: SLPType and policy :: SLPInsertionPolicy and mk :: "'v \<Rightarrow> value_t"
  assumes is_generic: "setter a tag v = generic_set_val True a tag (Some (mk v)) policy ty"
    and mk_ok: "value_ok ty (mk v)"
begin

lemma keeps_wf: "wf_attrs a \<Longrightarrow> wf_attrs (snd (setter a tag v))"
  by (simp add: is_generic generic_set_val_wf mk_ok)

lemma get_set: "setter a tag v = (SLP_OK, a') \<Longrightarrow> typed_values a' tag ty =
    Some (mk v # (if policy = SLP_REPLACE then [] else case typed_values a tag ty of None \<Rightarrow> [] | Some vs \<Rightarrow> vs))"
  by (rule generic_set_val_get) (simp add: is_generic)

lemma get_other: "cfold tag' \<noteq> cfold tag \<Longrightarrow> typed_values (snd (setter a tag v)) tag' ty' = typed_values a tag' ty'"
  by (simp add: is_generic generic_set_val_other)

end

interpretation set_str: typed_setter "\<lambda>a tag v. SLPAttrSet_str True a tag v policy" SLP_STRING policy
  "\<lambda>v. \<lparr>escaped_len = find_escaped_size v, unescaped_len = Some (length v), vdata = VaStr v\<rparr>" for policy
  by unfold_locales (simp_all add: SLPAttrSet_str_def value_ok_def)

interpretation set_int: typed_setter "\<lambda>a tag v. SLPAttrSet_int True a tag v policy" SLP_INTEGER policy
  "\<lambda>v. \<lparr>escaped_len = count_digits v, unescaped_len = None, vdata = VaInt v\<rparr>" for policy
  by unfold_locales (simp_all add: SLPAttrSet_int_def value_ok_def)

interpretation set_bool: typed_setter "SLPAttrSet_bool True" SLP_BOOLEAN SLP_REPLACE
  "\<lambda>v. \<lparr>escaped_len = (if v then 4 else 5), unescaped_len = None, vdata = VaBool v\<rparr>"
  by unfold_locales (simp_all add: SLPAttrSet_bool_def value_ok_def)

section \<open>Memory safety of the parser\<close>

text \<open>
  Of the text of a value list: every escape is complete; the characters it
  stands for; the commas in it; and the values that start with an escape,
  which \<open>find_value_list_end\<close> does not count into the unescaped length.
\<close>

fun wesc :: "string \<Rightarrow> bool" where
  "wesc [] = True"
| "wesc (c # s) =
     (if c = ESCAPE_CHARACTER
      then (case s of d1 # d2 # s' \<Rightarrow> IS_VALID_HEX d1 \<and> IS_VALID_HEX d2 \<and> wesc s' | _ \<Rightarrow> False)
      else wesc s)"

fun chars :: "string \<Rightarrow> nat" where
  "chars [] = 0"
| "chars (c # s) =
     (if c = ESCAPE_CHARACTER then (case s of d1 # d2 # s' \<Rightarrow> 1 + chars s' | _ \<Rightarrow> 0)
      else if c = CHR '','' then chars s else 1 + chars s)"

fun leads :: "bool \<Rightarrow> string \<Rightarrow> nat" where
  "leads iv [] = 0"
| "leads iv (c # s) =
     (if c = ESCAPE_CHARACTER then (if iv then 0 else 1) + (case s of d1 # d2 # s' \<Rightarrow> leads True s' | _ \<Rightarrow> 0)
      else leads (c \<noteq> CHR '','') s)"

definition commas :: "string \<Rightarrow> nat" where
  "commas s = length (filter (\<lambda>c. c = CHR '','') s)"

lemma commas_simps [simp]: "commas [] = 0" "commas (c # s) = (if c = CHR '','' then 1 else 0) + commas s"
  by (simp_all add: commas_def)

lemma hex_no_comma: "IS_VALID_HEX d \<Longrightarrow> d \<noteq> CHR '','' \<and> d \<noteq> ESCAPE_CHARACTER"
  by (auto simp: IS_VALID_HEX_def IS_DIGIT_def uchar_def)

lemma not_hex [simp]: "\<not> IS_VALID_HEX CHR '',''" "\<not> IS_VALID_HEX ESCAPE_CHARACTER"
  using hex_no_comma by blast+

lemma value_list_loop_scan:
  "value_list_loop iv g vc n s = Some (vc', g', n', cur) \<Longrightarrow>
     \<exists>r. s = r @ cur \<and> wesc r \<and> vc' = vc + commas r \<and> n' + leads iv r = n + chars r"
proof (induction iv g vc n s rule: value_list_loop.induct)
  case (1 iv g vc n)
  then show ?case by simp
next
  case (2 in_val type_guess value_count n c cur0)
  have stop: "c # cur0 = cur \<Longrightarrow> vc' = value_count \<Longrightarrow> n' = n \<Longrightarrow> ?case"
    by (intro exI[of _ "[]"]) simp
  have step: "\<exists>r. c # cur0 = r @ cur \<and> wesc r \<and> vc' = value_count + commas r \<and> n' + leads in_val r = n + chars r" if "c \<noteq> ESCAPE_CHARACTER" "cur0 = r @ cur" "wesc r"
    "vc' = value_count + commas (c # r)" "n' + leads (c \<noteq> CHR '','') r = n + chars (c # r)" for r
    using that by (intro exI[of _ "c # r"]) simp
  show ?case
  proof (cases "c = ESCAPE_CHARACTER")
    case esc: True
    with "2.prems" obtain d1 d2 cur' where d: "cur0 = d1 # d2 # cur'" "IS_VALID_HEX d1" "IS_VALID_HEX d2"
      by (auto split: list.splits if_splits)
    have ext: "\<exists>r. c # cur0 = r @ cur \<and> wesc r \<and> vc' = value_count + commas r \<and> n' + leads in_val r = n + chars r" if "cur' = r @ cur" "wesc r" "vc' = value_count + commas r"
      "n' + leads True r = n + (if in_val then 1 else 0) + chars r" for r
      using that d esc hex_no_comma[of d1] hex_no_comma[of d2] by (intro exI[of _ "c # d1 # d2 # r"]) simp
    show ?thesis
    proof (cases in_val)
      case True
      with "2.prems" "2.IH"(2)[OF esc d(1) refl] d esc show ?thesis by (auto intro: ext)
    next
      case False
      with "2.prems" d esc obtain g where g: "start_escape type_guess d1 d2 = Some g"
        "value_list_loop True g value_count n cur' = Some (vc', g', n', cur)"
        by (auto split: option.splits)
      with "2.IH"(1)[OF esc d(1) refl _ False g(1)] d False esc show ?thesis by (auto intro: ext)
    qed
  next
    case False
    show ?thesis
    proof (cases "c = CHR '',''")
      case True
      with False "2.prems" have "in_val"
        "value_list_loop False (if type_guess = TYPE_BOOL then TYPE_STR else type_guess) (value_count + 1) n cur0 = Some (vc', g', n', cur)"
        by (simp_all split: if_splits)
      with "2.IH"(3)[OF False True] True obtain r where "cur0 = r @ cur" "wesc r" "vc' = value_count + 1 + commas r"
        "n' + leads False r = n + chars r" by auto
      with True False show ?thesis by (intro step[of r]) simp_all
    next
      case nc: False
      show ?thesis
      proof (cases "c = CHR '')''")
        case True
        with "2.prems" False show ?thesis by (intro stop) simp_all
      next
        case np: False
        with nc False "2.prems" obtain g where g: "\<not> IS_RESERVED c" "plain_char in_val type_guess n c = Some g"
          "value_list_loop True g value_count (n + 1) cur0 = Some (vc', g', n', cur)"
          by (auto split: if_splits option.splits)
        with "2.IH"(4)[OF False nc np] obtain r where "cur0 = r @ cur" "wesc r" "vc' = value_count + commas r"
          "n' + leads True r = n + 1 + chars r" by auto
        with nc False show ?thesis by (intro step[of r]) simp_all
      qed
    qed
  qed
qed

lemma unescape_wesc:
  "wesc s \<Longrightarrow> CHR '','' \<notin> set s \<Longrightarrow> \<exists>u. unescape_into s = Some u \<and> length u = chars s \<and> unescape_count s = chars s"
proof (induction s rule: wesc.induct)
  case (2 c s)
  show ?case
  proof (cases "c = ESCAPE_CHARACTER")
    case True
    with "2.prems" obtain d1 d2 s' where d: "s = d1 # d2 # s'" "IS_VALID_HEX d1" "IS_VALID_HEX d2" "wesc s'"
      by (auto split: list.splits)
    with "2.IH"(1)[OF True d(1) refl] "2.prems" True show ?thesis by auto
  next
    case False
    with "2.IH"(2) "2.prems" show ?thesis by auto
  qed
qed simp

lemma wesc_append: "wesc (p @ CHR '','' # r) \<longleftrightarrow> wesc p \<and> wesc r"
proof (induction p rule: wesc.induct)
  case (2 c s)
  show ?case
  proof (cases "c = ESCAPE_CHARACTER")
    case True
    then show ?thesis
    proof (cases s)
      case (Cons d1 t)
      then show ?thesis using "2.IH"(1)[OF True] True hex_no_comma
        by (cases t) auto
    qed (auto split: list.splits dest: hex_no_comma)
  qed (use "2.IH"(2) in auto)
qed simp

lemma chars_append: "wesc p \<Longrightarrow> chars (p @ CHR '','' # r) = chars p + chars r"
proof (induction p rule: wesc.induct)
  case (2 c s)
  show ?case
  proof (cases "c = ESCAPE_CHARACTER")
    case True
    with "2.prems" obtain d1 d2 s' where d: "s = d1 # d2 # s'" "wesc s'" by (auto split: list.splits)
    with "2.IH"(1)[OF True d(1) refl] True show ?thesis by simp
  qed (use 2 in auto)
qed simp

lemma commas_append [simp]: "commas (p @ r) = commas p + commas r"
  by (simp add: commas_def)

lemma commas_none: "CHR '','' \<notin> set p \<Longrightarrow> commas p = 0"
  by (auto simp: commas_def filter_empty_conv)

lemma store_value_ok:
  assumes "wesc piece" "CHR '','' \<notin> set piece" "ty \<noteq> SLP_KEYWORD"
    and "ty = SLP_BOOLEAN \<longrightarrow> piece \<noteq> [] \<and> (hd piece = CHR ''t'' \<or> hd piece = CHR ''f'')"
    and "mem + SIZEOF_VALUE + chars piece \<le> bs"
  shows "\<exists>v m. store_value ty bs mem piece = Inr (v, m) \<and> value_ok ty v \<and> m \<le> mem + SIZEOF_VALUE + chars piece"
  using unescape_wesc[OF assms(1,2)] assms(3-5)
  by (cases ty) (auto simp: store_value_def value_ok_def Let_def)

lemma store_values_ok:
  assumes "wesc attr" "ty \<noteq> SLP_KEYWORD"
    and "ty = SLP_BOOLEAN \<longrightarrow> commas attr = 0 \<and> attr \<noteq> [] \<and> (hd attr = CHR ''t'' \<or> hd attr = CHR ''f'')"
    and "mem + SIZEOF_VALUE * (1 + commas attr) + chars attr + 7 * commas attr \<le> bs"
  shows "\<exists>vs. store_values ty bs mem attr = Inr vs \<and> length vs = 1 + commas attr \<and> list_all (value_ok ty) vs"
  using assms
proof (induction ty bs mem attr rule: store_values.induct)
  case (1 ty bs mem attr)
  define piece rest where pr: "piece = takeWhile (\<lambda>c. c \<noteq> CHR '','') attr" "rest = dropWhile (\<lambda>c. c \<noteq> CHR '','') attr"
  have attr: "attr = piece @ rest" by (simp add: pr)
  have nc: "CHR '','' \<notin> set piece" by (auto simp: pr dest: set_takeWhileD)
  show ?case
  proof (cases rest)
    case Nil
    with attr have "piece = attr" by simp
    with store_value_ok[of piece ty mem bs] "1.prems" nc obtain v m where
      "store_value ty bs mem piece = Inr (v, m)" "value_ok ty v" by auto
    with Nil \<open>piece = attr\<close> nc show ?thesis
      by (subst store_values.simps) (simp add: pr(1)[symmetric] pr(2)[symmetric] Let_def commas_none)
  next
    case (Cons c r)
    then have "c = CHR '',''" using pr(2) hd_dropWhile[of "\<lambda>c. c \<noteq> CHR '',''" attr] by auto
    with Cons attr have a: "attr = piece @ CHR '','' # r" by simp
    with "1.prems"(1) have w: "wesc piece" "wesc r" by (simp_all add: wesc_append)
    have cm: "commas attr = 1 + commas r" "chars attr = chars piece + chars r"
      by (simp_all add: a commas_none[OF nc] chars_append w)
    then have ty: "ty \<noteq> SLP_BOOLEAN" using "1.prems"(3) by auto
    obtain v m where v: "store_value ty bs mem piece = Inr (v, m)" "value_ok ty v" "m \<le> mem + SIZEOF_VALUE + chars piece"
      using store_value_ok[OF w(1) nc "1.prems"(2), of mem bs] ty "1.prems"(4) cm by auto
    have "fix_memory_alignment m \<le> m + 7" by (simp add: fix_memory_alignment_def)
    then have "fix_memory_alignment m + SIZEOF_VALUE * (1 + commas r) + chars r + 7 * commas r \<le> bs"
      using v(3) "1.prems"(4) cm by simp
    with "1.IH"[OF pr(1) pr(2) v(1) refl] Cons w(2) ty "1.prems"(2) obtain vs where
      "store_values ty bs (fix_memory_alignment m) r = Inr vs" "length vs = 1 + commas r" "list_all (value_ok ty) vs"
      by auto
    with v Cons cm show ?thesis
      by (subst store_values.simps) (simp add: pr(1)[symmetric] pr(2)[symmetric] Let_def)
  qed
qed

text \<open>Escapes right behind a comma or an equals sign.\<close>

fun lead_escapes :: "bool \<Rightarrow> string \<Rightarrow> nat" where
  "lead_escapes sep [] = 0"
| "lead_escapes sep (c # s) =
     (if sep \<and> c = ESCAPE_CHARACTER then 1 else 0) + lead_escapes (c = CHR '','' \<or> c = CHR ''='') s"

lemma lead_escapes_mono: "lead_escapes False s \<le> lead_escapes b s"
  by (cases s) auto

lemma lead_escapes_suffix: "lead_escapes (c = CHR '','' \<or> c = CHR ''='') t \<le> lead_escapes b (p @ c # t)"
proof (induction p arbitrary: b)
  case (Cons d p)
  show ?case using Cons[of "d = CHR '','' \<or> d = CHR ''=''"] by simp
qed simp

lemma hex_no_equals: "IS_VALID_HEX d \<Longrightarrow> d \<noteq> CHR ''=''"
  by (auto simp: IS_VALID_HEX_def IS_DIGIT_def uchar_def)

lemma leads_le: "wesc r \<Longrightarrow> leads iv r \<le> lead_escapes (\<not> iv) (r @ t)"
proof (induction iv r rule: leads.induct)
  case (2 iv c s)
  show ?case
  proof (cases "c = ESCAPE_CHARACTER")
    case True
    with "2.prems" obtain d1 d2 s' where d: "s = d1 # d2 # s'" "IS_VALID_HEX d1" "IS_VALID_HEX d2" "wesc s'"
      by (auto split: list.splits)
    with "2.IH"(1)[OF True d(1) refl] hex_no_comma[of d1] hex_no_comma[of d2] hex_no_equals[of d1] hex_no_equals[of d2] True
    show ?thesis by simp
  next
    case False
    with "2.prems" have "leads (c \<noteq> CHR '','') s \<le> lead_escapes (c = CHR '','') (s @ t)" using "2.IH"(2) by simp
    also have "\<dots> \<le> lead_escapes (c = CHR '','' \<or> c = CHR ''='') (s @ t)"
      using lead_escapes_mono by (cases "c = CHR '',''") auto
    finally show ?thesis using False by simp
  qed
qed simp

lemma plain_char_known: "plain_char iv g n c = Some g' \<Longrightarrow> g' \<noteq> TYPE_UNKNOWN"
  by (auto simp: plain_char_def split: type_guess.splits if_splits)

lemma plain_char_bool: "plain_char iv g n c = Some TYPE_BOOL \<Longrightarrow> g \<noteq> TYPE_UNKNOWN \<Longrightarrow> g = TYPE_BOOL"
  by (auto simp: plain_char_def split: type_guess.splits if_splits)

lemma start_escape_known: "start_escape g d1 d2 = Some g' \<Longrightarrow> g' \<noteq> TYPE_UNKNOWN \<and> (g' = TYPE_BOOL \<longrightarrow> g = TYPE_BOOL)"
  by (auto simp: start_escape_def Let_def split: if_splits)

text \<open>Only a single value that starts like a truth value is taken for one.\<close>

lemma start_escape_not_bool: "start_escape g d1 d2 \<noteq> Some TYPE_BOOL"
  by (cases g) (auto simp: start_escape_def Let_def split: if_splits)

lemma bool_stays:
  "value_list_loop iv g vc n s = Some (vc', TYPE_BOOL, n', cur) \<Longrightarrow> g \<noteq> TYPE_UNKNOWN \<Longrightarrow> g = TYPE_BOOL \<and> vc' = vc"
proof (induction iv g vc n s rule: value_list_loop.induct)
  case (2 in_val type_guess value_count n c cur0)
  show ?case
  proof (cases "c = ESCAPE_CHARACTER")
    case esc: True
    with "2.prems"(1) obtain d1 d2 cur' where d: "cur0 = d1 # d2 # cur'" "IS_VALID_HEX d1" "IS_VALID_HEX d2"
      by (auto split: list.splits if_splits)
    show ?thesis
    proof (cases in_val)
      case True
      with "2.prems" "2.IH"(2)[OF esc d(1) refl] d esc show ?thesis by auto
    next
      case False
      with "2.prems"(1) d esc obtain g where g: "start_escape type_guess d1 d2 = Some g"
        "value_list_loop True g value_count n cur' = Some (vc', TYPE_BOOL, n', cur)"
        by (auto split: option.splits)
      from "2.IH"(1)[OF esc d(1) refl _ False g(1,2)] d(2,3) start_escape_known[OF g(1)] start_escape_not_bool[of type_guess d1 d2] g(1)
      show ?thesis by auto
    qed
  next
    case False
    show ?thesis
    proof (cases "c = CHR '',''")
      case True
      with False "2.prems" "2.IH"(3)[OF False True] show ?thesis by (auto split: if_splits)
    next
      case nc: False
      show ?thesis
      proof (cases "c = CHR '')''")
        case True
        with "2.prems" False show ?thesis by auto
      next
        case np: False
        with nc False "2.prems"(1) obtain g where g: "\<not> IS_RESERVED c" "plain_char in_val type_guess n c = Some g"
          "value_list_loop True g value_count (n + 1) cur0 = Some (vc', TYPE_BOOL, n', cur)"
          by (auto split: if_splits option.splits)
        with "2.IH"(4)[OF False nc np] "2.prems"(2) plain_char_known[OF g(2)] plain_char_bool[of in_val type_guess n c]
        show ?thesis by auto
      qed
    qed
  qed
qed simp

lemma find_value_list_end_bool:
  assumes "find_value_list_end s = Some (vc, TYPE_BOOL, n, cur)"
  shows "vc = 1 \<and> s \<noteq> [] \<and> (hd s = CHR ''t'' \<or> hd s = CHR ''f'') \<and> cur \<noteq> s"
proof (cases s)
  case Nil
  with assms show ?thesis by (simp add: find_value_list_end_def)
next
  case (Cons c s')
  have run: "value_list_loop False TYPE_UNKNOWN 1 0 (c # s') = Some (vc, TYPE_BOOL, n, cur)"
    using assms Cons by (simp add: find_value_list_end_def)
  have ne: "c \<noteq> ESCAPE_CHARACTER"
  proof
    assume esc: "c = ESCAPE_CHARACTER"
    with run obtain d1 d2 cur' g where "start_escape TYPE_UNKNOWN d1 d2 = Some g"
      "value_list_loop True g 1 0 cur' = Some (vc, TYPE_BOOL, n, cur)"
      by (auto split: list.splits if_splits option.splits)
    with bool_stays[of True g 1 0 cur' vc n cur] start_escape_known[of TYPE_UNKNOWN d1 d2 g] start_escape_not_bool[of TYPE_UNKNOWN d1 d2]
    show False by auto
  qed
  with run obtain g where g: "c \<noteq> CHR '','' \<and> c \<noteq> CHR '')''" "plain_char False TYPE_UNKNOWN 0 c = Some g"
    "value_list_loop True g 1 1 s' = Some (vc, TYPE_BOOL, n, cur)"
    by (auto split: if_splits option.splits)
  from bool_stays[OF g(3) plain_char_known[OF g(2)]] have "g = TYPE_BOOL" "vc = 1" by simp_all
  moreover from value_list_loop_length[OF g(3)] Cons have "cur \<noteq> s" by auto
  ultimately show ?thesis using g(2) Cons by (auto simp: plain_char_def split: if_splits)
qed

lemma internal_store_ok:
  assumes "find_value_list_end s = Some (vc, g, n, cur)" "lead_escapes True s \<le> 7" "wf_attrs a" "n \<noteq> 0"
  shows "\<exists>r. internal_store ok a tag (upto_ptr s cur) vc (type_of_guess g) n = Inr r
    \<and> (case r of None \<Rightarrow> True | Some a' \<Rightarrow> wf_attrs a')"
proof -
  from value_list_loop_scan[OF assms(1)[unfolded find_value_list_end_def]]
  obtain r where r: "s = r @ cur" "wesc r" "vc = 1 + commas r" "n + leads False r = chars r" by auto
  have up: "upto_ptr s cur = r" by (simp add: r(1) upto_ptr_def)
  have "leads False r \<le> 7" using leads_le[OF r(2), of False cur] assms(2) r(1) by simp
  then have "0 + SIZEOF_VALUE * (1 + commas r) + chars r + 7 * commas r \<le> block_size vc n"
    using r(3,4) by (simp add: block_size_def)
  moreover have "type_of_guess g = SLP_BOOLEAN \<longrightarrow> commas r = 0 \<and> r \<noteq> [] \<and> (hd r = CHR ''t'' \<or> hd r = CHR ''f'')"
  proof
    assume "type_of_guess g = SLP_BOOLEAN"
    then have "g = TYPE_BOOL" by (auto simp: type_of_guess_def split: type_guess.splits)
    with find_value_list_end_bool[of s vc n cur] assms(1) r show "commas r = 0 \<and> r \<noteq> [] \<and> (hd r = CHR ''t'' \<or> hd r = CHR ''f'')"
      by (cases r) auto
  qed
  moreover have "type_of_guess g \<noteq> SLP_KEYWORD" by (auto simp: type_of_guess_def split: type_guess.splits)
  ultimately obtain vs where vs: "store_values (type_of_guess g) (block_size vc n) 0 r = Inr vs"
    "length vs = 1 + commas r" "list_all (value_ok (type_of_guess g)) vs"
    using store_values_ok[of r "type_of_guess g" 0 "block_size vc n"] r(2) by auto
  have "wf_var \<lparr>vtype = type_of_guess g, vtag = tag, vlist = vs, list_size = int vc, modified = True\<rparr>"
    using vs r(3) by (simp add: wf_var_def)
  then show ?thesis using vs(1) assms(3) by (simp add: internal_store_def up wf_attr_add)
qed

lemma keyw_wf: "wf_attrs a \<Longrightarrow> wf_attrs (snd (SLPAttrSet_keyw_len ok a tag))"
  by (simp add: SLPAttrSet_keyw_len_def generic_set_val_wf)

lemma find_tag_end_split: "\<exists>p. cur = p @ find_tag_end cur"
  unfolding find_tag_end_def by (rule exI[of _ "takeWhile (\<lambda>c. \<not> IS_INVALID_TAG_CHAR c) cur"]) simp

lemma lead_escapes_behind:
  assumes "find_tag_end cur = c # t"
  shows "lead_escapes (c = CHR '','' \<or> c = CHR ''='') t \<le> lead_escapes b cur"
proof -
  obtain p where "cur = p @ find_tag_end cur" using find_tag_end_split by blast
  with assms have "cur = p @ c # t" by simp
  then show ?thesis using lead_escapes_suffix[of c t b p] by simp
qed

lemma destringify_loop_ok:
  assumes "wf_attrs a" "lead_escapes (state = VALUE) cur \<le> 7"
  shows "\<exists>e a'. destringify_loop mok state tag cur a = Inr (e, a') \<and> wf_attrs a'"
  using assms
proof (induction mok state tag cur a rule: destringify_loop.induct)
  case (1 mok state tag cur a)
  note IH = "1.IH" and wf = "1.prems"(1) and le = "1.prems"(2)
  show ?case
  proof (cases cur)
    case Nil
    then show ?thesis using wf by (subst destringify_loop.simps) simp
  next
    case (Cons c t)
    have le_t: "lead_escapes False t \<le> 7" if "state \<noteq> VALUE"
      using le that Cons lead_escapes_mono[of t "c = CHR '','' \<or> c = CHR ''=''"] by simp
    show ?thesis
    proof (cases state)
      case START_ATTR
      show ?thesis
      proof (cases "c = CHR ''(''")
        case True
        with Cons START_ATTR IH(1) wf le_t show ?thesis by (subst destringify_loop.simps) simp
      next
        case False
        show ?thesis
        proof (cases "find_tag_end cur")
          case Nil
          with Cons START_ATTR False wf show ?thesis
            by (subst destringify_loop.simps) (simp add: Let_def keyw_wf)
        next
          case (Cons d u)
          have "lead_escapes False u \<le> 7"
            using lead_escapes_behind[OF Cons, of False] le START_ATTR lead_escapes_mono[of u "d = CHR '','' \<or> d = CHR ''=''"] by simp
          with IH(2)[OF _ START_ATTR] Cons \<open>cur = c # t\<close> START_ATTR False wf show ?thesis
            by (subst destringify_loop.simps) (auto simp: Let_def keyw_wf)
        qed
      qed
    next
      case START_TAG
      show ?thesis
      proof (cases "find_tag_end cur")
        case Nil
        with Cons START_TAG wf show ?thesis by (subst destringify_loop.simps) (simp add: Let_def)
      next
        case (Cons d u)
        show ?thesis
        proof (cases "d = CHR ''=''")
          case True
          have "lead_escapes True u \<le> 7" using lead_escapes_behind[OF Cons, of False] le START_TAG True by simp
          with IH(3)[OF _ START_TAG] Cons \<open>cur = c # t\<close> START_TAG True wf show ?thesis
            by (subst destringify_loop.simps) (auto simp: Let_def)
        next
          case False
          with Cons \<open>cur = c # t\<close> START_TAG wf show ?thesis by (subst destringify_loop.simps) (simp add: Let_def)
        qed
      qed
    next
      case VALUE
      have le': "lead_escapes True cur \<le> 7" using le VALUE by simp
      show ?thesis
      proof (cases "find_value_list_end cur")
        case None
        with Cons VALUE wf show ?thesis by (subst destringify_loop.simps) simp
      next
        case (Some x)
        obtain vc g n "end" where x: "x = (vc, g, n, end)" by (cases x) auto
        with Some have f: "find_value_list_end cur = Some (vc, g, n, end)" by simp
        from value_list_loop_scan[OF f[unfolded find_value_list_end_def]] obtain r where "cur = r @ end" by auto
        then have le_end: "lead_escapes False end \<le> 7"
        proof (induction r rule: rev_induct)
          case Nil
          then show ?case using le' lead_escapes_mono[of "end" True] by simp
        next
          case (snoc d r)
          then show ?case using lead_escapes_suffix[of d "end" True r] lead_escapes_mono[of "end" "d = CHR '','' \<or> d = CHR ''=''"] le' by simp
        qed
        show ?thesis
        proof (cases "n = 0")
          case True
          with IH(5)[OF _ VALUE f refl refl refl] Cons VALUE f wf le_end show ?thesis
            by (subst destringify_loop.simps) simp
        next
          case False
          obtain s where s: "internal_store (mok (length cur)) a tag (upto_ptr cur end) vc (type_of_guess g) n = Inr s"
            "case s of None \<Rightarrow> True | Some a' \<Rightarrow> wf_attrs a'"
            using internal_store_ok[OF f le' wf False] by blast
          show ?thesis
          proof (cases s)
            case None
            with s Cons VALUE f wf False show ?thesis by (subst destringify_loop.simps) simp
          next
            case (Some a')
            have "\<exists>e a''. destringify_loop mok STOP_VALUE tag end a' = Inr (e, a'') \<and> wf_attrs a''"
              by (rule IH(4)[OF _ VALUE f refl refl refl]) (use s Some Cons False le_end in auto)
            with s Some \<open>cur = c # t\<close> VALUE f wf False show ?thesis by (subst destringify_loop.simps) simp
          qed
        qed
      qed
    next
      case STOP_VALUE
      show ?thesis
      proof (cases "c = CHR '')'' \<and> t \<noteq> [] \<and> hd t = CHR '',''")
        case True
        then obtain u where u: "t = CHR '','' # u" by (cases t) auto
        have "lead_escapes False u \<le> 7" using le_t STOP_VALUE u lead_escapes_mono[of u True] by simp
        with IH(6) STOP_VALUE Cons u True wf show ?thesis by (subst destringify_loop.simps) simp
      next
        case False
        with Cons STOP_VALUE wf show ?thesis by (subst destringify_loop.simps) auto
      qed
    qed
  qed
qed

definition no_attrs :: SLPAttributes where
  "no_attrs = \<lparr>alang = ''en'', attrs = [], attr_count = 0\<rparr>"

lemma wf_no_attrs: "wf_attrs no_attrs"
  by (simp add: wf_attrs_def no_attrs_def)




section \<open>Escapes\<close>

lemma uchar_digit: "0 \<le> h \<Longrightarrow> h < 16 \<Longrightarrow> uchar (digit_char h) = nat (if h < 10 then h + 48 else h + 55)"
  by (auto simp: digit_char_def Let_def)

lemma digit_char_ok: "0 \<le> h \<Longrightarrow> h < 16 \<Longrightarrow> IS_VALID_HEX (digit_char h) \<and> hexdigit (digit_char h) = h"
  by (auto simp: IS_VALID_HEX_def IS_DIGIT_def hexdigit_def uchar_digit split: if_splits)

lemma schar_uchar: "schar c = (if uchar c < 128 then int (uchar c) else int (uchar c) - 256)"
proof -
  have "(of_char c :: int) = int (of_char c)" by (simp only: of_nat_of_char)
  then show ?thesis by (simp add: schar_def uchar_def)
qed

lemma escape_char: "uchar c < 128 \<Longrightarrow> unescape_into (escape False c) = Some [c]"
proof -
  assume c: "uchar c < 128"
  then have s: "schar c = int (uchar c)" by (simp add: schar_uchar)
  have d: "0 \<le> schar c div 16" "schar c div 16 < 16" "0 \<le> schar c mod 16" "schar c mod 16 < 16" using c s by auto
  have "unescape (digit_char (schar c div 16)) (digit_char (schar c mod 16)) = char_of (nat (schar c mod 256))"
    using digit_char_ok[OF d(1,2)] digit_char_ok[OF d(3,4)] by (simp add: unescape_def)
  moreover have "schar c mod 256 = int (uchar c)" using c s by simp
  ultimately show ?thesis using digit_char_ok[OF d(1,2)] digit_char_ok[OF d(3,4)] by (simp add: escape_def) (simp add: uchar_def)
qed

lemma legal_or_small: "is_legal_slp_char c \<or> uchar c < 128"
  by (auto simp: is_legal_slp_char_def uchar_def)

text \<open>The first digit written for a byte from 128 on is the character \<open>/\<close> or one of \<open>0\<close> to \<open>6\<close>.\<close>

lemma escape_opaque_wrong:
  assumes "\<not> uchar c < 128"
  shows "\<exists>d1 d2. escape False c = [ESCAPE_CHARACTER, d1, d2] \<and> (\<not> IS_VALID_HEX d1 \<or> unescape d1 d2 \<noteq> c)"
proof -
  define q where "q = schar c div 16"
  have s: "schar c = int (uchar c) - 256" using assms by (simp add: schar_uchar)
  have q: "-8 \<le> q" "q < 0" using s assms uchar_less[of c] unfolding q_def by linarith+
  have "(q + 256) mod 256 = q + 256" using q by (intro mod_pos_pos_trivial) auto
  then have m: "q mod 256 = q + 256" by simp
  have u: "uchar (digit_char q) = nat (q + 55)"
  proof -
    have "(q + 55) mod 256 = q + 55" using q by (intro mod_pos_pos_trivial) auto
    then have "(q + 256 + 55) mod 256 = q + 55" by (metis add.assoc add.commute mod_add_self1)
    then show ?thesis using q by (simp add: digit_char_def Let_def m nat_less_iff)
  qed
  have r: "0 \<le> schar c mod 16" "schar c mod 16 < 16" by simp_all
  have "unescape (digit_char q) (digit_char (schar c mod 16)) \<noteq> c" if "IS_VALID_HEX (digit_char q)"
  proof -
    have h: "hexdigit (digit_char q) = q + 7" "0 \<le> q + 7" using that q u
      by (auto simp: IS_VALID_HEX_def IS_DIGIT_def hexdigit_def nat_le_iff le_nat_iff)
    have "hexdigit (digit_char (schar c mod 16)) + hexdigit (digit_char q) * 16 < 128"
      "0 \<le> hexdigit (digit_char (schar c mod 16)) + hexdigit (digit_char q) * 16"
      using digit_char_ok[OF r] h q by auto
    then have "uchar (unescape (digit_char q) (digit_char (schar c mod 16))) < 128" by (simp add: unescape_def nat_less_iff)
    with assms show ?thesis by auto
  qed
  then show ?thesis unfolding escape_def q_def by auto
qed

lemma unescape_escaped: "unescape_into (escape False c) = Some [c] \<Longrightarrow>
    unescape_into (escape False c @ s) = map_option ((#) c) (unescape_into s)"
  by (auto simp: escape_def split: if_splits option.splits)

text \<open>
  C21: unescaping undoes the escaping of a text, whose length is the one
  computed beforehand.
\<close>

theorem escape_into_roundtrip: "unescape_into (escape_into s) = Some s \<and> length (escape_into s) = find_escaped_size s"
proof (induction s)
  case (Cons c s)
  show ?case
  proof (cases "is_legal_slp_char c")
    case True
    then have "c \<noteq> ESCAPE_CHARACTER" by (auto simp: is_legal_slp_char_def)
    with Cons True show ?thesis by (simp add: escape_into_def escape_def find_escaped_size_def)
  next
    case False
    with legal_or_small[of c] escape_char[of c] have "unescape_into (escape False c) = Some [c]" by blast
    from unescape_escaped[OF this, of "escape_into s"] Cons False show ?thesis
      by (simp add: escape_into_def find_escaped_size_def) (simp add: escape_def)
  qed
qed (simp add: escape_into_def find_escaped_size_def)

text \<open>
  The escaping of opaque bytes can be undone for bytes below 128 only; the
  first digit of the others is computed from a negative number.
\<close>

theorem escape_opaque_into_iff: "unescape_into (escape_opaque_into s) = Some s \<longleftrightarrow> list_all (\<lambda>c. uchar c < 128) s"
proof (induction s)
  case (Cons c s)
  show ?case
  proof (cases "uchar c < 128")
    case True
    then have "unescape_into (escape False c) = Some [c]" by (rule escape_char)
    from unescape_escaped[OF this, of "escape_opaque_into s"] Cons True show ?thesis
      by (auto simp: escape_opaque_into_def)
  next
    case False
    from escape_opaque_wrong[OF this] obtain d1 d2 where
      "escape False c = [ESCAPE_CHARACTER, d1, d2]" "\<not> IS_VALID_HEX d1 \<or> unescape d1 d2 \<noteq> c" by auto
    with False show ?thesis by (auto simp: escape_opaque_into_def)
  qed
qed (simp add: escape_opaque_into_def)

section \<open>Queries after updates\<close>

lemma get_str_typed:
  assumes "wf_attrs a"
  shows "SLPAttrGet_str True a tag =
    (case get_var a tag SLP_STRING of Inl e \<Rightarrow> Inr (e, []) | Inr var \<Rightarrow> Inr (SLP_OK, map va_str (vlist var)))"
proof (cases "get_var a tag SLP_STRING")
  case (Inr var)
  then obtain i where "attr_val_find_str a tag = Some i" "var = attrs a ! i"
    by (auto simp: get_var_def split: option.splits if_splits)
  then have "wf_var var" using assms find_var_bound[of "attrs a" tag i]
    by (auto simp: wf_attrs_def list_all_length attr_val_find_str_def)
  with Inr show ?thesis by (simp add: SLPAttrGet_str_def list_values_def wf_var_def)
qed (simp add: SLPAttrGet_str_def)

text \<open>
  C22: after setting a string the query returns it, alone or in front of the
  strings that were there, and every other attribute is as before.
\<close>

theorem SLPAttrSet_str_get:
  assumes "wf_attrs a" "SLPAttrSet_str True a tag val policy = (SLP_OK, a')"
  shows "wf_attrs a'
    \<and> SLPAttrGet_str True a' tag = Inr (SLP_OK,
        val # (if policy = SLP_REPLACE then [] else case SLPAttrGet_str True a tag of Inr (SLP_OK, vs) \<Rightarrow> vs | _ \<Rightarrow> []))
    \<and> (cfold tag' \<noteq> cfold tag \<longrightarrow> typed_values a' tag' ty' = typed_values a tag' ty')"
proof (intro conjI impI)
  show wf: "wf_attrs a'" using set_str.keeps_wf[OF assms(1), of tag val policy] assms(2) by simp
  let ?v = "\<lparr>escaped_len = find_escaped_size val, unescaped_len = Some (length val), vdata = VaStr val\<rparr>"
  have "typed_values a' tag SLP_STRING = Some (?v # (if policy = SLP_REPLACE then []
      else case typed_values a tag SLP_STRING of None \<Rightarrow> [] | Some vs \<Rightarrow> vs))"
    by (rule set_str.get_set[OF assms(2)])
  then show "SLPAttrGet_str True a' tag = Inr (SLP_OK,
        val # (if policy = SLP_REPLACE then [] else case SLPAttrGet_str True a tag of Inr (SLP_OK, vs) \<Rightarrow> vs | _ \<Rightarrow> []))"
    by (auto simp: get_str_typed[OF wf] get_str_typed[OF assms(1)] typed_values_def va_str_def get_var_def
        split: sum.splits if_splits option.splits SLPError.splits)
  show "typed_values a' tag' ty' = typed_values a tag' ty'" if "cfold tag' \<noteq> cfold tag"
    using set_str.get_other[OF that, of a val policy ty'] assms(2) by simp
qed

theorem SLPAttrSet_str_get_witness:
  "\<exists>a'. SLPAttrGet_str True a' ''Color'' = Inr (SLP_OK, [''red''])"
proof -
  obtain a' where "SLPAttrSet_str True no_attrs ''Color'' ''red'' SLP_ADD = (SLP_OK, a')"
    by (auto simp: SLPAttrSet_str_def generic_set_val_def attr_val_find_str_def no_attrs_def)
  from SLPAttrSet_str_get[OF wf_no_attrs this]
  have "SLPAttrGet_str True a' ''Color'' = Inr (SLP_OK, [''red''])"
    by (auto simp: SLPAttrGet_str_def get_var_def attr_val_find_str_def no_attrs_def)
  then show ?thesis by blast
qed

section \<open>What serialising gets wrong\<close>

lemma char_of_ten: "char_of (49 :: nat) = CHR ''1''" "char_of (48 :: nat) = CHR ''0''"
  by code_simp+

text \<open>
  The number of digits of a power of ten is counted one short, so that an
  integer attribute with the value 10 is written as 1.
\<close>

theorem SLPAttrSerialize_ten:
  "\<exists>a a'. SLPAttrSet_int True no_attrs ''a'' 10 SLP_ADD = (SLP_OK, a)
     \<and> SLPAttrGet_int True a ''a'' = Inr (SLP_OK, [10])
     \<and> SLPAttrSerialize 1 True a [] None False = Some (Inr (SLP_OK, 6, Some ''(a=1)'', a'))"
  by (simp add: SLPAttrSet_int_def generic_set_val_def attr_val_find_str_def no_attrs_def SLPAttrGet_int_def
      get_var_def attr_add_def var_insert_def list_values_def va_int_def tag_matches_def count_digits_def ceil_log10.simps
      char_of_ten SLPAttrSerialize_def iter_start_def var_iter_def var_size_def vars_size_def skipped_def emit_var_def emit_def
      emit_value_def dec_int_def dec_nat.simps Let_def c_strncasecmp_0_iff)

lemma var_seq_stuck:
  "var_seq fuel a (Some (CHR '','' # s, CHR '','' # s), var) = None"
proof (induction fuel arbitrary: var)
  case 0
  show ?case by (simp add: var_iter_def Let_def)
next
  case (Suc fuel)
  then show ?case by (simp add: var_iter_def Let_def)
qed

text \<open>
  A tag list with an empty item in front of a comma is never finished: the
  iterator stays at the empty item.
\<close>

theorem SLPAttrSerialize_empty_tag:
  "SLPAttrSerialize fuel ok a '',b'' bufferlen find_delta = None"
  by (simp add: SLPAttrSerialize_def iter_start_def var_seq_stuck)

end
