(* ===== verification/SLPD_Predicate.thy ===== *)
theory SLPD_Predicate
  imports SLP_Attr
begin

text \<open>
  Search predicates, \<open>slpd/slpd_predicate.c\<close>: LDAPv3 filters parsed to a tree
  and applied to an attribute list, or evaluated directly on the text, and the
  selection of attributes for an attribute request.  It is the SLPv2 part (a
  build without \<open>ENABLE_SLPv1\<close>) and, as in the attribute library, assertions do
  nothing.  The operands of a node are a null-terminated copy; \<open>junk\<close> is what
  follows the copy of the value in the memory of the node.
\<close>

section \<open>Comparing with escapes and wildcards\<close>

datatype FilterResult =
  FR_UNSET | FR_INTERNAL_SYSTEM_ERROR | FR_PARSE_ERROR | FR_MEMORY_ALLOC_FAILED | FR_EVAL_TRUE | FR_EVAL_FALSE

datatype Operation = EQUAL | APPROX | GREATER | LESS | PRESENT

abbreviation WILDCARD :: char where "WILDCARD \<equiv> CHR ''*''"

text \<open>\<open>seq_pos\<close>, the unescaped length so far and the rest of the string.\<close>

fun escaped_verify_loop :: "nat \<Rightarrow> nat \<Rightarrow> string \<Rightarrow> nat option" where
  "escaped_verify_loop seq_pos n [] = Some n"
| "escaped_verify_loop seq_pos n (c # s) =
     (if seq_pos = 1 \<or> seq_pos = 2 then
        (if \<not> IS_VALID_HEX c then None
         else escaped_verify_loop (if c = ESCAPE_CHARACTER then 1 else if seq_pos = 2 then 0 else 2) n s)
      else escaped_verify_loop (if c = ESCAPE_CHARACTER then 1 else seq_pos) (n + 1) s)"

definition escaped_verify :: "string \<Rightarrow> nat option" where
  "escaped_verify escaped = escaped_verify_loop 0 0 escaped"

text \<open>A digit here; only upper-case letters are told from decimal digits.\<close>

definition upper_digit :: "char \<Rightarrow> int" where
  "upper_digit d = (if 65 \<le> uchar d \<and> uchar d \<le> 70 then int (uchar d) - 65 + 10 else int (uchar d) - 48)"

definition unescape_check :: "char \<Rightarrow> char \<Rightarrow> char option" where
  "unescape_check d1 d2 =
     (if \<not> IS_VALID_HEX d1 \<or> \<not> IS_VALID_HEX d2 then None
      else Some (char_of (nat ((upper_digit d2 + upper_digit d1 * 16) mod 256))))"

definition c_isalpha :: "char \<Rightarrow> bool" where
  "c_isalpha c = (65 \<le> uchar c \<and> uchar c \<le> 90 \<or> 97 \<le> uchar c \<and> uchar c \<le> 122)"

definition same_char :: "char \<Rightarrow> char \<Rightarrow> bool" where
  "same_char unesc ver =
     (\<not> (unesc \<noteq> ver \<and> (\<not> uchar unesc < 128 \<or> \<not> c_isalpha unesc \<or> \<not> c_isalpha ver \<or> c_tolower unesc \<noteq> c_tolower ver)))"

text \<open>The second result is the count of unescaped characters, set when the whole of \<open>escaped\<close> was compared.\<close>

fun unescape_cmp_loop :: "bool \<Rightarrow> nat \<Rightarrow> string \<Rightarrow> string \<Rightarrow> FilterResult \<times> nat" where
  "unescape_cmp_loop strict_len ver_i [] verbatim =
     (if strict_len then (if verbatim = [] then FR_EVAL_TRUE else FR_EVAL_FALSE) else FR_EVAL_TRUE, ver_i)"
| "unescape_cmp_loop strict_len ver_i (c # s) [] = (FR_EVAL_FALSE, 0)"
| "unescape_cmp_loop strict_len ver_i (c # s) (v # vs) =
     (if c = ESCAPE_CHARACTER then
        (case s of
           d1 # d2 # s' \<Rightarrow>
             (case unescape_check d1 d2 of
                None \<Rightarrow> (FR_PARSE_ERROR, 0)
              | Some unesc \<Rightarrow>
                  (if same_char unesc v then unescape_cmp_loop strict_len (ver_i + 1) s' vs else (FR_EVAL_FALSE, 0)))
         | _ \<Rightarrow> (FR_PARSE_ERROR, 0))
      else if same_char c v then unescape_cmp_loop strict_len (ver_i + 1) s vs
      else (FR_EVAL_FALSE, 0))"

definition unescape_cmp :: "string \<Rightarrow> string \<Rightarrow> bool \<Rightarrow> FilterResult \<times> nat" where
  "unescape_cmp escaped verbatim strict_len = unescape_cmp_loop strict_len 0 escaped verbatim"

text \<open>The offset of the first match and the number of characters that match.\<close>

fun memmem_loop :: "string \<Rightarrow> nat \<Rightarrow> nat \<Rightarrow> string \<Rightarrow> (nat \<times> nat) option" where
  "memmem_loop needle needle_len offset haystack =
     (if length haystack < needle_len then None
      else
        (case unescape_cmp needle haystack False of
           (FR_EVAL_TRUE, n) \<Rightarrow> Some (offset, n)
         | (FR_EVAL_FALSE, _) \<Rightarrow>
             (case haystack of [] \<Rightarrow> None | _ # h \<Rightarrow> memmem_loop needle needle_len (offset + 1) h)
         | _ \<Rightarrow> None))"

declare memmem_loop.simps [simp del]

definition my_memmem :: "string \<Rightarrow> string \<Rightarrow> (nat \<times> nat) option" where
  "my_memmem haystack needle =
     (case escaped_verify needle of None \<Rightarrow> None | Some n \<Rightarrow> memmem_loop needle n 0 haystack)"

lemma wc_rest_shorter:
  "dropWhile (\<lambda>c. c = x) p \<noteq> [] \<Longrightarrow> length (dropWhile (\<lambda>c. c \<noteq> x) (dropWhile (\<lambda>c. c = x) p)) < length p"
proof -
  assume ne: "dropWhile (\<lambda>c. c = x) p \<noteq> []"
  then obtain d u where d: "dropWhile (\<lambda>c. c = x) p = d # u" by (cases "dropWhile (\<lambda>c. c = x) p") auto
  then have "d \<noteq> x" using hd_dropWhile[OF ne] by simp
  then have "length (dropWhile (\<lambda>c. c \<noteq> x) (d # u)) \<le> length u" by (simp add: length_dropWhile_le)
  also have "\<dots> < length p" using length_dropWhile_le[of "\<lambda>c. c = x" p] d by simp
  finally show ?thesis by (simp only: d)
qed

text \<open>
  \<open>behind\<close> is the readable memory behind the pattern.  The search for the next
  wildcard starts behind the leading ones but covers \<open>pattern_len\<close> characters,
  so it reads as many characters behind the pattern as there are leading
  wildcards; a wildcard found there leaves a length that is below zero.
\<close>

function wildcard_wc_str :: "string \<Rightarrow> string \<Rightarrow> string \<Rightarrow> FilterResult res" where
  "wildcard_wc_str behind pattern str =
     (if pattern = [] \<and> str = [] then Inr FR_EVAL_TRUE
      else if pattern = [] then Inr FR_EVAL_FALSE
      else
        (let text = dropWhile (\<lambda>c. c = WILDCARD) pattern; k = length pattern - length text in
         if text = [] then Inr FR_EVAL_TRUE
         else
           (let lit = takeWhile (\<lambda>c. c \<noteq> WILDCARD) text; rest = dropWhile (\<lambda>c. c \<noteq> WILDCARD) text in
            if rest = [] \<and> (length behind < k \<or> WILDCARD \<in> set (take k behind)) then Inl OutOfBounds
            else if rest = [] \<and> escaped_verify lit = None then Inr FR_EVAL_FALSE
            else if rest = [] \<and> the (escaped_verify lit) > length str then Inr FR_EVAL_FALSE
            else
              (let str = (if rest = [] then drop (length str - the (escaped_verify lit)) str else str) in
               case my_memmem str lit of
                 None \<Rightarrow> Inr FR_EVAL_FALSE
               | Some (found, match_len) \<Rightarrow> wildcard_wc_str behind rest (drop (found + match_len) str)))))"
  by pat_completeness auto

termination
proof (relation "measure (\<lambda>(behind, p, s). length p)", goal_cases)
  case (2 behind pattern str tx k lit rest str' p found match_len)
  then have "tx \<noteq> []" by blast
  with 2 show ?case using wc_rest_shorter[of WILDCARD pattern] by (simp only: in_measure prod.case)
qed simp

declare wildcard_wc_str.simps [simp del]

definition wildcard :: "string \<Rightarrow> string \<Rightarrow> string \<Rightarrow> FilterResult res" where
  "wildcard behind pattern str =
     (if WILDCARD \<notin> set pattern then Inr (fst (unescape_cmp pattern str True))
      else
        (let lead = takeWhile (\<lambda>c. c \<noteq> WILDCARD) pattern;
             (err, n) = (if lead \<noteq> [] then unescape_cmp lead str False else (FR_EVAL_TRUE, 0))
         in if err \<noteq> FR_EVAL_TRUE then Inr err
            else wildcard_wc_str behind (drop (length lead) pattern) (drop n str)))"

section \<open>Comparison of one attribute\<close>

definition is_bool_string :: "string \<Rightarrow> bool option" where
  "is_bool_string str = (if str = ''true'' then Some True else if str = ''false'' then Some False else None)"

text \<open>\<open>strtol\<close> to base 10: the value and what it stopped at.\<close>

definition c_strtol10 :: "string \<Rightarrow> int \<times> string" where
  "c_strtol10 s =
     (let t = dropWhile c_isspace s;
          neg = (t \<noteq> [] \<and> hd t = CHR ''-'');
          u = (if t \<noteq> [] \<and> (hd t = CHR ''-'' \<or> hd t = CHR ''+'') then tl t else t);
          n = digit_run 10 u; n = (if neg then - n else n)
      in if takeWhile IS_DIGIT u = [] then (0, s)
         else (max (- (2 ^ 63)) (min (2 ^ 63 - 1) n), dropWhile IS_DIGIT u))"

text \<open>The attribute of a tag; a null attribute list is dereferenced.\<close>

definition attr_var :: "SLPAttributes option \<Rightarrow> string \<Rightarrow> var_t option res" where
  "attr_var a tag =
     (case a of
        None \<Rightarrow> Inl OutOfBounds
      | Some a \<Rightarrow> Inr (map_option (\<lambda>i. attrs a ! i) (attr_val_find_str a tag)))"

definition truth :: "bool \<Rightarrow> FilterResult" where
  "truth b = (if b then FR_EVAL_TRUE else FR_EVAL_FALSE)"

definition int_op :: "SLPAttributes option \<Rightarrow> string \<Rightarrow> string \<Rightarrow> Operation \<Rightarrow> FilterResult res" where
  "int_op a tag rhs op =
     (let (n, end) = c_strtol10 rhs; rhs_val = to_int32 n in
      if end \<noteq> [] \<and> hd end \<noteq> CHR '')'' then Inr FR_EVAL_FALSE
      else
        bindR (attr_var a tag) (\<lambda>var.
          case var of
            None \<Rightarrow> Inr FR_EVAL_FALSE
          | Some v \<Rightarrow>
              (if vtype v \<noteq> SLP_INTEGER then Inr FR_EVAL_FALSE
               else
                 (case op of
                    EQUAL \<Rightarrow> Inr (truth (\<exists>x \<in> set (vlist v). va_int x = rhs_val))
                  | APPROX \<Rightarrow> Inr FR_EVAL_FALSE
                  | GREATER \<Rightarrow> Inr (truth (\<exists>x \<in> set (vlist v). va_int x \<ge> rhs_val))
                  | LESS \<Rightarrow> Inr (truth (\<exists>x \<in> set (vlist v). va_int x \<le> rhs_val))
                  | PRESENT \<Rightarrow> Inr FR_UNSET))))"

definition keyw_op :: "FilterResult" where
  "keyw_op = FR_EVAL_FALSE"

definition bool_op :: "SLPAttributes option \<Rightarrow> string \<Rightarrow> string \<Rightarrow> Operation \<Rightarrow> FilterResult res" where
  "bool_op a tag rhs op =
     (if op \<noteq> EQUAL then Inr FR_EVAL_FALSE
      else
        (case is_bool_string rhs of
           None \<Rightarrow> Inr FR_EVAL_FALSE
         | Some rhs_val \<Rightarrow>
             bindR (attr_var a tag) (\<lambda>var.
               case var of
                 None \<Rightarrow> Inr FR_EVAL_FALSE
               | Some v \<Rightarrow>
                   (if vtype v \<noteq> SLP_BOOLEAN then Inr FR_EVAL_FALSE
                    else (case vlist v of [] \<Rightarrow> Inl OutOfBounds | x # _ \<Rightarrow> Inr (truth (va_bool x = rhs_val)))))))"

fun any_wildcard :: "string \<Rightarrow> string \<Rightarrow> value_t list \<Rightarrow> FilterResult res" where
  "any_wildcard behind pat [] = Inr FR_EVAL_FALSE"
| "any_wildcard behind pat (x # xs) =
     bindR (wildcard behind pat (va_str x)) (\<lambda>result.
       if result \<noteq> FR_EVAL_FALSE then Inr result else any_wildcard behind pat xs)"

definition mem_compare :: "Operation \<Rightarrow> string \<Rightarrow> value_t \<Rightarrow> bool" where
  "mem_compare op str_val x =
     (let result = c_memcmp (min (length str_val) (length (va_str x))) (va_str x) str_val in
      result \<le> 0 \<and> op = LESS \<or> result \<ge> 0 \<and> op = GREATER)"

text \<open>\<open>str_op\<close> and \<open>opaque_op\<close> differ in the type they want.\<close>

definition text_op ::
  "SLPType \<Rightarrow> string \<Rightarrow> SLPAttributes option \<Rightarrow> string \<Rightarrow> string \<Rightarrow> Operation \<Rightarrow> FilterResult res" where
  "text_op ty behind a tag rhs op =
     bindR (attr_var a tag) (\<lambda>var.
       case var of
         None \<Rightarrow> Inr FR_EVAL_FALSE
       | Some v \<Rightarrow>
           (if vtype v \<noteq> ty then Inr FR_EVAL_FALSE
            else if op = APPROX then Inr FR_EVAL_FALSE
            else if op = EQUAL then any_wildcard behind rhs (vlist v)
            else Inr (truth (\<exists>x \<in> set (vlist v). mem_compare op rhs x))))"

definition str_op :: "string \<Rightarrow> SLPAttributes option \<Rightarrow> string \<Rightarrow> string \<Rightarrow> Operation \<Rightarrow> FilterResult res" where
  "str_op = text_op SLP_STRING"

definition opaque_op :: "string \<Rightarrow> SLPAttributes option \<Rightarrow> string \<Rightarrow> string \<Rightarrow> Operation \<Rightarrow> FilterResult res" where
  "opaque_op = text_op SLP_OPAQUE"

text \<open>
  One comparison: \<open>behind\<close> is the memory behind the value, \<open>rest\<close> the C string
  that starts with it, on which the integer conversion works.
\<close>

definition leaf_op :: "string \<Rightarrow> SLPAttributes option \<Rightarrow> Operation \<Rightarrow> string \<Rightarrow> string \<Rightarrow> string \<Rightarrow> FilterResult res" where
  "leaf_op behind a op lhs rhs rest =
     bindR (attr_var a lhs) (\<lambda>var.
       case var of
         None \<Rightarrow> Inr FR_EVAL_FALSE
       | Some v \<Rightarrow>
           (if op = PRESENT then Inr FR_EVAL_TRUE
            else
              (case vtype v of
                 SLP_BOOLEAN \<Rightarrow> bool_op a lhs rhs op
               | SLP_INTEGER \<Rightarrow> int_op a lhs rest op
               | SLP_KEYWORD \<Rightarrow> Inr keyw_op
               | SLP_STRING \<Rightarrow> str_op behind a lhs rhs op
               | SLP_OPAQUE \<Rightarrow> Inr FR_UNSET)))"

section \<open>Parse trees\<close>

datatype SLPDPredicateTreeNode =
    NODE_AND "SLPDPredicateTreeNode list"
  | NODE_OR "SLPDPredicateTreeNode list"
  | NODE_NOT SLPDPredicateTreeNode
  | COMPARISON Operation string string

datatype SLPDPredicateParseResult = PREDICATE_PARSE_ERROR | PREDICATE_PARSE_INTERNAL_ERROR

fun bracket_loop :: "int \<Rightarrow> string \<Rightarrow> string option" where
  "bracket_loop open_count [] = None"
| "bracket_loop open_count (c # s) =
     (let open_count = (if c = CHR ''('' then open_count + 1 else if c = CHR '')'' then open_count - 1 else open_count) in
      if open_count = 0 then Some (c # s) else bracket_loop open_count s)"

definition find_bracket_end :: "string \<Rightarrow> string option" where
  "find_bracket_end str = (if str = [] \<or> hd str \<noteq> CHR ''('' then None else bracket_loop 0 str)"

lemma bracket_loop_length: "bracket_loop n s = Some l \<Longrightarrow> l \<noteq> [] \<and> length l \<le> length s"
  by (induction n s rule: bracket_loop.induct) (auto simp: Let_def split: if_splits)

lemma find_bracket_end_length: "find_bracket_end s = Some l \<Longrightarrow> l \<noteq> [] \<and> length l \<le> length s"
  by (auto simp: find_bracket_end_def split: if_splits dest: bracket_loop_length)

text \<open>
  What the expression at \<open>start\<close> ends at: \<open>*end\<close> is set from the closing
  bracket and nothing else writes it before a successful return.
\<close>

definition predicate_end :: "string \<Rightarrow> string" where
  "predicate_end start = (case find_bracket_end start of None \<Rightarrow> [] | Some l \<Rightarrow> tl l)"

text \<open>The operator and the operands of a comparison: \<open>r\<close> is the text inside the brackets.\<close>

definition leaf_parts :: "string \<Rightarrow> (Operation \<times> string \<times> string) option" where
  "leaf_parts r =
     (let i = length (takeWhile (\<lambda>c. c \<noteq> CHR ''='') r) in
      if i = length r then None
      else if i = 0 then None
      else if r ! (i - 1) = CHR 0x7E then Some (EQUAL, take (i - 1) r, drop (i + 1) r)
      else if r ! (i - 1) = CHR ''>'' then Some (GREATER, take (i - 1) r, drop (i + 1) r)
      else if r ! (i - 1) = CHR ''<'' then Some (LESS, take (i - 1) r, drop (i + 1) r)
      else Some (if i + 2 = length r \<and> r ! (i + 1) = CHR ''*'' then PRESENT else EQUAL, take i r, drop (i + 1) r))"

text \<open>The checks both the parser and the direct evaluation start with: the closing bracket and what is inside.\<close>

definition expression :: "string \<Rightarrow> (string \<times> string) option" where
  "expression start =
     (if start = [] \<or> hd start \<noteq> CHR ''('' then None
      else
        (case find_bracket_end start of
           None \<Rightarrow> None
         | Some last_char \<Rightarrow>
             (let end = tl last_char in
              if end = [] \<or> hd end = CHR ''('' \<or> hd end = CHR '')'' then Some (last_char, tl start) else None)))"

definition same_type :: "bool \<Rightarrow> SLPDPredicateTreeNode \<Rightarrow> SLPDPredicateTreeNode list" where
  "same_type is_and n =
     (case n of
        NODE_AND ns \<Rightarrow> (if is_and then ns else [n])
      | NODE_OR ns \<Rightarrow> (if is_and then [n] else ns)
      | _ \<Rightarrow> [n])"

lemma predicate_end_shorter: "predicate_end cur \<noteq> [] \<Longrightarrow> length (predicate_end cur) < length cur"
proof -
  assume "predicate_end cur \<noteq> []"
  then obtain l where l: "find_bracket_end cur = Some l" "predicate_end cur = tl l"
    by (auto simp: predicate_end_def split: option.splits)
  then show ?thesis using find_bracket_end_length[OF l(1)] by (cases l) auto
qed

function createPredicateParseTree ::
    "(nat \<Rightarrow> bool) \<Rightarrow> nat \<Rightarrow> string \<Rightarrow> SLPDPredicateParseResult + SLPDPredicateTreeNode"
  and parse_operands ::
    "(nat \<Rightarrow> bool) \<Rightarrow> nat \<Rightarrow> bool \<Rightarrow> string \<Rightarrow> string \<Rightarrow> SLPDPredicateParseResult + SLPDPredicateTreeNode list" where
  "createPredicateParseTree mok depth start =
     (if depth = 0 then Inl PREDICATE_PARSE_ERROR
      else
        (case expression start of
           None \<Rightarrow> Inl PREDICATE_PARSE_ERROR
         | Some (last_char, cur) \<Rightarrow>
             (let c = chd cur in
              if c = CHR ''&'' \<or> c = CHR ''|'' then
                (if \<not> mok (length start) then Inl PREDICATE_PARSE_INTERNAL_ERROR
                 else if chd (tl cur) \<noteq> CHR ''('' \<or> length (tl cur) \<le> length last_char then Inl PREDICATE_PARSE_ERROR
                 else
                   (case parse_operands mok (depth - 1) (c = CHR ''&'') (tl cur) last_char of
                      Inl e \<Rightarrow> Inl e
                    | Inr ns \<Rightarrow> Inr (if c = CHR ''&'' then NODE_AND ns else NODE_OR ns)))
              else if c = CHR ''!'' then
                (if \<not> mok (length start) then Inl PREDICATE_PARSE_INTERNAL_ERROR
                 else
                   (case createPredicateParseTree mok (depth - 1) (tl cur) of
                      Inl e \<Rightarrow> Inl e
                    | Inr n \<Rightarrow> Inr (NODE_NOT n)))
              else if \<not> IS_INVALID_TAG_CHAR c then
                (case leaf_parts (upto_ptr cur last_char) of
                   None \<Rightarrow> Inl PREDICATE_PARSE_ERROR
                 | Some (op, lhs, rhs) \<Rightarrow>
                     (if \<not> mok (length start) then Inl PREDICATE_PARSE_INTERNAL_ERROR else Inr (COMPARISON op lhs rhs)))
              else Inl PREDICATE_PARSE_ERROR)))"
| "parse_operands mok depth is_and cur last_char =
     (case createPredicateParseTree mok depth cur of
        Inl e \<Rightarrow> Inl e
      | Inr n \<Rightarrow>
          (let cur' = predicate_end cur in
           if cur' \<noteq> [] \<and> hd cur' = CHR ''('' \<and> length cur' > length last_char then
             (case parse_operands mok depth is_and cur' last_char of
                Inl e \<Rightarrow> Inl e
              | Inr ns \<Rightarrow> Inr (same_type is_and n @ ns))
           else Inr (same_type is_and n)))"
  by pat_completeness auto

termination
  by (relation "measures [\<lambda>x. case x of Inl (mok, d, s) \<Rightarrow> d | Inr (mok, d, b, c, l) \<Rightarrow> d,
                          \<lambda>x. case x of Inl (mok, d, s) \<Rightarrow> 2 * length s | Inr (mok, d, b, c, l) \<Rightarrow> 2 * length c + 1]")
    (auto simp: predicate_end_shorter)

declare createPredicateParseTree.simps [simp del] parse_operands.simps [simp del]

section \<open>Applying a tree\<close>

text \<open>\<open>go\<close> applies the \<open>do\<close> loop over the operands, which looks at the first before it tests for the end.\<close>

fun treeFilter :: "string \<Rightarrow> SLPAttributes option \<Rightarrow> SLPDPredicateTreeNode \<Rightarrow> FilterResult res"
  and treeFilter_loop :: "string \<Rightarrow> SLPAttributes option \<Rightarrow> FilterResult \<Rightarrow> SLPDPredicateTreeNode list \<Rightarrow> FilterResult res" where
  "treeFilter junk a (NODE_AND ns) = treeFilter_loop junk a FR_EVAL_FALSE ns"
| "treeFilter junk a (NODE_OR ns) = treeFilter_loop junk a FR_EVAL_TRUE ns"
| "treeFilter junk a (NODE_NOT n) =
     bindR (treeFilter junk a n) (\<lambda>err.
       if err \<noteq> FR_EVAL_TRUE \<and> err \<noteq> FR_EVAL_FALSE then Inr err
       else Inr (if err = FR_EVAL_TRUE then FR_EVAL_FALSE else FR_EVAL_TRUE))"
| "treeFilter junk a (COMPARISON op tag value) = leaf_op (NUL # junk) a op tag value value"
| "treeFilter_loop junk a stop_condition [] = Inl OutOfBounds"
| "treeFilter_loop junk a stop_condition (n # ns) =
     bindR (treeFilter junk a n) (\<lambda>err.
       if err \<noteq> FR_EVAL_TRUE \<and> err \<noteq> FR_EVAL_FALSE then Inr err
       else if err = stop_condition then Inr stop_condition
       else if ns = [] then Inr (if stop_condition = FR_EVAL_TRUE then FR_EVAL_FALSE else FR_EVAL_TRUE)
       else treeFilter_loop junk a stop_condition ns)"

definition SLPDPredicateTestTree :: "string \<Rightarrow> SLPDPredicateTreeNode option \<Rightarrow> SLPAttributes option \<Rightarrow> bool res" where
  "SLPDPredicateTestTree junk parseTree a =
     (case parseTree of
        None \<Rightarrow> Inr True
      | Some t \<Rightarrow> bindR (treeFilter junk a t) (\<lambda>err. Inr (err = FR_EVAL_TRUE)))"

section \<open>Evaluating the text directly\<close>

text \<open>
  \<open>filter\<close> of the code.  It takes a second equals sign as part of the operator;
  after an approximate match it always finds one, its own.  An operand that
  would then start behind the closing bracket (\<open>None\<close>) has a length below zero.
\<close>

definition double_equal :: "string \<Rightarrow> Operation \<times> string \<times> string \<Rightarrow> (Operation \<times> string \<times> string option)" where
  "double_equal r parts =
     (case parts of
        (op, lhs, rhs) \<Rightarrow>
          (if op = EQUAL \<and> length lhs + 1 < length r \<and> r ! (length lhs + 1) = CHR ''=''
           then (op, lhs, if rhs = [] then None else Some (tl rhs)) else (op, lhs, Some rhs)))"

function filter_pred ::
    "string \<Rightarrow> SLPAttributes option \<Rightarrow> nat \<Rightarrow> string \<Rightarrow> FilterResult res"
  and filter_operands ::
    "string \<Rightarrow> SLPAttributes option \<Rightarrow> nat \<Rightarrow> FilterResult \<Rightarrow> string \<Rightarrow> string \<Rightarrow> FilterResult res" where
  "filter_pred junk a depth start =
     (if depth = 0 then Inr FR_PARSE_ERROR
      else
        (case expression start of
           None \<Rightarrow> Inr FR_PARSE_ERROR
         | Some (last_char, cur) \<Rightarrow>
             (let c = chd cur in
              if c = CHR ''&'' \<or> c = CHR ''|'' then
                (if chd (tl cur) \<noteq> CHR ''('' \<or> length (tl cur) \<le> length last_char then Inr FR_PARSE_ERROR
                 else filter_operands junk a (depth - 1) (if c = CHR ''&'' then FR_EVAL_FALSE else FR_EVAL_TRUE) (tl cur) last_char)
              else if c = CHR ''!'' then
                bindR (filter_pred junk a (depth - 1) (tl cur)) (\<lambda>err.
                  if err \<noteq> FR_EVAL_TRUE \<and> err \<noteq> FR_EVAL_FALSE then Inr err
                  else Inr (if err = FR_EVAL_TRUE then FR_EVAL_FALSE else FR_EVAL_TRUE))
              else if \<not> IS_INVALID_TAG_CHAR c then
                (case leaf_parts (upto_ptr cur last_char) of
                   None \<Rightarrow> Inr FR_PARSE_ERROR
                 | Some parts \<Rightarrow>
                     (case double_equal (upto_ptr cur last_char) parts of
                        (op, lhs, Some rhs) \<Rightarrow> leaf_op (last_char @ NUL # junk) a op lhs rhs (rhs @ last_char)
                      | (op, lhs, None) \<Rightarrow>
                          bindR (attr_var a lhs) (\<lambda>var.
                            case var of
                              None \<Rightarrow> Inr FR_EVAL_FALSE
                            | Some v \<Rightarrow>
                                (case vtype v of
                                   SLP_INTEGER \<Rightarrow> int_op a lhs (tl last_char) op
                                 | SLP_STRING \<Rightarrow> Inl OutOfBounds
                                 | SLP_OPAQUE \<Rightarrow> Inr FR_UNSET
                                 | _ \<Rightarrow> Inr FR_EVAL_FALSE))))
              else Inr FR_UNSET)))"
| "filter_operands junk a depth stop_condition cur last_char =
     bindR (filter_pred junk a depth cur) (\<lambda>err.
       if err \<noteq> FR_EVAL_TRUE \<and> err \<noteq> FR_EVAL_FALSE then Inr err
       else if err = stop_condition then Inr stop_condition
       else
         (let cur' = predicate_end cur in
          if cur' \<noteq> [] \<and> hd cur' = CHR ''('' \<and> length cur' > length last_char
          then filter_operands junk a depth stop_condition cur' last_char
          else Inr (if stop_condition = FR_EVAL_TRUE then FR_EVAL_FALSE else FR_EVAL_TRUE)))"
  by pat_completeness auto

termination
  by (relation "measures [\<lambda>x. case x of Inl (j, a, d, s) \<Rightarrow> d | Inr (j, a, d, b, c, l) \<Rightarrow> d,
                          \<lambda>x. case x of Inl (j, a, d, s) \<Rightarrow> 2 * length s | Inr (j, a, d, b, c, l) \<Rightarrow> 2 * length c + 1]")
    (auto simp: predicate_end_shorter)

declare filter_pred.simps [simp del] filter_operands.simps [simp del]

definition SLPD_ATTR_RECURSION_DEPTH :: nat where "SLPD_ATTR_RECURSION_DEPTH = 50"
definition SLPD_PREDICATE_RECURSION_DEPTH :: nat where "SLPD_PREDICATE_RECURSION_DEPTH = 50"

text \<open>The C string in the first \<open>n\<close> bytes, after the terminator is written behind them.\<close>

definition terminated :: "nat \<Rightarrow> string \<Rightarrow> string" where
  "terminated n mem = takeWhile (\<lambda>c. c \<noteq> NUL) (take n mem)"

definition SLPDPredicateTest ::
  "bool \<Rightarrow> (nat \<Rightarrow> bool) \<Rightarrow> string \<Rightarrow> nat \<Rightarrow> nat \<Rightarrow> string \<Rightarrow> nat \<Rightarrow> string \<Rightarrow> bool res" where
  "SLPDPredicateTest ok mok junk version attrlistlen attrlist predicatelen predicate =
     (if chd predicate = NUL then Inr True
      else if version \<noteq> 2 then Inr True
      else if length predicate \<le> predicatelen \<or> length attrlist \<le> attrlistlen then Inl OutOfBounds
      else
        (let p = terminated predicatelen predicate in
         case SLPAttrAlloc ok ''en'' False False of
           (_, None) \<Rightarrow> Inr False
         | (_, Some attr) \<Rightarrow>
             bindR (SLPAttrFreshen mok attr (terminated attrlistlen attrlist)) (\<lambda>(e, attr).
               if e \<noteq> SLP_OK then Inr False
               else
                 bindR (filter_pred junk (Some attr) SLPD_ATTR_RECURSION_DEPTH p) (\<lambda>err.
                   if (err = FR_EVAL_TRUE \<or> err = FR_EVAL_FALSE) \<and> predicate_end p \<noteq> [] then Inr False
                   else Inr (err = FR_EVAL_TRUE)))))"

section \<open>Selecting attributes\<close>

text \<open>
  The result is whether the code returns a non-zero value, the length and the
  text.  \<open>None\<close>: the serialisation has not ended after \<open>fuel\<close> attributes.  When the
  output buffer cannot be allocated its length has already been stored.
\<close>

definition SLPDFilterAttributes ::
  "nat \<Rightarrow> bool \<Rightarrow> (nat \<Rightarrow> bool) \<Rightarrow> bool \<Rightarrow> nat \<Rightarrow> string \<Rightarrow> nat \<Rightarrow> string \<Rightarrow> (bool \<times> int \<times> string option) res option" where
  "SLPDFilterAttributes fuel ok mok ok_out attrlistlen attrlist taglistlen taglist =
     (if length taglist \<le> taglistlen \<or> length attrlist \<le> attrlistlen then Some (Inl OutOfBounds)
      else
        (case SLPAttrAlloc ok ''en'' False False of
           (_, None) \<Rightarrow> Some (Inr (True, 0, None))
         | (_, Some attr) \<Rightarrow>
             (case SLPAttrFreshen mok attr (terminated attrlistlen attrlist) of
                Inl e \<Rightarrow> Some (Inl e)
              | Inr (e, attr) \<Rightarrow>
                  (if e \<noteq> SLP_OK then Some (Inr (True, 0, None))
                   else
                     (case SLPAttrSerialize fuel ok_out attr (terminated taglistlen taglist) None False of
                        None \<Rightarrow> None
                      | Some (Inl f) \<Rightarrow> Some (Inl f)
                      | Some (Inr (err, count, out, attr)) \<Rightarrow>
                          (let resultlen = (if count \<noteq> 0 then count - 1 else 0) in
                           Some (Inr (resultlen = 0, resultlen, out))))))))"

section \<open>Without an attribute list\<close>

lemma treeFilter_null: "treeFilter junk None t = Inl OutOfBounds"
  and treeFilter_loop_null: "treeFilter_loop junk None stop ns = Inl OutOfBounds"
  by (induction junk "None :: SLPAttributes option" t and junk "None :: SLPAttributes option" stop ns
      rule: treeFilter_treeFilter_loop.induct) (simp_all add: leaf_op_def attr_var_def)

text \<open>
  A predicate is never applied to an entry without an attribute list: any
  parse tree dereferences the null pointer.
\<close>

theorem SLPDPredicateTestTree_null:
  "SLPDPredicateTestTree junk (Some t) None = Inl OutOfBounds \<and> SLPDPredicateTestTree junk None a = Inr True"
  by (simp add: SLPDPredicateTestTree_def treeFilter_null)

section \<open>Parse trees are bounded and have operands\<close>

fun tree_height :: "SLPDPredicateTreeNode \<Rightarrow> nat" where
  "tree_height (NODE_AND ns) = 1 + fold max (map tree_height ns) 0"
| "tree_height (NODE_OR ns) = 1 + fold max (map tree_height ns) 0"
| "tree_height (NODE_NOT n) = 1 + tree_height n"
| "tree_height (COMPARISON op tag value) = 1"

fun wf_tree :: "SLPDPredicateTreeNode \<Rightarrow> bool" where
  "wf_tree (NODE_AND ns) \<longleftrightarrow> ns \<noteq> [] \<and> list_all wf_tree ns"
| "wf_tree (NODE_OR ns) \<longleftrightarrow> ns \<noteq> [] \<and> list_all wf_tree ns"
| "wf_tree (NODE_NOT n) \<longleftrightarrow> wf_tree n"
| "wf_tree (COMPARISON op tag value) \<longleftrightarrow> True"

lemma fold_max_le: "fold max (xs :: nat list) m \<le> d \<longleftrightarrow> m \<le> d \<and> list_all (\<lambda>x. x \<le> d) xs"
  by (induction xs arbitrary: m) auto

lemma fold_max_bound: "m \<in> set ns \<Longrightarrow> fold max (map tree_height ns) 0 < d \<Longrightarrow> tree_height m \<le> d"
  using fold_max_le[of "map tree_height ns" 0 "d - 1"] by (auto simp: list_all_iff)

lemma fold_max_less: "list_all (\<lambda>m. tree_height m \<le> d - 1) ns \<Longrightarrow> 0 < d \<Longrightarrow> fold max (map tree_height ns) 0 < d"
  using fold_max_le[of "map tree_height ns" 0 "d - 1"] by (auto simp: list_all_iff)

lemma same_type_height: "tree_height n \<le> d \<Longrightarrow> wf_tree n \<Longrightarrow>
    list_all (\<lambda>m. tree_height m \<le> d \<and> wf_tree m) (same_type b n) \<and> same_type b n \<noteq> []"
  by (cases n) (auto simp: same_type_def list_all_iff Suc_le_eq dest: fold_max_bound)

lemma parse_tree_height:
  "createPredicateParseTree mok depth start = Inr t \<Longrightarrow> tree_height t \<le> depth \<and> wf_tree t"
  and parse_operands_height:
  "parse_operands mok depth is_and cur last_char = Inr ns \<Longrightarrow>
     list_all (\<lambda>m. tree_height m \<le> depth \<and> wf_tree m) ns \<and> ns \<noteq> []"
proof (induction mok depth start and mok depth is_and cur last_char arbitrary: t and ns
    rule: createPredicateParseTree_parse_operands.induct)
  case (1 mok depth start)
  from "1.prems" have d: "0 < depth" by (subst (asm) createPredicateParseTree.simps) (auto split: if_splits)
  from "1.prems" d obtain last_char cur where ex: "expression start = Some (last_char, cur)"
    by (subst (asm) createPredicateParseTree.simps) (auto split: option.splits)
  note run = "1.prems"[unfolded createPredicateParseTree.simps[of mok depth start]]
  consider "chd cur = CHR ''&'' \<or> chd cur = CHR ''|''" | "chd cur = CHR ''!''"
    | "chd cur \<noteq> CHR ''&''" "chd cur \<noteq> CHR ''|''" "chd cur \<noteq> CHR ''!''" by blast
  then show ?case
  proof cases
    case 1
    with run d ex obtain ns where ns: "parse_operands mok (depth - 1) (chd cur = CHR ''&'') (tl cur) last_char = Inr ns"
      "t = (if chd cur = CHR ''&'' then NODE_AND ns else NODE_OR ns)"
      "mok (length start)" "\<not> (chd (tl cur) \<noteq> CHR ''('' \<or> length (tl cur) \<le> length last_char)"
      by (auto simp: Let_def split: if_splits sum.splits)
    have "list_all (\<lambda>m. tree_height m \<le> depth - 1 \<and> wf_tree m) ns \<and> ns \<noteq> []"
      by (rule "1.IH"(1)[OF _ ex refl refl 1 _ ns(4) ns(1)]) (use d ns(3) in auto)
    then show ?thesis using ns(2) d fold_max_less[of depth ns] by (auto simp: list_all_iff Suc_le_eq)
  next
    case 2
    with run d ex obtain n where n: "createPredicateParseTree mok (depth - 1) (tl cur) = Inr n" "t = NODE_NOT n" "mok (length start)"
      by (auto simp: Let_def split: if_splits sum.splits)
    have "tree_height n \<le> depth - 1 \<and> wf_tree n"
      by (rule "1.IH"(2)[OF _ ex refl refl _ 2 _ n(1)]) (use d n(3) 2 in auto)
    then show ?thesis using n(2) d by auto
  next
    case 3
    with run d ex obtain op lhs rhs where "t = COMPARISON op lhs rhs"
      by (auto simp: Let_def split: if_splits option.splits)
    with d show ?thesis by simp
  qed
next
  case (2 mok depth is_and cur last_char)
  from "2.prems" obtain n where n: "createPredicateParseTree mok depth cur = Inr n"
    by (subst (asm) parse_operands.simps) (auto split: sum.splits)
  have hn: "tree_height n \<le> depth \<and> wf_tree n" by (rule "2.IH"(1)[OF n])
  let ?more = "predicate_end cur \<noteq> [] \<and> hd (predicate_end cur) = CHR ''('' \<and> length (predicate_end cur) > length last_char"
  show ?case
  proof (cases ?more)
    case True
    with "2.prems" n obtain ms where ms: "parse_operands mok depth is_and (predicate_end cur) last_char = Inr ms"
      "ns = same_type is_and n @ ms"
      by (subst (asm) parse_operands.simps) (auto simp: Let_def split: sum.splits)
    from "2.IH"(2)[OF n refl True ms(1)] ms(2) hn same_type_height[of n depth is_and] show ?thesis by auto
  next
    case False
    with "2.prems" n have "ns = same_type is_and n"
      by (subst (asm) parse_operands.simps) (auto simp: Let_def split: if_splits)
    with hn same_type_height[of n depth is_and] show ?thesis by auto
  qed
qed

text \<open>
  C23: a parse tree is no higher than the recursion limit it was parsed with,
  and none of its conjunctions and disjunctions is empty.
\<close>

theorem createPredicateParseTree_bounded:
  assumes "createPredicateParseTree mok SLPD_PREDICATE_RECURSION_DEPTH start = Inr t"
  shows "tree_height t \<le> 50 \<and> wf_tree t"
  using parse_tree_height[OF assms] by (simp add: SLPD_PREDICATE_RECURSION_DEPTH_def)

theorem createPredicateParseTree_bounded_witness:
  "tree_height (NODE_AND [COMPARISON EQUAL ''a'' ''1'', COMPARISON PRESENT ''b'' ''*'']) \<le> 50
    \<and> wf_tree (NODE_AND [COMPARISON EQUAL ''a'' ''1'', COMPARISON PRESENT ''b'' ''*''])"
proof -
  have "createPredicateParseTree (\<lambda>_. True) SLPD_PREDICATE_RECURSION_DEPTH ''(&(a=1)(b=*))''
      = Inr (NODE_AND [COMPARISON EQUAL ''a'' ''1'', COMPARISON PRESENT ''b'' ''*''])"
    by code_simp
  then show ?thesis by (rule createPredicateParseTree_bounded)
qed

end
