(* ===== verification/SLPD_Database.thy ===== *)
theory SLPD_Database
  imports SLPD_Index SLPD_Predicate SLP_StringList SLP_Net
begin

text \<open>
  The daemon's registration database, \<open>slpd/slpd_database.c\<close>.  The linked list
  of entries is the list of their addresses and contents in order; that the
  enumeration loops over the list of \<open>slp_database.c\<close> do what a recursion over
  this list does is \<open>scan_refines\<close> of \<open>SLP_Database\<close>.  The strings of a message
  are the bytes its fields point to.  Indexes hold addresses of entries, and using
  an address that is not in the database is \<open>OutOfBounds\<close>.  The calls that leave
  the daemon's memory (multicast sockets, directory agents) are recorded in
  \<open>events\<close>; logging is left out.  Whether an allocation succeeds is a parameter.
\<close>

section \<open>State\<close>

datatype reg_source = SLP_REG_SOURCE_UNKNOWN | SLP_REG_SOURCE_REMOTE | SLP_REG_SOURCE_LOCAL | SLP_REG_SOURCE_STATIC

text \<open>
  A registration: the strings of the message, and the buffer they point into,
  with the place of the URL entry in it.
\<close>

record reg_msg =
  r_peer :: sockaddr
  r_url :: string
  r_lifetime :: int
  r_srvtype :: string
  r_scopelist :: string
  r_attrlist :: string
  r_pid :: "32 word"
  r_source :: reg_source
  r_langtag :: "8 word list"
  r_authcount :: nat
  r_opaque :: nat
  r_opaquelen :: nat
  r_buf :: "8 word list"

record dereg_msg =
  d_peer :: sockaddr
  d_scopelist :: string
  d_url :: string

text \<open>An entry with its two handles.\<close>

record db_entry =
  e_reg :: reg_msg
  h_attrs :: "SLPAttributes option"
  h_srvtype :: "string option"

datatype event =
    DeRegisterWithAllDas reg_msg
  | IncomingAddService string nat
  | IncomingRemoveService string

record SLPDDatabase =
  db :: "(nat \<times> db_entry) list"
  urlcount :: "32 word"
  srvtypelistlen :: "64 word"
  srvtype_index_tree :: "nat IndexTree"
  tag_index :: "(string \<times> nat IndexTree) list"
  events :: "event list"

record SLPDProperty =
  checkSourceAddr :: bool
  srvtypeIsIndexed :: bool
  indexedAttributes :: "string option"
  useIPv6 :: bool
  ipv6_ifaces :: nat

definition SLPD_AGE_INTERVAL :: int where "SLPD_AGE_INTERVAL = 15"
definition SLP_LIFETIME_MAXIMUM :: int where "SLP_LIFETIME_MAXIMUM = 0xffff"
definition MAX_HOST_NAME :: nat where "MAX_HOST_NAME = 512"

text \<open>
  Which allocations succeed: the handle of the enumeration, the normalised type,
  the attribute list and its parts, the entry (its address), index nodes, the
  attribute iterator.
\<close>

record allocations =
  al_open :: bool
  al_srvtype :: bool
  al_attr :: bool
  al_freshen :: "nat \<Rightarrow> bool"
  al_entry :: "nat option"
  al_index :: bool
  al_iter :: bool

section \<open>Tag indexes and normalised types\<close>

definition addTagIndex :: "bool \<Rightarrow> string \<Rightarrow> (string \<times> nat IndexTree) list \<Rightarrow> nat \<times> (string \<times> nat IndexTree) list" where
  "addTagIndex ok tag tags = (if ok then (SLP_ERROR_OK, (tag, Null) # tags) else (SLP_ERROR_INTERNAL_ERROR, tags))"

fun findTagIndex :: "(string \<times> nat IndexTree) list \<Rightarrow> string \<Rightarrow> nat option" where
  "findTagIndex [] tag = None"
| "findTagIndex ((t, root) # tags) tag =
     (if length t = length tag \<and> c_strncasecmp (length tag) t tag = 0 then Some 0
      else map_option Suc (findTagIndex tags tag))"

text \<open>
  The field behind the service type is in the buffer, so one byte behind it can
  be read; its value does not matter (\<open>SLPNormalizeString_behind\<close>).
\<close>

definition getNormalisedSrvtype :: "bool \<Rightarrow> string \<Rightarrow> string option res" where
  "getNormalisedSrvtype ok srvtype =
     (if \<not> ok then Inr None
      else
        (let s = (if length srvtype \<ge> 8 \<and> take 8 srvtype = ''service:'' then drop 8 srvtype else srvtype)
         in bindR (SLPNormalizeString (length s) (s @ [NUL]) True) (\<lambda>n. Inr (Some n))))"

definition createNormalisedSrvtype :: "bool \<Rightarrow> string \<Rightarrow> string option res" where
  "createNormalisedSrvtype ok srvtype = getNormalisedSrvtype ok srvtype"

text \<open>The two loops over an attribute list that add an entry to the tag indexes and delete it.\<close>

fun index_values ::
  "(nat IndexTree \<Rightarrow> string \<Rightarrow> nat \<Rightarrow> nat IndexTree res) \<Rightarrow> nat IndexTree \<Rightarrow> value_t list \<Rightarrow> nat \<Rightarrow> nat IndexTree res" where
  "index_values upd t [] p = Inr t"
| "index_values upd t (v # vs) p = bindR (upd t (va_str v) p) (\<lambda>t. index_values upd t vs p)"

fun index_attributes ::
  "(nat IndexTree \<Rightarrow> string \<Rightarrow> nat \<Rightarrow> nat IndexTree res) \<Rightarrow> (string \<times> nat IndexTree) list \<Rightarrow> var_t list \<Rightarrow> nat
     \<Rightarrow> (string \<times> nat IndexTree) list res" where
  "index_attributes upd tags [] p = Inr tags"
| "index_attributes upd tags (v # vs) p =
     (if vtype v \<noteq> SLP_STRING then index_attributes upd tags vs p
      else
        (case findTagIndex tags (c_string (vtag v)) of
           None \<Rightarrow> index_attributes upd tags vs p
         | Some i \<Rightarrow>
             bindR (index_values upd (snd (tags ! i)) (vlist v) p) (\<lambda>t.
               index_attributes upd (tags[i := (fst (tags ! i), t)]) vs p)))"

section \<open>Removing\<close>

definition SLPDDatabaseRemove :: "SLPDProperty \<Rightarrow> bool \<Rightarrow> nat \<Rightarrow> SLPDDatabase \<Rightarrow> SLPDDatabase res" where
  "SLPDDatabaseRemove prop iter_ok p d =
     (case map_of (db d) p of
        None \<Rightarrow> Inl OutOfBounds
      | Some e \<Rightarrow>
          bindR (if srvtypeIsIndexed prop then
                   (case h_srvtype e of
                      None \<Rightarrow> Inl OutOfBounds
                    | Some t \<Rightarrow> index_tree_delete (srvtype_index_tree d) t p)
                 else Inr (srvtype_index_tree d)) (\<lambda>st.
          bindR (case h_attrs e of
                   None \<Rightarrow> Inr (tag_index d)
                 | Some a \<Rightarrow>
                     (if indexedAttributes prop \<noteq> None \<and> iter_ok
                      then index_attributes index_tree_delete (tag_index d) (attrs a) p
                      else Inr (tag_index d))) (\<lambda>ti.
          Inr (d\<lparr>db := filter (\<lambda>(q, _). q \<noteq> p) (db d), srvtype_index_tree := st, tag_index := ti\<rparr>))))"

definition emit_event :: "event \<Rightarrow> SLPDDatabase \<Rightarrow> SLPDDatabase" where
  "emit_event ev d = d\<lparr>events := events d @ [ev]\<rparr>"

definition set_lifetime :: "nat \<Rightarrow> int \<Rightarrow> SLPDDatabase \<Rightarrow> SLPDDatabase" where
  "set_lifetime p l d =
     d\<lparr>db := map (\<lambda>(q, e). (q, if q = p then e\<lparr>e_reg := (e_reg e)\<lparr>r_lifetime := l\<rparr>\<rparr> else e)) (db d)\<rparr>"

section \<open>Ageing\<close>

text \<open>\<open>ps\<close> are the entries the enumeration has still in front of it.\<close>

fun age_loop ::
  "SLPDProperty \<Rightarrow> (32 word \<Rightarrow> bool) \<Rightarrow> bool \<Rightarrow> int \<Rightarrow> bool \<Rightarrow> nat list \<Rightarrow> SLPDDatabase \<Rightarrow> SLPDDatabase res" where
  "age_loop prop pid_exists iter_ok seconds ageall [] d = Inr d"
| "age_loop prop pid_exists iter_ok seconds ageall (p # ps) d =
     (case map_of (db d) p of
        None \<Rightarrow> Inl OutOfBounds
      | Some e \<Rightarrow>
          (let srvreg = e_reg e; lifetime = r_lifetime srvreg - seconds in
           if r_source srvreg = SLP_REG_SOURCE_LOCAL \<and> r_pid srvreg \<noteq> 0 \<and> \<not> pid_exists (r_pid srvreg) then
             bindR (SLPDDatabaseRemove prop iter_ok p
                      (emit_event (IncomingRemoveService (r_srvtype srvreg)) (emit_event (DeRegisterWithAllDas srvreg) d)))
               (\<lambda>d. age_loop prop pid_exists iter_ok seconds ageall ps d)
           else if r_lifetime srvreg = SLP_LIFETIME_MAXIMUM
                   \<and> (\<not> ageall \<or> r_source srvreg = SLP_REG_SOURCE_STATIC \<or> r_source srvreg = SLP_REG_SOURCE_LOCAL) then
             age_loop prop pid_exists iter_ok seconds ageall ps d
           else if lifetime \<le> 0 then
             bindR (SLPDDatabaseRemove prop iter_ok p
                      (emit_event (IncomingRemoveService (r_srvtype srvreg)) (set_lifetime p lifetime d)))
               (\<lambda>d. age_loop prop pid_exists iter_ok seconds ageall ps d)
           else age_loop prop pid_exists iter_ok seconds ageall ps (set_lifetime p lifetime d)))"

definition SLPDDatabaseAge ::
  "SLPDProperty \<Rightarrow> (32 word \<Rightarrow> bool) \<Rightarrow> bool \<Rightarrow> bool \<Rightarrow> int \<Rightarrow> bool \<Rightarrow> SLPDDatabase \<Rightarrow> SLPDDatabase res" where
  "SLPDDatabaseAge prop pid_exists open_ok iter_ok seconds ageall d =
     (if open_ok then age_loop prop pid_exists iter_ok seconds ageall (map fst (db d)) d else Inr d)"

definition SLPDDatabaseSrvtypeUsed :: "bool \<Rightarrow> string \<Rightarrow> SLPDDatabase \<Rightarrow> bool" where
  "SLPDDatabaseSrvtypeUsed open_ok srvtype d \<longleftrightarrow>
     open_ok \<and> list_ex (\<lambda>(_, e). SLPCompareString (r_srvtype (e_reg e)) srvtype = 0) (db d)"

section \<open>Registering\<close>

definition source_differs :: "sockaddr \<Rightarrow> sockaddr \<Rightarrow> bool" where
  "source_differs a b =
     (case (a, b) of (AF_INET x, AF_INET y) \<Rightarrow> x \<noteq> y | (AF_INET6 x _, AF_INET6 y _) \<Rightarrow> x \<noteq> y | _ \<Rightarrow> False)"

definition fix_lifetime :: "int \<Rightarrow> int" where
  "fix_lifetime lifetime =
     (if lifetime > 0 \<and> lifetime < SLP_LIFETIME_MAXIMUM then
        (if lifetime \<ge> SLP_LIFETIME_MAXIMUM - SLPD_AGE_INTERVAL then SLP_LIFETIME_MAXIMUM - 1
         else lifetime + SLPD_AGE_INTERVAL)
      else lifetime)"

definition parse_attributes :: "allocations \<Rightarrow> string \<Rightarrow> SLPAttributes option res" where
  "parse_attributes al attrlist =
     (case SLPAttrAlloc (al_attr al) ''en'' False False of
        (SLP_OK, Some a) \<Rightarrow>
          bindR (SLPAttrFreshen (al_freshen al) a (c_string attrlist)) (\<lambda>(err, a).
            Inr (if err = SLP_OK then Some a else None))
      | _ \<Rightarrow> Inr None)"

text \<open>The entry that has the URL and a scope in common, the first the enumeration meets.\<close>

definition same_service :: "string \<Rightarrow> string \<Rightarrow> nat \<times> db_entry \<Rightarrow> bool" where
  "same_service url scopelist pe =
     (SLPCompareString (r_url (e_reg (snd pe))) url = 0
      \<and> SLPIntersectStringList (r_scopelist (e_reg (snd pe))) scopelist > 0)"

definition add_entry ::
  "SLPDProperty \<Rightarrow> allocations \<Rightarrow> reg_msg \<Rightarrow> string \<Rightarrow> SLPAttributes option \<Rightarrow> SLPDDatabase \<Rightarrow> (nat \<times> SLPDDatabase) res" where
  "add_entry prop al reg srvtype attr d =
     (case al_entry al of
        None \<Rightarrow> Inr (SLP_ERROR_INTERNAL_ERROR, d)
      | Some p \<Rightarrow>
          (let source = (if r_source reg = SLP_REG_SOURCE_UNKNOWN
                         then (if SLPNetIsLoopback (r_peer reg) then SLP_REG_SOURCE_LOCAL else SLP_REG_SOURCE_REMOTE)
                         else r_source reg);
               e = \<lparr>e_reg = reg\<lparr>r_source := source\<rparr>, h_attrs = attr, h_srvtype = Some srvtype\<rparr>
           in
             bindR (if srvtypeIsIndexed prop then add_to_index (al_index al) (srvtype_index_tree d) srvtype p
                    else Inr (srvtype_index_tree d)) (\<lambda>st.
             bindR (case attr of
                      None \<Rightarrow> Inr (tag_index d)
                    | Some a \<Rightarrow>
                        (if indexedAttributes prop \<noteq> None \<and> al_iter al
                         then index_attributes (add_to_index (al_index al)) (tag_index d) (attrs a) p
                         else Inr (tag_index d))) (\<lambda>ti.
             Inr (SLP_ERROR_OK, d\<lparr>db := db d @ [(p, e)], srvtype_index_tree := st, tag_index := ti\<rparr>)))))"

definition replace_entry ::
  "SLPDProperty \<Rightarrow> allocations \<Rightarrow> reg_msg \<Rightarrow> string \<Rightarrow> SLPAttributes option \<Rightarrow> SLPDDatabase \<Rightarrow> (nat \<times> SLPDDatabase) res" where
  "replace_entry prop al reg srvtype attr d =
     (case List.find (same_service (r_url reg) (r_scopelist reg)) (db d) of
        None \<Rightarrow> add_entry prop al reg srvtype attr d
      | Some (p, e) \<Rightarrow>
          (if checkSourceAddr prop \<and> source_differs (r_peer (e_reg e)) (r_peer reg)
           then Inr (SLP_ERROR_AUTHENTICATION_FAILED, d)
           else bindR (SLPDDatabaseRemove prop (al_iter al) p d) (add_entry prop al reg srvtype attr)))"

definition listen_ipv6 :: "SLPDProperty \<Rightarrow> bool \<Rightarrow> string \<Rightarrow> SLPDDatabase \<Rightarrow> SLPDDatabase" where
  "listen_ipv6 prop open_ok srvtype d =
     (if useIPv6 prop \<and> \<not> SLPDDatabaseSrvtypeUsed open_ok srvtype d
      then foldl (\<lambda>d i. emit_event (IncomingAddService srvtype i) d) d [0..<ipv6_ifaces prop]
      else d)"

definition SLPDDatabaseReg :: "SLPDProperty \<Rightarrow> allocations \<Rightarrow> reg_msg \<Rightarrow> SLPDDatabase \<Rightarrow> (nat \<times> SLPDDatabase) res" where
  "SLPDDatabaseReg prop al reg d =
     (if SLPCheckServiceUrlSyntax (r_url reg) \<noteq> 0 then Inr (SLP_ERROR_INVALID_REGISTRATION, d)
      else if r_attrlist reg \<noteq> [] \<and> SLPCheckAttributeListSyntax (r_attrlist reg) \<noteq> 0
      then Inr (SLP_ERROR_INVALID_REGISTRATION, d)
      else
        (let d = listen_ipv6 prop (al_open al) (r_srvtype reg) d;
             reg = reg\<lparr>r_lifetime := fix_lifetime (r_lifetime reg)\<rparr>
         in if \<not> al_open al then Inr (SLP_ERROR_OK, d)
         else
           bindR (createNormalisedSrvtype (al_srvtype al) (r_srvtype reg)) (\<lambda>nt.
             case nt of
               None \<Rightarrow> Inr (SLP_ERROR_INTERNAL_ERROR, d)
             | Some srvtype \<Rightarrow>
                 bindR (parse_attributes al (r_attrlist reg)) (\<lambda>attr. replace_entry prop al reg srvtype attr d))))"

section \<open>Deregistering\<close>

text \<open>\<open>strncpy\<close> of \<open>n\<close> bytes.\<close>

definition strncpy_field :: "string \<Rightarrow> string" where
  "strncpy_field s = c_string s @ replicate (length s - length (c_string s)) NUL"

definition SLPDDatabaseDeReg ::
  "SLPDProperty \<Rightarrow> bool \<Rightarrow> bool \<Rightarrow> bool \<Rightarrow> dereg_msg \<Rightarrow> SLPDDatabase \<Rightarrow> (nat \<times> SLPDDatabase) res" where
  "SLPDDatabaseDeReg prop open_ok open_ok2 iter_ok dereg d =
     (if \<not> open_ok then Inr (SLP_ERROR_OK, d)
      else
        (case List.find (same_service (d_url dereg) (d_scopelist dereg)) (db d) of
           None \<Rightarrow> Inr (SLP_ERROR_INVALID_REGISTRATION, d)
         | Some (p, e) \<Rightarrow>
             (if checkSourceAddr prop \<and> source_differs (r_peer (e_reg e)) (d_peer dereg)
              then Inr (SLP_ERROR_AUTHENTICATION_FAILED, d)
              else if length (r_srvtype (e_reg e)) > MAX_HOST_NAME then Inl OutOfBounds
              else
                (let srvtype = strncpy_field (r_srvtype (e_reg e)) in
                 bindR (SLPDDatabaseRemove prop iter_ok p d) (\<lambda>d.
                   Inr (SLP_ERROR_OK,
                        if open_ok2 \<and> \<not> SLPDDatabaseSrvtypeUsed True srvtype d
                        then emit_event (IncomingRemoveService srvtype) d else d))))))"

section \<open>Service requests\<close>

record srvrqst_msg =
  q_srvtype :: string
  q_scopelist :: string
  q_predicate :: string

text \<open>\<open>junk\<close> is the readable memory behind the strings of a parse tree.\<close>

definition SLPDDatabaseSrvRqstTestEntry ::
  "string \<Rightarrow> srvrqst_msg \<Rightarrow> SLPDPredicateTreeNode option \<Rightarrow> db_entry \<Rightarrow> bool res" where
  "SLPDDatabaseSrvRqstTestEntry junk rq tree e =
     (if SLPCompareSrvType (q_srvtype rq) (r_srvtype (e_reg e)) = 0
         \<and> SLPIntersectStringList (r_scopelist (e_reg e)) (q_scopelist rq) > 0
      then SLPDPredicateTestTree junk tree (h_attrs e)
      else Inr False)"

text \<open>
  The state of a search: the error code and the entries whose URLs are in the
  array.  The array has room for \<open>urlcount\<close>.
\<close>

type_synonym search = "(int \<times> nat list) res"

definition add_url :: "32 word \<Rightarrow> nat \<Rightarrow> nat list \<Rightarrow> int \<times> nat list" where
  "add_url count p urls = (if int (length urls) + 1 > sint count then (1, urls) else (0, urls @ [p]))"

definition SLPDDatabaseSrvRqstStartIndexCallback ::
  "string \<Rightarrow> srvrqst_msg \<Rightarrow> SLPDPredicateTreeNode option \<Rightarrow> SLPDDatabase \<Rightarrow> nat \<Rightarrow> search \<Rightarrow> search" where
  "SLPDDatabaseSrvRqstStartIndexCallback junk rq tree d p s =
     bindR s (\<lambda>(error_code, urls).
       if error_code \<noteq> 0 then Inr (error_code, urls)
       else
         (case map_of (db d) p of
            None \<Rightarrow> Inl OutOfBounds
          | Some e \<Rightarrow>
              bindR (SLPDDatabaseSrvRqstTestEntry junk rq tree e) (\<lambda>matches.
                Inr (if matches then add_url (urlcount d) p urls else (0, urls)))))"

definition SLP_ERRORCODE :: "SLPError \<Rightarrow> int" where
  "SLP_ERRORCODE e = (if e = SLP_OK then 0 else if e = SLP_PARSE_ERROR then -2 else -21)"

definition SLPDDatabaseSrvRqstStartIndexType ::
  "bool \<Rightarrow> string \<Rightarrow> srvrqst_msg \<Rightarrow> SLPDPredicateTreeNode option \<Rightarrow> SLPDDatabase \<Rightarrow> search" where
  "SLPDDatabaseSrvRqstStartIndexType ok junk rq tree d =
     (let s = skip_service (q_srvtype rq) in
      if \<not> ok then Inr (SLP_ERRORCODE SLP_MEMORY_ALLOC_FAILED, [])
      else
        bindR (SLPNormalizeString (length s) (s @ [NUL]) True) (\<lambda>n.
          snd (find_and_call (srvtype_index_tree d) n (SLPDDatabaseSrvRqstStartIndexCallback junk rq tree d) (Inr (0, [])))))"

definition SLPDDatabaseSrvRqstStartIndexAttribute ::
  "bool \<Rightarrow> string \<Rightarrow> string \<Rightarrow> nat IndexTree \<Rightarrow> srvrqst_msg \<Rightarrow> SLPDPredicateTreeNode option \<Rightarrow> SLPDDatabase \<Rightarrow> search" where
  "SLPDDatabaseSrvRqstStartIndexAttribute ok junk search_str attribute_index rq tree d =
     (let wildcard = c_memchr WILDCARD search_str;
          s = (case wildcard of None \<Rightarrow> search_str | Some i \<Rightarrow> take i search_str);
          callback = SLPDDatabaseSrvRqstStartIndexCallback junk rq tree d
      in
        (case SLPAttributeSearchString ok s of
           (SLP_OK, Some processed) \<Rightarrow>
             snd (if wildcard \<noteq> None then find_leading_and_call attribute_index processed callback (Inr (0, []))
                  else find_and_call attribute_index processed callback (Inr (0, [])))
         | (err, _) \<Rightarrow> Inr (SLP_ERRORCODE err, [])))"

fun srvrqst_scan ::
  "string \<Rightarrow> srvrqst_msg \<Rightarrow> SLPDPredicateTreeNode option \<Rightarrow> 32 word \<Rightarrow> (nat \<times> db_entry) list \<Rightarrow> nat list \<Rightarrow> search" where
  "srvrqst_scan junk rq tree count [] urls = Inr (0, urls)"
| "srvrqst_scan junk rq tree count ((p, e) # es) urls =
     bindR (SLPDDatabaseSrvRqstTestEntry junk rq tree e) (\<lambda>matches.
       if matches then
         (if int (length urls) + 1 > sint count then Inr (1, urls)
          else srvrqst_scan junk rq tree count es (urls @ [p]))
       else srvrqst_scan junk rq tree count es urls)"

definition SLPDDatabaseSrvRqstStartScan ::
  "string \<Rightarrow> srvrqst_msg \<Rightarrow> SLPDPredicateTreeNode option \<Rightarrow> SLPDDatabase \<Rightarrow> search" where
  "SLPDDatabaseSrvRqstStartScan junk rq tree d = srvrqst_scan junk rq tree (urlcount d) (db d) []"

text \<open>The tag index to use, and the value to look for in it.\<close>

definition leaf_index :: "(string \<times> nat IndexTree) list \<Rightarrow> SLPDPredicateTreeNode \<Rightarrow> (nat \<times> string) option" where
  "leaf_index tags n =
     (case n of
        COMPARISON op tag value \<Rightarrow>
          (if op = EQUAL \<and> chd value \<noteq> WILDCARD then map_option (\<lambda>i. (i, value)) (findTagIndex tags tag) else None)
      | _ \<Rightarrow> None)"

fun first_index :: "(string \<times> nat IndexTree) list \<Rightarrow> SLPDPredicateTreeNode list \<Rightarrow> (nat \<times> string) option" where
  "first_index tags [] = None"
| "first_index tags (n # ns) = (case leaf_index tags n of Some r \<Rightarrow> Some r | None \<Rightarrow> first_index tags ns)"

definition choose_index ::
  "(string \<times> nat IndexTree) list \<Rightarrow> SLPDPredicateTreeNode option \<Rightarrow> (nat \<times> string) option" where
  "choose_index tags tree =
     (case tree of
        None \<Rightarrow> None
      | Some (NODE_AND ns) \<Rightarrow> first_index tags ns
      | Some n \<Rightarrow> leaf_index tags n)"

definition use_index :: "SLPDProperty \<Rightarrow> srvrqst_msg \<Rightarrow> bool" where
  "use_index prop rq \<longleftrightarrow> srvtypeIsIndexed prop \<and> c_memchr CHR '':'' (skip_service (q_srvtype rq)) \<noteq> None"

text \<open>
  The predicate of a request: the outer \<open>None\<close> is an invalid one, to which the
  answer is empty, and \<open>Some None\<close> no predicate.
\<close>

definition parse_predicate :: "(nat \<Rightarrow> bool) \<Rightarrow> string \<Rightarrow> SLPDPredicateTreeNode option option" where
  "parse_predicate mok predicate =
     (if predicate = [] then Some None
      else
        (let p = c_string predicate in
         case createPredicateParseTree mok SLPD_PREDICATE_RECURSION_DEPTH p of
           Inl err \<Rightarrow> None
         | Inr tree \<Rightarrow> (if predicate_end p \<noteq> [] \<or> length p \<noteq> length predicate then None else Some (Some tree))))"

definition srvrqst_search ::
  "SLPDProperty \<Rightarrow> bool \<Rightarrow> string \<Rightarrow> srvrqst_msg \<Rightarrow> SLPDPredicateTreeNode option \<Rightarrow> SLPDDatabase \<Rightarrow> search" where
  "srvrqst_search prop ok junk rq tree d =
     (if use_index prop rq then SLPDDatabaseSrvRqstStartIndexType ok junk rq tree d
      else
        (case choose_index (tag_index d) tree of
           Some (i, value) \<Rightarrow> SLPDDatabaseSrvRqstStartIndexAttribute ok junk value (snd (tag_index d ! i)) rq tree d
         | None \<Rightarrow> SLPDDatabaseSrvRqstStartScan junk rq tree d))"

text \<open>
  The size of the array is an \<open>int\<close> that is converted to \<open>size_t\<close>; its doubling
  wraps around.  Any error of the search is taken for an array that is too
  small.  \<open>ralloc\<close> tells which sizes can be allocated; the result is the error
  code, the URLs and the database, no result a loop that has not ended after
  \<open>fuel\<close> rounds.
\<close>

definition SIZEOF_SRVRQST_RESULT :: "64 word" where "SIZEOF_SRVRQST_RESULT = 24"

fun srvrqst_loop ::
  "nat \<Rightarrow> SLPDProperty \<Rightarrow> (64 word \<Rightarrow> bool) \<Rightarrow> (nat \<Rightarrow> bool) \<Rightarrow> bool \<Rightarrow> string \<Rightarrow> srvrqst_msg \<Rightarrow> SLPDDatabase
     \<Rightarrow> (nat \<times> nat list option \<times> SLPDDatabase) res option" where
  "srvrqst_loop 0 prop ralloc mok ok junk rq d = None"
| "srvrqst_loop (Suc fuel) prop ralloc mok ok junk rq d =
     (if \<not> ralloc (SIZEOF_SRVRQST_RESULT + 8 * scast (urlcount d)) then Some (Inr (SLP_ERROR_INTERNAL_ERROR, None, d))
      else
        (case parse_predicate mok (q_predicate rq) of
           None \<Rightarrow> Some (Inr (SLP_ERROR_OK, Some [], d))
         | Some tree \<Rightarrow>
             (case srvrqst_search prop ok junk rq tree d of
                Inl f \<Rightarrow> Some (Inl f)
              | Inr (start_result, urls) \<Rightarrow>
                  (if start_result = 0 then Some (Inr (SLP_ERROR_OK, Some urls, d))
                   else srvrqst_loop fuel prop ralloc mok ok junk rq (d\<lparr>urlcount := urlcount d * 2\<rparr>)))))"

definition SLPDDatabaseSrvRqstStart ::
  "nat \<Rightarrow> SLPDProperty \<Rightarrow> bool \<Rightarrow> (64 word \<Rightarrow> bool) \<Rightarrow> (nat \<Rightarrow> bool) \<Rightarrow> bool \<Rightarrow> string \<Rightarrow> srvrqst_msg \<Rightarrow> SLPDDatabase
     \<Rightarrow> (nat \<times> nat list option \<times> SLPDDatabase) res option" where
  "SLPDDatabaseSrvRqstStart fuel prop open_ok ralloc mok ok junk rq d =
     (if open_ok then srvrqst_loop fuel prop ralloc mok ok junk rq d else Some (Inr (SLP_ERROR_OK, None, d)))"

section \<open>Service type requests\<close>

text \<open>A naming authority of length \<open>0xffff\<close> has no characters.\<close>

record srvtyperqst_msg =
  t_namingauthlen :: nat
  t_namingauth :: string
  t_scopelist :: string

text \<open>
  \<open>addr\<close> gives the address of the service type of an entry.  \<open>None\<close> is an array
  that is too small.
\<close>

fun srvtype_scan ::
  "(nat \<Rightarrow> 64 word) \<Rightarrow> srvtyperqst_msg \<Rightarrow> 64 word \<Rightarrow> (nat \<times> db_entry) list \<Rightarrow> string \<Rightarrow> string option res" where
  "srvtype_scan addr rq cap [] srvtypelist = Inr (Some srvtypelist)"
| "srvtype_scan addr rq cap ((p, e) # es) srvtypelist =
     (let srvtype = r_srvtype (e_reg e) in
      bindR (SLPCompareNamingAuth (addr p) srvtype (t_namingauthlen rq) (t_namingauth rq)) (\<lambda>cmp.
        if cmp = 0 \<and> SLPIntersectStringList (t_scopelist rq) (r_scopelist (e_reg e)) \<noteq> 0
           \<and> SLPContainsStringList srvtypelist srvtype = 0
        then
          (if of_nat (length srvtypelist) + of_nat (length srvtype) + 1 > cap then Inr None
           else srvtype_scan addr rq cap es ((if srvtypelist \<noteq> [] then srvtypelist @ '','' else []) @ srvtype))
        else srvtype_scan addr rq cap es srvtypelist))"

definition SIZEOF_SRVTYPERQST_RESULT :: "64 word" where "SIZEOF_SRVTYPERQST_RESULT = 24"

fun srvtyperqst_loop ::
  "nat \<Rightarrow> (64 word \<Rightarrow> bool) \<Rightarrow> (nat \<Rightarrow> 64 word) \<Rightarrow> srvtyperqst_msg \<Rightarrow> SLPDDatabase
     \<Rightarrow> (nat \<times> string option \<times> SLPDDatabase) res option" where
  "srvtyperqst_loop 0 ralloc addr rq d = None"
| "srvtyperqst_loop (Suc fuel) ralloc addr rq d =
     (if \<not> ralloc (SIZEOF_SRVTYPERQST_RESULT + srvtypelistlen d) then Some (Inr (SLP_ERROR_INTERNAL_ERROR, None, d))
      else
        (case srvtype_scan addr rq (srvtypelistlen d) (db d) [] of
           Inl f \<Rightarrow> Some (Inl f)
         | Inr (Some srvtypelist) \<Rightarrow> Some (Inr (SLP_ERROR_OK, Some srvtypelist, d))
         | Inr None \<Rightarrow> srvtyperqst_loop fuel ralloc addr rq (d\<lparr>srvtypelistlen := srvtypelistlen d * 2\<rparr>)))"

definition SLPDDatabaseSrvTypeRqstStart ::
  "nat \<Rightarrow> bool \<Rightarrow> (64 word \<Rightarrow> bool) \<Rightarrow> (nat \<Rightarrow> 64 word) \<Rightarrow> srvtyperqst_msg \<Rightarrow> SLPDDatabase
     \<Rightarrow> (nat \<times> string option \<times> SLPDDatabase) res option" where
  "SLPDDatabaseSrvTypeRqstStart fuel open_ok ralloc addr rq d =
     (if open_ok then srvtyperqst_loop fuel ralloc addr rq d else Some (Inr (SLP_ERROR_OK, None, d)))"

section \<open>Attribute requests\<close>

text \<open>\<open>a_behind\<close> is the memory behind the URL of the request, to the end of its buffer.\<close>

record attrrqst_msg =
  a_url :: string
  a_behind :: string
  a_scopelist :: string
  a_taglist :: string

record attrrqst_result =
  ar_attrlist :: "string option"
  ar_attrlistlen :: int
  ar_ispartial :: bool

text \<open>
  Whether the scan ends, and the result.  The buffers have a byte behind the two
  lists.  \<open>None\<close>: selecting the attributes has not ended after \<open>fuel\<close> attributes.
\<close>

definition SLPDDatabaseAttrRqstProcessEntry ::
  "nat \<Rightarrow> allocations \<Rightarrow> bool \<Rightarrow> attrrqst_msg \<Rightarrow> reg_msg \<Rightarrow> attrrqst_result \<Rightarrow> (bool \<times> attrrqst_result) res option" where
  "SLPDDatabaseAttrRqstProcessEntry fuel al ok_out rq entryreg result =
     (if (SLPCompareString (a_url rq) (r_url entryreg) = 0 \<or> SLPCompareSrvType (a_url rq) (r_srvtype entryreg) = 0)
         \<and> SLPIntersectStringList (a_scopelist rq) (r_scopelist entryreg) \<noteq> 0 then
        (if a_taglist rq = [] then
           Some (Inr (True, result\<lparr>ar_attrlistlen := int (length (r_attrlist entryreg)), ar_attrlist := Some (r_attrlist entryreg)\<rparr>))
         else
           (case SLPDFilterAttributes fuel (al_attr al) (al_freshen al) ok_out
                   (length (r_attrlist entryreg)) (r_attrlist entryreg @ [NUL]) (length (a_taglist rq)) (a_taglist rq @ [NUL]) of
              None \<Rightarrow> None
            | Some (Inl f) \<Rightarrow> Some (Inl f)
            | Some (Inr (failed, len, out)) \<Rightarrow>
                (let result = result\<lparr>ar_attrlistlen := len, ar_attrlist := out\<rparr> in
                 Some (Inr (if \<not> failed then (True, result\<lparr>ar_ispartial := True\<rparr>) else (False, result))))))
      else Some (Inr (False, result)))"

definition SLPDDatabaseAttrRqstStartIndexCallback ::
  "nat \<Rightarrow> allocations \<Rightarrow> bool \<Rightarrow> attrrqst_msg \<Rightarrow> SLPDDatabase \<Rightarrow> nat \<Rightarrow> attrrqst_result res option \<Rightarrow> attrrqst_result res option" where
  "SLPDDatabaseAttrRqstStartIndexCallback fuel al ok_out rq d p s =
     (case s of
        Some (Inr result) \<Rightarrow>
          (case map_of (db d) p of
             None \<Rightarrow> Some (Inl OutOfBounds)
           | Some e \<Rightarrow> map_option (map_sum id snd) (SLPDDatabaseAttrRqstProcessEntry fuel al ok_out rq (e_reg e) result))
      | _ \<Rightarrow> s)"

text \<open>
  \<open>strstr\<close> on the memory at \<open>m\<close>, which has to have a terminator unless the
  pattern is found: the byte behind the URL is saved and restored, but not
  overwritten.
\<close>

fun c_strstr :: "string \<Rightarrow> string \<Rightarrow> nat option res" where
  "c_strstr [] pat = Inl OutOfBounds"
| "c_strstr (c # m) pat =
     (if take (length pat) (c # m) = pat then Inr (Some 0)
      else if c = NUL then Inr None
      else bindR (c_strstr m pat) (\<lambda>r. Inr (map_option Suc r)))"

definition SLPDDatabaseAttrRqstStartIndexType ::
  "nat \<Rightarrow> allocations \<Rightarrow> bool \<Rightarrow> attrrqst_msg \<Rightarrow> SLPDDatabase \<Rightarrow> attrrqst_result \<Rightarrow> attrrqst_result res option" where
  "SLPDDatabaseAttrRqstStartIndexType fuel al ok_out rq d result =
     (case c_strstr (a_url rq @ a_behind rq) ''://'' of
        Inl f \<Rightarrow> Some (Inl f)
      | Inr p \<Rightarrow>
          (let srvtypelen = (case p of None \<Rightarrow> length (a_url rq) | Some p \<Rightarrow> p) in
           case createNormalisedSrvtype (al_srvtype al) (take srvtypelen (a_url rq @ a_behind rq)) of
             Inl f \<Rightarrow> Some (Inl f)
           | Inr None \<Rightarrow> Some (Inr result)
           | Inr (Some n) \<Rightarrow>
               snd (find_and_call (srvtype_index_tree d) n
                      (SLPDDatabaseAttrRqstStartIndexCallback fuel al ok_out rq d) (Some (Inr result)))))"

fun SLPDDatabaseAttrRqstStartScan ::
  "nat \<Rightarrow> allocations \<Rightarrow> bool \<Rightarrow> attrrqst_msg \<Rightarrow> (nat \<times> db_entry) list \<Rightarrow> attrrqst_result \<Rightarrow> attrrqst_result res option" where
  "SLPDDatabaseAttrRqstStartScan fuel al ok_out rq [] result = Some (Inr result)"
| "SLPDDatabaseAttrRqstStartScan fuel al ok_out rq ((p, e) # es) result =
     (case SLPDDatabaseAttrRqstProcessEntry fuel al ok_out rq (e_reg e) result of
        None \<Rightarrow> None
      | Some (Inl f) \<Rightarrow> Some (Inl f)
      | Some (Inr (stop, result)) \<Rightarrow>
          (if stop then Some (Inr result) else SLPDDatabaseAttrRqstStartScan fuel al ok_out rq es result))"

text \<open>\<open>ok\<close>: the allocation of the result; without it the answer is an internal error.\<close>

definition SLPDDatabaseAttrRqstStart ::
  "nat \<Rightarrow> SLPDProperty \<Rightarrow> bool \<Rightarrow> allocations \<Rightarrow> bool \<Rightarrow> attrrqst_msg \<Rightarrow> SLPDDatabase \<Rightarrow> (nat \<times> attrrqst_result option) res option" where
  "SLPDDatabaseAttrRqstStart fuel prop ok al ok_out rq d =
     (if \<not> ok then Some (Inr (SLP_ERROR_INTERNAL_ERROR, None))
      else
        (let result = \<lparr>ar_attrlist = None, ar_attrlistlen = 0, ar_ispartial = False\<rparr> in
         map_option (map_sum id (\<lambda>r. (SLP_ERROR_OK, Some r)))
           (if \<not> al_open al then Some (Inr result)
            else if srvtypeIsIndexed prop then SLPDDatabaseAttrRqstStartIndexType fuel al ok_out rq d result
            else SLPDDatabaseAttrRqstStartScan fuel al ok_out rq (db d) result)))"

section \<open>Start and restart\<close>

definition SLPDDatabaseIsEmpty :: "bool \<Rightarrow> SLPDDatabase \<Rightarrow> bool" where
  "SLPDDatabaseIsEmpty open_ok d \<longleftrightarrow> open_ok \<and> db d = []"

fun remove_static :: "SLPDProperty \<Rightarrow> bool \<Rightarrow> nat list \<Rightarrow> SLPDDatabase \<Rightarrow> SLPDDatabase res" where
  "remove_static prop iter_ok [] d = Inr d"
| "remove_static prop iter_ok (p # ps) d =
     (case map_of (db d) p of
        None \<Rightarrow> Inl OutOfBounds
      | Some e \<Rightarrow>
          (if r_source (e_reg e) = SLP_REG_SOURCE_STATIC
           then bindR (SLPDDatabaseRemove prop iter_ok p d) (remove_static prop iter_ok ps)
           else remove_static prop iter_ok ps d))"

text \<open>The registrations that reading the file gives, each with the allocations of its registration.\<close>

fun register_all :: "SLPDProperty \<Rightarrow> (allocations \<times> reg_msg) list \<Rightarrow> SLPDDatabase \<Rightarrow> SLPDDatabase res" where
  "register_all prop [] d = Inr d"
| "register_all prop ((al, reg) # regs) d =
     bindR (SLPDDatabaseReg prop al reg d) (\<lambda>(_, d). register_all prop regs d)"

definition SLPDDatabaseReInit ::
  "SLPDProperty \<Rightarrow> bool \<Rightarrow> bool \<Rightarrow> (allocations \<times> reg_msg) list \<Rightarrow> SLPDDatabase \<Rightarrow> SLPDDatabase res" where
  "SLPDDatabaseReInit prop open_ok iter_ok regfile d =
     bindR (if open_ok then remove_static prop iter_ok (map fst (db d)) d else Inr d) (register_all prop regfile)"

fun add_tags :: "(nat \<Rightarrow> bool) \<Rightarrow> var_t list \<Rightarrow> (string \<times> nat IndexTree) list \<Rightarrow> nat \<times> (string \<times> nat IndexTree) list" where
  "add_tags mok [] tags = (SLP_ERROR_OK, tags)"
| "add_tags mok (v # vs) tags =
     (if vtype v \<noteq> SLP_KEYWORD then (SLP_ERROR_INTERNAL_ERROR, tags)
      else
        (case addTagIndex (mok (length vs)) (c_string (vtag v)) tags of
           (err, tags) \<Rightarrow> (if err \<noteq> SLP_ERROR_OK then (SLP_ERROR_INTERNAL_ERROR, tags) else add_tags mok vs tags)))"

definition empty_database :: SLPDDatabase where
  "empty_database =
     \<lparr>db = [], urlcount = 256, srvtypelistlen = 2048, srvtype_index_tree = Null, tag_index = [], events = []\<rparr>"

text \<open>
  \<open>mok\<close> is for the allocations of the tag indexes.  After a failed allocation of
  the attribute list the code frees the uninitialised handle.
\<close>

definition SLPDDatabaseInit ::
  "SLPDProperty \<Rightarrow> allocations \<Rightarrow> (nat \<Rightarrow> bool) \<Rightarrow> (allocations \<times> reg_msg) list \<Rightarrow> (nat \<times> SLPDDatabase) res" where
  "SLPDDatabaseInit prop al mok regfile =
     (case indexedAttributes prop of
        None \<Rightarrow> bindR (SLPDDatabaseReInit prop (al_open al) (al_iter al) regfile empty_database) (\<lambda>d. Inr (SLP_ERROR_OK, d))
      | Some taglist \<Rightarrow>
          (case SLPAttrAlloc (al_attr al) ''en'' False False of
             (_, None) \<Rightarrow> Inl OutOfBounds
           | (_, Some a) \<Rightarrow>
               bindR (SLPAttrFreshen (al_freshen al) a taglist) (\<lambda>(err, a).
                 if err \<noteq> SLP_OK \<or> \<not> al_iter al then Inr (SLP_ERROR_INTERNAL_ERROR, empty_database)
                 else
                   (case add_tags mok (attrs a) [] of
                      (result, tags) \<Rightarrow>
                        (let d = empty_database\<lparr>tag_index := tags\<rparr> in
                         if result \<noteq> SLP_ERROR_OK then Inr (result, d)
                         else bindR (SLPDDatabaseReInit prop (al_open al) (al_iter al) regfile d) (\<lambda>d. Inr (SLP_ERROR_OK, d)))))))"

section \<open>The byte behind a service type\<close>

lemma normstr_ws_behind:
  "i + len \<le> length s \<Longrightarrow> normstr_ws (s @ c # t) len i = normstr_ws (s @ d # u) len i"
proof (induction len arbitrary: i)
  case 0
  then show ?case by (simp add: normstr_ws.simps[of _ 0] rdR_def)
next
  case (Suc len)
  then show ?case
    by (simp add: normstr_ws.simps[of _ "Suc len"] rdR_def nth_append)
qed

lemma normstr_loop_behind:
  "i + len \<le> length s \<Longrightarrow> normstr_loop (s @ c # t) tr len i out = normstr_loop (s @ d # u) tr len i out"
proof (induction len arbitrary: i out rule: less_induct)
  case (less len)
  let ?m = "s @ c # t" and ?n = "s @ d # u"
  show ?case
  proof (cases "len = 0")
    case True
    then show ?thesis by (simp add: normstr_loop.simps[of _ tr 0])
  next
    case False
    with less.prems have i: "i < length s" by simp
    have rd: "rdR (s @ x # y) j = Inr (s ! j)" if "j < length s" for x y j using that by (simp add: rdR_def nth_append)
    show ?thesis
    proof (cases "c_isspace (s ! i)")
      case True
      obtain len' i' where w: "normstr_ws ?m len i = Inr (len', i')"
        using normstr_ws_ok[of i len ?m] less.prems by auto
      have n: "normstr_ws ?n len i = Inr (len', i')" using w normstr_ws_behind[OF less.prems] by metis
      have "len' + i' = len + i" "len' < len"
        using normstr_ws_le[OF w] normstr_ws_less[OF w, of "s ! i"] False True rd[OF i, of c t] by (auto simp: rdR_def split: if_splits)
      with less.IH[of len' i'] less.prems have IH: "normstr_loop ?m tr len' i' o' = normstr_loop ?n tr len' i' o'" for o' by simp
      show ?thesis using False True w n rd[OF i]
        by (simp add: normstr_loop.simps[of ?m tr len] normstr_loop.simps[of ?n tr len] IH)
    next
      case nsp: False
      have IH1: "normstr_loop ?m tr (len - 1) (i + 1) o' = normstr_loop ?n tr (len - 1) (i + 1) o'" for o'
        using less.IH[of "len - 1" "i + 1"] less.prems False by simp
      have IH3: "normstr_loop ?m tr (len - 3) i o' = normstr_loop ?n tr (len - 3) i o'" for o'
        using less.IH[of "len - 3" i] less.prems False by simp
      have rds: "3 \<le> len \<Longrightarrow> rdR (s @ x # y) (i + 1) = Inr (s ! (i + 1))" "3 \<le> len \<Longrightarrow> rdR (s @ x # y) (i + 2) = Inr (s ! (i + 2))" for x y
        using less.prems by (intro rd; simp)+
      show ?thesis using False nsp rd[OF i] rds IH1 IH3
        by (simp add: normstr_loop.simps[of ?m tr len] normstr_loop.simps[of ?n tr len] not_less)
    qed
  qed
qed

lemma SLPNormalizeString_behind:
  "SLPNormalizeString (length s) (s @ c # t) tr = SLPNormalizeString (length s) (s @ d # u) tr"
  using normstr_loop_behind[of 0 "length s" s] by (simp add: SLPNormalizeString_def)

lemma getNormalisedSrvtype_ok: "\<exists>n. getNormalisedSrvtype True srvtype = Inr (Some n) \<and> length n \<le> length srvtype"
proof -
  have "\<exists>out. SLPNormalizeString (length s) (s @ [NUL]) True = Inr out \<and> length out \<le> length s" for s
    using normstr_loop_ok[of 0 "length s" "s @ [NUL]" True "[]"] by (simp add: SLPNormalizeString_def)
  from this[of srvtype] this[of "drop 8 srvtype"] show ?thesis by (auto simp: getNormalisedSrvtype_def)
qed

section \<open>Counting what an index holds\<close>

text \<open>An index that holds location \<open>p\<close> under the string \<open>k\<close> as often as \<open>c k p\<close> says.\<close>

context value_index begin

definition counts :: "'t \<Rightarrow> (string \<Rightarrow> 'p \<Rightarrow> nat) \<Rightarrow> bool" where
  "counts t c \<longleftrightarrow> good t \<and> (\<forall>k p. count_list (lookup t k) p = c k p)"

lemma counts_empty: "counts empty (\<lambda>k p. 0)"
  by (simp add: counts_def empty)

lemma counts_add:
  assumes "counts t c"
  shows "\<exists>t'. add t k p = Inr t' \<and> counts t' (\<lambda>k' q. c k' q + (if q = p \<and> k' = k then 1 else 0))"
  using assms add_ok[of t k p] by (auto simp: counts_def)

lemma count_list_remove1: "count_list (remove1 p xs) q = count_list xs q - (if q = p then 1 else 0)"
  by (induction xs) (auto simp: Suc_diff_le count_notin dest!: count_list_0_iff[THEN iffD1])

lemma counts_delete:
  assumes "counts t c"
  shows "\<exists>t'. delete t k p = Inr t' \<and> counts t' (\<lambda>k' q. c k' q - (if q = p \<and> k' = k then 1 else 0))"
  using assms delete_ok[of t k p] by (auto simp: counts_def count_list_remove1)

lemma counts_lookup: "counts t c \<Longrightarrow> set (lookup t k) = {p. c k p \<noteq> 0}"
  using count_list_0_iff[of "lookup t k"] by (auto simp: counts_def)

end

lemma index_values_add:
  "idx.counts t c \<Longrightarrow> \<exists>t'. index_values (add_to_index True) t vs p = Inr t'
     \<and> idx.counts t' (\<lambda>k q. c k q + (if q = p then count_list (map va_str vs) k else 0))"
proof (induction vs arbitrary: t c)
  case (Cons v vs)
  obtain t1 where t1: "add_to_index True t (va_str v) p = Inr t1"
    "idx.counts t1 (\<lambda>k q. c k q + (if q = p \<and> k = va_str v then 1 else 0))"
    using idx.counts_add[OF Cons.prems] by blast
  from Cons.IH[OF t1(2)] obtain t' where t': "index_values (add_to_index True) t1 vs p = Inr t'"
    "idx.counts t' (\<lambda>k q. c k q + (if q = p \<and> k = va_str v then 1 else 0) + (if q = p then count_list (map va_str vs) k else 0))"
    by blast
  have "(\<lambda>k q. c k q + (if q = p \<and> k = va_str v then 1 else 0) + (if q = p then count_list (map va_str vs) k else 0))
      = (\<lambda>k q. c k q + (if q = p then count_list (map va_str (v # vs)) k else 0))" by (auto simp: fun_eq_iff)
  with t1 t' show ?case by simp
qed (simp cong: if_cong)

lemma index_values_delete:
  "idx.counts t c \<Longrightarrow> \<exists>t'. index_values index_tree_delete t vs p = Inr t'
     \<and> idx.counts t' (\<lambda>k q. c k q - (if q = p then count_list (map va_str vs) k else 0))"
proof (induction vs arbitrary: t c)
  case (Cons v vs)
  obtain t1 where t1: "index_tree_delete t (va_str v) p = Inr t1"
    "idx.counts t1 (\<lambda>k q. c k q - (if q = p \<and> k = va_str v then 1 else 0))"
    using idx.counts_delete[OF Cons.prems] by blast
  from Cons.IH[OF t1(2)] obtain t' where t': "index_values index_tree_delete t1 vs p = Inr t'"
    "idx.counts t' (\<lambda>k q. c k q - (if q = p \<and> k = va_str v then 1 else 0) - (if q = p then count_list (map va_str vs) k else 0))"
    by blast
  have "(\<lambda>k q. c k q - (if q = p \<and> k = va_str v then 1 else 0) - (if q = p then count_list (map va_str vs) k else 0))
      = (\<lambda>k q. c k q - (if q = p then count_list (map va_str (v # vs)) k else 0))" by (auto simp: fun_eq_iff)
  with t1 t' show ?case by simp
qed (simp cong: if_cong)


section \<open>The tag indexes\<close>

definition tag_pos :: "string list \<Rightarrow> string \<Rightarrow> nat option" where
  "tag_pos names tag = findTagIndex (map (\<lambda>n. (n, Null)) names) tag"

lemma findTagIndex_pos: "findTagIndex tags tag = tag_pos (map fst tags) tag"
  by (induction tags) (auto simp: tag_pos_def)

lemma findTagIndex_bound: "findTagIndex tags tag = Some i \<Longrightarrow> i < length tags"
  by (induction tags arbitrary: i) (auto split: if_splits)

text \<open>The values of the string attributes that go into the index at position \<open>i\<close>.\<close>

definition tag_values :: "string list \<Rightarrow> nat \<Rightarrow> var_t list \<Rightarrow> string list" where
  "tag_values names i vars =
     concat (map (\<lambda>v. map va_str (vlist v))
       (filter (\<lambda>v. vtype v = SLP_STRING \<and> tag_pos names (c_string (vtag v)) = Some i) vars))"

definition tags_count :: "(string \<times> nat IndexTree) list \<Rightarrow> (nat \<Rightarrow> string \<Rightarrow> nat \<Rightarrow> nat) \<Rightarrow> bool" where
  "tags_count tags C \<longleftrightarrow> (\<forall>i < length tags. idx.counts (snd (tags ! i)) (C i))"

lemma tags_count_cong: "tags_count tags C \<Longrightarrow> (\<And>i k q. i < length tags \<Longrightarrow> C i k q = D i k q) \<Longrightarrow> tags_count tags D"
  by (simp add: tags_count_def idx.counts_def)

text \<open>\<open>upd\<close> applies \<open>op\<close> to the count of what is added or deleted.\<close>

lemma index_attributes_ok:
  assumes step: "\<And>t c vs. idx.counts t c \<Longrightarrow> \<exists>t'. index_values upd t vs p = Inr t'
      \<and> idx.counts t' (\<lambda>k q. f (c k q) (if q = p then count_list (map va_str vs) k else 0))"
    and f: "\<And>a. f a 0 = a" "\<And>a m n. f (f a m) n = f a (m + n)"
    and tags: "tags_count tags C"
  shows "\<exists>tags'. index_attributes upd tags vars p = Inr tags' \<and> map fst tags' = map fst tags
    \<and> tags_count tags' (\<lambda>i k q. f (C i k q) (if q = p then count_list (tag_values (map fst tags) i vars) k else 0))"
  using tags
proof (induction vars arbitrary: tags C)
  case Nil
  then show ?case by (simp add: tag_values_def f cong: if_cong)
next
  case (Cons v vs)
  show ?case
  proof (cases "vtype v = SLP_STRING \<and> findTagIndex tags (c_string (vtag v)) \<noteq> None")
    case False
    then have "tag_values (map fst tags) i (v # vs) = tag_values (map fst tags) i vs" for i
      by (auto simp: tag_values_def findTagIndex_pos)
    with False Cons.IH[OF Cons.prems] show ?thesis by (auto cong: if_cong)
  next
    case True
    then obtain j where j: "findTagIndex tags (c_string (vtag v)) = Some j" "j < length tags"
      using findTagIndex_bound by blast
    obtain t' where t': "index_values upd (snd (tags ! j)) (vlist v) p = Inr t'"
      "idx.counts t' (\<lambda>k q. f (C j k q) (if q = p then count_list (map va_str (vlist v)) k else 0))"
      using step Cons.prems j(2) unfolding tags_count_def by blast
    let ?tags = "tags[j := (fst (tags ! j), t')]"
    let ?D = "\<lambda>i k q. if i = j then f (C i k q) (if q = p then count_list (map va_str (vlist v)) k else 0) else C i k q"
    have fst: "map fst ?tags = map fst tags" using j(2) by (metis list_update_id map_update nth_map fst_conv)
    have "tags_count ?tags ?D"
      using Cons.prems t'(2) j(2) by (auto simp: tags_count_def nth_list_update)
    from Cons.IH[OF this] obtain tags' where IH: "index_attributes upd ?tags vs p = Inr tags'" "map fst tags' = map fst tags"
      "tags_count tags' (\<lambda>i k q. f (?D i k q) (if q = p then count_list (tag_values (map fst tags) i vs) k else 0))"
      unfolding fst by blast
    have "tags_count tags' (\<lambda>i k q. f (C i k q) (if q = p then count_list (tag_values (map fst tags) i (v # vs)) k else 0))"
      by (rule tags_count_cong[OF IH(3)])
        (use True j(1) in \<open>auto simp: tag_values_def findTagIndex_pos f\<close>)
    with True j(1) t'(1) IH(1,2) show ?thesis by auto
  qed
qed

lemmas index_attributes_add = index_attributes_ok[of "add_to_index True" _ "(+)", OF index_values_add, simplified]
lemmas index_attributes_delete = index_attributes_ok[of index_tree_delete _ "(-)", OF index_values_delete, simplified]



section \<open>The invariant of the database\<close>

definition srvtype_count :: "(nat \<times> db_entry) list \<Rightarrow> string \<Rightarrow> nat \<Rightarrow> nat" where
  "srvtype_count es k p = (case map_of es p of None \<Rightarrow> 0 | Some e \<Rightarrow> if h_srvtype e = Some k then 1 else 0)"

definition tag_count :: "string list \<Rightarrow> (nat \<times> db_entry) list \<Rightarrow> nat \<Rightarrow> string \<Rightarrow> nat \<Rightarrow> nat" where
  "tag_count names es i k p =
     (case map_of es p of
        None \<Rightarrow> 0
      | Some e \<Rightarrow> (case h_attrs e of None \<Rightarrow> 0 | Some a \<Rightarrow> count_list (tag_values names i (attrs a)) k))"

text \<open>
  Entries have different addresses and a normalised type; an index that is kept
  has exactly the addresses of the entries, each as often as the entry has the
  string.
\<close>

definition db_inv :: "SLPDProperty \<Rightarrow> SLPDDatabase \<Rightarrow> bool" where
  "db_inv prop d \<longleftrightarrow>
     distinct (map fst (db d)) \<and> (\<forall>(p, e) \<in> set (db d). h_srvtype e \<noteq> None)
     \<and> (srvtypeIsIndexed prop \<longrightarrow> idx.counts (srvtype_index_tree d) (srvtype_count (db d)))
     \<and> (indexedAttributes prop \<noteq> None \<longrightarrow> tags_count (tag_index d) (tag_count (map fst (tag_index d)) (db d)))"

lemma map_of_removed: "map_of (filter (\<lambda>(q, _). q \<noteq> p) es) q = (if q = p then None else map_of es q)"
  by (induction es) auto

lemma map_of_appended: "p \<notin> fst ` set es \<Longrightarrow> map_of (es @ [(p, e)]) q = (if q = p then Some e else map_of es q)"
  by (induction es) auto

lemma SLPDDatabaseRemove_ok:
  assumes inv: "db_inv prop d" and e: "map_of (db d) p = Some e"
  shows "\<exists>d'. SLPDDatabaseRemove prop True p d = Inr d' \<and> db_inv prop d' \<and> db d' = filter (\<lambda>(q, _). q \<noteq> p) (db d)
    \<and> urlcount d' = urlcount d \<and> srvtypelistlen d' = srvtypelistlen d \<and> events d' = events d"
proof -
  obtain t where t: "h_srvtype e = Some t" using inv map_of_SomeD[OF e] by (force simp: db_inv_def)
  let ?es = "filter (\<lambda>(q, _). q \<noteq> p) (db d)"
  have "\<exists>st. (if srvtypeIsIndexed prop then index_tree_delete (srvtype_index_tree d) t p else Inr (srvtype_index_tree d)) = Inr st
      \<and> (srvtypeIsIndexed prop \<longrightarrow> idx.counts st (srvtype_count ?es))"
  proof (cases "srvtypeIsIndexed prop")
    case True
    with inv have "idx.counts (srvtype_index_tree d) (srvtype_count (db d))" by (simp add: db_inv_def)
    from idx.counts_delete[OF this, of t p] obtain st where st: "index_tree_delete (srvtype_index_tree d) t p = Inr st"
      "idx.counts st (\<lambda>k q. srvtype_count (db d) k q - (if q = p \<and> k = t then 1 else 0))" by blast
    have "(\<lambda>k q. srvtype_count (db d) k q - (if q = p \<and> k = t then 1 else 0)) = srvtype_count ?es"
      using e t by (auto simp: fun_eq_iff srvtype_count_def map_of_removed)
    with st True show ?thesis by auto
  qed simp
  then obtain st where st: "(if srvtypeIsIndexed prop then index_tree_delete (srvtype_index_tree d) t p else Inr (srvtype_index_tree d)) = Inr st"
    "srvtypeIsIndexed prop \<longrightarrow> idx.counts st (srvtype_count ?es)" by blast
  let ?ti = "case h_attrs e of None \<Rightarrow> Inr (tag_index d)
     | Some a \<Rightarrow> (if indexedAttributes prop \<noteq> None \<and> True then index_attributes index_tree_delete (tag_index d) (attrs a) p else Inr (tag_index d))"
  have "\<exists>ti. ?ti = Inr ti \<and> (indexedAttributes prop \<noteq> None \<longrightarrow> tags_count ti (tag_count (map fst ti) ?es))"
  proof (cases "indexedAttributes prop = None")
    case False
    with inv have tc: "tags_count (tag_index d) (tag_count (map fst (tag_index d)) (db d))" by (simp add: db_inv_def)
    show ?thesis
    proof (cases "h_attrs e")
      case None
      have "tag_count names (db d) = tag_count names ?es" for names
        using e None by (auto simp: fun_eq_iff tag_count_def map_of_removed)
      with None tc show ?thesis by auto
    next
      case (Some a)
      from index_attributes_delete[OF tc, of "attrs a" p] obtain ti where
        ti: "index_attributes index_tree_delete (tag_index d) (attrs a) p = Inr ti" "map fst ti = map fst (tag_index d)"
        "tags_count ti (\<lambda>i k q. tag_count (map fst (tag_index d)) (db d) i k q
           - (if q = p then count_list (tag_values (map fst (tag_index d)) i (attrs a)) k else 0))" by blast
      have "(\<lambda>i k q. tag_count (map fst (tag_index d)) (db d) i k q
           - (if q = p then count_list (tag_values (map fst (tag_index d)) i (attrs a)) k else 0)) = tag_count (map fst (tag_index d)) ?es"
        using e Some by (auto simp: fun_eq_iff tag_count_def map_of_removed)
      with ti Some False show ?thesis by auto
    qed
  qed (auto split: option.splits)
  then obtain ti where ti: "?ti = Inr ti" "indexedAttributes prop \<noteq> None \<longrightarrow> tags_count ti (tag_count (map fst ti) ?es)" by blast
  let ?d = "d\<lparr>db := ?es, srvtype_index_tree := st, tag_index := ti\<rparr>"
  have "SLPDDatabaseRemove prop True p d = Inr ?d"
    unfolding SLPDDatabaseRemove_def e option.case t st(1) bindR_simps ti(1) ..
  moreover have "db_inv prop ?d" using inv st(2) ti(2) by (auto simp: db_inv_def distinct_map_filter)
  ultimately show ?thesis by (intro exI[of _ ?d]) simp
qed

lemma db_inv_emit: "db_inv prop (emit_event ev d) \<longleftrightarrow> db_inv prop d" "db (emit_event ev d) = db d"
  by (simp_all add: db_inv_def emit_event_def)

lemma db_inv_emits:
  "db_inv prop (foldl (\<lambda>d i. emit_event (ev i) d) d is) \<longleftrightarrow> db_inv prop d"
  "db (foldl (\<lambda>d i. emit_event (ev i) d) d is) = db d"
  by (induction "is" arbitrary: d) (simp_all add: db_inv_emit)

lemma find_map_of:
  "List.find P es = Some (p, e) \<Longrightarrow> distinct (map fst es) \<Longrightarrow> map_of es p = Some e \<and> P (p, e)"
  by (auto simp: find_Some_iff)

lemma srvtype_count_appended:
  "p \<notin> fst ` set es \<Longrightarrow>
   srvtype_count (es @ [(p, e)]) = (\<lambda>k q. srvtype_count es k q + (if q = p \<and> h_srvtype e = Some k then 1 else 0))"
  by (auto simp: fun_eq_iff srvtype_count_def map_of_appended map_of_eq_None_iff[symmetric] simp del: map_of_append)

lemma tag_count_appended:
  "p \<notin> fst ` set es \<Longrightarrow>
   tag_count names (es @ [(p, e)]) = (\<lambda>i k q. tag_count names es i k q
     + (if q = p then (case h_attrs e of None \<Rightarrow> 0 | Some a \<Rightarrow> count_list (tag_values names i (attrs a)) k) else 0))"
  by (auto simp: fun_eq_iff tag_count_def map_of_appended map_of_eq_None_iff[symmetric] simp del: map_of_append split: option.splits)

lemma add_entry_ok:
  assumes inv: "db_inv prop d" and al: "al_index al" "al_iter al" "al_entry al = Some p" and p: "p \<notin> fst ` set (db d)"
  shows "\<exists>d' e. add_entry prop al reg t attr d = Inr (SLP_ERROR_OK, d') \<and> db_inv prop d' \<and> db d' = db d @ [(p, e)]
    \<and> h_attrs e = attr \<and> h_srvtype e = Some t
    \<and> e_reg e = reg\<lparr>r_source := if r_source reg = SLP_REG_SOURCE_UNKNOWN
                         then (if SLPNetIsLoopback (r_peer reg) then SLP_REG_SOURCE_LOCAL else SLP_REG_SOURCE_REMOTE)
                         else r_source reg\<rparr>
    \<and> urlcount d' = urlcount d \<and> srvtypelistlen d' = srvtypelistlen d \<and> events d' = events d
    \<and> map fst (tag_index d') = map fst (tag_index d)"
proof -
  obtain e where e: "e = \<lparr>e_reg = reg\<lparr>r_source := if r_source reg = SLP_REG_SOURCE_UNKNOWN
     then (if SLPNetIsLoopback (r_peer reg) then SLP_REG_SOURCE_LOCAL else SLP_REG_SOURCE_REMOTE) else r_source reg\<rparr>,
     h_attrs = attr, h_srvtype = Some t\<rparr>" by blast
  have h: "h_attrs e = attr" "h_srvtype e = Some t" by (simp_all add: e)
  let ?es = "db d @ [(p, e)]"
  let ?st = "if srvtypeIsIndexed prop then add_to_index True (srvtype_index_tree d) t p else Inr (srvtype_index_tree d)"
  have "\<exists>st. ?st = Inr st \<and> (srvtypeIsIndexed prop \<longrightarrow> idx.counts st (srvtype_count ?es))"
  proof (cases "srvtypeIsIndexed prop")
    case True
    with inv have "idx.counts (srvtype_index_tree d) (srvtype_count (db d))" by (simp add: db_inv_def)
    from idx.counts_add[OF this, of t p] obtain st where st: "add_to_index True (srvtype_index_tree d) t p = Inr st"
      "idx.counts st (\<lambda>k q. srvtype_count (db d) k q + (if q = p \<and> k = t then 1 else 0))" by blast
    have "(\<lambda>k q. srvtype_count (db d) k q + (if q = p \<and> k = t then 1 else 0)) = srvtype_count ?es"
      by (auto simp: srvtype_count_appended[OF p] h fun_eq_iff)
    with st True show ?thesis by auto
  qed simp
  then obtain st where st: "?st = Inr st" "srvtypeIsIndexed prop \<longrightarrow> idx.counts st (srvtype_count ?es)" by blast
  let ?ti = "case attr of None \<Rightarrow> Inr (tag_index d)
     | Some a \<Rightarrow> (if indexedAttributes prop \<noteq> None \<and> True then index_attributes (add_to_index True) (tag_index d) (attrs a) p
                 else Inr (tag_index d))"
  have "\<exists>ti. ?ti = Inr ti \<and> map fst ti = map fst (tag_index d) \<and> (indexedAttributes prop \<noteq> None \<longrightarrow> tags_count ti (tag_count (map fst ti) ?es))"
  proof (cases "indexedAttributes prop = None")
    case False
    with inv have tc: "tags_count (tag_index d) (tag_count (map fst (tag_index d)) (db d))" by (simp add: db_inv_def)
    show ?thesis
    proof (cases attr)
      case None
      have "tag_count names (db d) = tag_count names ?es" for names
        using None by (simp add: tag_count_appended[OF p] h cong: if_cong)
      with None tc show ?thesis by auto
    next
      case (Some a)
      from index_attributes_add[OF tc, of "attrs a" p] obtain ti where
        ti: "index_attributes (add_to_index True) (tag_index d) (attrs a) p = Inr ti" "map fst ti = map fst (tag_index d)"
        "tags_count ti (\<lambda>i k q. tag_count (map fst (tag_index d)) (db d) i k q
           + (if q = p then count_list (tag_values (map fst (tag_index d)) i (attrs a)) k else 0))" by blast
      have "(\<lambda>i k q. tag_count (map fst (tag_index d)) (db d) i k q
           + (if q = p then count_list (tag_values (map fst (tag_index d)) i (attrs a)) k else 0)) = tag_count (map fst (tag_index d)) ?es"
        using Some by (simp add: tag_count_appended[OF p] h cong: if_cong)
      with ti Some False show ?thesis by auto
    qed
  qed (auto split: option.splits)
  then obtain ti where ti: "?ti = Inr ti" "map fst ti = map fst (tag_index d)" "indexedAttributes prop \<noteq> None \<longrightarrow> tags_count ti (tag_count (map fst ti) ?es)" by blast
  let ?d = "d\<lparr>db := ?es, srvtype_index_tree := st, tag_index := ti\<rparr>"
  have "add_entry prop al reg t attr d = Inr (SLP_ERROR_OK, ?d)"
    
    unfolding add_entry_def Let_def al(3) option.case eqTrueI[OF al(1)] eqTrueI[OF al(2)] e[symmetric] st(1) bindR_simps ti(1) ..
  moreover have "db_inv prop ?d" using inv st(2) ti(3) p by (auto simp: db_inv_def h)
  ultimately show ?thesis by (intro exI[of _ ?d] exI[of _ e]) (simp add: e ti(2))
qed

section \<open>Ageing one registration\<close>

text \<open>What becomes of a registration, and what the outside is told.\<close>

definition aged_reg :: "(32 word \<Rightarrow> bool) \<Rightarrow> int \<Rightarrow> bool \<Rightarrow> reg_msg \<Rightarrow> reg_msg option \<times> event list" where
  "aged_reg pid_exists seconds ageall reg =
     (if r_source reg = SLP_REG_SOURCE_LOCAL \<and> r_pid reg \<noteq> 0 \<and> \<not> pid_exists (r_pid reg)
      then (None, [DeRegisterWithAllDas reg, IncomingRemoveService (r_srvtype reg)])
      else if r_lifetime reg = SLP_LIFETIME_MAXIMUM
              \<and> (\<not> ageall \<or> r_source reg = SLP_REG_SOURCE_STATIC \<or> r_source reg = SLP_REG_SOURCE_LOCAL)
      then (Some reg, [])
      else if r_lifetime reg \<le> seconds then (None, [IncomingRemoveService (r_srvtype reg)])
      else (Some (reg\<lparr>r_lifetime := r_lifetime reg - seconds\<rparr>), []))"

fun aged :: "(32 word \<Rightarrow> bool) \<Rightarrow> int \<Rightarrow> bool \<Rightarrow> (nat \<times> db_entry) list \<Rightarrow> (nat \<times> db_entry) list" where
  "aged pid_exists seconds ageall [] = []"
| "aged pid_exists seconds ageall ((p, e) # es) =
     (case fst (aged_reg pid_exists seconds ageall (e_reg e)) of
        None \<Rightarrow> aged pid_exists seconds ageall es
      | Some reg \<Rightarrow> (p, e\<lparr>e_reg := reg\<rparr>) # aged pid_exists seconds ageall es)"

lemma map_of_set_lifetime:
  "map_of (db (set_lifetime p l d)) q
     = map_option (\<lambda>e. if q = p then e\<lparr>e_reg := (e_reg e)\<lparr>r_lifetime := l\<rparr>\<rparr> else e) (map_of (db d) q)"
proof -
  have "map_of (map (\<lambda>(q, e). (q, f q e)) es) q = map_option (f q) (map_of es q)" for f :: "nat \<Rightarrow> db_entry \<Rightarrow> db_entry" and es
    by (induction es) auto
  then show ?thesis by (simp add: set_lifetime_def)
qed

lemma fst_set_lifetime: "map fst (db (set_lifetime p l d)) = map fst (db d)"
  by (simp add: set_lifetime_def case_prod_beta comp_def)

lemma db_inv_set_lifetime: "db_inv prop d \<Longrightarrow> db_inv prop (set_lifetime p l d)"
proof -
  assume inv: "db_inv prop d"
  have "srvtype_count (db (set_lifetime p l d)) = srvtype_count (db d)"
    "tag_count names (db (set_lifetime p l d)) = tag_count names (db d)" for names
    unfolding srvtype_count_def tag_count_def map_of_set_lifetime by (auto simp: fun_eq_iff split: option.splits)
  moreover have "\<forall>(q, e) \<in> set (db (set_lifetime p l d)). h_srvtype e \<noteq> None"
    using inv by (auto simp: db_inv_def set_lifetime_def)
  moreover have "srvtype_index_tree (set_lifetime p l d) = srvtype_index_tree d" "tag_index (set_lifetime p l d) = tag_index d"
    by (simp_all add: set_lifetime_def)
  ultimately show ?thesis using inv by (simp add: db_inv_def fst_set_lifetime)
qed


lemma db_set_lifetime_hd:
  assumes "db d = es @ (p, e) # fs" "distinct (map fst (db d))"
  shows "db (set_lifetime p l d) = es @ (p, e\<lparr>e_reg := (e_reg e)\<lparr>r_lifetime := l\<rparr>\<rparr>) # fs"
proof -
  have "map (\<lambda>(q, x). (q, if q = p then f x else x)) gs = gs" if "p \<notin> fst ` set gs" for gs and f :: "db_entry \<Rightarrow> db_entry"
    using that by (intro map_idI) force
  with assms show ?thesis by (simp add: set_lifetime_def)
qed

lemma filter_absent: "p \<notin> fst ` set es \<Longrightarrow> filter (\<lambda>(q, _). q \<noteq> p) es = es"
  by (force simp: filter_id_conv)

lemma age_loop_ok:
  assumes "db_inv prop d" "db d = es @ fs"
  shows "\<exists>d'. age_loop prop pid_exists True seconds ageall (map fst fs) d = Inr d' \<and> db_inv prop d'
    \<and> db d' = es @ aged pid_exists seconds ageall fs
    \<and> events d' = events d @ concat (map (\<lambda>(p, e). snd (aged_reg pid_exists seconds ageall (e_reg e))) fs)
    \<and> urlcount d' = urlcount d \<and> srvtypelistlen d' = srvtypelistlen d"
  using assms
proof (induction fs arbitrary: d es)
  case (Cons pe fs)
  obtain p e where pe: "pe = (p, e)" by (cases pe)
  have dist: "distinct (map fst (db d))" using Cons.prems(1) by (simp add: db_inv_def)
  have e: "map_of (db d) p = Some e" using dist Cons.prems(2) pe by (intro map_of_is_SomeI) auto
  have gone: "filter (\<lambda>(q, _). q \<noteq> p) (es @ (p, x) # fs) = es @ fs" for x
    using dist Cons.prems(2) pe filter_absent[of p es] filter_absent[of p fs] by simp
  let ?reg = "e_reg e"
  have removed: "\<exists>d'. bindR (SLPDDatabaseRemove prop True p d1) (\<lambda>d. age_loop prop pid_exists True seconds ageall (map fst fs) d) = Inr d'
      \<and> db_inv prop d' \<and> db d' = es @ aged pid_exists seconds ageall fs
      \<and> events d' = events d1 @ concat (map (\<lambda>(p, e). snd (aged_reg pid_exists seconds ageall (e_reg e))) fs)
      \<and> urlcount d' = urlcount d1 \<and> srvtypelistlen d' = srvtypelistlen d1"
    if d1: "db_inv prop d1" "db d1 = es @ (p, x) # fs" for d1 x
  proof -
    have "map_of (db d1) p = Some x" using d1 by (intro map_of_is_SomeI) (auto simp: db_inv_def)
    from SLPDDatabaseRemove_ok[OF d1(1) this] obtain d2 where d2: "SLPDDatabaseRemove prop True p d1 = Inr d2" "db_inv prop d2"
      "db d2 = es @ fs" "urlcount d2 = urlcount d1" "srvtypelistlen d2 = srvtypelistlen d1" "events d2 = events d1"
      unfolding d1(2) gone by blast
    from Cons.IH[OF d2(2,3)] d2(1,4-6) show ?thesis by auto
  qed
  show ?case
  proof (cases "r_source ?reg = SLP_REG_SOURCE_LOCAL \<and> r_pid ?reg \<noteq> 0 \<and> \<not> pid_exists (r_pid ?reg)")
    case True
    let ?d1 = "emit_event (IncomingRemoveService (r_srvtype ?reg)) (emit_event (DeRegisterWithAllDas ?reg) d)"
    have "db_inv prop ?d1" "db ?d1 = es @ (p, e) # fs" using Cons.prems pe by (simp_all add: db_inv_emit)
    from removed[OF this] True e pe show ?thesis by (auto simp: Let_def aged_reg_def emit_event_def)
  next
    case nopid: False
    show ?thesis
    proof (cases "r_lifetime ?reg = SLP_LIFETIME_MAXIMUM
        \<and> (\<not> ageall \<or> r_source ?reg = SLP_REG_SOURCE_STATIC \<or> r_source ?reg = SLP_REG_SOURCE_LOCAL)")
      case True
      have "db d = (es @ [(p, e)]) @ fs" using Cons.prems(2) pe by simp
      from Cons.IH[OF Cons.prems(1) this] nopid True e pe show ?thesis by (auto simp: Let_def aged_reg_def)
    next
      case False
      let ?e' = "e\<lparr>e_reg := ?reg\<lparr>r_lifetime := r_lifetime ?reg - seconds\<rparr>\<rparr>"
      let ?d1 = "set_lifetime p (r_lifetime ?reg - seconds) d"
      have d1: "db_inv prop ?d1" "db ?d1 = es @ (p, ?e') # fs"
        using db_inv_set_lifetime[OF Cons.prems(1)] db_set_lifetime_hd[OF Cons.prems(2)[unfolded pe] dist] by auto
      have same: "events ?d1 = events d" "urlcount ?d1 = urlcount d" "srvtypelistlen ?d1 = srvtypelistlen d"
        by (simp_all add: set_lifetime_def)
      show ?thesis
      proof (cases "r_lifetime ?reg \<le> seconds")
        case True
        have "db_inv prop (emit_event (IncomingRemoveService (r_srvtype ?reg)) ?d1)"
          "db (emit_event (IncomingRemoveService (r_srvtype ?reg)) ?d1) = es @ (p, ?e') # fs"
          using d1 by (simp_all add: db_inv_emit)
        from removed[OF this] nopid False True e pe same show ?thesis
          by (auto simp: Let_def aged_reg_def) (auto simp: emit_event_def)
      next
        case young: False
        have "db ?d1 = (es @ [(p, ?e')]) @ fs" using d1(2) by simp
        from Cons.IH[OF d1(1) this] nopid False young e pe same show ?thesis by (auto simp: Let_def aged_reg_def)
      qed
    qed
  qed
qed simp

text \<open>A configuration with both kinds of index, allocations that succeed, a registration and what it leads to.\<close>

definition sample_prop :: SLPDProperty where
  "sample_prop = \<lparr>checkSourceAddr = True, srvtypeIsIndexed = True, indexedAttributes = Some ''a'', useIPv6 = False, ipv6_ifaces = 0\<rparr>"

definition sample_al :: "nat \<Rightarrow> allocations" where
  "sample_al p = \<lparr>al_open = True, al_srvtype = True, al_attr = True, al_freshen = (\<lambda>_. True), al_entry = Some p,
     al_index = True, al_iter = True\<rparr>"

definition sample_reg :: "string \<Rightarrow> string \<Rightarrow> reg_msg" where
  "sample_reg srvtype attrlist = \<lparr>r_peer = AF_INET 0x7f000001, r_url = ''service:x://h'', r_lifetime = 10, r_srvtype = srvtype,
     r_scopelist = ''DEFAULT'', r_attrlist = attrlist, r_pid = 0, r_source = SLP_REG_SOURCE_UNKNOWN,
     r_langtag = bytes_of ''en'', r_authcount = 0, r_opaque = 0, r_opaquelen = 19,
     r_buf = [0, 0, 10, 0, 13] @ bytes_of ''service:x://h'' @ [0]\<rparr>"

lemma db_inv_empty: "db_inv prop empty_database"
  by (simp add: db_inv_def empty_database_def srvtype_count_def[abs_def] tags_count_def idx.counts_empty)

text \<open>
  C10: ageing a good database ends without a memory error and keeps the database
  good; every registration becomes what \<open>aged_reg\<close> says, in the old order, and
  the outside is told about the ones that go.
\<close>

theorem SLPDDatabaseAge_refines:
  assumes "db_inv prop d"
  shows "\<exists>d'. SLPDDatabaseAge prop pid_exists True True seconds ageall d = Inr d' \<and> db_inv prop d'
    \<and> db d' = aged pid_exists seconds ageall (db d)
    \<and> events d' = events d @ concat (map (\<lambda>(p, e). snd (aged_reg pid_exists seconds ageall (e_reg e))) (db d))"
  using age_loop_ok[OF assms, of "[]" "db d" pid_exists seconds ageall] by (auto simp: SLPDDatabaseAge_def)


text \<open>The entry that registering the sample leaves in the database.\<close>

definition sample_entry :: db_entry where
  "sample_entry = \<lparr>e_reg = (sample_reg ''x'' [])\<lparr>r_source := SLP_REG_SOURCE_LOCAL\<rparr>, h_attrs = None, h_srvtype = Some ''x''\<rparr>"

definition sample_database :: SLPDDatabase where
  "sample_database = empty_database\<lparr>db := [(7, sample_entry)], srvtype_index_tree := Node Null 0 ''x'' [7] Null 0\<rparr>"

lemma db_inv_sample: "db_inv sample_prop sample_database"
proof -
  have "idx.counts (Node Null 0 ''x'' [7 :: nat] Null 0) (\<lambda>k q. 0 + (if q = 7 \<and> k = ''x'' then 1 else 0))"
    using idx.counts_add[OF idx.counts_empty, of "''x''" "7 :: nat"] by (simp add: add_to_index_def create_index_tree_node_def)
  moreover have "(\<lambda>k q. 0 + (if q = 7 \<and> k = ''x'' then 1 else 0)) = srvtype_count [(7, sample_entry)]"
    by (auto simp: fun_eq_iff srvtype_count_def sample_entry_def)
  ultimately show ?thesis
    by (simp add: db_inv_def sample_database_def empty_database_def tags_count_def sample_entry_def)
qed

theorem SLPDDatabaseAge_refines_witness:
  "\<exists>d'. SLPDDatabaseAge sample_prop (\<lambda>_. True) True True 15 False sample_database = Inr d'
    \<and> db d' = [] \<and> events d' = [IncomingRemoveService ''x'']"
  using SLPDDatabaseAge_refines[OF db_inv_sample, of "\<lambda>_. True" 15 False]
  by (auto simp: sample_database_def sample_entry_def sample_reg_def empty_database_def aged_reg_def SLP_LIFETIME_MAXIMUM_def)

section \<open>Registering and deregistering\<close>

definition without :: "(nat \<times> db_entry) option \<Rightarrow> (nat \<times> db_entry) list \<Rightarrow> (nat \<times> db_entry) list" where
  "without found es = (case found of None \<Rightarrow> es | Some (p, _) \<Rightarrow> filter (\<lambda>(q, _). q \<noteq> p) es)"

definition refused :: "SLPDProperty \<Rightarrow> sockaddr \<Rightarrow> (nat \<times> db_entry) option \<Rightarrow> bool" where
  "refused prop peer found \<longleftrightarrow>
     (case found of None \<Rightarrow> False | Some (p, e) \<Rightarrow> checkSourceAddr prop \<and> source_differs (r_peer (e_reg e)) peer)"

lemma SLPDDatabaseReg_run:
  assumes "al_open al" "al_srvtype al" "SLPCheckAttributeListSyntax (r_attrlist reg) = 0"
    "parse_attributes al (r_attrlist reg) = Inr attr"
  shows "\<exists>t. createNormalisedSrvtype True (r_srvtype reg) = Inr (Some t) \<and> SLPDDatabaseReg prop al reg d
    = replace_entry prop al (reg\<lparr>r_lifetime := fix_lifetime (r_lifetime reg)\<rparr>) t attr (listen_ipv6 prop (al_open al) (r_srvtype reg) d)"
  using getNormalisedSrvtype_ok[of "r_srvtype reg"] assms
  by (auto simp: createNormalisedSrvtype_def SLPDDatabaseReg_def SLPCheckServiceUrlSyntax_def Let_def)

text \<open>The registration as it is kept.\<close>

definition stored_reg :: "reg_msg \<Rightarrow> reg_msg" where
  "stored_reg reg = reg\<lparr>r_lifetime := fix_lifetime (r_lifetime reg),
     r_source := if r_source reg = SLP_REG_SOURCE_UNKNOWN
                 then (if SLPNetIsLoopback (r_peer reg) then SLP_REG_SOURCE_LOCAL else SLP_REG_SOURCE_REMOTE) else r_source reg\<rparr>"

lemma SLPDDatabaseReg_ok:
  assumes inv: "db_inv prop d"
    and al: "al_open al" "al_srvtype al" "al_index al" "al_iter al" "al_entry al = Some p" and p: "p \<notin> fst ` set (db d)"
    and attrs: "SLPCheckAttributeListSyntax (r_attrlist reg) = 0" "parse_attributes al (r_attrlist reg) = Inr attr"
  shows "\<exists>err d'. SLPDDatabaseReg prop al reg d = Inr (err, d') \<and> db_inv prop d'
    \<and> (let found = List.find (same_service (r_url reg) (r_scopelist reg)) (db d) in
        if refused prop (r_peer reg) found then err = SLP_ERROR_AUTHENTICATION_FAILED \<and> db d' = db d
        else err = SLP_ERROR_OK \<and> (\<exists>e. db d' = without found (db d) @ [(p, e)] \<and> h_attrs e = attr \<and> e_reg e = stored_reg reg))"
proof -
  let ?d = "listen_ipv6 prop (al_open al) (r_srvtype reg) d"
  have d: "db_inv prop ?d" "db ?d = db d" using inv by (simp_all add: listen_ipv6_def db_inv_emits)
  let ?reg = "reg\<lparr>r_lifetime := fix_lifetime (r_lifetime reg)\<rparr>"
  obtain t where run: "SLPDDatabaseReg prop al reg d = replace_entry prop al ?reg t attr ?d"
    using SLPDDatabaseReg_run[of al reg attr] al attrs by blast
  have added: "\<exists>d' e. add_entry prop al ?reg t attr d1 = Inr (SLP_ERROR_OK, d') \<and> db_inv prop d' \<and> db d' = db d1 @ [(p, e)]
      \<and> h_attrs e = attr \<and> e_reg e = stored_reg reg"
    if "db_inv prop d1" "p \<notin> fst ` set (db d1)" for d1
    using add_entry_ok[OF that(1) al(3,4,5) that(2), of ?reg t attr] by (fastforce simp: stored_reg_def)
  show ?thesis
  proof (cases "List.find (same_service (r_url reg) (r_scopelist reg)) (db d)")
    case None
    with run added[OF d(1)] d p show ?thesis by (fastforce simp: replace_entry_def refused_def without_def Let_def)
  next
    case (Some qx)
    obtain q x where qx: "qx = (q, x)" by (cases qx)
    show ?thesis
    proof (cases "checkSourceAddr prop \<and> source_differs (r_peer (e_reg x)) (r_peer reg)")
      case True
      with run Some qx d show ?thesis by (simp add: replace_entry_def refused_def Let_def)
    next
      case False
      have "map_of (db ?d) q = Some x" using find_map_of Some qx inv d(2) by (fastforce simp: db_inv_def)
      from SLPDDatabaseRemove_ok[OF d(1) this] obtain d1 where d1: "SLPDDatabaseRemove prop True q ?d = Inr d1"
        "db_inv prop d1" "db d1 = filter (\<lambda>(r, _). r \<noteq> q) (db d)" using d(2) by metis
      have "p \<notin> fst ` set (db d1)" using p d1(3) by auto
      from added[OF d1(2) this] run Some qx False al(4) d1(1,3) show ?thesis
        by (fastforce simp: replace_entry_def refused_def without_def Let_def d(2))
    qed
  qed
qed

text \<open>
  C2: a registration whose attribute list passes the check replaces the first
  entry with its URL and a scope in common, unless that came from another host;
  the new entry is the last one, with its lifetime fixed up and its source set.
  The database stays good.
\<close>

theorem SLPDDatabaseReg_replaces:
  assumes inv: "db_inv prop d"
    and al: "al_open al" "al_srvtype al" "al_index al" "al_iter al" "al_entry al = Some p" and p: "p \<notin> fst ` set (db d)"
    and attrs: "SLPCheckAttributeListSyntax (r_attrlist reg) = 0" "parse_attributes al (r_attrlist reg) = Inr attr"
  shows "\<exists>err d'. SLPDDatabaseReg prop al reg d = Inr (err, d') \<and> db_inv prop d'
    \<and> (let found = List.find (same_service (r_url reg) (r_scopelist reg)) (db d) in
        if refused prop (r_peer reg) found then err = SLP_ERROR_AUTHENTICATION_FAILED \<and> db d' = db d
        else err = SLP_ERROR_OK
          \<and> (\<exists>e. db d' = without found (db d) @ [(p, e)] \<and> h_attrs e = attr
              \<and> r_url (e_reg e) = r_url reg \<and> r_scopelist (e_reg e) = r_scopelist reg \<and> r_srvtype (e_reg e) = r_srvtype reg
              \<and> r_attrlist (e_reg e) = r_attrlist reg
              \<and> r_lifetime (e_reg e) = fix_lifetime (r_lifetime reg) \<and> r_source (e_reg e) \<noteq> SLP_REG_SOURCE_UNKNOWN))"
  using SLPDDatabaseReg_ok[OF assms] by (fastforce simp: Let_def stored_reg_def split: if_splits)




lemma parse_no_attributes: "al_attr al \<Longrightarrow> \<exists>a. parse_attributes al [] = Inr (Some a)"
  by (simp add: parse_attributes_def SLPAttrAlloc_def SLPAttrFreshen_def attr_destringify_def c_string_def destringify_loop.simps)

theorem SLPDDatabaseReg_replaces_witness:
  "\<exists>d' e. SLPDDatabaseReg sample_prop (sample_al 8) (sample_reg ''x'' []) sample_database = Inr (SLP_ERROR_OK, d')
    \<and> db d' = [(8, e)] \<and> r_lifetime (e_reg e) = 25"
proof -
  obtain a where a: "parse_attributes (sample_al 8) [] = Inr (Some a)"
    using parse_no_attributes[of "sample_al 8"] by (auto simp: sample_al_def)
  have "same_service ''service:x://h'' ''DEFAULT'' (7, sample_entry)" by code_simp
  then show ?thesis
    using SLPDDatabaseReg_replaces[OF db_inv_sample, of "sample_al 8" 8 "sample_reg ''x'' []" "Some a"] a
    by (auto simp: sample_al_def sample_reg_def sample_database_def empty_database_def sample_entry_def refused_def
        source_differs_def sample_prop_def without_def Let_def SLPCheckAttributeListSyntax_def fix_lifetime_def
        SLP_LIFETIME_MAXIMUM_def SLPD_AGE_INTERVAL_def)
qed

section \<open>What a service request finds\<close>

abbreviation matches :: "string \<Rightarrow> srvrqst_msg \<Rightarrow> SLPDPredicateTreeNode option \<Rightarrow> db_entry \<Rightarrow> bool" where
  "matches junk rq tree e \<equiv> SLPDDatabaseSrvRqstTestEntry junk rq tree e = Inr True"

text \<open>\<open>fits\<close> is the outcome of a search that wants to return \<open>ms\<close>.\<close>

definition fits :: "32 word \<Rightarrow> nat list \<Rightarrow> search \<Rightarrow> bool" where
  "fits count ms r \<longleftrightarrow> (if int (length ms) \<le> sint count then r = Inr (0, ms) else \<exists>urls. r = Inr (1, urls))"

lemma scan_fits:
  assumes "\<And>p e. (p, e) \<in> set es \<Longrightarrow> SLPDDatabaseSrvRqstTestEntry junk rq tree e = Inr (matches junk rq tree e)"
    and "int (length urls) \<le> sint count"
  shows "fits count (urls @ map fst (filter (\<lambda>(p, e). matches junk rq tree e) es)) (srvrqst_scan junk rq tree count es urls)"
  using assms
proof (induction es arbitrary: urls)
  case Nil
  then show ?case by (simp add: fits_def)
next
  case (Cons pe es)
  obtain p e where pe: "pe = (p, e)" by (cases pe)
  have t: "SLPDDatabaseSrvRqstTestEntry junk rq tree e = Inr (matches junk rq tree e)" using Cons.prems(1) pe by auto
  show ?case
  proof (cases "matches junk rq tree e")
    case False
    with Cons.IH[of urls] Cons.prems pe t show ?thesis by auto
  next
    case True
    show ?thesis
    proof (cases "int (length urls) + 1 > sint count")
      case False
      with Cons.IH[of "urls @ [p]"] Cons.prems pe True show ?thesis by auto
    next
      case overflow: True
      with pe True show ?thesis by (auto simp: fits_def)
    qed
  qed
qed

lemma callback_stuck: "err \<noteq> 0 \<Longrightarrow> fold (SLPDDatabaseSrvRqstStartIndexCallback junk rq tree d) ps (Inr (err, urls)) = Inr (err, urls)"
  by (induction ps) (simp_all add: SLPDDatabaseSrvRqstStartIndexCallback_def)

lemma callback_fits:
  assumes "\<And>p. p \<in> set ps \<Longrightarrow> \<exists>e. map_of (db d) p = Some e \<and> SLPDDatabaseSrvRqstTestEntry junk rq tree e = Inr (matches junk rq tree e)"
    and "int (length urls) \<le> sint (urlcount d)"
  shows "fits (urlcount d) (urls @ filter (\<lambda>p. matches junk rq tree (the (map_of (db d) p))) ps)
    (fold (SLPDDatabaseSrvRqstStartIndexCallback junk rq tree d) ps (Inr (0, urls)))"
  using assms
proof (induction ps arbitrary: urls)
  case Nil
  then show ?case by (simp add: fits_def)
next
  case (Cons p ps)
  obtain e where e: "map_of (db d) p = Some e" "SLPDDatabaseSrvRqstTestEntry junk rq tree e = Inr (matches junk rq tree e)"
    using Cons.prems(1) by force
  have cb: "SLPDDatabaseSrvRqstStartIndexCallback junk rq tree d p (Inr (0, urls))
      = Inr (if matches junk rq tree e then add_url (urlcount d) p urls else (0, urls))"
    using e by (cases "SLPDDatabaseSrvRqstTestEntry junk rq tree e") (auto simp: SLPDDatabaseSrvRqstStartIndexCallback_def)
  show ?case
  proof (cases "matches junk rq tree e")
    case False
    with Cons.IH[of urls] Cons.prems cb e show ?thesis by auto
  next
    case True
    show ?thesis
    proof (cases "int (length urls) + 1 > sint (urlcount d)")
      case False
      with Cons.IH[of "urls @ [p]"] Cons.prems True cb e show ?thesis by (auto simp: add_url_def)
    next
      case overflow: True
      with True cb e show ?thesis by (auto simp: add_url_def callback_stuck fits_def)
    qed
  qed
qed

text \<open>Doubling the array until the answer fits.\<close>

lemma sint_double: "0 < sint (u :: 32 word) \<Longrightarrow> sint u < 2 ^ 30 \<Longrightarrow> sint (u * 2) = 2 * sint u"
proof -
  assume u: "0 < sint u" "sint u < 2 ^ 30"
  have "sint (u * 2) = signed_take_bit 31 (sint u * sint (2 :: 32 word))" by (simp add: sint_word_ariths)
  also have "\<dots> = sint u * 2" using u by (simp add: signed_take_bit_int_eq_self)
  finally show ?thesis by simp
qed

lemma loop_answers:
  assumes tree: "parse_predicate mok (q_predicate rq) = Some tree" and ralloc: "\<And>n. ralloc n"
    and search: "\<And>u. 0 < sint u \<Longrightarrow> fits u ms (srvrqst_search prop ok junk rq tree (d\<lparr>urlcount := u\<rparr>))"
    and len: "int (length ms) \<le> 2 ^ 30"
  shows "0 < sint u \<Longrightarrow> int (length ms) < int fuel + sint u \<Longrightarrow> 0 < fuel \<Longrightarrow>
    \<exists>v. srvrqst_loop fuel prop ralloc mok ok junk rq (d\<lparr>urlcount := u\<rparr>) = Some (Inr (SLP_ERROR_OK, Some ms, d\<lparr>urlcount := v\<rparr>))
      \<and> int (length ms) \<le> sint v"
proof (induction fuel arbitrary: u)
  case (Suc fuel)
  show ?case
  proof (cases "int (length ms) \<le> sint u")
    case True
    with search[OF Suc.prems(1)] tree ralloc show ?thesis by (auto simp: fits_def)
  next
    case False
    then have small: "sint u < 2 ^ 30" using len by linarith
    have "0 < sint (u * 2)" "int (length ms) < int fuel + sint (u * 2)" "0 < fuel"
      using sint_double[OF Suc.prems(1) small] Suc.prems False by auto
    from Suc.IH[OF this] search[OF Suc.prems(1)] tree ralloc False show ?thesis by (auto simp: fits_def)
  qed
qed simp


text \<open>The entries whose normalised type is that of the request.\<close>

definition same_type_key :: "srvrqst_msg \<Rightarrow> db_entry \<Rightarrow> bool" where
  "same_type_key rq e \<longleftrightarrow>
     (case SLPNormalizeString (length (skip_service (q_srvtype rq))) (skip_service (q_srvtype rq) @ [NUL]) True of
        Inl _ \<Rightarrow> False | Inr n \<Rightarrow> h_srvtype e = Some n)"

lemma distinct_count: "(\<And>p. count_list xs p \<le> 1) \<Longrightarrow> distinct xs"
proof (induction xs)
  case (Cons x xs)
  have "count_list xs p \<le> 1" for p using Cons.prems[of p] by (simp split: if_splits)
  moreover have "count_list xs x = 0" using Cons.prems[of x] by simp
  ultimately show ?case using Cons.IH by (simp add: count_list_0_iff)
qed simp


definition sample_rqst :: "string \<Rightarrow> string \<Rightarrow> srvrqst_msg" where
  "sample_rqst srvtype predicate = \<lparr>q_srvtype = srvtype, q_scopelist = ''DEFAULT'', q_predicate = predicate\<rparr>"

lemma sample_test: "SLPDDatabaseSrvRqstTestEntry junk (sample_rqst ''x'' p) None sample_entry = Inr True"
proof -
  have "SLPCompareSrvType ''x'' ''x'' = 0" "0 < SLPIntersectStringList ''DEFAULT'' ''DEFAULT''" by code_simp+
  then show ?thesis
    by (simp add: SLPDDatabaseSrvRqstTestEntry_def sample_rqst_def sample_entry_def sample_reg_def SLPDPredicateTestTree_def)
qed


section \<open>A registration in an empty database\<close>

lemma sample_reg_added:
  assumes "SLPCheckAttributeListSyntax attrlist = 0" "parse_attributes (sample_al 7) attrlist = Inr attr"
  shows "\<exists>d e. SLPDDatabaseReg sample_prop (sample_al 7) (sample_reg srvtype attrlist) empty_database = Inr (SLP_ERROR_OK, d)
    \<and> db d = [(7, e)] \<and> h_attrs e = attr \<and> e_reg e = (sample_reg srvtype attrlist)\<lparr>r_lifetime := 25, r_source := SLP_REG_SOURCE_LOCAL\<rparr>
    \<and> (\<exists>t. createNormalisedSrvtype True srvtype = Inr (Some t) \<and> h_srvtype e = Some t)
    \<and> tag_index d = [] \<and> urlcount d = 256 \<and> db_inv sample_prop d"
proof -
  let ?reg = "(sample_reg srvtype attrlist)\<lparr>r_lifetime := 25\<rparr>"
  have "fix_lifetime 10 = 25" by (simp add: fix_lifetime_def SLP_LIFETIME_MAXIMUM_def SLPD_AGE_INTERVAL_def)
  then obtain t where "createNormalisedSrvtype True srvtype = Inr (Some t)" "SLPDDatabaseReg sample_prop (sample_al 7) (sample_reg srvtype attrlist) empty_database
      = add_entry sample_prop (sample_al 7) ?reg t attr empty_database"
    using SLPDDatabaseReg_run[of "sample_al 7" "sample_reg srvtype attrlist" attr sample_prop empty_database] assms
    by (auto simp: sample_al_def sample_reg_def sample_prop_def listen_ipv6_def replace_entry_def empty_database_def)
  moreover have "db_inv sample_prop empty_database" by (rule db_inv_empty)
  ultimately show ?thesis
    using add_entry_ok[of sample_prop empty_database "sample_al 7" 7 ?reg t attr]
    by (auto simp: sample_al_def sample_reg_def empty_database_def SLPNetIsLoopback_def)
qed

section \<open>Registrations without a valid attribute list\<close>

lemma bad_attributes: "parse_attributes (sample_al p) ''(a=,b)'' = Inr None"
  unfolding parse_attributes_def SLPAttrAlloc_def SLPAttrFreshen_def attr_destringify_def
  by (simp add: sample_al_def c_string_def destringify_loop.simps find_tag_end_def find_value_list_end_def upto_ptr_def
      IS_INVALID_TAG_CHAR_def IS_RESERVED_def Let_def)


section \<open>Long service types\<close>

text \<open>
  A registration with a service type of more than 512 bytes is accepted, and
  deregistering it writes behind an array on the stack.
\<close>

theorem SLPDDatabaseDeReg_overflow:
  assumes "length srvtype > 512"
  shows "\<exists>d. SLPDDatabaseReg sample_prop (sample_al 7) (sample_reg srvtype []) empty_database = Inr (SLP_ERROR_OK, d)
    \<and> SLPDDatabaseDeReg sample_prop True True True
        \<lparr>d_peer = AF_INET 0x7f000001, d_scopelist = ''DEFAULT'', d_url = ''service:x://h''\<rparr> d = Inl OutOfBounds"
proof -
  obtain a where a: "parse_attributes (sample_al 7) [] = Inr (Some a)"
    using parse_no_attributes[of "sample_al 7"] by (auto simp: sample_al_def)
  have "SLPCheckAttributeListSyntax [] = 0" by code_simp
  from sample_reg_added[OF this a, of srvtype] obtain d e where
    d: "SLPDDatabaseReg sample_prop (sample_al 7) (sample_reg srvtype []) empty_database = Inr (SLP_ERROR_OK, d)" "db d = [(7, e)]"
    "e_reg e = (sample_reg srvtype [])\<lparr>r_lifetime := 25, r_source := SLP_REG_SOURCE_LOCAL\<rparr>" by blast
  have "SLPCompareString ''service:x://h'' ''service:x://h'' = 0" "0 < SLPIntersectStringList ''DEFAULT'' ''DEFAULT''" by code_simp+
  with d assms show ?thesis
    by (simp add: SLPDDatabaseDeReg_def same_service_def sample_reg_def source_differs_def MAX_HOST_NAME_def)
qed

theorem SLPDDatabaseDeReg_overflow_witness:
  "\<exists>d. SLPDDatabaseReg sample_prop (sample_al 7) (sample_reg (replicate 513 CHR ''x'') []) empty_database = Inr (SLP_ERROR_OK, d)
    \<and> SLPDDatabaseDeReg sample_prop True True True
        \<lparr>d_peer = AF_INET 0x7f000001, d_scopelist = ''DEFAULT'', d_url = ''service:x://h''\<rparr> d = Inl OutOfBounds"
  by (rule SLPDDatabaseDeReg_overflow) simp

section \<open>An escape that disables all service requests\<close>

lemma doubling_fails:
  assumes tree: "parse_predicate mok (q_predicate rq) = Some tree"
    and search: "\<And>u. \<exists>urls. srvrqst_search prop True junk rq tree (d\<lparr>urlcount := u\<rparr>) = Inr (-2, urls)"
    and ralloc: "\<And>n. 2 ^ 63 \<le> n \<Longrightarrow> \<not> ralloc n"
  shows "j \<le> 31 \<Longrightarrow> \<exists>v. srvrqst_loop (Suc j) prop ralloc mok True junk rq (d\<lparr>urlcount := 2 ^ (31 - j)\<rparr>)
      = Some (Inr (SLP_ERROR_INTERNAL_ERROR, None, d\<lparr>urlcount := v\<rparr>)) \<and> \<not> ralloc (SIZEOF_SRVRQST_RESULT + 8 * scast v)"
proof (induction j)
  case 0
  have "\<not> ralloc (SIZEOF_SRVRQST_RESULT + 8 * scast (2 ^ 31 :: 32 word))"
    by (rule ralloc) (simp add: SIZEOF_SRVRQST_RESULT_def)
  then show ?case by (intro exI[of _ "2 ^ 31"]) simp
next
  case (Suc j)
  have e: "2 ^ (31 - Suc j) * 2 = (2 ^ (31 - j) :: 32 word)" using Suc.prems
    by (metis Suc_diff_Suc Suc_le_eq power_Suc2)
  from Suc obtain v where v: "srvrqst_loop (Suc j) prop ralloc mok True junk rq (d\<lparr>urlcount := 2 ^ (31 - j)\<rparr>)
      = Some (Inr (SLP_ERROR_INTERNAL_ERROR, None, d\<lparr>urlcount := v\<rparr>))" "\<not> ralloc (SIZEOF_SRVRQST_RESULT + 8 * scast v)" by auto
  obtain urls where s: "srvrqst_search prop True junk rq tree (d\<lparr>urlcount := 2 ^ (31 - Suc j)\<rparr>) = Inr (-2, urls)"
    using search by blast
  show ?case
  proof (cases "ralloc (SIZEOF_SRVRQST_RESULT + 8 * scast (2 ^ (31 - Suc j) :: 32 word))")
    case True
    with v tree s e show ?thesis by (subst srvrqst_loop.simps) (auto simp del: srvrqst_loop.simps)
  next
    case False
    then show ?thesis by (intro exI[of _ "2 ^ (31 - Suc j)"]) simp
  qed
qed

text \<open>
  C26: a request whose predicate looks up an indexed attribute with an invalid
  escape is not refused as such: the size of the array is doubled until it cannot
  be allocated, and no later service request is answered.
\<close>

theorem SLPDDatabaseSrvRqstStart_denied:
  assumes tree: "parse_predicate mok (q_predicate rq) = Some tree" and idx: "\<not> use_index prop rq"
    "choose_index (tag_index d) tree = Some (i, value)"
    and esc: "unescape_into (takeWhile (\<lambda>c. c \<noteq> WILDCARD) value) = None"
    and ralloc: "\<forall>n. 2 ^ 63 \<le> n \<longrightarrow> \<not> ralloc n" and count: "urlcount d = 256"
  shows "\<exists>d'. SLPDDatabaseSrvRqstStart 24 prop True ralloc mok True junk rq d = Some (Inr (SLP_ERROR_INTERNAL_ERROR, None, d'))
    \<and> db d' = db d
    \<and> (\<forall>rq'. SLPDDatabaseSrvRqstStart 1 prop True ralloc mok True junk rq' d' = Some (Inr (SLP_ERROR_INTERNAL_ERROR, None, d')))"
proof -
  have "(case c_memchr WILDCARD value of None \<Rightarrow> value | Some i \<Rightarrow> take i value) = takeWhile (\<lambda>c. c \<noteq> WILDCARD) value"
  proof (cases "WILDCARD \<in> set value")
    case True
    then show ?thesis by (simp add: c_memchr_eq takeWhile_eq_take[symmetric])
  next
    case False
    then have "takeWhile (\<lambda>c. c \<noteq> WILDCARD) value = value" by (auto simp: takeWhile_eq_all_conv)
    then show ?thesis unfolding c_memchr_eq using False by (simp del: takeWhile_eq_all_conv)
  qed
  then have "SLPDDatabaseSrvRqstStartIndexAttribute True junk value t rq tree e = Inr (-2, [])" for t e
    using esc by (simp add: SLPDDatabaseSrvRqstStartIndexAttribute_def Let_def SLPAttributeSearchString_def SLP_ERRORCODE_def)
  then have "\<exists>urls. srvrqst_search prop True junk rq tree (d\<lparr>urlcount := u\<rparr>) = Inr (-2, urls)" for u
    using idx by (simp add: srvrqst_search_def)
  from doubling_fails[OF tree this, of ralloc 23] ralloc
  obtain v where v: "srvrqst_loop 24 prop ralloc mok True junk rq (d\<lparr>urlcount := 256\<rparr>)
      = Some (Inr (SLP_ERROR_INTERNAL_ERROR, None, d\<lparr>urlcount := v\<rparr>))" "\<not> ralloc (SIZEOF_SRVRQST_RESULT + 8 * scast v)" by auto
  moreover have "d\<lparr>urlcount := 256\<rparr> = d" using count by (metis SLPDDatabase.surjective SLPDDatabase.update_convs(2))
  ultimately show ?thesis
    by (intro exI[of _ "d\<lparr>urlcount := v\<rparr>"]) (simp add: SLPDDatabaseSrvRqstStart_def)
qed


theorem SLPDDatabaseSrvRqstStart_denied_witness:
  "\<exists>d'. SLPDDatabaseSrvRqstStart 24 sample_prop True (\<lambda>n. n < 2 ^ 63) (\<lambda>_. True) True []
        (sample_rqst ''x'' (''(a='' @ [ESCAPE_CHARACTER] @ ''z)'')) (empty_database\<lparr>tag_index := [(''a'', Null)]\<rparr>)
      = Some (Inr (SLP_ERROR_INTERNAL_ERROR, None, d'))"
proof -
  have "parse_predicate (\<lambda>_. True) (''(a='' @ [ESCAPE_CHARACTER] @ ''z)'') = Some (Some (COMPARISON EQUAL ''a'' [ESCAPE_CHARACTER, CHR ''z'']))"
    by code_simp
  moreover have "choose_index [(''a'', Null)] (Some (COMPARISON EQUAL ''a'' [ESCAPE_CHARACTER, CHR ''z''])) = Some (0, [ESCAPE_CHARACTER, CHR ''z''])"
    by code_simp
  moreover have "unescape_into (takeWhile (\<lambda>c. c \<noteq> WILDCARD) [ESCAPE_CHARACTER, CHR ''z'']) = None" by code_simp
  moreover have "\<not> use_index sample_prop (sample_rqst ''x'' p)" for p by (simp add: use_index_def sample_rqst_def skip_service_def)
  moreover have "\<forall>n. 2 ^ 63 \<le> n \<longrightarrow> \<not> n < (2 ^ 63 :: 64 word)" by (simp add: not_less)
  ultimately show ?thesis
    using SLPDDatabaseSrvRqstStart_denied[of "\<lambda>_. True" "sample_rqst ''x'' (''(a='' @ [ESCAPE_CHARACTER] @ ''z)'')"
        "Some (COMPARISON EQUAL ''a'' [ESCAPE_CHARACTER, CHR ''z''])" sample_prop
        "empty_database\<lparr>tag_index := [(''a'', Null)]\<rparr>" 0 "[ESCAPE_CHARACTER, CHR ''z'']" "\<lambda>n. n < 2 ^ 63" "[]"]
    by (auto simp: sample_rqst_def empty_database_def)
qed

section \<open>What the index of service types does not find\<close>

text \<open>
  The prefix of a registered type is removed only when it is in lower case,
  that of a requested type in any case.  A type registered with an upper-case
  prefix is found by the scan but not by the index.
\<close>

theorem SLPDDatabaseSrvRqst_index_misses:
  "\<exists>d u v. SLPDDatabaseReg sample_prop (sample_al 7) (sample_reg ''SERVICE:a:b'' []) empty_database = Inr (SLP_ERROR_OK, d)
     \<and> SLPDDatabaseSrvRqstStart 2 sample_prop True (\<lambda>_. True) (\<lambda>_. True) True [] (sample_rqst ''service:a:b'' []) d
         = Some (Inr (SLP_ERROR_OK, Some [], u))
     \<and> SLPDDatabaseSrvRqstStart 2 (sample_prop\<lparr>srvtypeIsIndexed := False\<rparr>) True (\<lambda>_. True) (\<lambda>_. True) True []
           (sample_rqst ''service:a:b'' []) d = Some (Inr (SLP_ERROR_OK, Some [7], v))"
proof -
  obtain a where a: "parse_attributes (sample_al 7) [] = Inr (Some a)"
    using parse_no_attributes[of "sample_al 7"] by (auto simp: sample_al_def)
  have "SLPCheckAttributeListSyntax [] = 0" by code_simp
  from sample_reg_added[OF this a, of "''SERVICE:a:b''"] obtain d e t where
    d: "SLPDDatabaseReg sample_prop (sample_al 7) (sample_reg ''SERVICE:a:b'' []) empty_database = Inr (SLP_ERROR_OK, d)" "db d = [(7, e)]"
    "e_reg e = (sample_reg ''SERVICE:a:b'' [])\<lparr>r_lifetime := 25, r_source := SLP_REG_SOURCE_LOCAL\<rparr>"
    "createNormalisedSrvtype True ''SERVICE:a:b'' = Inr (Some t)" "h_srvtype e = Some t" "db_inv sample_prop d" "urlcount d = 256" "tag_index d = []"
    by blast
  have "createNormalisedSrvtype True ''SERVICE:a:b'' = Inr (Some ''service:a:b'')" by code_simp
  with d(4) have t: "t = ''service:a:b''" by simp
  have sk: "skip_service ''service:a:b'' = ''a:b''" by code_simp
  have n: "SLPNormalizeString (length ''a:b'') (''a:b'' @ [NUL]) True = Inr ''a:b''" by code_simp
  have m: "SLPCompareSrvType ''service:a:b'' ''SERVICE:a:b'' = 0" "0 < SLPIntersectStringList ''DEFAULT'' ''DEFAULT''" by code_simp+
  have cnt: "idx.counts (srvtype_index_tree d) (srvtype_count (db d))" using d(6) by (simp add: db_inv_def sample_prop_def)
  have "srvtype_count (db d) ''a:b'' p = 0" for p by (simp add: d(2,5) t srvtype_count_def split: option.splits)
  then have "find_in_index (srvtype_index_tree d) ''a:b'' = []" using idx.counts_lookup[OF cnt, of "''a:b''"] by simp
  then have "srvrqst_search sample_prop True [] (sample_rqst ''service:a:b'' []) None d = Inr (0, [])"
    using sk n by (simp add: srvrqst_search_def use_index_def sample_prop_def sample_rqst_def c_memchr_eq
        SLPDDatabaseSrvRqstStartIndexType_def Let_def find_and_call_eq)
  moreover have "SLPDDatabaseSrvRqstTestEntry [] (sample_rqst ''service:a:b'' []) None e = Inr True"
    using m d(3) by (simp add: SLPDDatabaseSrvRqstTestEntry_def sample_rqst_def sample_reg_def SLPDPredicateTestTree_def)
  then have "srvrqst_search (sample_prop\<lparr>srvtypeIsIndexed := False\<rparr>) True [] (sample_rqst ''service:a:b'' []) None d = Inr (0, [7])"
    by (simp add: srvrqst_search_def use_index_def choose_index_def SLPDDatabaseSrvRqstStartScan_def d(2,7))
  moreover have "parse_predicate (\<lambda>_. True) (q_predicate (sample_rqst ''service:a:b'' [])) = Some None"
    by (simp add: parse_predicate_def sample_rqst_def)
  ultimately show ?thesis using d(1)
    by (intro exI[of _ d]) (simp add: SLPDDatabaseSrvRqstStart_def numeral_2_eq_2)
qed

section \<open>What a service type request finds\<close>

definition wanted_type :: "(nat \<Rightarrow> 64 word) \<Rightarrow> srvtyperqst_msg \<Rightarrow> nat \<times> db_entry \<Rightarrow> bool" where
  "wanted_type addr rq pe \<longleftrightarrow>
     SLPCompareNamingAuth (addr (fst pe)) (r_srvtype (e_reg (snd pe))) (t_namingauthlen rq) (t_namingauth rq) = Inr 0
     \<and> SLPIntersectStringList (t_scopelist rq) (r_scopelist (e_reg (snd pe))) \<noteq> 0"

definition append_type :: "string \<Rightarrow> string \<Rightarrow> string" where
  "append_type l t = (if SLPContainsStringList l t = 0 then (if l \<noteq> [] then l @ '','' else []) @ t else l)"

text \<open>The list without a limit on its length.\<close>

definition type_list :: "(nat \<Rightarrow> 64 word) \<Rightarrow> srvtyperqst_msg \<Rightarrow> (nat \<times> db_entry) list \<Rightarrow> string \<Rightarrow> string" where
  "type_list addr rq es l = foldl append_type l (map (\<lambda>pe. r_srvtype (e_reg (snd pe))) (filter (wanted_type addr rq) es))"

lemma length_append_type: "length l \<le> length (append_type l t)"
  by (simp add: append_type_def)

lemma length_type_list: "length l \<le> length (type_list addr rq es l)"
proof -
  have "length l \<le> length (foldl append_type l ts)" for ts
    by (induction ts arbitrary: l) (auto intro: le_trans length_append_type)
  then show ?thesis by (simp add: type_list_def)
qed

lemma srvtype_scan_list:
  assumes "\<And>p e. (p, e) \<in> set es \<Longrightarrow>
      \<exists>c. SLPCompareNamingAuth (addr p) (r_srvtype (e_reg e)) (t_namingauthlen rq) (t_namingauth rq) = Inr c"
    and "\<And>p e. (p, e) \<in> set es \<Longrightarrow> length (r_srvtype (e_reg e)) < 2 ^ 62" "length (type_list addr rq es l) < 2 ^ 62"
  shows "srvtype_scan addr rq cap es l = Inr (Some (type_list addr rq es l))
    \<or> srvtype_scan addr rq cap es l = Inr None \<and> unat cap \<le> length (type_list addr rq es l)"
  using assms
proof (induction es arbitrary: l)
  case Nil
  then show ?case by (simp add: type_list_def)
next
  case (Cons pe es)
  obtain p e where pe: "pe = (p, e)" by (cases pe)
  let ?t = "r_srvtype (e_reg e)"
  obtain c where c: "SLPCompareNamingAuth (addr p) ?t (t_namingauthlen rq) (t_namingauth rq) = Inr c" using Cons.prems(1) pe by auto
  show ?case
  proof (cases "wanted_type addr rq pe \<and> SLPContainsStringList l ?t = 0")
    case False
    then have "type_list addr rq (pe # es) l = type_list addr rq es l" using pe by (auto simp: type_list_def append_type_def)
    moreover from False have "srvtype_scan addr rq cap (pe # es) l = srvtype_scan addr rq cap es l"
      using pe c by (auto simp: wanted_type_def Let_def)
    moreover have "length (r_srvtype (e_reg x)) < 2 ^ 62" if "(q, x) \<in> set es" for q x using Cons.prems(2)[of q x] that by simp
    ultimately show ?thesis using Cons.IH[of l] Cons.prems(1,3) by simp
  next
    case True
    let ?l = "(if l \<noteq> [] then l @ '','' else []) @ ?t"
    have tl: "type_list addr rq (pe # es) l = type_list addr rq es ?l" using True pe by (simp add: type_list_def append_type_def)
    have le: "length ?l \<le> length (type_list addr rq (pe # es) l)" unfolding tl by (rule length_type_list)
    then have small: "length l < 2 ^ 62" "length ?t < 2 ^ 62" using Cons.prems(3) by (auto split: if_splits)
    have sum: "unat (of_nat (length l) + of_nat (length ?t) + 1 :: 64 word) = length l + length ?t + 1"
    proof -
      have "of_nat (length l) + of_nat (length ?t) + 1 = (of_nat (length l + length ?t + 1) :: 64 word)" by simp
      moreover have "unat (of_nat n :: 64 word) = n" if "n < 2 ^ 64" for n using that by (simp add: unat_of_nat)
      moreover have "length l + length ?t + 1 < 2 ^ 64" using small by simp
      ultimately show ?thesis by metis
    qed
    have step: "srvtype_scan addr rq cap (pe # es) l =
       (if cap < of_nat (length l) + of_nat (length ?t) + 1 then Inr None else srvtype_scan addr rq cap es ?l)"
      using True pe c by (auto simp: wanted_type_def Let_def)
    show ?thesis
    proof (cases "cap < of_nat (length l) + of_nat (length ?t) + 1")
      case True
      then have "unat cap < length l + length ?t + 1" using sum by (simp add: word_less_nat_alt)
      then have "unat cap \<le> length (type_list addr rq (pe # es) l)" using le by (auto split: if_splits)
      with True step show ?thesis by simp
    next
      case False
      moreover have "length (r_srvtype (e_reg x)) < 2 ^ 62" if "(q, x) \<in> set es" for q x using Cons.prems(2)[of q x] that by simp
      ultimately show ?thesis using Cons.IH[of ?l] Cons.prems(1,3) step tl by simp
    qed
  qed
qed

lemma srvtyperqst_loop_ends:
  assumes ok: "\<And>p e. (p, e) \<in> set (db d) \<Longrightarrow>
      \<exists>c. SLPCompareNamingAuth (addr p) (r_srvtype (e_reg e)) (t_namingauthlen rq) (t_namingauth rq) = Inr c"
    and len: "\<And>p e. (p, e) \<in> set (db d) \<Longrightarrow> length (r_srvtype (e_reg e)) < 2 ^ 62" "length (type_list addr rq (db d) []) < 2 ^ 62"
    and ralloc: "\<And>n. ralloc n"
  shows "0 < unat cap \<Longrightarrow> Suc (length (type_list addr rq (db d) [])) < fuel + unat cap \<Longrightarrow> 0 < fuel \<Longrightarrow>
    \<exists>v. srvtyperqst_loop fuel ralloc addr rq (d\<lparr>srvtypelistlen := cap\<rparr>)
      = Some (Inr (SLP_ERROR_OK, Some (type_list addr rq (db d) []), d\<lparr>srvtypelistlen := v\<rparr>))"
proof (induction fuel arbitrary: cap)
  case (Suc fuel)
  from srvtype_scan_list[of "db d" addr rq "[]" cap, OF ok len] show ?case
  proof
    assume "srvtype_scan addr rq cap (db d) [] = Inr (Some (type_list addr rq (db d) []))"
    with ralloc show ?thesis by auto
  next
    assume s: "srvtype_scan addr rq cap (db d) [] = Inr None \<and> unat cap \<le> length (type_list addr rq (db d) [])"
    then have "unat cap < 2 ^ 62" using len(2) by linarith
    then have dbl: "unat (cap * 2) = unat cap * 2" by (simp add: unat_word_ariths)
    have "0 < unat (cap * 2)" "Suc (length (type_list addr rq (db d) [])) < fuel + unat (cap * 2)" "0 < fuel"
      using dbl Suc.prems s by auto
    from Suc.IH[OF this] s ralloc show ?thesis by auto
  qed
qed simp

text \<open>
  C24: a service type request ends, however small the first array is, and the
  answer is the list that appends the types of the matching entries which it does
  not contain yet.
\<close>

theorem SLPDDatabaseSrvTypeRqstStart_answers:
  assumes "\<forall>(p, e) \<in> set (db d). length (r_srvtype (e_reg e)) < 2 ^ 62
      \<and> SLPCompareNamingAuth (addr p) (r_srvtype (e_reg e)) (t_namingauthlen rq) (t_namingauth rq) \<noteq> Inl OutOfBounds"
    and "length (type_list addr rq (db d) []) < 2 ^ 62" "length (type_list addr rq (db d) []) < fuel"
    and "\<forall>n. ralloc n" "srvtypelistlen d \<noteq> 0"
  shows "\<exists>v. SLPDDatabaseSrvTypeRqstStart fuel True ralloc addr rq d
    = Some (Inr (SLP_ERROR_OK, Some (type_list addr rq (db d) []), d\<lparr>srvtypelistlen := v\<rparr>))"
proof -
  have "\<exists>c. SLPCompareNamingAuth a s n t = Inr c" if "SLPCompareNamingAuth a s n t \<noteq> Inl OutOfBounds" for a s n t
    using that by (cases "n = 0xffff"; cases "n = 0"; cases "c_memchr CHR ''.'' s") (auto simp: SLPCompareNamingAuth_def split: if_splits)
  with assms(1) have ok: "(p, e) \<in> set (db d) \<Longrightarrow>
      \<exists>c. SLPCompareNamingAuth (addr p) (r_srvtype (e_reg e)) (t_namingauthlen rq) (t_namingauth rq) = Inr c" for p e by fast
  have d: "d\<lparr>srvtypelistlen := srvtypelistlen d\<rparr> = d" by simp
  have "0 < unat (srvtypelistlen d)" using assms(5) by (simp add: unat_gt_0)
  with srvtyperqst_loop_ends[of d addr rq ralloc "srvtypelistlen d" fuel] ok assms show ?thesis
    unfolding d by (fastforce simp: SLPDDatabaseSrvTypeRqstStart_def)
qed

theorem SLPDDatabaseSrvTypeRqstStart_answers_witness:
  "\<exists>v. SLPDDatabaseSrvTypeRqstStart 2 True (\<lambda>_. True) (\<lambda>_. 4096) \<lparr>t_namingauthlen = 0xffff, t_namingauth = [], t_scopelist = ''DEFAULT''\<rparr>
      (sample_database\<lparr>srvtypelistlen := 1\<rparr>)
    = Some (Inr (SLP_ERROR_OK, Some ''x'', sample_database\<lparr>srvtypelistlen := v\<rparr>))"
proof -
  have i: "SLPIntersectStringList ''DEFAULT'' ''DEFAULT'' \<noteq> 0" "SLPContainsStringList [] ''x'' = 0" by code_simp+
  then have "type_list (\<lambda>_. 4096) \<lparr>t_namingauthlen = 0xffff, t_namingauth = [], t_scopelist = ''DEFAULT''\<rparr> (db sample_database) [] = ''x''"
    by (simp add: type_list_def wanted_type_def append_type_def sample_database_def sample_entry_def sample_reg_def
        SLPCompareNamingAuth_def)
  with SLPDDatabaseSrvTypeRqstStart_answers[of "sample_database\<lparr>srvtypelistlen := 1\<rparr>" "\<lambda>_. 4096"
      "\<lparr>t_namingauthlen = 0xffff, t_namingauth = [], t_scopelist = ''DEFAULT''\<rparr>" 2 "\<lambda>_. True"]
  show ?thesis by (auto simp: sample_database_def sample_entry_def sample_reg_def SLPCompareNamingAuth_def)
qed

end
