(* ===== verification/SLPD_KnownDA.thy ===== *)
theory SLPD_KnownDA
  imports SLPD_Database Libslp_Request SLP_Parse "HOL-Library.Signed_Division"
begin

text \<open>
  Known directory agents, \<open>slpd/slpd_knownda.c\<close>: the list of their
  advertisements, the advertisement the daemon itself sends, and how
  registrations are passed on.  The list \<open>G_SlpdKnownDAs\<close> is a database of
  \<open>slp_database.c\<close>, here the list of its entries in order.  What is handed to a
  socket (\<open>SLPDOutgoingDatagramWrite\<close>) is added to \<open>outbox\<close>; \<open>connect\<close> tells for
  which peers \<open>SLPDOutgoingConnect\<close> has a socket.  A writer that leaves its buffer is
  \<open>OutOfBounds\<close>.
\<close>

section \<open>State\<close>

text \<open>
  An advertisement: the fields of the message that are used, its buffer from
  \<open>start\<close> to \<open>end\<close>, and the count of checks the agent may miss (\<open>entryvalue\<close>).
\<close>

record known_da =
  k_peer :: sockaddr
  k_bootstamp :: "32 word"
  k_url :: string
  k_scopelist :: string
  k_buf :: "8 word list"
  k_stale :: int

record SLPDConfig =
  isDA :: bool
  useScopes :: string
  interfaces :: string
  urlPrefix :: string
  locale_tag :: string
  MTU :: nat
  DATimestamp :: "32 word"
  passiveDADetection :: bool
  DAActiveDiscoveryInterval :: int
  staleDACheckPeriod :: int
  netIPv4 :: bool
  netIPv6 :: bool
  ifaceurls :: string
  unicastTimeouts :: "int list"
  unicastMaximumWait :: int
  db_prop :: SLPDProperty

text \<open>How often a message is sent again, and so how many timeouts are kept.\<close>

definition MAX_RETRANSMITS :: int where "MAX_RETRANSMITS = 5"

record slpd =
  registrations :: SLPDDatabase
  known_das :: "known_da list"
  G_Xid :: "16 word"
  time_since_refresh :: int
  outbox :: "(sockaddr \<times> 8 word list) list"

definition SLPXidGenerate :: "slpd \<Rightarrow> 16 word \<times> slpd" where
  "SLPXidGenerate s = (G_Xid s + 1, s\<lparr>G_Xid := G_Xid s + 1\<rparr>)"

definition send_to :: "sockaddr \<Rightarrow> 8 word list \<Rightarrow> slpd \<Rightarrow> slpd" where
  "send_to peer bs s = s\<lparr>outbox := outbox s @ [(peer, bs)]\<rparr>"

section \<open>Writing messages\<close>

definition SLP_FLAG_OVERFLOW :: "64 word" where "SLP_FLAG_OVERFLOW = 0x8000"

text \<open>The header every reply and advertisement starts with.\<close>

definition put_v2_header :: "nat \<Rightarrow> nat \<Rightarrow> 64 word \<Rightarrow> 64 word \<Rightarrow> 8 word list \<Rightarrow> unit parser" where
  "put_v2_header functionid sz flags xid langtag =
     bindP (put_bytes [2]) (\<lambda>_.
     bindP (put_bytes [of_nat functionid]) (\<lambda>_.
     bindP (slp_PutUINT24 (of_nat sz)) (\<lambda>_.
     bindP (slp_PutUINT16 flags) (\<lambda>_.
     bindP (slp_PutUINT24 0) (\<lambda>_.
     bindP (slp_PutUINT16 xid) (\<lambda>_.
     bindP (slp_PutUINT16 (of_nat (length langtag))) (\<lambda>_.
     put_bytes langtag)))))))"

definition overflow_flag :: "SLPDConfig \<Rightarrow> nat \<Rightarrow> 64 word" where
  "overflow_flag cfg sz = (if sz > MTU cfg then SLP_FLAG_OVERFLOW else 0)"

text \<open>The address as it stands in a URL.\<close>

definition localaddr_str :: "sockaddr \<Rightarrow> string" where
  "localaddr_str a =
     (case a of AF_INET v4 \<Rightarrow> inet_ntop4 v4 | AF_INET6 v6 _ \<Rightarrow> ''['' @ inet_ntop6 v6 @ '']'' | AF_UNSPEC \<Rightarrow> [])"

text \<open>
  \<open>ok\<close>, \<open>junk\<close>: whether the buffer can be enlarged, and what new memory holds.
  The result is the error code and the send buffer.
\<close>

definition SLPDKnownDAGenerateMyDAAdvert ::
  "SLPDConfig \<Rightarrow> bool \<Rightarrow> (nat \<Rightarrow> 8 word) \<Rightarrow> sockaddr \<Rightarrow> nat \<Rightarrow> bool \<Rightarrow> bool \<Rightarrow> 64 word \<Rightarrow> SLPBuffer option
     \<Rightarrow> (nat \<times> SLPBuffer option) res" where
  "SLPDKnownDAGenerateMyDAAdvert cfg ok junk localaddr errorcode deadda ismcast xid sendbuf =
     (let addr = bytes_of (localaddr_str localaddr); prefix = bytes_of (urlPrefix cfg);
          scopes = bytes_of (useScopes cfg); lang = bytes_of (locale_tag cfg);
          sz = length lang + 29 + length prefix + length addr + length scopes in
      case SLPBufferRealloc ok junk sendbuf sz of
        None \<Rightarrow> Inr (SLP_ERROR_INTERNAL_ERROR, None)
      | Some result \<Rightarrow>
          bindR
            (bindP (put_v2_header SLP_FUNCT_DAADVERT sz
                      (overflow_flag cfg sz OR (if ismcast then SLP_FLAG_MCAST else 0)) xid lang) (\<lambda>_.
             bindP (slp_PutUINT16 (of_nat errorcode)) (\<lambda>_.
             if errorcode = 0 then
               bindP (slp_PutUINT32 (if deadda then 0 else ucast (DATimestamp cfg))) (\<lambda>_.
               bindP (slp_PutUINT16 (of_nat (length prefix + length addr))) (\<lambda>_.
               bindP (put_bytes prefix) (\<lambda>_.
               bindP (put_bytes addr) (\<lambda>_.
               bindP (slp_PutUINT16 (of_nat (length scopes))) (\<lambda>_.
               bindP (put_bytes scopes) (\<lambda>_.
               bindP (slp_PutUINT16 0) (\<lambda>_.
               bindP (slp_PutUINT16 0) (\<lambda>_.
               put_bytes [0]))))))))
             else retP ())) result)
            (\<lambda>(_, result). Inr (errorcode, Some result)))"

definition r_opaque_bytes :: "reg_msg \<Rightarrow> 8 word list" where
  "r_opaque_bytes reg = cslice (r_buf reg) (r_opaque reg) (r_opaquelen reg)"

definition MakeSrvderegFromSrvReg ::
  "SLPDConfig \<Rightarrow> bool \<Rightarrow> (nat \<Rightarrow> 8 word) \<Rightarrow> reg_msg \<Rightarrow> slpd \<Rightarrow> (nat \<times> SLPBuffer option \<times> slpd) res" where
  "MakeSrvderegFromSrvReg cfg ok junk reg s =
     (let scopes = bytes_of (r_scopelist reg);
          sz = length (r_langtag reg) + 18 + r_opaquelen reg + length scopes in
      case SLPBufferAlloc ok junk sz of
        None \<Rightarrow> Inr (SLP_ERROR_INTERNAL_ERROR, None, s)
      | Some sendbuf \<Rightarrow>
          (case SLPXidGenerate s of (xid, s) \<Rightarrow>
             bindR
               (bindP (put_v2_header SLP_FUNCT_SRVDEREG sz (overflow_flag cfg sz) (ucast xid) (r_langtag reg)) (\<lambda>_.
                bindP (slp_PutUINT16 (of_nat (length scopes))) (\<lambda>_.
                bindP (put_bytes scopes) (\<lambda>_.
                bindP (put_bytes (r_opaque_bytes reg)) (\<lambda>_.
                slp_PutUINT16 0)))) sendbuf)
               (\<lambda>(_, sendbuf). Inr (0, Some sendbuf, s))))"

section \<open>Passing registrations on\<close>

text \<open>The registrations an agent gets: the daemon's own, in one of its scopes.\<close>

definition reg_for_da :: "known_da \<Rightarrow> reg_msg \<Rightarrow> bool" where
  "reg_for_da da reg \<longleftrightarrow>
     (r_source reg = SLP_REG_SOURCE_LOCAL \<or> r_source reg = SLP_REG_SOURCE_STATIC)
     \<and> SLPIntersectStringList (r_scopelist reg) (k_scopelist da) \<noteq> 0"

text \<open>\<open>dup_ok\<close> is whether the copy of the buffer of an entry can be allocated.\<close>

fun register_loop :: "(nat \<Rightarrow> bool) \<Rightarrow> known_da \<Rightarrow> bool \<Rightarrow> (nat \<times> db_entry) list \<Rightarrow> slpd \<Rightarrow> slpd" where
  "register_loop dup_ok da immortalonly [] s = s"
| "register_loop dup_ok da immortalonly ((p, e) # es) s =
     (let srvreg = e_reg e in
      if immortalonly \<and> r_lifetime srvreg < SLP_LIFETIME_MAXIMUM then register_loop dup_ok da immortalonly es s
      else if reg_for_da da srvreg \<and> dup_ok p
      then register_loop dup_ok da immortalonly es (send_to (k_peer da) (r_buf srvreg) s)
      else register_loop dup_ok da immortalonly es s)"

definition SLPDKnownDARegisterAll ::
  "SLPDConfig \<Rightarrow> bool \<Rightarrow> (sockaddr \<Rightarrow> bool) \<Rightarrow> (nat \<Rightarrow> bool) \<Rightarrow> known_da \<Rightarrow> bool \<Rightarrow> slpd \<Rightarrow> slpd" where
  "SLPDKnownDARegisterAll cfg open_ok connect dup_ok daadvert immortalonly s =
     (if SLPDDatabaseIsEmpty open_ok (registrations s) then s
      else if SLPIntersectStringList (ifaceurls cfg) (k_url daadvert) > 0 then s
      else if \<not> open_ok then s
      else if connect (k_peer daadvert) then register_loop dup_ok daadvert immortalonly (db (registrations s)) s
      else s)"

fun deregister_loop ::
  "SLPDConfig \<Rightarrow> (nat \<Rightarrow> bool) \<Rightarrow> (nat \<Rightarrow> 8 word) \<Rightarrow> known_da \<Rightarrow> (nat \<times> db_entry) list \<Rightarrow> slpd \<Rightarrow> slpd res" where
  "deregister_loop cfg alloc_ok junk da [] s = Inr s"
| "deregister_loop cfg alloc_ok junk da ((p, e) # es) s =
     (if reg_for_da da (e_reg e) then
        bindR (MakeSrvderegFromSrvReg cfg (alloc_ok p) junk (e_reg e) s) (\<lambda>(err, sendbuf, s).
          deregister_loop cfg alloc_ok junk da es
            (case sendbuf of Some b \<Rightarrow> (if err = 0 then send_to (k_peer da) (buf_bytes b) s else s) | None \<Rightarrow> s))
      else deregister_loop cfg alloc_ok junk da es s)"

definition SLPDKnownDADeregisterAll ::
  "SLPDConfig \<Rightarrow> bool \<Rightarrow> (sockaddr \<Rightarrow> bool) \<Rightarrow> (nat \<Rightarrow> bool) \<Rightarrow> (nat \<Rightarrow> 8 word) \<Rightarrow> known_da \<Rightarrow> slpd \<Rightarrow> slpd res" where
  "SLPDKnownDADeregisterAll cfg open_ok connect alloc_ok junk daadvert s =
     (if SLPDDatabaseIsEmpty open_ok (registrations s) \<or> \<not> open_ok then Inr s
      else if connect (k_peer daadvert) then deregister_loop cfg alloc_ok junk daadvert (db (registrations s)) s
      else Inr s)"

text \<open>
  \<open>fromlocal\<close> and \<open>scope\<close> belong to the message that is echoed, \<open>buf\<close> is its
  buffer.  Without a copy for the list of pending messages nothing is sent.
\<close>

fun echo_loop ::
  "SLPDConfig \<Rightarrow> (sockaddr \<Rightarrow> bool) \<Rightarrow> (nat \<Rightarrow> bool) \<Rightarrow> string \<Rightarrow> 8 word list \<Rightarrow> known_da list \<Rightarrow> slpd \<Rightarrow> slpd" where
  "echo_loop cfg connect dup_ok scope buf [] s = s"
| "echo_loop cfg connect dup_ok scope buf (da # das) s =
     (if SLPIntersectStringList scope (k_scopelist da) \<noteq> 0
         \<and> \<not> (isDA cfg \<and> SLPIntersectStringList (ifaceurls cfg) (k_url da) > 0)
         \<and> connect (k_peer da) \<and> dup_ok (length das)
      then echo_loop cfg connect dup_ok scope buf das (send_to (k_peer da) buf s)
      else echo_loop cfg connect dup_ok scope buf das s)"

definition SLPDKnownDAEcho ::
  "SLPDConfig \<Rightarrow> bool \<Rightarrow> (sockaddr \<Rightarrow> bool) \<Rightarrow> (nat \<Rightarrow> bool) \<Rightarrow> sockaddr \<Rightarrow> nat \<Rightarrow> string \<Rightarrow> 8 word list \<Rightarrow> slpd \<Rightarrow> slpd" where
  "SLPDKnownDAEcho cfg open_ok connect dup_ok peer functionid scope buf s =
     (if isDA cfg \<and> \<not> SLPNetIsLocal peer then s
      else if functionid \<noteq> SLP_FUNCT_SRVREG \<and> functionid \<noteq> SLP_FUNCT_SRVDEREG then s
      else if open_ok then echo_loop cfg connect dup_ok scope buf (known_das s) s
      else s)"

text \<open>The two entry points of ageing and of the daemon's own changes; \<open>buf\<close> is the buffer of a deregistration.\<close>

definition SLPDKnownDADeRegisterWithAllDas ::
  "SLPDConfig \<Rightarrow> bool \<Rightarrow> bool \<Rightarrow> (nat \<Rightarrow> 8 word) \<Rightarrow> (sockaddr \<Rightarrow> bool) \<Rightarrow> (nat \<Rightarrow> bool) \<Rightarrow> reg_msg \<Rightarrow> slpd \<Rightarrow> slpd res" where
  "SLPDKnownDADeRegisterWithAllDas cfg alloc_ok open_ok junk connect dup_ok reg s =
     bindR (MakeSrvderegFromSrvReg cfg alloc_ok junk reg s) (\<lambda>(err, sendbuf, s).
       Inr (case sendbuf of
              Some b \<Rightarrow> (if err = 0 then SLPDKnownDAEcho cfg open_ok connect dup_ok (r_peer reg) SLP_FUNCT_SRVREG
                                        (r_scopelist reg) (buf_bytes b) s else s)
            | None \<Rightarrow> s))"

section \<open>The list of agents\<close>

text \<open>The environment of an advertisement that is added.\<close>

record da_env =
  de_open :: bool
  de_url :: bool
  de_entry :: bool
  de_resolve4 :: "string \<Rightarrow> 32 word option"
  de_resolve6 :: "string \<Rightarrow> (128 word \<times> 32 word) option"
  de_regopen :: bool
  de_connect :: "sockaddr \<Rightarrow> bool"
  de_dup :: "nat \<Rightarrow> bool"

fun remove_first :: "('a \<Rightarrow> bool) \<Rightarrow> 'a list \<Rightarrow> 'a list" where
  "remove_first P [] = []"
| "remove_first P (x # xs) = (if P x then xs else x # remove_first P xs)"

text \<open>The scope id of an IPv6 peer is kept; there is none in the storage of an IPv4 peer.\<close>

definition resolved_peer :: "SLPDConfig \<Rightarrow> sockaddr \<Rightarrow> sockaddr \<Rightarrow> sockaddr" where
  "resolved_peer cfg peer daaddr =
     (case daaddr of
        AF_INET6 a scope \<Rightarrow>
          AF_INET6 a (if netIPv6 cfg then (case peer of AF_INET6 _ saved \<Rightarrow> saved | _ \<Rightarrow> 0) else scope)
      | _ \<Rightarrow> daaddr)"

definition SLPDKnownDAAdd :: "SLPDConfig \<Rightarrow> da_env \<Rightarrow> known_da \<Rightarrow> slpd \<Rightarrow> nat \<times> slpd" where
  "SLPDKnownDAAdd cfg env msg s =
     (if \<not> de_open env then (SLP_ERROR_INTERNAL_ERROR, s)
      else
        (case SLPParseSrvUrl (de_url env) (k_url msg) of
           Inl _ \<Rightarrow> (SLP_ERROR_PARSE_ERROR, s)
         | Inr parsedurl \<Rightarrow>
             (case SLPNetResolveHostToAddr (de_resolve4 env) (de_resolve6 env) (pu_host parsedurl) of
                None \<Rightarrow> (SLP_ERROR_PARSE_ERROR, s)
              | Some daaddr \<Rightarrow>
                  (let msg = msg\<lparr>k_peer := resolved_peer cfg (k_peer msg) daaddr\<rparr>;
                       same = (\<lambda>k. SLPCompareString (k_url k) (k_url msg) = 0);
                       register_all = SLPDKnownDARegisterAll cfg (de_regopen env) (de_connect env) (de_dup env) msg False;
                       entry = List.find same (known_das s);
                       s = (case entry of
                              None \<Rightarrow> s
                            | Some e \<Rightarrow>
                                (let s = (if k_bootstamp msg \<noteq> 0 \<and> k_bootstamp msg \<noteq> k_bootstamp e then register_all s else s)
                                 in s\<lparr>known_das := remove_first same (known_das s)\<rparr>));
                       new = msg\<lparr>k_stale := staleDACheckPeriod cfg sdiv SLPD_AGE_INTERVAL\<rparr>
                   in
                     if k_bootstamp msg = 0 then (SLP_ERROR_OK, s)
                     else if \<not> de_entry env then (SLP_ERROR_INTERNAL_ERROR, s)
                     else
                       (let s = s\<lparr>known_das := known_das s @ [new]\<rparr>
                        in (SLP_ERROR_OK, if entry = None then register_all s else s))))))"

definition same_host :: "sockaddr \<Rightarrow> sockaddr \<Rightarrow> bool" where
  "same_host a b = (case (a, b) of (AF_INET x, AF_INET y) \<Rightarrow> x = y | (AF_INET6 x _, AF_INET6 y _) \<Rightarrow> x = y | _ \<Rightarrow> False)"

definition SLPDKnownDARemove :: "bool \<Rightarrow> sockaddr \<Rightarrow> slpd \<Rightarrow> slpd" where
  "SLPDKnownDARemove open_ok addr s =
     (if open_ok then s\<lparr>known_das := remove_first (\<lambda>k. same_host (k_peer k) addr) (known_das s)\<rparr> else s)"

text \<open>The next entry is fetched before an entry is removed.\<close>

fun stale_loop :: "known_da list \<Rightarrow> known_da list" where
  "stale_loop [] = []"
| "stale_loop (k # ks) = (if k_stale k = 0 then stale_loop ks else k\<lparr>k_stale := k_stale k - 1\<rparr> # stale_loop ks)"

definition SLPDKnownDAStaleDACheck :: "SLPDConfig \<Rightarrow> bool \<Rightarrow> slpd \<Rightarrow> slpd" where
  "SLPDKnownDAStaleDACheck cfg open_ok s =
     (if staleDACheckPeriod cfg = 0 then s
      else if open_ok then s\<lparr>known_das := stale_loop (known_das s)\<rparr> else s)"

fun refresh_loop :: "SLPDConfig \<Rightarrow> bool \<Rightarrow> (sockaddr \<Rightarrow> bool) \<Rightarrow> (nat \<Rightarrow> bool) \<Rightarrow> known_da list \<Rightarrow> slpd \<Rightarrow> slpd" where
  "refresh_loop cfg open_ok connect dup_ok [] s = s"
| "refresh_loop cfg open_ok connect dup_ok (da # das) s =
     refresh_loop cfg open_ok connect dup_ok das
       (if SLPIntersectStringList (ifaceurls cfg) (k_url da) = 0
        then SLPDKnownDARegisterAll cfg open_ok connect dup_ok da True s else s)"

definition SLPDKnownDAImmortalRefresh ::
  "SLPDConfig \<Rightarrow> bool \<Rightarrow> bool \<Rightarrow> (sockaddr \<Rightarrow> bool) \<Rightarrow> (nat \<Rightarrow> bool) \<Rightarrow> int \<Rightarrow> slpd \<Rightarrow> slpd" where
  "SLPDKnownDAImmortalRefresh cfg da_open open_ok connect dup_ok seconds s =
     (let s = s\<lparr>time_since_refresh := time_since_refresh s + seconds\<rparr> in
      if time_since_refresh s \<ge> SLP_LIFETIME_MAXIMUM - seconds then
        (if da_open then refresh_loop cfg open_ok connect dup_ok (known_das s) s else s)\<lparr>time_since_refresh := 0\<rparr>
      else s)"

text \<open>The agents are told that the services go when the daemon ends.\<close>

fun goodbye_loop ::
  "SLPDConfig \<Rightarrow> bool \<Rightarrow> (sockaddr \<Rightarrow> bool) \<Rightarrow> (nat \<Rightarrow> bool) \<Rightarrow> (nat \<Rightarrow> 8 word) \<Rightarrow> known_da list \<Rightarrow> slpd \<Rightarrow> slpd res" where
  "goodbye_loop cfg open_ok connect alloc_ok junk [] s = Inr s"
| "goodbye_loop cfg open_ok connect alloc_ok junk (da # das) s =
     bindR (SLPDKnownDADeregisterAll cfg open_ok connect alloc_ok junk da s) (goodbye_loop cfg open_ok connect alloc_ok junk das)"

definition SLPDKnownDADeinit ::
  "SLPDConfig \<Rightarrow> bool \<Rightarrow> bool \<Rightarrow> (sockaddr \<Rightarrow> bool) \<Rightarrow> (nat \<Rightarrow> bool) \<Rightarrow> (nat \<Rightarrow> 8 word) \<Rightarrow> slpd \<Rightarrow> slpd res" where
  "SLPDKnownDADeinit cfg da_open open_ok connect alloc_ok junk s =
     bindR (if da_open then goodbye_loop cfg open_ok connect alloc_ok junk (known_das s) s else Inr s)
       (\<lambda>s. Inr (s\<lparr>known_das := []\<rparr>))"

section \<open>Looking for agents\<close>

text \<open>
  The list of agents that need not answer, in an array of \<open>cap\<close> bytes; \<open>strcat\<close>
  behind the array is \<open>OutOfBounds\<close>.
\<close>

fun prlist_loop :: "64 word \<Rightarrow> known_da list \<Rightarrow> string \<Rightarrow> string res" where
  "prlist_loop cap [] prlist = Inr prlist"
| "prlist_loop cap (da # das) prlist =
     (if cap < of_nat (length prlist) + of_nat INET6_ADDRSTRLEN + 1 then Inr prlist
      else
        (let addr_str = (case SLPNetSockAddrStorageToString (k_peer da) of None \<Rightarrow> [] | Some a \<Rightarrow> a) in
         if addr_str \<noteq> [] \<and> SLPContainsStringList prlist addr_str = 0 then
           (let prlist' = (if prlist \<noteq> [] then prlist @ '','' else prlist) @ addr_str in
            if length prlist' + 1 > unat cap then Inl OutOfBounds else prlist_loop cap das prlist')
         else prlist_loop cap das prlist))"

text \<open>
  \<open>malloc_ok\<close> is for the list, \<open>ok\<close> for the buffer.  Without memory the buffer
  of the caller stays as it is, and the result is 0 all the same.
\<close>

definition MakeActiveDiscoveryRqst ::
  "SLPDConfig \<Rightarrow> bool \<Rightarrow> bool \<Rightarrow> bool \<Rightarrow> (nat \<Rightarrow> 8 word) \<Rightarrow> bool \<Rightarrow> SLPBuffer option \<Rightarrow> slpd \<Rightarrow> (SLPBuffer option \<times> slpd) res" where
  "MakeActiveDiscoveryRqst cfg malloc_ok open_ok ok junk ismcast buffer s =
     (let cap = of_nat (MTU cfg) - 47 in
      if \<not> malloc_ok then Inr (buffer, s)
      else if cap = 0 then Inl OutOfBounds
      else
        bindR (if open_ok then prlist_loop cap (known_das s) [] else Inr []) (\<lambda>prlist.
          (let lang = bytes_of (locale_tag cfg);
               sz = 47 + length lang + length prlist in
           case SLPBufferRealloc ok junk buffer sz of
             None \<Rightarrow> Inr (buffer, s)
           | Some result \<Rightarrow>
               (case SLPXidGenerate s of (xid, s) \<Rightarrow>
                  bindR
                    (bindP (put_v2_header SLP_FUNCT_SRVRQST sz (if ismcast then SLP_FLAG_MCAST else 0) (ucast xid) lang) (\<lambda>_.
                     bindP (slp_PutUINT16 (of_nat (length prlist))) (\<lambda>_.
                     bindP (put_bytes (bytes_of prlist)) (\<lambda>_.
                     bindP (slp_PutUINT16 23) (\<lambda>_.
                     bindP (put_bytes (bytes_of ''service:directory-agent'')) (\<lambda>_.
                     bindP (slp_PutUINT16 0) (\<lambda>_.
                     bindP (slp_PutUINT16 0) (\<lambda>_.
                     slp_PutUINT16 0))))))) result)
                    (\<lambda>(_, result). Inr (Some result, s))))))"

section \<open>The list of agents in every reachable state\<close>

abbreviation da_key :: "known_da \<Rightarrow> nat \<times> string" where
  "da_key k \<equiv> slp_key (k_url k)"

text \<open>No two agents have the same URL, and none is shutting down.\<close>

definition known_ok :: "known_da list \<Rightarrow> bool" where
  "known_ok das \<longleftrightarrow> distinct (map da_key das) \<and> (\<forall>k \<in> set das. k_bootstamp k \<noteq> 0)"

lemma remove_first_key:
  "distinct (map f xs) \<Longrightarrow> remove_first (\<lambda>x. f x = y) xs = filter (\<lambda>x. f x \<noteq> y) xs"
proof (induction xs)
  case (Cons x xs)
  show ?case
  proof (cases "f x = y")
    case True
    then have "f x' \<noteq> y" if "x' \<in> set xs" for x' using imageI[OF that, of f] Cons.prems by auto
    then have "filter (\<lambda>x. f x \<noteq> y) xs = xs" by simp
    with True show ?thesis by simp
  qed (use Cons in simp)
qed simp

lemma remove_first_subseq: "remove_first P xs = xs \<or> (\<exists>ys x zs. xs = ys @ x # zs \<and> remove_first P xs = ys @ zs)"
proof (induction xs)
  case (Cons x xs)
  show ?case
  proof (cases "P x")
    case True
    then have "x # xs = [] @ x # xs \<and> remove_first P (x # xs) = [] @ xs" by simp
    then show ?thesis by blast
  next
    case False
    consider "remove_first P xs = xs" | ys y zs where "xs = ys @ y # zs" "remove_first P xs = ys @ zs" using Cons.IH by blast
    then show ?thesis
    proof cases
      case 1
      with False show ?thesis by simp
    next
      case (2 ys y zs)
      then have "x # xs = (x # ys) @ y # zs \<and> remove_first P (x # xs) = (x # ys) @ zs" using False by simp
      then show ?thesis by blast
    qed
  qed
qed simp

lemma known_ok_remove: "known_ok das \<Longrightarrow> known_ok (remove_first P das)"
  using remove_first_subseq[of P das] by (auto simp: known_ok_def)

lemma stale_loop_eq: "stale_loop das = map (\<lambda>k. k\<lparr>k_stale := k_stale k - 1\<rparr>) (filter (\<lambda>k. k_stale k \<noteq> 0) das)"
  by (induction das) auto

lemma known_ok_stale: "known_ok das \<Longrightarrow> known_ok (stale_loop das)"
  by (auto simp: known_ok_def stale_loop_eq comp_def distinct_map_filter)

lemma register_loop_eq:
  "register_loop dup da imm es s =
     s\<lparr>outbox := outbox s @ map (\<lambda>(p, e). (k_peer da, r_buf (e_reg e)))
        (filter (\<lambda>(p, e). (imm \<longrightarrow> r_lifetime (e_reg e) \<ge> SLP_LIFETIME_MAXIMUM) \<and> reg_for_da da (e_reg e) \<and> dup p) es)\<rparr>"
  by (induction dup da imm es s rule: register_loop.induct) (auto simp: send_to_def Let_def)

lemma RegisterAll_frame [simp]:
  "known_das (SLPDKnownDARegisterAll cfg op con dup da imm s) = known_das s"
  "registrations (SLPDKnownDARegisterAll cfg op con dup da imm s) = registrations s"
  "G_Xid (SLPDKnownDARegisterAll cfg op con dup da imm s) = G_Xid s"
  by (simp_all add: SLPDKnownDARegisterAll_def register_loop_eq)

lemma echo_loop_eq: "\<exists>out. echo_loop cfg con dup scope buf das s = s\<lparr>outbox := outbox s @ out\<rparr>"
proof (induction das arbitrary: s)
  case (Cons da das)
  show ?case
  proof (cases "SLPIntersectStringList scope (k_scopelist da) \<noteq> 0
         \<and> \<not> (isDA cfg \<and> SLPIntersectStringList (ifaceurls cfg) (k_url da) > 0)
         \<and> con (k_peer da) \<and> dup (length das)")
    case True
    obtain out where "echo_loop cfg con dup scope buf das (send_to (k_peer da) buf s)
        = (send_to (k_peer da) buf s)\<lparr>outbox := outbox (send_to (k_peer da) buf s) @ out\<rparr>"
      using Cons.IH by blast
    with True have "echo_loop cfg con dup scope buf (da # das) s = s\<lparr>outbox := outbox s @ (k_peer da, buf) # out\<rparr>"
      by (simp add: send_to_def)
    then show ?thesis ..
  qed (use Cons in auto)
qed (auto intro: exI[of _ "[]"])

lemma Echo_frame [simp]:
  "known_das (SLPDKnownDAEcho cfg op con dup peer fid scope buf s) = known_das s"
  "registrations (SLPDKnownDAEcho cfg op con dup peer fid scope buf s) = registrations s"
  using echo_loop_eq[of cfg con dup scope buf "known_das s" s] by (auto simp: SLPDKnownDAEcho_def)

lemma refresh_loop_frame [simp]:
  "known_das (refresh_loop cfg op con dup das s) = known_das s"
  "registrations (refresh_loop cfg op con dup das s) = registrations s"
  by (induction das arbitrary: s) auto

text \<open>What an advertisement does to the list, once its URL has an address.\<close>

lemma Add_known:
  assumes "SLPDKnownDAAdd cfg env msg s = (err, s')" "known_ok (known_das s)"
  shows "known_das s' = known_das s \<or>
     (\<exists>peer. known_das s' = filter (\<lambda>k. da_key k \<noteq> da_key msg) (known_das s) @
        (if k_bootstamp msg \<noteq> 0 \<and> err = 0
         then [msg\<lparr>k_peer := peer, k_stale := staleDACheckPeriod cfg sdiv SLPD_AGE_INTERVAL\<rparr>] else []))"
proof -
  have d: "distinct (map da_key (known_das s))" using assms(2) by (simp add: known_ok_def)
  note rf = remove_first_key[OF d, of "da_key msg"]
  have nf: "filter (\<lambda>k. da_key k \<noteq> da_key msg) (known_das s) = known_das s"
    if "List.find (\<lambda>k. da_key k = da_key msg) (known_das s) = None"
    using that by (auto simp: find_None_iff intro: filter_True)
  show ?thesis
    using assms(1)
    by (auto simp: SLPDKnownDAAdd_def Let_def SLPCompareString_key rf nf error_defs split: if_splits sum.splits option.splits)
qed

lemma known_ok_add:
  assumes "SLPDKnownDAAdd cfg env msg s = (err, s')" "known_ok (known_das s)"
  shows "known_ok (known_das s')"
proof -
  have "known_ok (filter (\<lambda>k. da_key k \<noteq> da_key msg) (known_das s))"
    using assms(2) by (auto simp: known_ok_def distinct_map_filter)
  then show ?thesis
    using Add_known[OF assms] assms(2) by (auto simp: known_ok_def)
qed

text \<open>
  What happens to the list of agents: an advertisement arrives, an agent does not
  answer, the periodic checks, registrations that are passed on.  The environment
  chooses the order, the arguments and the failing allocations.
\<close>

inductive da_step :: "SLPDConfig \<Rightarrow> slpd \<Rightarrow> slpd \<Rightarrow> bool" for cfg where
  advert: "SLPDKnownDAAdd cfg env msg s = (err, s') \<Longrightarrow> da_step cfg s s'"
| lost: "da_step cfg s (SLPDKnownDARemove op addr s)"
| check: "da_step cfg s (SLPDKnownDAStaleDACheck cfg op s)"
| refresh: "da_step cfg s (SLPDKnownDAImmortalRefresh cfg dop op con dup secs s)"
| echo: "da_step cfg s (SLPDKnownDAEcho cfg op con dup peer fid scope buf s)"
| discover: "MakeActiveDiscoveryRqst cfg mok op ok junk mc buffer s = Inr (b, s') \<Longrightarrow> da_step cfg s s'"
| database: "da_step cfg s (s\<lparr>registrations := d\<rparr>)"
| shutdown: "SLPDKnownDADeinit cfg dop op con aok junk s = Inr s' \<Longrightarrow> da_step cfg s s'"

lemma Discovery_frame:
  "MakeActiveDiscoveryRqst cfg mok op ok junk mc buffer s = Inr (b, s') \<Longrightarrow> known_das s' = known_das s"
  by (auto simp: MakeActiveDiscoveryRqst_def Let_def res_iff SLPXidGenerate_def split: if_splits option.splits prod.splits)

lemma known_ok_step: "da_step cfg s s' \<Longrightarrow> known_ok (known_das s) \<Longrightarrow> known_ok (known_das s')"
proof (induction rule: da_step.induct)
  case (advert env msg s err s')
  then show ?case by (rule known_ok_add)
next
  case (lost s op addr)
  then show ?case by (simp add: SLPDKnownDARemove_def known_ok_remove)
next
  case (check s op)
  then show ?case by (simp add: SLPDKnownDAStaleDACheck_def known_ok_stale)
next
  case (refresh s dop op con dup secs)
  then show ?case by (simp add: SLPDKnownDAImmortalRefresh_def Let_def)
next
  case (discover mok op ok junk mc buffer s b s')
  then show ?case using Discovery_frame by metis
next
  case (shutdown dop op con aok junk s s')
  then show ?case by (auto simp: SLPDKnownDADeinit_def res_iff known_ok_def)
qed simp_all

text \<open>
  C30: in every state the daemon can reach from an empty list of directory agents,
  whatever arrives and whatever allocation fails, no two agents of the list have
  URLs that compare as equal, and no agent is in it that has announced its end.
\<close>

theorem known_das_reachable:
  assumes "(da_step cfg)\<^sup>*\<^sup>* s0 s" "known_das s0 = []"
  shows "distinct (map (\<lambda>k. slp_key (k_url k)) (known_das s)) \<and> (\<forall>k \<in> set (known_das s). k_bootstamp k \<noteq> 0)
    \<and> (\<forall>i j. i < length (known_das s) \<and> j < length (known_das s) \<and> i \<noteq> j \<longrightarrow>
         SLPCompareString (k_url (known_das s ! i)) (k_url (known_das s ! j)) \<noteq> 0)"
proof -
  have "known_ok (known_das s)"
    using assms by (induction rule: rtranclp_induct) (auto simp: known_ok_def[of "[]"] intro: known_ok_step)
  then show ?thesis by (auto simp: known_ok_def SLPCompareString_key distinct_conv_nth)
qed

section \<open>Stale agents\<close>

text \<open>
  C31: after \<open>n\<close> checks exactly the agents are left whose count was at least \<open>n\<close>;
  an agent that was just heard of stays for \<open>staleDACheckPeriod / 15\<close> checks and is
  removed by the next one.
\<close>

theorem StaleDACheck_iterated:
  assumes "staleDACheckPeriod cfg \<noteq> 0" "\<forall>k \<in> set (known_das s). 0 \<le> k_stale k"
  shows "known_das ((SLPDKnownDAStaleDACheck cfg True ^^ n) s) =
     map (\<lambda>k. k\<lparr>k_stale := k_stale k - int n\<rparr>) (filter (\<lambda>k. int n \<le> k_stale k) (known_das s))"
proof (induction n)
  case 0
  have "map (\<lambda>k. k\<lparr>k_stale := k_stale k - int 0\<rparr>) (known_das s) = known_das s" by (simp add: map_idI)
  with assms(2) show ?case by simp
next
  case (Suc n)
  have "filter (\<lambda>k. int n \<le> k_stale k \<and> k_stale k \<noteq> int n) das = filter (\<lambda>k. 1 + int n \<le> k_stale k) das" for das :: "known_da list"
    by (rule filter_cong) auto
  with Suc assms(1) show ?case
    by (simp add: SLPDKnownDAStaleDACheck_def stale_loop_eq filter_map comp_def algebra_simps)
qed


section \<open>Messages that are written\<close>

definition enc_header :: "nat \<Rightarrow> nat \<Rightarrow> 64 word \<Rightarrow> 64 word \<Rightarrow> 8 word list \<Rightarrow> 8 word list" where
  "enc_header functionid sz flags xid langtag =
     [2, of_nat functionid] @ TO_UINT24 (of_nat sz) @ TO_UINT16 flags @ TO_UINT24 0 @ TO_UINT16 xid @ encS langtag"

lemma length_enc_header [simp]: "length (enc_header fid sz fl xid lang) = 14 + length lang"
  by (simp add: enc_header_def)

lemma put_v2_header_bytes: "put_v2_header fid sz fl xid lang = put_bytes (enc_header fid sz fl xid lang)"
  by (simp add: put_v2_header_def slp_PutUINT16_def slp_PutUINT24_def put_norm enc_header_def encS_def)

subsection \<open>Reading back what is written\<close>

text \<open>A message whose header is written by \<open>put_v2_header\<close>: the parser comes to its body.\<close>

lemma enc_header_read:
  assumes "bmem b = enc_header fid sz fl xid lang @ rest" "bend b = sz" "bcur b = 0"
    and "18 \<le> sz" "sz < 2 ^ 24" "1 \<le> fid" "fid \<le> 11" "length lang < 65536" "14 + length lang \<le> sz"
    and "(ucast fl :: 16 word) AND 0x1fff = 0"
  obtains h where "SLPv2MessageParseHeader b = Inr (h, b\<lparr>bcur := 14 + length lang\<rparr>)" "hd_version h = 2" "hd_functionid h = fid"
    "hd_length h = sz" "hd_xid h = ucast xid" "hd_flags h = ucast fl" "hd_extoffset h = 0" "wbytes (bmem b) (hd_langtag h) = lang"
    "inp (b\<lparr>bcur := 14 + length lang\<rparr>) = rest"
proof -
  have m: "bmem b = [2, of_nat fid] @ TO_UINT24 (of_nat (bend b)) @ TO_UINT16 fl @ TO_UINT24 (of_nat 0) @ TO_UINT16 xid
      @ encS lang @ rest"
    using assms(1,2) by (simp add: enc_header_def)
  obtain h where h: "SLPv2MessageParseHeader b = Inr (h, b\<lparr>bcur := 14 + length lang\<rparr>)" "hd_version h = 2" "hd_functionid h = fid"
    "hd_length h = bend b" "hd_xid h = ucast xid" "hd_extoffset h = 0" "wbytes (bmem b) (hd_langtag h) = lang" "hd_flags h = ucast fl"
    using header_read[OF m _ _ assms(3,6,7,8) _ _ assms(10)] assms(2,4,5,9) by auto
  have "drop (14 + length lang) (bmem b) = rest" unfolding assms(1) by simp
  then show ?thesis using h assms(2) by (intro that[of h]) (simp_all add: inp_def)
qed

lemma encS_high:
  assumes "length s < 256"
  shows "encS s = 0 # tl (encS s)"
proof -
  have "(of_nat (length s) :: 64 word) < 256" using assms by (simp add: word_less_nat_alt unat_of_nat take_bit_eq_mod)
  then have "drop_bit 8 (of_nat (length s) :: 64 word) = 0" by (simp add: drop_bit_eq_div div_word_less)
  then show ?thesis by (simp add: encS_def TO_UINT16_def)
qed

lemma ucast_down_up [simp]: "ucast (ucast (x :: 16 word) :: 64 word) = x" "ucast (ucast (y :: 32 word) :: 64 word) = y"
  by (rule bit_word_eqI; auto simp: bit_simps)+

lemma overflow_flag_valid [simp]: "(ucast (overflow_flag cfg sz) :: 16 word) AND 0x1fff = 0"
  "(ucast (overflow_flag cfg sz OR SLP_FLAG_MCAST) :: 16 word) AND 0x1fff = 0" "(ucast SLP_FLAG_MCAST :: 16 word) AND 0x1fff = 0"
  by (auto simp: overflow_flag_def SLP_FLAG_OVERFLOW_def SLP_FLAG_MCAST_def)

text \<open>A message without extension whose body is parsed.\<close>

lemma message_parsed:
  assumes "SLPv2MessageParseHeader b = Inr (h, b1)" "parse_body mok (hd_functionid h) b1 = Inr (body, b')" "hd_extoffset h = 0"
  shows "SLPv2MessageParseBuffer mok b = Inr ((h, body), b')"
  using assms by (simp add: SLPv2MessageParseBuffer_def bindP_def retP_def)

subsection \<open>The own advertisement\<close>

text \<open>The body of a DAAdvert without attributes, SPIs and authentication.\<close>

definition enc_daadvert :: "32 word \<Rightarrow> 8 word list \<Rightarrow> 8 word list \<Rightarrow> 8 word list" where
  "enc_daadvert bootstamp url scopes =
     TO_UINT16 0 @ TO_UINT32 (ucast bootstamp) @ encS url @ encS scopes @ encS [] @ encS [] @ [0]"

definition daadvert_size :: "SLPDConfig \<Rightarrow> sockaddr \<Rightarrow> nat" where
  "daadvert_size cfg localaddr =
     length (locale_tag cfg) + 29 + length (urlPrefix cfg) + length (localaddr_str localaddr) + length (useScopes cfg)"

abbreviation my_url :: "SLPDConfig \<Rightarrow> sockaddr \<Rightarrow> 8 word list" where
  "my_url cfg localaddr \<equiv> bytes_of (urlPrefix cfg @ localaddr_str localaddr)"

lemma MyDAAdvert_bytes:
  "SLPDKnownDAGenerateMyDAAdvert cfg ok junk localaddr err dead mc xid sendbuf =
     (let sz = daadvert_size cfg localaddr in
      case SLPBufferRealloc ok junk sendbuf sz of
        None \<Rightarrow> Inr (SLP_ERROR_INTERNAL_ERROR, None)
      | Some b \<Rightarrow>
          bindR (put_bytes
             (enc_header SLP_FUNCT_DAADVERT sz (overflow_flag cfg sz OR (if mc then SLP_FLAG_MCAST else 0)) xid
                (bytes_of (locale_tag cfg)) @
              (if err = 0 then enc_daadvert (if dead then 0 else DATimestamp cfg) (my_url cfg localaddr) (bytes_of (useScopes cfg))
               else TO_UINT16 (of_nat err))) b)
            (\<lambda>(_, b). Inr (err, Some b)))"
proof -
  have z: "TO_UINT16 0 = encS []" by (simp add: encS_def)
  show ?thesis
    unfolding SLPDKnownDAGenerateMyDAAdvert_def
    by (simp add: Let_def put_v2_header_bytes slp_PutUINT16_def slp_PutUINT32_def put_norm enc_daadvert_def encS_def
        daadvert_size_def split: option.split)
qed

lemma bindP_alt: "p b = Inr (x, b') \<Longrightarrow> bindP p f b = f x b'"
  by (simp add: bindP_def)

lemma wbytes_PutNul:
  "wptr s = Some p \<Longrightarrow> i < p \<or> p + wlen s \<le> i \<Longrightarrow> wbytes (m[i := x]) s = wbytes m s"
  by (simp add: wbytes_def cslice_update_outside)

text \<open>As \<open>bind_L16_enc\<close>, with the place of the string.\<close>

lemma bind_L16_at:
  assumes "inp b = encS str @ rest" "length str < 65536" "bcur b + 2 + length str \<le> bend b"
  shows "bindP parse_L16 f b = f \<lparr>wlen = length str, wptr = Some (bcur b + 2)\<rparr> (b\<lparr>bcur := bcur b + 2 + length str\<rparr>)"
    "wbytes (bmem b) \<lparr>wlen = length str, wptr = Some (bcur b + 2)\<rparr> = str"
    "inp (b\<lparr>bcur := bcur b + 2 + length str\<rparr>) = rest"
proof -
  have i: "inp b = TO_UINT16 (of_nat (length str)) @ str @ rest" using assms(1) by (simp add: encS_def)
  have p: "parse_L16 b = Inr (\<lparr>wlen = length str, wptr = Some (bcur b + 2)\<rparr>, b\<lparr>bcur := bcur b + 2 + length str\<rparr>)"
    using get16_inp[OF i, of "\<lambda>len. bindP (slp_GetStrPtr (unat len)) (\<lambda>ptr. retP \<lparr>wlen = unat len, wptr = Some ptr\<rparr>)"] assms(2,3)
    by (simp add: parse_L16_def parse_L16_unchecked_def bindP_def[of _ "\<lambda>s. bindP endP _"] unat_ucast16)
       (simp add: bindP_def slp_GetStrPtr_def retP_def endP_def)
  show "bindP parse_L16 f b = f \<lparr>wlen = length str, wptr = Some (bcur b + 2)\<rparr> (b\<lparr>bcur := bcur b + 2 + length str\<rparr>)"
    by (simp add: bindP_def p)
  obtain s where s: "parse_L16 b = Inr (s, b\<lparr>bcur := bcur b + 2 + length str\<rparr>)" "wbytes (bmem b) s = str"
    "inp (b\<lparr>bcur := bcur b + 2 + length str\<rparr>) = rest"
    using parse_L16_enc[OF assms] by (auto simp: inp_def)
  show "wbytes (bmem b) \<lparr>wlen = length str, wptr = Some (bcur b + 2)\<rparr> = str"
    "inp (b\<lparr>bcur := bcur b + 2 + length str\<rparr>) = rest"
    using s p by auto
qed

lemma v2ParseDAAdvert_enc:
  assumes "inp b = enc_daadvert boot url sc @ rest" "length url < 65536" "length sc < 65536"
    and "bcur b + length (enc_daadvert boot url sc) \<le> bend b"
  obtains r b' where "v2ParseDAAdvert mok b = Inr (r, b')" "da_errorcode r = 0" "da_bootstamp r = boot" "da_autharray r = []"
    "map (wbytes (bmem b')) [da_url r, da_scopelist r, da_attrlist r, da_spilist r] = [url, sc, [], []]"
    "bcur b' = bcur b + length (enc_daadvert boot url sc)" "bend b' = bend b" "bmem b' = (bmem b)[bcur b + 8 + length url := 0]"
proof -
  let ?c0 = "bcur b" and ?at = "\<lambda>i. b\<lparr>bcur := i\<rparr>"
  let ?c6 = "?c0 + 2 + 4" let ?c7 = "?c6 + 2 + length url" let ?c8 = "?c7 + 2 + length sc" let ?c9 = "?c8 + 2" let ?c10 = "?c9 + 2"
  have len: "length (enc_daadvert boot url sc) = 15 + length url + length sc" by (simp add: enc_daadvert_def)
  then have le: "?c0 + 15 \<le> bend b" "?c7 \<le> bend b" "?c8 \<le> bend b" "?c9 \<le> bend b" "?c10 + 1 \<le> bend b"
    using assms(4) by simp_all
  have i0: "inp b = TO_UINT16 0 @ TO_UINT32 (ucast boot) @ encS url @ encS sc @ encS [] @ encS [] @ [0] @ rest"
    using assms(1) by (simp add: enc_daadvert_def)
  have i2: "inp (?at (?c0 + 2)) = TO_UINT32 (ucast boot) @ encS url @ encS sc @ encS [] @ encS [] @ [0] @ rest"
    using inp_advance[OF i0] by simp
  have i6: "inp (?at ?c6) = encS url @ encS sc @ encS [] @ encS [] @ [0] @ rest"
    using inp_advance[OF i2] by simp
  note u = bind_L16_at[OF i6 assms(2)] and len0 = length_encS
  have i7: "inp (?at ?c7) = encS sc @ encS [] @ encS [] @ [0] @ rest" using u(3) le(2) by simp
  have i8: "inp (?at ?c8) = encS [] @ encS [] @ [0] @ rest" using bind_L16_at(3)[OF i7 assms(3)] le(3) by simp
  have i9: "inp (?at ?c9) = encS [] @ [0] @ rest" using bind_L16_at(3)[OF i8] le(4) by simp
  have i10: "inp (?at ?c10) = 0 # rest" using bind_L16_at(3)[OF i9] le(5) by simp
  let ?u = "\<lparr>wlen = length url, wptr = Some (?c6 + 2)\<rparr>" and ?s = "\<lparr>wlen = length sc, wptr = Some (?c7 + 2)\<rparr>"
    and ?a = "\<lparr>wlen = 0, wptr = Some (?c8 + 2)\<rparr>" and ?p = "\<lparr>wlen = 0, wptr = Some (?c9 + 2)\<rparr>"
  have room: "?c10 < length (bmem b)" using inp_nth[of "?at ?c10" "[]"] i10 by auto
  let ?b' = "?at (?c10 + 1)\<lparr>bmem := (bmem b)[?c7 := 0]\<rparr>"
  have boot: "ucast (ucast boot :: 64 word) = boot" by (rule bit_word_eqI) (auto simp: bit_simps)
  have steps: "bindP slp_GetUINT16 f1 b = f1 0 (?at (?c0 + 2))"
    "bindP slp_GetUINT32 f2 (?at (?c0 + 2)) = f2 boot (?at ?c6)"
    "bindP parse_L16 f3 (?at ?c6) = f3 ?u (?at ?c7)" "bindP parse_L16 f4 (?at ?c7) = f4 ?s (?at ?c8)"
    "bindP parse_L16 f5 (?at ?c8) = f5 ?a (?at ?c9)" "bindP parse_L16 f6 (?at ?c9) = f6 ?p (?at ?c10)"
    "bindP (parse_autharray mok) f7 (?at ?c10) = f7 [] (?at (?c10 + 1))"
    "bindP (terminate ?u) f8 (?at (?c10 + 1)) = f8 () ?b'"
    for f1 f2 f3 f4 f5 f6 f7 f8 :: "_ \<Rightarrow> SLPDAAdvert parser"
    using get16_inp[OF i0, of f1] get32_inp[OF i2, of f2] u(1)[of f3] bind_L16_at(1)[OF i7 assms(3), of f4]
      bind_L16_at(1)[OF i8, of f5] bind_L16_at(1)[OF i9, of f6] parse_autharray_none[OF i10, of mok f7] le boot room
    by (simp_all add: bindP_def terminate_def PutNul_def)
  have run: "v2ParseDAAdvert mok b = Inr (\<lparr>da_errorcode = 0, da_bootstamp = boot, da_url = ?u, da_scopelist = ?s,
      da_attrlist = ?a, da_spilist = ?p, da_autharray = []\<rparr>, ?b')"
    by (simp only: v2ParseDAAdvert_def needP_enough[OF le(1)] steps simp_thms if_False retP_def)
  have "wbytes (bmem b) ?u = url" "wbytes (bmem b) ?s = sc"
    using u(2) bind_L16_at(2)[OF i7 assms(3)] le by auto
  moreover have "wbytes ((bmem b)[?c7 := 0]) ?u = wbytes (bmem b) ?u" "wbytes ((bmem b)[?c7 := 0]) ?s = wbytes (bmem b) ?s"
    by (rule wbytes_PutNul, simp, simp)+
  ultimately have m: "map (wbytes (bmem ?b')) [?u, ?s, ?a, ?p] = [url, sc, [], []]"
    by (simp only: list.map) (simp add: wbytes_def cslice_def)
  show ?thesis
    by (rule that[OF run], simp_all only: SLPDAAdvert.select_convs m) (simp_all add: len add.commute add.left_commute)
qed


text \<open>
  The advertisement that the daemon builds of itself is never written outside
  its buffer, and the parser reads it back: in any buffer that holds the message,
  whatever follows it, it is a DAAdvert without error, with the start time of the
  daemon (0 when it ends), its URL and its scopes.
\<close>

lemma MyDAAdvert_roundtrip:
  assumes "\<And>b0. sendbuf = Some b0 \<Longrightarrow> buffer_ok b0" "daadvert_size cfg localaddr < 65536" "MTU cfg \<le> 65535"
  shows "\<exists>out. SLPDKnownDAGenerateMyDAAdvert cfg True junk localaddr 0 dead mc xid sendbuf = Inr (0, Some out)
    \<and> buffer_ok out \<and> bcur out = bend out \<and> bend out = daadvert_size cfg localaddr
    \<and> (\<forall>b extra. bmem b = buf_bytes out @ extra \<and> bend b = bend out \<and> bcur b = 0 \<longrightarrow>
         (\<exists>h r b'. SLPv2MessageParseBuffer mok b = Inr ((h, DAAdvert r), b')
           \<and> hd_version h = 2 \<and> (length (useScopes cfg) < 256 \<longrightarrow> bmem b' = bmem b) \<and> bend b' = bend b
           \<and> hd_functionid h = SLP_FUNCT_DAADVERT \<and> hd_length h = bend out \<and> hd_xid h = ucast xid
           \<and> da_errorcode r = 0 \<and> da_bootstamp r = (if dead then 0 else DATimestamp cfg) \<and> da_autharray r = []
           \<and> wbytes (bmem b') (da_url r) = my_url cfg localaddr
           \<and> wbytes (bmem b') (da_scopelist r) = bytes_of (useScopes cfg)))"
proof -
  define sz where "sz = daadvert_size cfg localaddr"
  define lang where "lang = bytes_of (locale_tag cfg)"
  define fl where "fl = (overflow_flag cfg sz OR (if mc then SLP_FLAG_MCAST else 0))"
  define boot where "boot = (if dead then 0 else DATimestamp cfg)"
  define url where "url = my_url cfg localaddr"
  define sc where "sc = bytes_of (useScopes cfg)"
  let ?body = "enc_daadvert boot url sc"
  let ?msg = "enc_header SLP_FUNCT_DAADVERT sz fl xid lang @ ?body"
  have len: "length ?msg = sz" "length lang < 65536" "length url < 65536" "length sc < 65536" "sz < 65536" "29 + length lang \<le> sz"
    using assms(2) by (simp_all add: sz_def lang_def url_def sc_def daadvert_size_def enc_daadvert_def)
  obtain b0 where b0: "SLPBufferRealloc True junk sendbuf sz = Some b0"
    using SLPBufferRealloc_True by blast
  obtain out where out: "put_bytes ?msg b0 = Inr ((), out)" "buffer_ok out" "bend out = sz" "bcur out = sz" "buf_bytes out = ?msg"
    by (rule message_filled[OF b0 assms(1) len(1)])
  have run: "SLPDKnownDAGenerateMyDAAdvert cfg True junk localaddr 0 dead mc xid sendbuf = Inr (0, Some out)"
    using b0 out(1) by (simp add: MyDAAdvert_bytes Let_def sz_def lang_def fl_def boot_def url_def sc_def)
  have "\<exists>h r b'. SLPv2MessageParseBuffer mok b = Inr ((h, DAAdvert r), b')
      \<and> hd_version h = 2 \<and> (length sc < 256 \<longrightarrow> bmem b' = bmem b) \<and> bend b' = bend b
      \<and> hd_functionid h = SLP_FUNCT_DAADVERT \<and> hd_length h = sz \<and> hd_xid h = ucast xid
      \<and> da_errorcode r = 0 \<and> da_bootstamp r = boot \<and> da_autharray r = []
      \<and> wbytes (bmem b') (da_url r) = url \<and> wbytes (bmem b') (da_scopelist r) = sc"
    if b: "bmem b = ?msg @ extra" "bend b = sz" "bcur b = 0" for b extra
  proof -
    have m: "bmem b = enc_header SLP_FUNCT_DAADVERT sz fl xid lang @ ?body @ extra" using b(1) by simp
    have c: "18 \<le> sz" "sz < 2 ^ 24" "1 \<le> SLP_FUNCT_DAADVERT" "SLP_FUNCT_DAADVERT \<le> 11" "14 + length lang \<le> sz"
      using len(5,6) by (simp_all add: funct_defs)
    have fl0: "(ucast fl :: 16 word) AND 0x1fff = 0" by (simp add: fl_def)
    let ?b1 = "b\<lparr>bcur := 14 + length lang\<rparr>" and ?at = "14 + length lang + 8 + length url"
    obtain h where h: "SLPv2MessageParseHeader b = Inr (h, ?b1)" "hd_version h = 2" "hd_functionid h = SLP_FUNCT_DAADVERT" "hd_length h = sz"
      "hd_xid h = ucast xid" "hd_extoffset h = 0" "inp ?b1 = ?body @ extra"
      by (rule enc_header_read[OF m b(2,3) c(1-4) len(2) c(5) fl0])
    note inp = h(7)
    have same: "(bmem b)[?at := 0] = bmem b" if small: "length sc < 256"
    proof -
      have "inp (?b1\<lparr>bcur := bcur ?b1 + length (TO_UINT16 0 @ TO_UINT32 (ucast boot) @ encS url)\<rparr>)
          = encS sc @ encS [] @ encS [] @ [0] @ extra"
        by (rule inp_advance) (use inp in \<open>simp add: enc_daadvert_def\<close>)
      moreover have "bcur ?b1 + length (TO_UINT16 0 @ TO_UINT32 (ucast boot) @ encS url) = ?at" by simp
      ultimately have "inp (b\<lparr>bcur := ?at\<rparr>) = encS sc @ encS [] @ encS [] @ [0] @ extra" by (simp add: add.assoc)
      moreover obtain hs where "encS sc = 0 # hs" using encS_high[OF small] by blast
      ultimately have "inp (b\<lparr>bcur := ?at\<rparr>) = [] @ 0 # hs @ encS [] @ encS [] @ [0] @ extra" by simp
      from inp_nth[OF this] show ?thesis by (simp add: list_update_same_conv)
    qed
    have room: "bcur ?b1 + length ?body \<le> bend ?b1" using len(1) b(2) by simp
    obtain r b' where r: "v2ParseDAAdvert mok ?b1 = Inr (r, b')" "da_errorcode r = 0" "da_bootstamp r = boot" "da_autharray r = []"
      "map (wbytes (bmem b')) [da_url r, da_scopelist r, da_attrlist r, da_spilist r] = [url, sc, [], []]"
      "bend b' = bend b" "bmem b' = (bmem b)[?at := 0]"
      by (rule v2ParseDAAdvert_enc[OF inp len(3,4) room, of mok]) simp
    have pb: "parse_body mok (hd_functionid h) ?b1 = Inr (DAAdvert r, b')"
      using r(1) h(3) by (simp add: parse_body_def mapP_def bindP_def retP_def funct_defs)
    show ?thesis
      using message_parsed[OF h(1) pb h(6)] h(2-5) r(2-7) same by auto
  qed
  then show ?thesis
    using run out by (auto simp: sz_def boot_def url_def sc_def)
qed

definition sample_config :: SLPDConfig where
  "sample_config =
     \<lparr>isDA = True, useScopes = ''DEFAULT'', interfaces = ''10.0.0.1'', urlPrefix = ''service:directory-agent://'',
      locale_tag = ''en'', MTU = 1400, DATimestamp = 77, passiveDADetection = True, DAActiveDiscoveryInterval = 900,
      staleDACheckPeriod = 0, netIPv4 = True, netIPv6 = False, ifaceurls = [],
      unicastTimeouts = [500, 750, 1000, 1500, 2000], unicastMaximumWait = 5000, db_prop = sample_prop\<rparr>"

section \<open>Registering with an agent\<close>

text \<open>What an agent is sent: the buffers of the daemon's own registrations in its scopes.\<close>

definition registered_with :: "known_da \<Rightarrow> SLPDDatabase \<Rightarrow> (sockaddr \<times> 8 word list) list" where
  "registered_with da d =
     map (\<lambda>pe. (k_peer da, r_buf (e_reg (snd pe)))) (filter (\<lambda>pe. reg_for_da da (e_reg (snd pe))) (db d))"

lemma RegisterAll_eq:
  assumes "con (k_peer da)" "SLPIntersectStringList (ifaceurls cfg) (k_url da) = 0"
  shows "SLPDKnownDARegisterAll cfg True con (\<lambda>_. True) da False s =
     s\<lparr>outbox := outbox s @ registered_with da (registrations s)\<rparr>"
  using assms
  by (auto simp: SLPDKnownDARegisterAll_def register_loop_eq SLPDDatabaseIsEmpty_def registered_with_def split_def)

text \<open>
  An advertisement of an agent that is up is kept in place of the one with
  the same URL, the others stay as they are and in order; and exactly when the
  agent is new or was started again since, it is sent the registrations the daemon
  made itself in the agent's scopes, each once.
\<close>

lemma SLPDKnownDAAdd_registers:
  assumes "known_ok (known_das s)" "de_open env" "de_entry env" "de_regopen env" "de_dup env = (\<lambda>_. True)"
    and "SLPParseSrvUrl (de_url env) (k_url msg) = Inr u"
    and "SLPNetResolveHostToAddr (de_resolve4 env) (de_resolve6 env) (pu_host u) = Some a"
    and "de_connect env (resolved_peer cfg (k_peer msg) a)" "SLPIntersectStringList (ifaceurls cfg) (k_url msg) = 0"
    and "k_bootstamp msg \<noteq> 0"
  shows "\<exists>new s'. SLPDKnownDAAdd cfg env msg s = (SLP_ERROR_OK, s')
    \<and> new = msg\<lparr>k_peer := resolved_peer cfg (k_peer msg) a, k_stale := staleDACheckPeriod cfg sdiv SLPD_AGE_INTERVAL\<rparr>
    \<and> known_das s' = filter (\<lambda>k. SLPCompareString (k_url k) (k_url msg) \<noteq> 0) (known_das s) @ [new]
    \<and> registrations s' = registrations s
    \<and> outbox s' = outbox s @
        (if \<exists>k \<in> set (known_das s). SLPCompareString (k_url k) (k_url msg) = 0 \<and> k_bootstamp k = k_bootstamp msg
         then [] else registered_with new (registrations s))"
proof -
  let ?m = "msg\<lparr>k_peer := resolved_peer cfg (k_peer msg) a\<rparr>"
  let ?new = "?m\<lparr>k_stale := staleDACheckPeriod cfg sdiv SLPD_AGE_INTERVAL\<rparr>"
  let ?P = "\<lambda>k. slp_key (k_url k) = slp_key (k_url msg)"
  have d: "distinct (map da_key (known_das s))" using assms(1) by (simp add: known_ok_def)
  note rf = remove_first_key[OF d, of "slp_key (k_url msg)"]
  have reg: "SLPDKnownDARegisterAll cfg True (de_connect env) (\<lambda>_. True) ?m False t =
      t\<lparr>outbox := outbox t @ registered_with ?new (registrations t)\<rparr>" for t
    using RegisterAll_eq[of "de_connect env" ?m cfg t] assms(8,9) by (simp add: registered_with_def reg_for_da_def)
  have run: "SLPDKnownDAAdd cfg env msg s =
     (let t = (case List.find ?P (known_das s) of
                 None \<Rightarrow> s
               | Some e \<Rightarrow> (if k_bootstamp msg \<noteq> k_bootstamp e
                           then s\<lparr>outbox := outbox s @ registered_with ?new (registrations s), known_das := filter (\<lambda>k. \<not> ?P k) (known_das s)\<rparr>
                           else s\<lparr>known_das := filter (\<lambda>k. \<not> ?P k) (known_das s)\<rparr>));
          t = t\<lparr>known_das := known_das t @ [?new]\<rparr>
      in (SLP_ERROR_OK, if List.find ?P (known_das s) = None
                        then t\<lparr>outbox := outbox t @ registered_with ?new (registrations t)\<rparr> else t))"
    unfolding SLPDKnownDAAdd_def assms(6) Let_def SLPCompareString_key
    using assms(2-5,7,10) by (simp add: reg rf split: option.split)
  show ?thesis
  proof (cases "List.find ?P (known_das s)")
    case None
    then have none: "\<forall>k \<in> set (known_das s). \<not> ?P k" by (simp add: find_None_iff)
    then have "filter (\<lambda>k. \<not> ?P k) (known_das s) = known_das s" "\<not> (\<exists>k \<in> set (known_das s). ?P k \<and> k_bootstamp k = k_bootstamp msg)"
      by auto
    then show ?thesis unfolding run None SLPCompareString_key by auto
  next
    case (Some e)
    then have e: "?P e" "e \<in> set (known_das s)" by (auto simp: find_Some_iff)
    have uniq: "k = e" if "k \<in> set (known_das s)" "?P k" for k
      using e that by (intro inj_onD[OF conjunct2[OF d[unfolded distinct_map]]]) simp_all
    have eq: "(\<exists>k \<in> set (known_das s). ?P k \<and> k_bootstamp k = k_bootstamp msg) \<longleftrightarrow> k_bootstamp e = k_bootstamp msg"
    proof
      assume "\<exists>k \<in> set (known_das s). ?P k \<and> k_bootstamp k = k_bootstamp msg"
      then obtain k where k: "k \<in> set (known_das s)" "?P k" "k_bootstamp k = k_bootstamp msg" by blast
      with uniq[OF k(1,2)] show "k_bootstamp e = k_bootstamp msg" by simp
    qed (use e in blast)
    show ?thesis
    proof (cases "k_bootstamp e = k_bootstamp msg")
      case True
      then have F': "\<not> k_bootstamp msg \<noteq> k_bootstamp e" by simp
      show ?thesis unfolding run Some SLPCompareString_key eq option.case Let_def if_not_P[OF F'] if_P[OF True]
        by simp
    next
      case False
      then have T': "k_bootstamp msg \<noteq> k_bootstamp e" by simp
      show ?thesis unfolding run Some SLPCompareString_key eq option.case Let_def if_P[OF T'] if_not_P[OF False]
        by simp
    qed
  qed
qed

section \<open>A deregistration made from a registration\<close>

lemma MakeSrvdereg_bytes:
  "MakeSrvderegFromSrvReg cfg ok junk reg s =
     (let scopes = bytes_of (r_scopelist reg); sz = length (r_langtag reg) + 18 + r_opaquelen reg + length scopes in
      case SLPBufferAlloc ok junk sz of
        None \<Rightarrow> Inr (SLP_ERROR_INTERNAL_ERROR, None, s)
      | Some b \<Rightarrow>
          bindR (put_bytes (enc_header SLP_FUNCT_SRVDEREG sz (overflow_flag cfg sz) (ucast (G_Xid s + 1)) (r_langtag reg)
                   @ encS scopes @ r_opaque_bytes reg @ encS []) b)
            (\<lambda>(_, b). Inr (0, Some b, s\<lparr>G_Xid := G_Xid s + 1\<rparr>)))"
  unfolding MakeSrvderegFromSrvReg_def
  by (simp add: Let_def put_v2_header_bytes slp_PutUINT16_def put_norm encS_def SLPXidGenerate_def split: option.split)

text \<open>A URL entry without authentication, as \<open>bind_UrlEntry_enc\<close>, followed by another field.\<close>

lemma v2ParseSrvDeReg_enc:
  assumes "inp b = encS sc @ encUrl life url [] @ encS [] @ rest" "length url < 65536" "length sc < 65536"
    and "bcur b + length (encS sc @ encUrl life url [] @ encS []) \<le> bend b"
  obtains r where "v2ParseSrvDeReg mok b = Inr (r, b\<lparr>bcur := bcur b + length (encS sc @ encUrl life url [] @ encS [])\<rparr>)"
    "map (wbytes (bmem b)) [dr_scopelist r, ue_url (dr_urlentry r), dr_taglist r] = [sc, url, []]"
    "ue_autharray (dr_urlentry r) = []"
proof -
  let ?c1 = "bcur b + 2 + length sc"
  let ?c2 = "?c1 + 6 + length url"
  let ?c3 = "?c2 + 2"
  have le: "?c1 \<le> bend b" "?c2 \<le> bend b" "?c3 \<le> bend b" "bcur b + 4 \<le> bend b"
    using assms(4) by (simp_all add: length_encUrl)
  let ?g3 = "\<lambda>s u t. retP \<lparr>dr_scopelist = s, dr_urlentry = u, dr_taglist = t\<rparr>"
  let ?g2 = "\<lambda>s u. bindP parse_L16 (?g3 s u)"
  let ?g1 = "\<lambda>s. bindP (v2ParseUrlEntry mok) (?g2 s)"
  obtain s where 1: "bindP parse_L16 ?g1 b = ?g1 s (b\<lparr>bcur := ?c1\<rparr>)" "wbytes (bmem b) s = sc"
    "inp (b\<lparr>bcur := ?c1\<rparr>) = encUrl life url [] @ encS [] @ rest"
    using bind_L16_enc[OF assms(1,3) le(1), of ?g1] by auto
  have le2: "bcur (b\<lparr>bcur := ?c1\<rparr>) + 6 + length url \<le> bend (b\<lparr>bcur := ?c1\<rparr>)" using le by simp
  obtain u where 2: "?g1 s (b\<lparr>bcur := ?c1\<rparr>) = ?g2 s u (b\<lparr>bcur := ?c2\<rparr>)" "wbytes (bmem b) (ue_url u) = url" "ue_autharray u = []"
    "inp (b\<lparr>bcur := ?c2\<rparr>) = encS [] @ rest"
    using bind_UrlEntry_enc[OF 1(3) assms(2) le2, of mok "?g2 s"] by auto
  obtain t where 3: "?g2 s u (b\<lparr>bcur := ?c2\<rparr>) = ?g3 s u t (b\<lparr>bcur := ?c3\<rparr>)" "wbytes (bmem b) t = []"
    using bind_L16_enc[OF 2(4), of "?g3 s u"] le(3) by auto
  have "v2ParseSrvDeReg mok b = ?g3 s u t (b\<lparr>bcur := ?c3\<rparr>)"
    unfolding v2ParseSrvDeReg_def needP_enough[OF le(4)] 1(1) 2(1) 3(1) ..
  moreover have "?c3 = bcur b + length (encS sc @ encUrl life url [] @ encS [])" by (simp add: length_encUrl)
  ultimately show ?thesis
    using 1 2 3 by (intro that[of "\<lparr>dr_scopelist = s, dr_urlentry = u, dr_taglist = t\<rparr>"]) (simp_all add: retP_def)
qed

definition sample_agent :: known_da where
  "sample_agent = \<lparr>k_peer = AF_INET 0x0a000002, k_bootstamp = 5, k_url = ''service:directory-agent://h'',
     k_scopelist = ''DEFAULT'', k_buf = [], k_stale = 0\<rparr>"

definition sample_env :: da_env where
  "sample_env = \<lparr>de_open = True, de_url = True, de_entry = True, de_resolve4 = (\<lambda>_. Some 0x0a000002), de_resolve6 = (\<lambda>_. None),
     de_regopen = True, de_connect = (\<lambda>_. True), de_dup = (\<lambda>_. True)\<rparr>"

abbreviation sample_slpd :: "known_da list \<Rightarrow> slpd" where
  "sample_slpd das \<equiv> \<lparr>registrations = sample_database, known_das = das, G_Xid = 0, time_since_refresh = 0, outbox = []\<rparr>"

lemma sample_agent_added:
  "\<exists>out. SLPDKnownDAAdd sample_config sample_env sample_agent (sample_slpd []) = (0, (sample_slpd [sample_agent])\<lparr>outbox := out\<rparr>)"
proof -
  let ?url = "''service:directory-agent://h''"
  have u: "SLPParseSrvUrl True ?url = Inr \<lparr>pu_srvtype = ''service:directory-agent'', pu_host = ''h'', pu_port = 0, pu_family = '''', pu_remainder = ''''\<rparr>"
    by (simp add: SLPParseSrvUrl_def c_string_def chd_def)
  have "staleDACheckPeriod sample_config sdiv SLPD_AGE_INTERVAL = 0" by (simp add: sample_config_def signed_divide_int_def)
  then show ?thesis
    by (simp add: SLPDKnownDAAdd_def sample_agent_def sample_env_def u Let_def SLPNetResolveHostToAddr_def resolved_peer_def
        SLPDKnownDARegisterAll_def register_loop_eq SLP_ERROR_OK_def)
qed

theorem known_das_reachable_witness:
  "\<exists>s. (da_step sample_config)\<^sup>*\<^sup>* (sample_slpd []) s \<and> length (known_das s) = 1
    \<and> distinct (map (\<lambda>k. slp_key (k_url k)) (known_das s)) \<and> (\<forall>k \<in> set (known_das s). k_bootstamp k \<noteq> 0)"
proof -
  obtain out where "SLPDKnownDAAdd sample_config sample_env sample_agent (sample_slpd []) = (0, (sample_slpd [sample_agent])\<lparr>outbox := out\<rparr>)"
    using sample_agent_added by blast
  then have r: "(da_step sample_config)\<^sup>*\<^sup>* (sample_slpd []) ((sample_slpd [sample_agent])\<lparr>outbox := out\<rparr>)"
    by (intro r_into_rtranclp da_step.advert)
  from known_das_reachable[OF r] show ?thesis
    by (intro exI[of _ "(sample_slpd [sample_agent])\<lparr>outbox := out\<rparr>"] conjI r) simp_all
qed

theorem StaleDACheck_iterated_witness:
  "known_das ((SLPDKnownDAStaleDACheck (sample_config\<lparr>staleDACheckPeriod := 60\<rparr>) True ^^ 3)
      (sample_slpd [sample_agent\<lparr>k_stale := 4\<rparr>, sample_agent\<lparr>k_stale := 2\<rparr>])) = [sample_agent\<lparr>k_stale := 1\<rparr>]"
  using StaleDACheck_iterated[of "sample_config\<lparr>staleDACheckPeriod := 60\<rparr>"
      "sample_slpd [sample_agent\<lparr>k_stale := 4\<rparr>, sample_agent\<lparr>k_stale := 2\<rparr>]" 3]
  by simp




section \<open>The discovery request\<close>

lemma v2ParseSrvRqst_enc:
  assumes "inp b = encS pr @ encS ty @ encS sc @ encS pred @ encS spi @ rest"
    and "length pr < 65536" "length ty < 65536" "length sc < 65536" "length pred < 65536" "length spi < 65536"
    and "bcur b + 10 + length pr + length ty + length sc + length pred + length spi \<le> bend b"
  obtains r where "v2ParseSrvRqst b = Inr (r, b\<lparr>bcur := bcur b + 10 + length pr + length ty + length sc + length pred + length spi\<rparr>)"
    "map (wbytes (bmem b)) [rq_prlist r, rq_srvtype r, rq_scopelist r, rq_predicate r, rq_spistr r] = [pr, ty, sc, pred, spi]"
proof -
  let ?b1 = "b\<lparr>bcur := bcur b + 2 + length pr\<rparr>"
  let ?b2 = "b\<lparr>bcur := bcur ?b1 + 2 + length ty\<rparr>"
  let ?b3 = "b\<lparr>bcur := bcur ?b2 + 2 + length sc\<rparr>"
  let ?b4 = "b\<lparr>bcur := bcur ?b3 + 2 + length pred\<rparr>"
  have le: "bcur b + 10 \<le> bend b" "bcur b + 2 + length pr \<le> bend b" "bcur ?b1 + 2 + length ty \<le> bend ?b1"
    "bcur ?b2 + 2 + length sc \<le> bend ?b2" "bcur ?b3 + 2 + length pred \<le> bend ?b3" "bcur ?b4 + 2 + length spi \<le> bend ?b4"
    using assms(7) by simp_all
  note s1 = bind_L16_at[OF assms(1,2) le(2)]
  have i1: "inp ?b1 = encS ty @ encS sc @ encS pred @ encS spi @ rest" by (rule s1(3))
  note s2 = bind_L16_at[OF i1 assms(3) le(3)]
  have i2: "inp ?b2 = encS sc @ encS pred @ encS spi @ rest" using s2(3) by simp
  note s3 = bind_L16_at[OF i2 assms(4) le(4)]
  have i3: "inp ?b3 = encS pred @ encS spi @ rest" using s3(3) by simp
  note s4 = bind_L16_at[OF i3 assms(5) le(5)]
  have i4: "inp ?b4 = encS spi @ rest" using s4(3) by simp
  note s5 = bind_L16_at[OF i4 assms(6) le(6)]
  let ?r = "\<lparr>rq_prlist = \<lparr>wlen = length pr, wptr = Some (bcur b + 2)\<rparr>, rq_srvtype = \<lparr>wlen = length ty, wptr = Some (bcur ?b1 + 2)\<rparr>,
    rq_scopelist = \<lparr>wlen = length sc, wptr = Some (bcur ?b2 + 2)\<rparr>, rq_predicatever = 2,
    rq_predicate = \<lparr>wlen = length pred, wptr = Some (bcur ?b3 + 2)\<rparr>, rq_spistr = \<lparr>wlen = length spi, wptr = Some (bcur ?b4 + 2)\<rparr>\<rparr>"
  have "v2ParseSrvRqst b = Inr (?r, b\<lparr>bcur := bcur ?b4 + 2 + length spi\<rparr>)"
    by (simp add: v2ParseSrvRqst_def needP_enough[OF le(1)] s1(1) s2(1)[simplified] s3(1)[simplified] s4(1)[simplified]
        s5(1)[simplified] retP_def)
  moreover have "map (wbytes (bmem b)) [rq_prlist ?r, rq_srvtype ?r, rq_scopelist ?r, rq_predicate ?r, rq_spistr ?r] = [pr, ty, sc, pred, spi]"
    using s1(2) s2(2) s3(2) s4(2) s5(2) by simp
  ultimately show ?thesis by (intro that[of ?r]) (simp_all add: algebra_simps)
qed


lemma addr_no_comma:
  assumes "SLPNetSockAddrStorageToString a = Some s"
  shows "CHR '','' \<notin> set s"
proof -
  have c: "char_of n \<noteq> CHR '',''" if "44 < n" "n < 256" for n :: nat
    using that by (simp add: char_of_eq_iff take_bit_eq_mod)
  have u: "CHR '','' \<notin> set (fmt_u n)" for n
  proof (induction n rule: fmt_u.induct)
    case (1 n)
    have "n < 10 \<Longrightarrow> char_of (48 + n) \<noteq> CHR '',''" "char_of (48 + n mod 10) \<noteq> CHR '',''"
      by (intro c; simp)+
    with 1 show ?case by (subst fmt_u.simps) (auto simp: eq_commute[of "CHR '',''"])
  qed
  have x: "CHR '','' \<notin> set (fmt_x n)" for n
  proof (induction n rule: fmt_x.induct)
    case (1 n)
    have "char_of (if d < 10 then 48 + d else 87 + d) \<noteq> CHR '',''" if "d < 16" for d :: nat
      using that by (intro c) auto
    from this[of "n mod 16"] have "char_of (if n mod 16 < 10 then 48 + n mod 16 else 87 + n mod 16) \<noteq> CHR '',''" by simp
    with 1 show ?case by (subst fmt_x.simps) (auto simp: Let_def eq_commute[of "CHR '',''"])
  qed
  have v4: "CHR '','' \<notin> set (inet_ntop4 w)" for w by (simp add: inet_ntop4_def u)
  have v6: "CHR '','' \<notin> set (ntop_groups v4 gs bl i rest)" for v4 gs bl i rest
    by (induction v4 gs bl i rest rule: ntop_groups.induct) (simp_all add: x v4)
  show ?thesis using assms v4 v6[of _ "in6_groups _" "best_run _" 0 "in6_groups _"] by (auto simp: SLPNetSockAddrStorageToString_def inet_ntop6_def Let_def split: sockaddr.splits)
qed

definition addr_of_da :: "known_da \<Rightarrow> string" where
  "addr_of_da da = (case SLPNetSockAddrStorageToString (k_peer da) of None \<Rightarrow> [] | Some a \<Rightarrow> a)"

lemma addr_of_da: "length (addr_of_da da) \<le> 45" "CHR '','' \<notin> set (addr_of_da da)"
  using length_addr_str[of "k_peer da"] addr_no_comma[of "k_peer da"]
  by (auto simp: addr_of_da_def INET6_ADDRSTRLEN_def split: option.split)

lemma prlist_room:
  assumes "n < 2 ^ 40" "unat (cap :: 64 word) < 2 ^ 40"
  shows "cap < of_nat n + of_nat INET6_ADDRSTRLEN + 1 \<longleftrightarrow> unat cap < n + 47"
proof -
  have e: "(of_nat n + of_nat INET6_ADDRSTRLEN + 1 :: 64 word) = of_nat (n + 47)" by (simp add: INET6_ADDRSTRLEN_def)
  have "unat (of_nat (n + 47) :: 64 word) = n + 47" using assms(1) by (simp only: unat_of_nat) (simp add: take_bit_eq_mod)
  then show ?thesis unfolding e word_less_nat_alt by simp
qed

lemma prlist_loop_ok:
  assumes "unat cap < 2 ^ 40" "length pr + 1 \<le> unat cap" "distinct (map slp_key (list_items pr))" "pr = [] \<or> last pr \<noteq> CHR '',''"
  shows "\<exists>pr'. prlist_loop cap das pr = Inr pr' \<and> length pr' + 1 \<le> unat cap \<and> distinct (map slp_key (list_items pr'))
    \<and> set (list_items pr) \<subseteq> set (list_items pr') \<and> set (list_items pr') \<subseteq> set (list_items pr) \<union> (addr_of_da ` set das - {[]})
    \<and> (length pr + 46 * length das + 1 \<le> unat cap \<longrightarrow>
        (\<forall>da \<in> set das. addr_of_da da \<noteq> [] \<longrightarrow> (\<exists>it \<in> set (list_items pr'). slp_eq it (addr_of_da da))))"
  using assms(2-4)
proof (induction das arbitrary: pr)
  case (Cons da das)
  let ?a = "addr_of_da da"
  have len: "length pr < 2 ^ 40" using assms(1) Cons.prems(1) by simp
  note room = prlist_room[OF len assms(1)]
  show ?case
  proof (cases "unat cap < length pr + 47")
    case True
    then show ?thesis using room Cons.prems by auto
  next
    case False
    then have r: "\<not> cap < of_nat (length pr) + of_nat INET6_ADDRSTRLEN + 1" using room by simp
    show ?thesis
    proof (cases "?a \<noteq> [] \<and> SLPContainsStringList pr ?a = 0")
      case new: True
      let ?pr = "(if pr \<noteq> [] then pr @ '','' else pr) @ ?a"
      have items: "list_items ?pr = list_items pr @ [?a]"
        using new addr_of_da(2)[of da] Cons.prems(3) list_items_append[of pr ?a] list_items_single[of ?a]
        by (cases "pr = []") auto
      have "\<not> (\<exists>it \<in> set (list_items pr). slp_eq it ?a)" using new SLPContainsStringList_items[of pr ?a] by simp
      then have d: "distinct (map slp_key (list_items ?pr))" using Cons.prems(2) unfolding items by (auto simp: slp_eq_key)
      have fit: "length ?pr + 1 \<le> unat cap" using False addr_of_da(1)[of da] by simp
      have l: "?pr = [] \<or> last ?pr \<noteq> CHR '',''" using new addr_of_da(2)[of da] last_in_set[of ?a] by (metis last_appendR)
      obtain pr' where "prlist_loop cap das ?pr = Inr pr'" "length pr' + 1 \<le> unat cap" "distinct (map slp_key (list_items pr'))"
        "set (list_items ?pr) \<subseteq> set (list_items pr')" "set (list_items pr') \<subseteq> set (list_items ?pr) \<union> (addr_of_da ` set das - {[]})"
        "length ?pr + 46 * length das + 1 \<le> unat cap \<longrightarrow>
          (\<forall>da \<in> set das. addr_of_da da \<noteq> [] \<longrightarrow> (\<exists>it \<in> set (list_items pr'). slp_eq it (addr_of_da da)))"
        using Cons.IH[OF fit d l] by blast
      moreover have "prlist_loop cap (da # das) pr = prlist_loop cap das ?pr"
        using r new fit by (simp add: addr_of_da_def Let_def)
      moreover have "length ?pr \<le> length pr + 46" using addr_of_da(1)[of da] by simp
      ultimately show ?thesis using new unfolding items by (intro exI[of _ pr']) (auto intro: bexI[of _ ?a])
    next
      case False
      have skip: "prlist_loop cap (da # das) pr = prlist_loop cap das pr"
        using r False by (auto simp: addr_of_da_def Let_def)
      obtain pr' where p: "prlist_loop cap das pr = Inr pr'" "length pr' + 1 \<le> unat cap" "distinct (map slp_key (list_items pr'))"
        "set (list_items pr) \<subseteq> set (list_items pr')" "set (list_items pr') \<subseteq> set (list_items pr) \<union> (addr_of_da ` set das - {[]})"
        "length pr + 46 * length das + 1 \<le> unat cap \<longrightarrow>
          (\<forall>da \<in> set das. addr_of_da da \<noteq> [] \<longrightarrow> (\<exists>it \<in> set (list_items pr'). slp_eq it (addr_of_da da)))"
        using Cons.IH[OF Cons.prems] by blast
      have "?a \<noteq> [] \<longrightarrow> (\<exists>it \<in> set (list_items pr'). slp_eq it ?a)"
        using False SLPContainsStringList_items[of pr ?a] p(4) by auto
      then show ?thesis unfolding skip using p by (intro exI[of _ pr']) auto
    qed
  qed
qed simp


text \<open>
  With an MTU that leaves room for it, the request for directory agents is
  never written outside its buffer, nor the list of agents outside its array.  The parser
  reads it back as a request for \<open>service:directory-agent\<close> in all scopes
  with the list of the agents that need not answer: each item is the address of a
  known agent, no two items are the same, and all known agents with an address are
  in it when 46 bytes are left for each.
\<close>

theorem MakeActiveDiscoveryRqst_roundtrip:
  assumes "48 \<le> MTU cfg" "MTU cfg \<le> 60000" "length (locale_tag cfg) \<le> 1000" "\<And>b0. buffer = Some b0 \<Longrightarrow> buffer_ok b0"
  shows "\<exists>out prlist. MakeActiveDiscoveryRqst cfg True True True junk mc buffer s = Inr (Some out, s\<lparr>G_Xid := G_Xid s + 1\<rparr>)
    \<and> buffer_ok out \<and> bcur out = bend out \<and> bend out < MTU cfg + length (locale_tag cfg)
    \<and> distinct (map slp_key (list_items prlist))
    \<and> (\<forall>it \<in> set (list_items prlist). \<exists>da \<in> set (known_das s). SLPNetSockAddrStorageToString (k_peer da) = Some it)
    \<and> (46 * length (known_das s) + 48 \<le> MTU cfg \<longrightarrow> (\<forall>da \<in> set (known_das s). \<forall>a.
          SLPNetSockAddrStorageToString (k_peer da) = Some a \<and> a \<noteq> [] \<longrightarrow> SLPContainsStringList prlist a \<noteq> 0))
    \<and> (\<forall>b extra. bmem b = buf_bytes out @ extra \<and> bend b = bend out \<and> bcur b = 0 \<longrightarrow>
         (\<exists>h r b'. SLPv2MessageParseBuffer mok b = Inr ((h, SrvRqst r), b')
           \<and> hd_functionid h = SLP_FUNCT_SRVRQST \<and> hd_length h = bend out \<and> hd_xid h = G_Xid s + 1
           \<and> map (wbytes (bmem b')) [rq_prlist r, rq_srvtype r, rq_scopelist r, rq_predicate r, rq_spistr r]
             = [bytes_of prlist, bytes_of ''service:directory-agent'', [], [], []]))"
proof -
  define cap :: "64 word" where "cap = of_nat (MTU cfg) - 47"
  have "cap = of_nat (MTU cfg - 47)" using assms(1) by (simp add: cap_def)
  then have cap: "unat cap = MTU cfg - 47" using assms(2) by (simp add: unat_of_nat take_bit_eq_mod)
  have capn: "cap \<noteq> 0"
  proof
    assume "cap = 0"
    then show False using cap assms(1) by simp
  qed
  have l: "unat cap < 2 ^ 40" "length ([] :: string) + 1 \<le> unat cap" using cap assms(1,2) by simp_all
  obtain pr where pr: "prlist_loop cap (known_das s) [] = Inr pr" "length pr + 1 \<le> unat cap" "distinct (map slp_key (list_items pr))"
    "set (list_items pr) \<subseteq> addr_of_da ` set (known_das s) - {[]}"
    "46 * length (known_das s) + 1 \<le> unat cap \<Longrightarrow>
      (\<forall>da \<in> set (known_das s). addr_of_da da \<noteq> [] \<longrightarrow> (\<exists>it \<in> set (list_items pr). slp_eq it (addr_of_da da)))"
    using prlist_loop_ok[OF l, of "known_das s"] by auto
  define lang where "lang = bytes_of (locale_tag cfg)"
  define sz where "sz = 47 + length lang + length pr"
  let ?fl = "if mc then SLP_FLAG_MCAST else 0" and ?prb = "bytes_of pr" and ?ty = "bytes_of ''service:directory-agent''"
  let ?body = "encS ?prb @ encS ?ty @ encS [] @ encS [] @ encS []"
  let ?msg = "enc_header SLP_FUNCT_SRVRQST sz ?fl (ucast (G_Xid s + 1)) lang @ ?body"
  have len: "length ?msg = sz" "length lang < 65536" "length pr < 65536" "sz < 2 ^ 24" "18 \<le> sz" "14 + length lang \<le> sz"
    "sz < MTU cfg + length (locale_tag cfg)"
    using assms(1-3) pr(2) cap by (simp_all add: sz_def lang_def)
  obtain b0 where b0: "SLPBufferRealloc True junk buffer sz = Some b0"
    using SLPBufferRealloc_True by blast
  obtain out where out: "put_bytes ?msg b0 = Inr ((), out)" "buffer_ok out" "bend out = sz" "bcur out = sz" "buf_bytes out = ?msg"
    by (rule message_filled[OF b0 assms(4) len(1)])
  have run: "MakeActiveDiscoveryRqst cfg True True True junk mc buffer s = Inr (Some out, s\<lparr>G_Xid := G_Xid s + 1\<rparr>)"
    using b0 out(1) capn pr(1)
    by (simp add: MakeActiveDiscoveryRqst_def Let_def cap_def[symmetric] sz_def lang_def SLPXidGenerate_def put_v2_header_bytes
        slp_PutUINT16_def put_norm encS_def)
  have parsed: "\<exists>h r b'. SLPv2MessageParseBuffer mok b = Inr ((h, SrvRqst r), b')
      \<and> hd_functionid h = SLP_FUNCT_SRVRQST \<and> hd_length h = sz \<and> hd_xid h = G_Xid s + 1
      \<and> map (wbytes (bmem b')) [rq_prlist r, rq_srvtype r, rq_scopelist r, rq_predicate r, rq_spistr r] = [?prb, ?ty, [], [], []]"
    if b: "bmem b = ?msg @ extra" "bend b = sz" "bcur b = 0" for b extra
  proof -
    have m: "bmem b = enc_header SLP_FUNCT_SRVRQST sz ?fl (ucast (G_Xid s + 1)) lang @ ?body @ extra"
      using b(1) by simp
    have c: "1 \<le> SLP_FUNCT_SRVRQST" "SLP_FUNCT_SRVRQST \<le> 11" by (simp_all add: funct_defs)
    let ?b1 = "b\<lparr>bcur := 14 + length lang\<rparr>"
    obtain h where h: "SLPv2MessageParseHeader b = Inr (h, ?b1)" "hd_functionid h = SLP_FUNCT_SRVRQST" "hd_length h = sz"
      "hd_xid h = ucast (ucast (G_Xid s + 1) :: 64 word)" "hd_extoffset h = 0" "inp ?b1 = ?body @ extra"
      by (rule enc_header_read[OF m b(2,3) len(5,4) c len(2,6)]) simp_all
    have inp: "inp ?b1 = encS ?prb @ encS ?ty @ encS [] @ encS [] @ encS [] @ extra" using h(6) by simp
    have room: "bcur ?b1 + 10 + length ?prb + length ?ty + length [] + length [] + length [] \<le> bend ?b1"
      using b(2) by (simp add: sz_def)
    obtain r b' where r: "v2ParseSrvRqst ?b1 = Inr (r, b')" "bmem b' = bmem b"
      "map (wbytes (bmem b)) [rq_prlist r, rq_srvtype r, rq_scopelist r, rq_predicate r, rq_spistr r] = [?prb, ?ty, [], [], []]"
      by (rule v2ParseSrvRqst_enc[OF inp _ _ _ _ _ room]) (use len(3) in auto)
    have pb: "parse_body mok (hd_functionid h) ?b1 = Inr (SrvRqst r, b')"
      using r(1) h(2) by (simp add: parse_body_def mapP_def bindP_def retP_def funct_defs)
    show ?thesis
      using message_parsed[OF h(1) pb h(5)] h(2-4) r(2,3) by auto
  qed
  have items: "\<exists>da \<in> set (known_das s). SLPNetSockAddrStorageToString (k_peer da) = Some it" if "it \<in> set (list_items pr)" for it
    using pr(4) that by (auto simp: addr_of_da_def split: option.splits)
  have all: "SLPContainsStringList pr a \<noteq> 0"
    if "46 * length (known_das s) + 48 \<le> MTU cfg" "da \<in> set (known_das s)" "SLPNetSockAddrStorageToString (k_peer da) = Some a" "a \<noteq> []" for da a
  proof -
    have "46 * length (known_das s) + 1 \<le> unat cap" "addr_of_da da = a" using that cap by (simp_all add: addr_of_da_def)
    with pr(5) that(2,4) have "\<exists>it \<in> set (list_items pr). slp_eq it a" by blast
    then show ?thesis using SLPContainsStringList_items[of pr a] by simp
  qed
  show ?thesis
  proof (intro exI conjI)
    show "\<forall>it \<in> set (list_items pr). \<exists>da \<in> set (known_das s). SLPNetSockAddrStorageToString (k_peer da) = Some it"
      using items by blast
    show "46 * length (known_das s) + 48 \<le> MTU cfg \<longrightarrow> (\<forall>da \<in> set (known_das s). \<forall>a.
        SLPNetSockAddrStorageToString (k_peer da) = Some a \<and> a \<noteq> [] \<longrightarrow> SLPContainsStringList pr a \<noteq> 0)"
      using all by blast
    show "\<forall>b extra. bmem b = buf_bytes out @ extra \<and> bend b = bend out \<and> bcur b = 0 \<longrightarrow>
      (\<exists>h r b'. SLPv2MessageParseBuffer mok b = Inr ((h, SrvRqst r), b')
         \<and> hd_functionid h = SLP_FUNCT_SRVRQST \<and> hd_length h = bend out \<and> hd_xid h = G_Xid s + 1
         \<and> map (wbytes (bmem b')) [rq_prlist r, rq_srvtype r, rq_scopelist r, rq_predicate r, rq_spistr r]
           = [?prb, ?ty, [], [], []])"
      unfolding out(3,5) using parsed by blast
  qed (use run out(2-4) len(7) pr(3) in simp_all)
qed


theorem MakeActiveDiscoveryRqst_roundtrip_witness:
  "\<exists>out prlist. MakeActiveDiscoveryRqst sample_config True True True (\<lambda>_. 0) True None (sample_slpd [sample_agent])
      = Inr (Some out, (sample_slpd [sample_agent])\<lparr>G_Xid := 1\<rparr>)
    \<and> bend out < 1402 \<and> SLPContainsStringList prlist (inet_ntop4 0x0a000002) \<noteq> 0"
proof -
  have "inet_ntop4 0x0a000002 \<noteq> []" by (simp add: inet_ntop4_def)
  then show ?thesis
    using MakeActiveDiscoveryRqst_roundtrip[of sample_config None "\<lambda>_. 0" True "sample_slpd [sample_agent]" "\<lambda>_. True"]
    by (auto simp: sample_config_def sample_agent_def SLPNetSockAddrStorageToString_def)
qed

end
