(* ===== verification/SLPD_Property.thy ===== *)
theory SLPD_Property
  imports SLP_Property SLPD_KnownDA
begin

text \<open>
  What the two programs make of the properties: the client's interface of
  \<open>libslp/libslp_property.c\<close>, which stops changes after the first value was given
  out, and the settings of the daemon, \<open>slpd/slpd_property.c\<close>, with the bounds
  its timers are kept in.  The interfaces of the host are a parameter.
\<close>

section \<open>The client's interface\<close>

record libslp_props =
  lp_props :: prop_state
  s_UserAllowedToSet :: bool
  s_PropInited :: bool

definition LIBSLPPropertyInit :: "prop_env \<Rightarrow> string option \<Rightarrow> libslp_props \<Rightarrow> (int \<times> libslp_props) res" where
  "LIBSLPPropertyInit env gconffile l =
     (if s_PropInited l then Inr (0, l)
      else bindR (SLPPropertyInit env gconffile (lp_props l)) (\<lambda>(rv, s).
        Inr (rv, l\<lparr>lp_props := s, s_PropInited := (rv = 0)\<rparr>)))"

definition LIBSLPPropertyCleanup :: "libslp_props \<Rightarrow> libslp_props" where
  "LIBSLPPropertyCleanup l =
     (if s_PropInited l then l\<lparr>lp_props := SLPPropertyExit (lp_props l), s_PropInited := False\<rparr> else l)"

text \<open>Where the configuration of the client is, a path the build sets.\<close>

definition SLPGetProperty :: "prop_env \<Rightarrow> string option \<Rightarrow> string \<Rightarrow> libslp_props \<Rightarrow> (string option \<times> libslp_props) res" where
  "SLPGetProperty env LIBSLP_CONFFILE name l =
     (if name = [] then Inr (None, l)
      else bindR (LIBSLPPropertyInit env LIBSLP_CONFFILE l) (\<lambda>(rv, l).
        if rv \<noteq> 0 then Inr (None, l)
        else let l = l\<lparr>s_UserAllowedToSet := False\<rparr>
             in Inr (SLPPropertyGet_ref name (s_PropertyList (lp_props l)), l)))"

definition SLPSetProperty :: "prop_env \<Rightarrow> string option \<Rightarrow> string \<Rightarrow> string option \<Rightarrow> libslp_props \<Rightarrow> libslp_props res" where
  "SLPSetProperty env LIBSLP_CONFFILE name val l =
     (if name = [] then Inr l
      else bindR (LIBSLPPropertyInit env LIBSLP_CONFFILE l) (\<lambda>(rv, l).
        if rv \<noteq> 0 then Inr l
        else if s_UserAllowedToSet l then
          (let ok = (case val of Some v \<Rightarrow> pe_mem env name v | None \<Rightarrow> True);
               ps = snd (SLPPropertySet ok name val SLP_PA_USERSET (s_PropertyList (lp_props l)))
           in Inr (l\<lparr>lp_props := (lp_props l)\<lparr>s_PropertyList := ps\<rparr>\<rparr>))
        else Inr l))"

definition SLPSetAppPropertyFile :: "string \<Rightarrow> libslp_props \<Rightarrow> bool \<times> libslp_props" where
  "SLPSetAppPropertyFile pathname l =
     (if pathname = [] then (False, l)
      else let (r, s) = SLPPropertySetAppConfFile (Some pathname) (lp_props l) in (r = 0, l\<lparr>lp_props := s\<rparr>))"

text \<open>The calls of an application, in any order.\<close>

inductive prop_call :: "string option \<Rightarrow> libslp_props \<Rightarrow> libslp_props \<Rightarrow> bool" for conf where
  get: "SLPGetProperty env conf name l = Inr (r, l') \<Longrightarrow> prop_call conf l l'"
| set_value: "SLPSetProperty env conf name val l = Inr l' \<Longrightarrow> prop_call conf l l'"
| app_file: "SLPSetAppPropertyFile path l = (b, l') \<Longrightarrow> prop_call conf l l'"

inductive_cases prop_callE: "prop_call conf l l'"

text \<open>After a value was given out, the list stays as it is: the pointers into it stay valid.\<close>

definition given_out :: "SLPProperty list \<Rightarrow> libslp_props \<Rightarrow> bool" where
  "given_out ps l \<longleftrightarrow> s_PropInited l \<and> s_PropertiesInitialized (lp_props l) \<and> \<not> s_UserAllowedToSet l
     \<and> s_PropertyList (lp_props l) = ps"

lemma given_out_call: "given_out ps l \<Longrightarrow> prop_call conf l l' \<Longrightarrow> given_out ps l'"
  by (erule prop_callE)
    (auto simp: given_out_def SLPGetProperty_def SLPSetProperty_def SLPSetAppPropertyFile_def LIBSLPPropertyInit_def
      SLPPropertySetAppConfFile_def Let_def split: if_splits)

lemma given_out_calls: "(prop_call conf)\<^sup>*\<^sup>* l l' \<Longrightarrow> given_out ps l \<Longrightarrow> given_out ps l'"
  by (induction rule: rtranclp_induct) (auto intro: given_out_call)

lemma given_out_get: "given_out ps l \<Longrightarrow> n \<noteq> [] \<Longrightarrow> SLPGetProperty env conf n l = Inr (SLPPropertyGet_ref n ps, l)"
  by (auto simp: given_out_def SLPGetProperty_def LIBSLPPropertyInit_def Let_def)

lemma SLPGetProperty_given_out:
  assumes "SLPGetProperty env conf n l = Inr (Some v, l')" "s_PropInited l \<Longrightarrow> s_PropertiesInitialized (lp_props l)"
  shows "given_out (s_PropertyList (lp_props l')) l' \<and> SLPPropertyGet_ref n (s_PropertyList (lp_props l')) = Some v"
  using assms
  by (auto simp: given_out_def SLPGetProperty_def LIBSLPPropertyInit_def SLPPropertyInit_def Let_def bindR_Inr_iff
      split: if_splits option.splits)

text \<open>
  C36: a value that the client library has given out does not change any more:
  whatever properties the application reads or tries to set and whatever files it
  names, a later call gives the same value.
\<close>

theorem SLPGetProperty_stable:
  assumes "SLPGetProperty env conf n l = Inr (Some v, l1)" "s_PropInited l \<Longrightarrow> s_PropertiesInitialized (lp_props l)"
    and "(prop_call conf)\<^sup>*\<^sup>* l1 l2"
  shows "SLPGetProperty env' conf n l2 = Inr (Some v, l2) \<and> s_PropertyList (lp_props l2) = s_PropertyList (lp_props l1)"
proof -
  have g: "given_out (s_PropertyList (lp_props l1)) l1" "SLPPropertyGet_ref n (s_PropertyList (lp_props l1)) = Some v"
    using SLPGetProperty_given_out[OF assms(1,2)] by blast+
  have g2: "given_out (s_PropertyList (lp_props l1)) l2" by (rule given_out_calls[OF assms(3) g(1)])
  have "n \<noteq> []" using assms(1) by (auto simp: SLPGetProperty_def)
  then show ?thesis using given_out_get[OF g2, of n env' conf] g(2) g2 by (simp add: given_out_def)
qed

definition sample_prop_env :: prop_env where
  "sample_prop_env = \<lparr>pe_version = ''2.0.0'', pe_files = Map.empty, pe_mem = (\<lambda>n v. True), pe_linebuf = True, pe_mutex = True,
     pe_getenv = None, pe_socket = True, pe_rcvbuf = Some 212992, pe_sndbuf = Some 212992, pe_rcvbuf_set = None, pe_sndbuf_set = None\<rparr>"

definition empty_props :: prop_state where
  "empty_props = \<lparr>s_PropertyList = [], s_PropertiesInitialized = False, s_AppPropertyFile = [], s_EnvPropertyFile = [],
     s_GlobalPropertyFile = [], s_GlobalPropertyMTU = 1400, s_RcvBufSize = 0, s_SndBufSize = 0\<rparr>"

definition start_props :: libslp_props where
  "start_props = \<lparr>lp_props = empty_props, s_UserAllowedToSet = True, s_PropInited = False\<rparr>"

lemma first_get:
  "\<exists>l1. SLPGetProperty sample_prop_env (Some ''slp.conf'') ''net.slp.locale'' start_props = Inr (Some ''en'', l1)"
proof -
  have "(case SLPGetProperty sample_prop_env (Some ''slp.conf'') ''net.slp.locale'' start_props of Inr (Some v, l) \<Rightarrow> v = ''en'' | _ \<Rightarrow> False)"
    by code_simp
  then show ?thesis by (auto split: sum.splits option.splits)
qed

theorem SLPGetProperty_stable_witness:
  "\<exists>l1 l2. SLPGetProperty sample_prop_env (Some ''slp.conf'') ''net.slp.locale'' start_props = Inr (Some ''en'', l1)
     \<and> SLPSetProperty sample_prop_env (Some ''slp.conf'') ''net.slp.locale'' (Some ''de'') l1 = Inr l2
     \<and> SLPGetProperty sample_prop_env (Some ''slp.conf'') ''net.slp.locale'' l2 = Inr (Some ''en'', l2)"
proof -
  obtain l1 where l1: "SLPGetProperty sample_prop_env (Some ''slp.conf'') ''net.slp.locale'' start_props = Inr (Some ''en'', l1)"
    using first_get by blast
  have "given_out (s_PropertyList (lp_props l1)) l1"
    using SLPGetProperty_given_out[OF l1] by (simp add: start_props_def)
  then have s: "SLPSetProperty sample_prop_env (Some ''slp.conf'') ''net.slp.locale'' (Some ''de'') l1 = Inr l1"
    by (auto simp: given_out_def SLPSetProperty_def LIBSLPPropertyInit_def)
  have "SLPGetProperty sample_prop_env (Some ''slp.conf'') ''net.slp.locale'' l1 = Inr (Some ''en'', l1)"
    using SLPGetProperty_stable[OF l1 _ r_into_rtranclp[of "prop_call (Some ''slp.conf'')", OF prop_call.set_value[OF s]], of sample_prop_env]
    by (simp add: start_props_def)
  with l1 s show ?thesis by blast
qed

section \<open>The settings of the daemon\<close>

text \<open>
  A string the settings own: no string, a string that was released and is still
  pointed to, or a string.  Releasing it twice is undefined.
\<close>

datatype str_ptr = NullStr | Released | Str string

definition xfree_str :: "str_ptr \<Rightarrow> unit res" where
  "xfree_str p = (case p of Released \<Rightarrow> Inl OutOfBounds | _ \<Rightarrow> Inr ())"

definition of_dup :: "string option \<Rightarrow> str_ptr" where
  "of_dup d = (case d of None \<Rightarrow> NullStr | Some s \<Rightarrow> Str s)"

record slpd_settings =
  st_useScopes :: str_ptr
  st_DAAddresses :: str_ptr
  st_interfaces :: str_ptr
  st_locale :: str_ptr
  st_isDA :: bool
  st_activeDADetection :: bool
  st_DAActiveDiscoveryInterval :: int
  st_passiveDADetection :: bool
  st_staleDACheckPeriod :: int
  st_isBroadcastOnly :: bool
  st_multicastTTL :: int
  st_multicastMaximumWait :: int
  st_unicastMaximumWait :: int
  st_unicastTimeouts :: "int list"
  st_randomWaitBound :: int
  st_maxResults :: int
  st_traceMsg :: bool
  st_traceReg :: bool
  st_traceDrop :: bool
  st_traceDATraffic :: bool
  st_appendLog :: bool
  st_MTU :: int
  st_securityEnabled :: bool
  st_checkSourceAddr :: bool
  st_DAHeartBeat :: int
  st_port :: "16 word"
  st_useDHCP :: bool
  st_max_ifaces :: int
  st_indexingPropertiesSet :: bool
  st_indexedAttributes :: str_ptr
  st_srvtypeIsIndexed :: bool
  st_urlPrefix :: string
  st_DATimestamp :: "32 word"
  st_activeDiscoveryXmits :: int
  st_nextActiveDiscovery :: int
  st_nextPassiveDAAdvert :: int

definition SLPD_CONFIG_DA_FIND :: int where "SLPD_CONFIG_DA_FIND = 900"
definition SLPD_HEARTBEATS_PER_CHECK_PERIOD :: int where "SLPD_HEARTBEATS_PER_CHECK_PERIOD = 3"
definition SLP_MAX_IFACES :: int where "SLP_MAX_IFACES = 100"

text \<open>
  What the reload asks of the system: copies of strings, the time, and the
  interfaces in the families and with the restriction the properties give, as the
  list of their addresses, or nothing where they cannot be found out.
\<close>

datatype family_choice = AnyFamily | OnlyIPv4 | OnlyIPv6

record setting_env =
  se_props :: prop_env
  se_dup :: "string \<Rightarrow> bool"
  se_time :: int
  se_ifaces :: "string option \<Rightarrow> family_choice \<Rightarrow> int \<Rightarrow> string option"

definition active_interval :: "SLPProperty list \<Rightarrow> int" where
  "active_interval ps =
     (if SLPPropertyAsBoolean ''net.slp.activeDADetection'' ps
      then (let i = SLPPropertyAsInteger ''net.slp.DAActiveDiscoveryInterval'' ps
            in if 1 < i \<and> i < SLPD_CONFIG_DA_FIND then SLPD_CONFIG_DA_FIND else i)
      else 0)"

definition stale_period :: "SLPProperty list \<Rightarrow> int" where
  "stale_period ps =
     (let p = SLPPropertyAsInteger ''net.slp.staleDACheckPeriod'' ps;
          least = (SLPD_HEARTBEATS_PER_CHECK_PERIOD + 1) * SLPD_AGE_INTERVAL
      in if 0 < p \<and> p < least then least else p)"

definition heartbeat :: "SLPProperty list \<Rightarrow> int" where
  "heartbeat ps =
     (let h = SLPPropertyAsInteger ''net.slp.DAHeartBeat'' ps;
          most = stale_period ps sdiv SLPD_HEARTBEATS_PER_CHECK_PERIOD;
          h = (if 0 < stale_period ps \<and> (h = 0 \<or> most < h) then most else h)
      in if h < SLPD_AGE_INTERVAL then SLPD_AGE_INTERVAL else h)"

definition iface_family :: "SLPProperty list \<Rightarrow> family_choice" where
  "iface_family ps =
     (let v4 = SLPPropertyAsBoolean ''net.slp.useIPv4'' ps; v6 = SLPPropertyAsBoolean ''net.slp.useIPv6'' ps
      in if v4 \<and> v6 then AnyFamily else if v4 then OnlyIPv4 else if v6 then OnlyIPv6 else AnyFamily)"

definition release_settings :: "slpd_settings \<Rightarrow> unit res" where
  "release_settings st =
     bindR (xfree_str (st_useScopes st)) (\<lambda>_. bindR (xfree_str (st_DAAddresses st)) (\<lambda>_.
     bindR (xfree_str (st_interfaces st)) (\<lambda>_. xfree_str (st_locale st))))"

text \<open>The steps of the reload: the values, the index settings once, the interfaces, and the timers.\<close>

definition read_settings :: "setting_env \<Rightarrow> prop_state \<Rightarrow> slpd_settings \<Rightarrow> slpd_settings" where
  "read_settings env s st =
     (let ps = s_PropertyList s;
          dup = (\<lambda>name. SLPPropertyXDup (se_dup env name) name ps);
          max_ifaces = SLPPropertyAsInteger ''net.slp.max_ifaces'' ps
      in st\<lparr>st_useScopes := of_dup (dup ''net.slp.useScopes''),
            st_DAAddresses := of_dup (dup ''net.slp.DAAddresses''),
            st_interfaces := (case st_interfaces st of NullStr \<Rightarrow> NullStr | _ \<Rightarrow> Released),
            st_locale := of_dup (dup ''net.slp.locale''),
            st_isDA := SLPPropertyAsBoolean ''net.slp.isDA'' ps,
            st_activeDADetection := SLPPropertyAsBoolean ''net.slp.activeDADetection'' ps,
            st_DAActiveDiscoveryInterval := active_interval ps,
            st_passiveDADetection := SLPPropertyAsBoolean ''net.slp.passiveDADetection'' ps,
            st_staleDACheckPeriod := stale_period ps,
            st_isBroadcastOnly := SLPPropertyAsBoolean ''net.slp.isBroadcastOnly'' ps,
            st_multicastTTL := SLPPropertyAsInteger ''net.slp.multicastTTL'' ps,
            st_multicastMaximumWait := SLPPropertyAsInteger ''net.slp.multicastMaximumWait'' ps,
            st_unicastMaximumWait := SLPPropertyAsInteger ''net.slp.unicastMaximumWait'' ps,
            st_unicastTimeouts := snd (SLPPropertyAsIntegerVector ''net.slp.unicastTimeouts'' (st_unicastTimeouts st) ps),
            st_randomWaitBound := SLPPropertyAsInteger ''net.slp.randomWaitBound'' ps,
            st_maxResults := SLPPropertyAsInteger ''net.slp.maxResults'' ps,
            st_traceMsg := SLPPropertyAsBoolean ''net.slp.traceMsg'' ps,
            st_traceReg := SLPPropertyAsBoolean ''net.slp.traceReg'' ps,
            st_traceDrop := SLPPropertyAsBoolean ''net.slp.traceDrop'' ps,
            st_traceDATraffic := SLPPropertyAsBoolean ''net.slp.traceDATraffic'' ps,
            st_appendLog := SLPPropertyAsBoolean ''net.slp.appendLog'' ps,
            st_MTU := s_GlobalPropertyMTU s,
            st_securityEnabled := SLPPropertyAsBoolean ''net.slp.securityEnabled'' ps,
            st_checkSourceAddr := SLPPropertyAsBoolean ''net.slp.checkSourceAddr'' ps,
            st_DAHeartBeat := heartbeat ps,
            st_port := word_of_int (SLPPropertyAsInteger ''net.slp.port'' ps),
            st_useDHCP := SLPPropertyAsBoolean ''net.slp.useDHCP'' ps,
            st_max_ifaces := (if max_ifaces \<le> 0 then SLP_MAX_IFACES else max_ifaces)\<rparr>)"

definition index_settings :: "setting_env \<Rightarrow> prop_state \<Rightarrow> slpd_settings \<Rightarrow> slpd_settings" where
  "index_settings env s st =
     (if st_indexingPropertiesSet st then st
      else let ps = s_PropertyList s; name = ''net.slp.indexedAttributes''
           in st\<lparr>st_indexedAttributes := of_dup (SLPPropertyXDup (se_dup env name) name ps),
                 st_srvtypeIsIndexed := SLPPropertyAsBoolean ''net.slp.indexSrvtype'' ps,
                 st_indexingPropertiesSet := True\<rparr>)"

definition own_interfaces :: "setting_env \<Rightarrow> prop_state \<Rightarrow> slpd_settings \<Rightarrow> string option" where
  "own_interfaces env s st =
     (let ps = s_PropertyList s; name = ''net.slp.interfaces''
      in se_ifaces env (SLPPropertyXDup (se_dup env name) name ps) (iface_family ps) (st_max_ifaces st))"

definition reset_timers :: "setting_env \<Rightarrow> slpd_settings \<Rightarrow> slpd_settings" where
  "reset_timers env st =
     st\<lparr>st_urlPrefix := (if st_isDA st then ''service:directory-agent'' else ''service:service-agent'') @ ''://'',
        st_DATimestamp := word_of_int (se_time env), st_activeDiscoveryXmits := 3,
        st_nextActiveDiscovery := 0, st_nextPassiveDAAdvert := 0\<rparr>"

definition SLPDPropertyReinit :: "setting_env \<Rightarrow> slpd_settings \<times> prop_state \<Rightarrow> (slpd_settings \<times> prop_state) res" where
  "SLPDPropertyReinit env s0 =
     (let (st, s) = s0 in
      bindR (release_settings st) (\<lambda>_.
      bindR (SLPPropertyReinit (se_props env) s) (\<lambda>(_, s).
        let st1 = read_settings env s st;
            st2 = index_settings env s st1
        in Inr (case own_interfaces env s st1 of
             None \<Rightarrow> (reset_timers env st2, s)
           | Some a \<Rightarrow>
               (reset_timers env (st2\<lparr>st_interfaces := Str a\<rparr>),
                s\<lparr>s_PropertyList :=
                   snd (SLPPropertySet (pe_mem (se_props env) ''net.slp.interfaces'' a) ''net.slp.interfaces'' (Some a)
                     SLP_PA_USERSET (s_PropertyList s))\<rparr>)))))"

definition zero_settings :: slpd_settings where
  "zero_settings =
     \<lparr>st_useScopes = NullStr, st_DAAddresses = NullStr, st_interfaces = NullStr, st_locale = NullStr, st_isDA = False,
      st_activeDADetection = False, st_DAActiveDiscoveryInterval = 0, st_passiveDADetection = False, st_staleDACheckPeriod = 0,
      st_isBroadcastOnly = False, st_multicastTTL = 0, st_multicastMaximumWait = 0, st_unicastMaximumWait = 0,
      st_unicastTimeouts = replicate (nat MAX_RETRANSMITS) 0, st_randomWaitBound = 0, st_maxResults = 0, st_traceMsg = False,
      st_traceReg = False, st_traceDrop = False, st_traceDATraffic = False, st_appendLog = False, st_MTU = 0,
      st_securityEnabled = False, st_checkSourceAddr = False, st_DAHeartBeat = 0, st_port = 0, st_useDHCP = False,
      st_max_ifaces = 0, st_indexingPropertiesSet = False, st_indexedAttributes = NullStr, st_srvtypeIsIndexed = False,
      st_urlPrefix = [], st_DATimestamp = 0, st_activeDiscoveryXmits = 0, st_nextActiveDiscovery = 0, st_nextPassiveDAAdvert = 0\<rparr>"

definition SLPDPropertyInit :: "setting_env \<Rightarrow> string option \<Rightarrow> prop_state \<Rightarrow> (int \<times> slpd_settings \<times> prop_state) res" where
  "SLPDPropertyInit env conffile s =
     bindR (SLPPropertyInit (se_props env) conffile s) (\<lambda>(r, s).
       if r \<noteq> 0 then Inr (-1, zero_settings, s)
       else bindR (SLPDPropertyReinit env (zero_settings, s)) (\<lambda>(st, s). Inr (0, st, s)))"

definition SLPDPropertyDeinit :: "slpd_settings \<times> prop_state \<Rightarrow> prop_state res" where
  "SLPDPropertyDeinit s0 =
     (let (st, s) = s0 in
      bindR (release_settings st) (\<lambda>_. bindR (xfree_str (st_indexedAttributes st)) (\<lambda>_. Inr (SLPPropertyExit s))))"

section \<open>What the settings satisfy\<close>

lemma stale_period_least: "0 < stale_period ps \<Longrightarrow> 60 \<le> stale_period ps"
  by (auto simp: stale_period_def Let_def SLPD_HEARTBEATS_PER_CHECK_PERIOD_def SLPD_AGE_INTERVAL_def split: if_splits)

lemma heartbeat_bounds:
  "15 \<le> heartbeat ps" "0 < stale_period ps \<Longrightarrow> 3 * heartbeat ps \<le> stale_period ps"
proof -
  show "15 \<le> heartbeat ps" by (simp add: heartbeat_def Let_def SLPD_AGE_INTERVAL_def)
  assume p: "0 < stale_period ps"
  have s: "stale_period ps sdiv 3 = stale_period ps div 3" using p by (simp add: signed_divide_int_def)
  show "3 * heartbeat ps \<le> stale_period ps"
    using p stale_period_least[OF p]
    by (auto simp: heartbeat_def Let_def SLPD_AGE_INTERVAL_def SLPD_HEARTBEATS_PER_CHECK_PERIOD_def s)
qed

lemma settings_fields [simp]:
  "st_DAHeartBeat (read_settings env s st) = heartbeat (s_PropertyList s)"
  "st_staleDACheckPeriod (read_settings env s st) = stale_period (s_PropertyList s)"
  "st_interfaces (read_settings env s st) = (case st_interfaces st of NullStr \<Rightarrow> NullStr | _ \<Rightarrow> Released)"
  "st_DAHeartBeat (index_settings env s st) = st_DAHeartBeat st"
  "st_staleDACheckPeriod (index_settings env s st) = st_staleDACheckPeriod st"
  "st_interfaces (index_settings env s st) = st_interfaces st"
  "st_DAHeartBeat (reset_timers env st) = st_DAHeartBeat st"
  "st_staleDACheckPeriod (reset_timers env st) = st_staleDACheckPeriod st"
  "st_interfaces (reset_timers env st) = st_interfaces st"
  by (simp_all add: read_settings_def index_settings_def reset_timers_def Let_def)

lemma SLPDPropertyReinit_result:
  assumes "SLPDPropertyReinit env (st0, s0) = Inr (st, s)"
  shows "\<exists>ps. st_DAHeartBeat st = heartbeat ps \<and> st_staleDACheckPeriod st = stale_period ps"
    and "se_ifaces env = (\<lambda>_ _ _. None) \<Longrightarrow> st_interfaces st0 = Str a \<Longrightarrow> st_interfaces st = Released"
proof -
  obtain s1 where r: "(case own_interfaces env s1 (read_settings env s1 st0) of
             None \<Rightarrow> (reset_timers env (index_settings env s1 (read_settings env s1 st0)), s1)
           | Some a \<Rightarrow>
               (reset_timers env (index_settings env s1 (read_settings env s1 st0)\<lparr>st_interfaces := Str a\<rparr>),
                s1\<lparr>s_PropertyList :=
                   snd (SLPPropertySet (pe_mem (se_props env) ''net.slp.interfaces'' a) ''net.slp.interfaces'' (Some a)
                     SLP_PA_USERSET (s_PropertyList s1))\<rparr>)) = (st, s)"
    using assms by (auto simp only: SLPDPropertyReinit_def Let_def prod.case bindR_Inr_iff sum.inject)
  then have "st_DAHeartBeat st = heartbeat (s_PropertyList s1) \<and> st_staleDACheckPeriod st = stale_period (s_PropertyList s1)"
    by (cases "own_interfaces env s1 (read_settings env s1 st0)") auto
  then show "\<exists>ps. st_DAHeartBeat st = heartbeat ps \<and> st_staleDACheckPeriod st = stale_period ps" by blast
  assume n: "se_ifaces env = (\<lambda>_ _ _. None)" "st_interfaces st0 = Str a"
  then have "own_interfaces env s1 (read_settings env s1 st0) = None" by (simp add: own_interfaces_def Let_def)
  then show "st_interfaces st = Released" using r n by auto
qed


definition sample_setting_env :: "string option \<Rightarrow> setting_env" where
  "sample_setting_env ifs = \<lparr>se_props = sample_prop_env\<lparr>pe_files := [''slp.conf'' \<mapsto> ''net.slp.staleDACheckPeriod = 20'' @ [LF]]\<rparr>,
     se_dup = (\<lambda>_. True), se_time = 1000, se_ifaces = (\<lambda>_ _ _. ifs)\<rparr>"

definition conf_props :: prop_state where
  "conf_props = empty_props\<lparr>s_GlobalPropertyFile := ''slp.conf''\<rparr>"

lemma sample_settings:
  "\<exists>st s. SLPDPropertyReinit (sample_setting_env (Some ''10.0.0.1'')) (zero_settings, conf_props) = Inr (st, s)
     \<and> st_staleDACheckPeriod st = 60 \<and> st_DAHeartBeat st = 20 \<and> st_interfaces st = Str ''10.0.0.1''"
proof -
  have "(case SLPDPropertyReinit (sample_setting_env (Some ''10.0.0.1'')) (zero_settings, conf_props) of
      Inr (st, s) \<Rightarrow> st_staleDACheckPeriod st = 60 \<and> st_DAHeartBeat st = 20 \<and> st_interfaces st = Str ''10.0.0.1''
    | Inl e \<Rightarrow> False)" by code_simp
  then show ?thesis by (auto split: sum.splits)
qed


text \<open>
  When the interfaces cannot be found out while the configuration is read
  again, the settings keep the released list of interfaces, and the next reload
  or the end of the daemon releases it a second time.
\<close>

theorem reload_releases_twice:
  assumes "SLPDPropertyReinit env (st0, s0) = Inr (st, s)" "st_interfaces st0 = Str a" "se_ifaces env = (\<lambda>_ _ _. None)"
  shows "SLPDPropertyReinit env' (st, s) = Inl OutOfBounds \<and> SLPDPropertyDeinit (st, s) = Inl OutOfBounds"
proof -
  have "st_interfaces st = Released" using SLPDPropertyReinit_result(2)[OF assms(1,3,2)] .
  then have "release_settings st = Inl OutOfBounds"
    by (auto simp: release_settings_def xfree_str_def bindR_def split: str_ptr.splits sum.splits)
  then show ?thesis by (simp add: SLPDPropertyReinit_def SLPDPropertyDeinit_def)
qed

theorem reload_releases_twice_witness:
  "\<exists>st s. SLPDPropertyReinit (sample_setting_env None) (zero_settings\<lparr>st_interfaces := Str ''10.0.0.1''\<rparr>, conf_props) = Inr (st, s)
     \<and> SLPDPropertyDeinit (st, s) = Inl OutOfBounds"
proof -
  have "(case SLPDPropertyReinit (sample_setting_env None) (zero_settings\<lparr>st_interfaces := Str ''10.0.0.1''\<rparr>, conf_props) of
      Inr (st, s) \<Rightarrow> True | Inl e \<Rightarrow> False)" by code_simp
  then obtain st s where r: "SLPDPropertyReinit (sample_setting_env None) (zero_settings\<lparr>st_interfaces := Str ''10.0.0.1''\<rparr>, conf_props) = Inr (st, s)"
    by (auto split: sum.splits)
  show ?thesis
    using r reload_releases_twice[OF r, of "''10.0.0.1''"] by (auto simp: sample_setting_env_def)
qed

end
