(* ===== verification/SLPD_Process.thy ===== *)
theory SLPD_Process
  imports SLPD_KnownDA
begin

text \<open>
  The processing of messages, \<open>slpd/slpd_process.c\<close>: every function takes the
  parsed message, the memory its strings point into and the send buffer, and gives
  the error code, the send buffer and the new state of the daemon.  A null send
  buffer that is used is \<open>OutOfBounds\<close>, as is a write behind a buffer; \<open>None\<close> is a search
  in the database that has not ended with the given fuel.
\<close>

section \<open>Messages and their environment\<close>

type_synonym message = "sockaddr SLPMessage"

definition field :: "8 word list \<Rightarrow> wstr \<Rightarrow> string" where
  "field m s = chars_of (wbytes m s)"

definition bindO :: "'a res option \<Rightarrow> ('a \<Rightarrow> 'b res option) \<Rightarrow> 'b res option" where
  "bindO r f = (case r of None \<Rightarrow> None | Some (Inl e) \<Rightarrow> Some (Inl e) | Some (Inr x) \<Rightarrow> f x)"

lemma bindO_simps [simp]:
  "bindO (Some (Inr x)) f = f x" "bindO (Some (Inl e)) f = Some (Inl e)" "bindO None f = None"
  by (simp_all add: bindO_def)

lemma bindO_Inr_iff: "bindO r f = Some (Inr y) \<longleftrightarrow> (\<exists>x. r = Some (Inr x) \<and> f x = Some (Inr y))"
  by (auto simp: bindO_def split: option.splits sum.splits)

text \<open>
  What the environment decides while one message is processed: whether the copy of
  the receive buffer, the message, the arrays of its parse and the buffer of the
  reply can be allocated, what new memory holds, the buffers of a list of
  adverts, and the allocations and the fuel of the database.
\<close>

record proc_env =
  pe_dup :: bool
  pe_msg :: bool
  pe_mok :: "nat \<Rightarrow> bool"
  pe_junk :: "nat \<Rightarrow> 8 word"
  pe_reply :: bool
  pe_first :: bool
  pe_own :: bool
  pe_term :: bool
  pe_grow :: "nat \<Rightarrow> bool"
  pe_termgrow :: bool
  pe_fuel :: nat
  pe_open :: bool
  pe_open2 :: bool
  pe_ralloc :: "64 word \<Rightarrow> bool"
  pe_addr :: "nat \<Rightarrow> 64 word"
  pe_strjunk :: string
  pe_al :: allocations
  pe_ok :: bool
  pe_da :: da_env
  pe_echo_open :: bool
  pe_echo_dup :: "nat \<Rightarrow> bool"
  pe_have_outgoing :: "sockaddr \<Rightarrow> bool"

type_synonym reply = "(nat \<times> SLPBuffer option) res"

definition is_mcast :: "message \<Rightarrow> bool" where
  "is_mcast msg \<longleftrightarrow> hd_flags (msg_header msg) AND ucast SLP_FLAG_MCAST \<noteq> 0 \<or> SLPNetIsMCast (msg_peer msg)"

text \<open>\<open>result->end = result->start\<close>: nothing is sent.\<close>

definition set_empty :: "SLPBuffer option \<Rightarrow> SLPBuffer option res" where
  "set_empty sendbuf = (case sendbuf of None \<Rightarrow> Inl OutOfBounds | Some b \<Rightarrow> Inr (Some (b\<lparr>bend := 0\<rparr>)))"

definition langtag_of :: "8 word list \<Rightarrow> message \<Rightarrow> 8 word list" where
  "langtag_of m msg = wbytes m (hd_langtag (msg_header msg))"

text \<open>The part all replies share: enlarge the buffer, write the header and the body.\<close>

definition put_reply ::
  "proc_env \<Rightarrow> nat \<Rightarrow> nat \<Rightarrow> 64 word \<Rightarrow> 8 word list \<Rightarrow> message \<Rightarrow> unit parser \<Rightarrow> nat \<Rightarrow> SLPBuffer option \<Rightarrow> reply" where
  "put_reply env functionid sz flags m msg body errorcode sendbuf =
     (case SLPBufferRealloc (pe_reply env) (pe_junk env) sendbuf sz of
        None \<Rightarrow> Inr (SLP_ERROR_INTERNAL_ERROR, None)
      | Some result \<Rightarrow>
          bindR (bindP (put_v2_header functionid sz flags (ucast (hd_xid (msg_header msg))) (langtag_of m msg)) (\<lambda>_. body) result)
            (\<lambda>(_, result). Inr (errorcode, Some result)))"

section \<open>Service requests\<close>

text \<open>On failure the caller goes on with the buffer it had, which is still there.\<close>

definition ProcessSASrvRqst ::
  "SLPDConfig \<Rightarrow> proc_env \<Rightarrow> 8 word list \<Rightarrow> message \<Rightarrow> SLPSrvRqst \<Rightarrow> SLPBuffer option \<Rightarrow> nat \<Rightarrow> reply" where
  "ProcessSASrvRqst cfg env m msg rq sendbuf errorcode =
     (if wlen (rq_scopelist rq) = 0 \<or> SLPIntersectStringList (field m (rq_scopelist rq)) (useScopes cfg) \<noteq> 0 then
        (let addr = bytes_of (localaddr_str (msg_localaddr msg)); prefix = bytes_of (urlPrefix cfg);
             scopes = bytes_of (useScopes cfg);
             sz = length (langtag_of m msg) + 21 + length prefix + length addr + length scopes in
         put_reply env SLP_FUNCT_SAADVERT sz (overflow_flag cfg sz) m msg
           (bindP (slp_PutUINT16 (of_nat (length prefix + length addr))) (\<lambda>_.
            bindP (put_bytes prefix) (\<lambda>_.
            bindP (put_bytes addr) (\<lambda>_.
            bindP (slp_PutUINT16 (of_nat (length scopes))) (\<lambda>_.
            bindP (put_bytes scopes) (\<lambda>_.
            bindP (slp_PutUINT16 0) (\<lambda>_.
            put_bytes [0])))))))
           errorcode sendbuf)
      else Inr (SLP_ERROR_SCOPE_NOT_SUPPORTED, sendbuf))"

text \<open>\<open>tmplen\<close> bytes are to follow at \<open>curpos\<close>; enlarging the buffer keeps what it holds.\<close>

definition CheckAndResizeBuffer ::
  "bool \<Rightarrow> (nat \<Rightarrow> 8 word) \<Rightarrow> SLPBuffer \<Rightarrow> nat \<Rightarrow> nat \<Rightarrow> nat \<times> SLPBuffer option" where
  "CheckAndResizeBuffer ok junk sendbuf tmplen grow_size =
     (if bcur sendbuf + tmplen > allocated sendbuf then
        (case SLPBufferRealloc ok junk (Some sendbuf) (allocated sendbuf + max tmplen grow_size) of
           None \<Rightarrow> (SLP_ERROR_INTERNAL_ERROR, None)
         | Some b \<Rightarrow> (0, Some (b\<lparr>bcur := bcur sendbuf\<rparr>)))
      else (0, Some sendbuf))"

text \<open>The transaction id of the request goes into the stored advert, its flags are cleared.\<close>

definition fix_advert :: "16 word \<Rightarrow> 8 word list \<Rightarrow> 8 word list res" where
  "fix_advert xid buf =
     (if 12 \<le> length buf then
        (let x = TO_UINT16 (ucast xid); buf = buf[10 := x ! 0, 11 := x ! 1] in
         Inr (if buf ! 0 = 1 then buf[4 := 0] else buf[5 := 0, 6 := 0]))
      else Inl OutOfBounds)"

text \<open>The state of the loop is the error code, the send buffer and the list of agents.\<close>

fun advert_loop ::
  "proc_env \<Rightarrow> 16 word \<Rightarrow> known_da list \<Rightarrow> nat \<Rightarrow> SLPBuffer option \<Rightarrow> (nat \<times> SLPBuffer option \<times> known_da list) res" where
  "advert_loop env xid [] errorcode sendbuf = Inr (errorcode, sendbuf, [])"
| "advert_loop env xid (da # das) errorcode sendbuf =
     (case sendbuf of
        None \<Rightarrow> Inl OutOfBounds
      | Some b \<Rightarrow>
          (case CheckAndResizeBuffer (pe_grow env (length das)) (pe_junk env) b (length (k_buf da)) 4096 of
             (err, Some b) \<Rightarrow>
               bindR (fix_advert xid (k_buf da)) (\<lambda>buf.
               bindR (put_bytes buf b) (\<lambda>(_, b).
               bindR (advert_loop env xid das errorcode (Some b)) (\<lambda>(errorcode, sendbuf, das).
                 Inr (errorcode, sendbuf, da\<lparr>k_buf := buf\<rparr> # das))))
           | (err, None) \<Rightarrow>
               bindR (advert_loop env xid das SLP_ERROR_INTERNAL_ERROR None) (\<lambda>(errorcode, sendbuf, das).
                 Inr (errorcode, sendbuf, da # das))))"

definition loopback_addr :: "SLPDConfig \<Rightarrow> sockaddr" where
  "loopback_addr cfg = (if netIPv4 cfg then SLPNetSetAddr4 (Some 0x7f000001) else SLPNetSetAddr6 (Some 1))"

definition put_own_advert :: "SLPDConfig \<Rightarrow> proc_env \<Rightarrow> 16 word \<Rightarrow> SLPBuffer \<Rightarrow> SLPBuffer res" where
  "put_own_advert cfg env xid b =
     (if isDA cfg then
        bindR (SLPDKnownDAGenerateMyDAAdvert cfg (pe_own env) (pe_junk env) (loopback_addr cfg) 0 False False (ucast xid) None) (\<lambda>(err, tmp).
          (case tmp of
             Some t \<Rightarrow> (if err = 0 then bindR (put_bytes (buf_bytes t) b) (\<lambda>(_, b). Inr b) else Inr b)
           | None \<Rightarrow> Inr b))
      else Inr b)"

text \<open>The advert that ends the list carries an error code and nothing else, in a buffer of full size.\<close>

definition put_terminator ::
  "SLPDConfig \<Rightarrow> proc_env \<Rightarrow> message \<Rightarrow> nat \<Rightarrow> SLPBuffer option \<Rightarrow> reply" where
  "put_terminator cfg env msg errorcode sendbuf =
     bindR (SLPDKnownDAGenerateMyDAAdvert cfg (pe_term env) (pe_junk env) (msg_localaddr msg) SLP_ERROR_INTERNAL_ERROR False False
              (ucast (hd_xid (msg_header msg))) None) (\<lambda>(_, tmp).
       (case tmp of
          None \<Rightarrow> Inr (SLP_ERROR_INTERNAL_ERROR, sendbuf)
        | Some t \<Rightarrow>
            (case sendbuf of
               None \<Rightarrow> Inl OutOfBounds
             | Some b \<Rightarrow>
                 (case CheckAndResizeBuffer (pe_termgrow env) (pe_junk env) b (bend t) 4096 of
                    (_, Some b) \<Rightarrow> bindR (put_bytes (buf_bytes t) b) (\<lambda>(_, b). Inr (errorcode, Some (b\<lparr>bend := bcur b\<rparr>)))
                  | (_, None) \<Rightarrow> Inr (SLP_ERROR_INTERNAL_ERROR, None)))))"

definition ProcessDASrvRqst ::
  "SLPDConfig \<Rightarrow> proc_env \<Rightarrow> 8 word list \<Rightarrow> message \<Rightarrow> SLPSrvRqst \<Rightarrow> SLPBuffer option \<Rightarrow> nat \<Rightarrow> slpd
     \<Rightarrow> (nat \<times> SLPBuffer option \<times> slpd) res" where
  "ProcessDASrvRqst cfg env m msg rq sendbuf errorcode s =
     (let xid = hd_xid (msg_header msg) in
      if SLPNetIsLoopback (msg_peer msg) then
        (case SLPBufferRealloc (pe_first env) (pe_junk env) sendbuf 4096 of
           None \<Rightarrow> Inr (SLP_ERROR_INTERNAL_ERROR, None, s)
         | Some b \<Rightarrow>
             if errorcode \<noteq> 0 then Inr (errorcode, Some b, s)
             else
               bindR (put_own_advert cfg env xid b) (\<lambda>b.
               bindR (if de_open (pe_da env) then advert_loop env xid (known_das s) errorcode (Some b)
                      else Inr (errorcode, Some b, known_das s)) (\<lambda>(errorcode, sendbuf, das).
               bindR (put_terminator cfg env msg errorcode sendbuf) (\<lambda>(errorcode, sendbuf).
                 Inr (errorcode, sendbuf, s\<lparr>known_das := das\<rparr>)))))
      else
        (case SLPBufferRealloc (pe_first env) (pe_junk env) sendbuf (MTU cfg) of
           None \<Rightarrow> Inr (SLP_ERROR_INTERNAL_ERROR, None, s)
         | Some b \<Rightarrow>
             bindR
               (if isDA cfg then
                  (if wlen (rq_scopelist rq) = 0 \<or> SLPIntersectStringList (field m (rq_scopelist rq)) (useScopes cfg) \<noteq> 0
                   then SLPDKnownDAGenerateMyDAAdvert cfg (pe_own env) (pe_junk env) (msg_localaddr msg) errorcode False False
                          (ucast xid) (Some b)
                   else Inr (SLP_ERROR_SCOPE_NOT_SUPPORTED, Some b))
                else Inr (SLP_ERROR_MESSAGE_NOT_SUPPORTED, Some b)) (\<lambda>(errorcode, sendbuf).
             bindR (if errorcode \<noteq> 0 \<and> sendbuf \<noteq> None \<and> is_mcast msg then set_empty sendbuf else Inr sendbuf) (\<lambda>sendbuf.
               Inr (errorcode, sendbuf, s)))))"

text \<open>One URL of a reply: the lifetime goes into the stored entry, then the entry is copied.\<close>

definition put_url :: "nat \<Rightarrow> SLPDDatabase \<Rightarrow> SLPBuffer \<Rightarrow> (SLPDDatabase \<times> SLPBuffer) res" where
  "put_url p d result =
     (case map_of (db d) p of
        None \<Rightarrow> Inl OutOfBounds
      | Some e \<Rightarrow>
          (let reg = e_reg e; life = TO_UINT16 (word_of_int (r_lifetime reg)); at = r_opaque reg + 1 in
           if at + 1 < length (r_buf reg) then
             (let buf = (r_buf reg)[at := life ! 0, at + 1 := life ! 1]; reg = reg\<lparr>r_buf := buf\<rparr> in
              if r_opaque reg + r_opaquelen reg > length buf then Inl OutOfBounds
              else
                (let opaque = cslice buf (r_opaque reg) (r_opaquelen reg);
                     fixpos = 5 + length (r_url reg) in
                 bindR (put_bytes opaque result) (\<lambda>(_, b).
                 bindR (if r_authcount reg \<noteq> 0 then wrR (bmem b) (bcur result + fixpos) (of_nat (r_authcount reg))
                        else Inr (bmem b)) (\<lambda>mem.
                   Inr (d\<lparr>db := map (\<lambda>(q, e). if q = p then (q, e\<lparr>e_reg := reg\<rparr>) else (q, e)) (db d)\<rparr>, b\<lparr>bmem := mem\<rparr>)))))
           else Inl OutOfBounds))"

fun put_urls :: "nat list \<Rightarrow> SLPDDatabase \<Rightarrow> SLPBuffer \<Rightarrow> (SLPDDatabase \<times> SLPBuffer) res" where
  "put_urls [] d result = Inr (d, result)"
| "put_urls (p # ps) d result = bindR (put_url p d result) (\<lambda>(d, result). put_urls ps d result)"

text \<open>The size the reply is given for its URLs; \<open>None\<close> is an entry that is gone.\<close>

definition urls_size :: "SLPDDatabase \<Rightarrow> nat list \<Rightarrow> nat option" where
  "urls_size d urls =
     (if list_all (\<lambda>p. map_of (db d) p \<noteq> None) urls
      then Some (sum_list (map (\<lambda>p. length (r_url (e_reg (the (map_of (db d) p)))) + 6) urls))
      else None)"

definition srvrqst_respond ::
  "SLPDConfig \<Rightarrow> proc_env \<Rightarrow> 8 word list \<Rightarrow> message \<Rightarrow> nat list option \<Rightarrow> nat \<Rightarrow> SLPBuffer option \<Rightarrow> slpd
     \<Rightarrow> (nat \<times> SLPBuffer option \<times> slpd) res" where
  "srvrqst_respond cfg env m msg urls errorcode result s =
     (if (urls = None \<or> errorcode \<noteq> 0 \<or> urls = Some []) \<and> is_mcast msg
      then bindR (set_empty result) (\<lambda>result. Inr (errorcode, result, s))
      else
        (let found = (case urls of Some us \<Rightarrow> if errorcode = 0 then us else [] | None \<Rightarrow> []) in
         case urls_size (registrations s) found of
           None \<Rightarrow> Inl OutOfBounds
         | Some usize \<Rightarrow>
             (let sz = length (langtag_of m msg) + 18 + usize in
              case SLPBufferRealloc (pe_reply env) (pe_junk env) result sz of
                None \<Rightarrow> Inr (SLP_ERROR_INTERNAL_ERROR, None, s)
              | Some result \<Rightarrow>
                  bindR
                    (bindP (put_v2_header SLP_FUNCT_SRVRPLY sz (overflow_flag cfg sz) (ucast (hd_xid (msg_header msg))) (langtag_of m msg)) (\<lambda>_.
                     bindP (slp_PutUINT16 (of_nat errorcode)) (\<lambda>_.
                     slp_PutUINT16 (of_nat (length found)))) result) (\<lambda>(_, result).
                  bindR (put_urls found (registrations s) result) (\<lambda>(d, result).
                    Inr (errorcode, Some result, s\<lparr>registrations := d\<rparr>))))))"

definition ProcessSrvRqst ::
  "SLPDConfig \<Rightarrow> proc_env \<Rightarrow> 8 word list \<Rightarrow> message \<Rightarrow> SLPSrvRqst \<Rightarrow> SLPBuffer option \<Rightarrow> nat \<Rightarrow> slpd
     \<Rightarrow> (nat \<times> SLPBuffer option \<times> slpd) res option" where
  "ProcessSrvRqst cfg env m msg rq sendbuf errorcode s =
     (let respond = srvrqst_respond cfg env m msg in
      if errorcode \<noteq> 0 then Some (respond None errorcode sendbuf s)
      else if SLPIntersectStringList (field m (rq_prlist rq)) (interfaces cfg) \<noteq> 0
      then Some (bindR (set_empty sendbuf) (\<lambda>sendbuf. Inr (errorcode, sendbuf, s)))
      else if wlen (rq_spistr rq) \<noteq> 0 then Some (respond None SLP_ERROR_AUTHENTICATION_UNKNOWN sendbuf s)
      else if SLPCompareString (field m (rq_srvtype rq)) ''service:directory-agent'' = 0 then
        Some (bindR (ProcessDASrvRqst cfg env m msg rq sendbuf errorcode s) (\<lambda>(errorcode, sendbuf, s).
          if errorcode = 0 then Inr (errorcode, sendbuf, s) else respond None errorcode sendbuf s))
      else if SLPCompareString (field m (rq_srvtype rq)) ''service:service-agent'' = 0 then
        Some (bindR (ProcessSASrvRqst cfg env m msg rq sendbuf errorcode) (\<lambda>(errorcode, sendbuf').
          if errorcode = 0 then Inr (errorcode, sendbuf', s) else respond None errorcode sendbuf s))
      else if SLPIntersectStringList (field m (rq_scopelist rq)) (useScopes cfg) \<noteq> 0 then
        bindO (SLPDDatabaseSrvRqstStart (pe_fuel env) (db_prop cfg) (pe_open env) (pe_ralloc env) (pe_mok env) (pe_ok env) (pe_strjunk env)
                 \<lparr>q_srvtype = field m (rq_srvtype rq), q_scopelist = field m (rq_scopelist rq), q_predicate = field m (rq_predicate rq)\<rparr>
                 (registrations s))
          (\<lambda>(errorcode, urls, d). Some (respond urls errorcode sendbuf (s\<lparr>registrations := d\<rparr>)))
      else Some (respond None SLP_ERROR_SCOPE_NOT_SUPPORTED sendbuf s))"


section \<open>Registrations\<close>

text \<open>The registration as the database keeps it: its strings, and the copy of the receive buffer.\<close>

definition reg_of :: "8 word list \<Rightarrow> nat \<Rightarrow> message \<Rightarrow> SLPSrvReg \<Rightarrow> reg_msg" where
  "reg_of m e msg rg =
     \<lparr>r_peer = msg_peer msg, r_url = field m (ue_url (rg_urlentry rg)), r_lifetime = int (ue_lifetime (rg_urlentry rg)),
      r_srvtype = field m (rg_srvtype rg), r_scopelist = field m (rg_scopelist rg), r_attrlist = field m (rg_attrlist rg),
      r_pid = rg_pid rg,
      r_source = (if SLPNetIsLoopback (msg_peer msg) then SLP_REG_SOURCE_LOCAL else SLP_REG_SOURCE_REMOTE),
      r_langtag = langtag_of m msg, r_authcount = length (ue_autharray (rg_urlentry rg)),
      r_opaque = ue_opaque (rg_urlentry rg), r_opaquelen = ue_opaquelen (rg_urlentry rg), r_buf = take e m\<rparr>"

text \<open>The acknowledgement; a multicast message gets none.\<close>

definition srvack_respond ::
  "proc_env \<Rightarrow> 8 word list \<Rightarrow> message \<Rightarrow> nat \<Rightarrow> SLPBuffer option \<Rightarrow> reply" where
  "srvack_respond env m msg errorcode sendbuf =
     (if is_mcast msg then bindR (set_empty sendbuf) (\<lambda>sendbuf. Inr (errorcode, sendbuf))
      else put_reply env SLP_FUNCT_SRVACK (length (langtag_of m msg) + 16) 0 m msg (slp_PutUINT16 (of_nat errorcode)) errorcode sendbuf)"

definition ProcessSrvReg ::
  "SLPDConfig \<Rightarrow> proc_env \<Rightarrow> 8 word list \<Rightarrow> nat \<Rightarrow> message \<Rightarrow> SLPSrvReg \<Rightarrow> SLPBuffer option \<Rightarrow> nat \<Rightarrow> slpd
     \<Rightarrow> (nat \<times> SLPBuffer option \<times> slpd) res" where
  "ProcessSrvReg cfg env m e msg rg sendbuf errorcode s =
     bindR
       (if errorcode \<noteq> 0 \<or> is_mcast msg then Inr (errorcode, registrations s)
        else if SLPIntersectStringList (field m (rg_scopelist rg)) (useScopes cfg) \<noteq> 0
        then SLPDDatabaseReg (db_prop cfg) (pe_al env) (reg_of m e msg rg) (registrations s)
        else Inr (SLP_ERROR_SCOPE_NOT_SUPPORTED, registrations s)) (\<lambda>(errorcode, d).
     bindR (srvack_respond env m msg errorcode sendbuf) (\<lambda>(errorcode, sendbuf).
       Inr (errorcode, sendbuf, s\<lparr>registrations := d\<rparr>)))"

text \<open>Unlike a registration, a deregistration from a multicast address is carried out.\<close>

definition ProcessSrvDeReg ::
  "SLPDConfig \<Rightarrow> proc_env \<Rightarrow> 8 word list \<Rightarrow> message \<Rightarrow> SLPSrvDeReg \<Rightarrow> SLPBuffer option \<Rightarrow> nat \<Rightarrow> slpd
     \<Rightarrow> (nat \<times> SLPBuffer option \<times> slpd) res" where
  "ProcessSrvDeReg cfg env m msg dr sendbuf errorcode s =
     bindR
       (if errorcode \<noteq> 0 \<or> hd_flags (msg_header msg) AND ucast SLP_FLAG_MCAST \<noteq> 0 then Inr (errorcode, registrations s)
        else if SLPIntersectStringList (field m (dr_scopelist dr)) (useScopes cfg) \<noteq> 0
        then SLPDDatabaseDeReg (db_prop cfg) (pe_open env) (pe_open2 env) (al_iter (pe_al env))
               \<lparr>d_peer = msg_peer msg, d_scopelist = field m (dr_scopelist dr), d_url = field m (ue_url (dr_urlentry dr))\<rparr>
               (registrations s)
        else Inr (SLP_ERROR_SCOPE_NOT_SUPPORTED, registrations s)) (\<lambda>(errorcode, d).
     bindR (srvack_respond env m msg errorcode sendbuf) (\<lambda>(errorcode, sendbuf).
       Inr (errorcode, sendbuf, s\<lparr>registrations := d\<rparr>)))"

definition ProcessSrvAck :: "SLPBuffer option \<Rightarrow> reply" where
  "ProcessSrvAck sendbuf = bindR (set_empty sendbuf) (\<lambda>sendbuf. Inr (0, sendbuf))"

section \<open>Attribute and service type requests\<close>

text \<open>The memory behind a string, to the end of its buffer.\<close>

definition behind :: "8 word list \<Rightarrow> wstr \<Rightarrow> string" where
  "behind m w = (case wptr w of None \<Rightarrow> [] | Some p \<Rightarrow> chars_of (drop (p + wlen w) m))"

text \<open>
  \<open>attrlistlen\<close> is an \<open>int\<close>, converted to \<open>size_t\<close> where it is added; without
  an error the result must be there (\<open>db->attrlistlen\<close>).
\<close>

definition attrrqst_respond ::
  "SLPDConfig \<Rightarrow> proc_env \<Rightarrow> 8 word list \<Rightarrow> message \<Rightarrow> attrrqst_result option \<Rightarrow> nat \<Rightarrow> SLPBuffer option \<Rightarrow> reply" where
  "attrrqst_respond cfg env m msg result errorcode sendbuf =
     (if errorcode = 0 \<and> result = None then Inl OutOfBounds
      else
        (let len = (case result of None \<Rightarrow> 0 | Some r \<Rightarrow> ar_attrlistlen r);
             attrs = (case result of None \<Rightarrow> [] | Some r \<Rightarrow> (case ar_attrlist r of None \<Rightarrow> [] | Some a \<Rightarrow> bytes_of a)) in
         if (errorcode \<noteq> 0 \<or> len = 0) \<and> is_mcast msg then bindR (set_empty sendbuf) (\<lambda>sendbuf. Inr (errorcode, sendbuf))
         else if errorcode = 0 \<and> (len < 0 \<or> length attrs < nat len) then Inl OutOfBounds
         else
           (let sz = length (langtag_of m msg) + 19 + (if errorcode = 0 then nat len else 0) in
            put_reply env SLP_FUNCT_ATTRRPLY sz (overflow_flag cfg sz) m msg
              (bindP (slp_PutUINT16 (of_nat errorcode)) (\<lambda>_.
               if errorcode = 0 then
                 bindP (slp_PutUINT16 (of_int len)) (\<lambda>_.
                 bindP (put_bytes (take (nat len) attrs)) (\<lambda>_.
                 put_bytes [0]))
               else retP ()))
              errorcode sendbuf)))"

definition ProcessAttrRqst ::
  "SLPDConfig \<Rightarrow> proc_env \<Rightarrow> 8 word list \<Rightarrow> message \<Rightarrow> SLPAttrRqst \<Rightarrow> SLPBuffer option \<Rightarrow> nat \<Rightarrow> slpd \<Rightarrow> reply option" where
  "ProcessAttrRqst cfg env m msg rq sendbuf errorcode s =
     (let respond = attrrqst_respond cfg env m msg in
      if errorcode \<noteq> 0 then Some (respond None errorcode sendbuf)
      else if SLPIntersectStringList (field m (aq_prlist rq)) (interfaces cfg) \<noteq> 0
      then Some (bindR (set_empty sendbuf) (\<lambda>sendbuf. Inr (errorcode, sendbuf)))
      else if SLPIntersectStringList (field m (aq_scopelist rq)) (useScopes cfg) \<noteq> 0 then
        (if wlen (aq_spistr rq) \<noteq> 0 then Some (respond None SLP_ERROR_AUTHENTICATION_UNKNOWN sendbuf)
         else
           bindO (SLPDDatabaseAttrRqstStart (pe_fuel env) (db_prop cfg) (pe_open env) (pe_al env) (pe_ok env)
                    \<lparr>a_url = field m (aq_url rq), a_behind = behind m (aq_url rq), a_scopelist = field m (aq_scopelist rq),
                     a_taglist = field m (aq_taglist rq)\<rparr> (registrations s))
             (\<lambda>(errorcode, result). Some (respond result errorcode sendbuf)))
      else Some (respond None SLP_ERROR_SCOPE_NOT_SUPPORTED sendbuf))"

definition srvtyperqst_respond ::
  "SLPDConfig \<Rightarrow> proc_env \<Rightarrow> 8 word list \<Rightarrow> message \<Rightarrow> string option \<Rightarrow> nat \<Rightarrow> SLPBuffer option \<Rightarrow> reply" where
  "srvtyperqst_respond cfg env m msg result errorcode sendbuf =
     (if errorcode = 0 \<and> result = None then Inl OutOfBounds
      else
        (let types = (case result of None \<Rightarrow> [] | Some t \<Rightarrow> bytes_of t) in
         if (errorcode \<noteq> 0 \<or> types = []) \<and> is_mcast msg then bindR (set_empty sendbuf) (\<lambda>sendbuf. Inr (errorcode, sendbuf))
         else
           (let sz = length (langtag_of m msg) + 18 + (if errorcode = 0 then length types else 0) in
            put_reply env SLP_FUNCT_SRVTYPERPLY sz (overflow_flag cfg sz) m msg
              (bindP (slp_PutUINT16 (of_nat errorcode)) (\<lambda>_.
               if errorcode = 0 then bindP (slp_PutUINT16 (of_nat (length types))) (\<lambda>_. put_bytes types) else retP ()))
              errorcode sendbuf)))"

definition ProcessSrvTypeRqst ::
  "SLPDConfig \<Rightarrow> proc_env \<Rightarrow> 8 word list \<Rightarrow> message \<Rightarrow> SLPSrvTypeRqst \<Rightarrow> SLPBuffer option \<Rightarrow> nat \<Rightarrow> slpd
     \<Rightarrow> (nat \<times> SLPBuffer option \<times> slpd) res option" where
  "ProcessSrvTypeRqst cfg env m msg rq sendbuf errorcode s =
     (let respond = (\<lambda>result errorcode s. bindR (srvtyperqst_respond cfg env m msg result errorcode sendbuf)
            (\<lambda>(errorcode, sendbuf). Inr (errorcode, sendbuf, s))) in
      if errorcode \<noteq> 0 then Some (respond None errorcode s)
      else if SLPIntersectStringList (field m (tq_prlist rq)) (interfaces cfg) \<noteq> 0
      then Some (bindR (set_empty sendbuf) (\<lambda>sendbuf. Inr (errorcode, sendbuf, s)))
      else if SLPIntersectStringList (field m (tq_scopelist rq)) (useScopes cfg) \<noteq> 0 then
        bindO (SLPDDatabaseSrvTypeRqstStart (pe_fuel env) (pe_open env) (pe_ralloc env) (pe_addr env)
                 \<lparr>t_namingauthlen = wlen (tq_namingauth rq), t_namingauth = field m (tq_namingauth rq),
                  t_scopelist = field m (tq_scopelist rq)\<rparr> (registrations s))
          (\<lambda>(errorcode, types, d). Some (respond types errorcode (s\<lparr>registrations := d\<rparr>)))
      else Some (respond None SLP_ERROR_SCOPE_NOT_SUPPORTED s))"

section \<open>Advertisements\<close>

definition da_of :: "8 word list \<Rightarrow> nat \<Rightarrow> message \<Rightarrow> SLPDAAdvert \<Rightarrow> known_da" where
  "da_of m e msg da =
     \<lparr>k_peer = msg_peer msg, k_bootstamp = da_bootstamp da, k_url = field m (da_url da), k_scopelist = field m (da_scopelist da),
      k_buf = take e m, k_stale = 0\<rparr>"

definition ProcessDAAdvert ::
  "SLPDConfig \<Rightarrow> proc_env \<Rightarrow> 8 word list \<Rightarrow> nat \<Rightarrow> message \<Rightarrow> SLPDAAdvert \<Rightarrow> SLPBuffer option \<Rightarrow> nat \<Rightarrow> slpd
     \<Rightarrow> (nat \<times> SLPBuffer option \<times> slpd) res" where
  "ProcessDAAdvert cfg env m e msg da sendbuf errorcode s =
     (let xid = hd_xid (msg_header msg);
          ignored = (errorcode \<noteq> 0
            \<or> \<not> passiveDADetection cfg \<and> xid = 0 \<and> \<not> pe_have_outgoing env (msg_peer msg)
            \<or> DAActiveDiscoveryInterval cfg = 0 \<and> xid \<noteq> 0);
          (errorcode, s) = (if \<not> ignored \<and> da_errorcode da = SLP_ERROR_OK
                            then SLPDKnownDAAdd cfg (pe_da env) (da_of m e msg da) s else (errorcode, s)) in
      bindR (set_empty sendbuf) (\<lambda>sendbuf. Inr (errorcode, sendbuf, s)))"

definition ProcessSAAdvert :: "SLPBuffer option \<Rightarrow> nat \<Rightarrow> reply" where
  "ProcessSAAdvert sendbuf errorcode = bindR (set_empty sendbuf) (\<lambda>sendbuf. Inr (errorcode, sendbuf))"

section \<open>All messages\<close>

text \<open>A reply that does not change the state.\<close>

definition with_state :: "slpd \<Rightarrow> reply \<Rightarrow> (nat \<times> SLPBuffer option \<times> slpd) res" where
  "with_state s r = bindR r (\<lambda>(errorcode, sendbuf). Inr (errorcode, sendbuf, s))"

definition echo_message :: "SLPDConfig \<Rightarrow> proc_env \<Rightarrow> 8 word list \<Rightarrow> nat \<Rightarrow> message \<Rightarrow> string \<Rightarrow> slpd \<Rightarrow> slpd" where
  "echo_message cfg env m e msg scopes s =
     SLPDKnownDAEcho cfg (pe_echo_open env) (de_connect (pe_da env)) (pe_echo_dup env) (msg_peer msg)
       (hd_functionid (msg_header msg)) scopes (take e m) s"

text \<open>The switch on the function id; \<open>m\<close> and \<open>e\<close> are the memory and the end of the parsed buffer.\<close>

definition process_message ::
  "SLPDConfig \<Rightarrow> proc_env \<Rightarrow> 8 word list \<Rightarrow> nat \<Rightarrow> message \<Rightarrow> SLPBuffer option \<Rightarrow> slpd
     \<Rightarrow> (nat \<times> SLPBuffer option \<times> slpd) res option" where
  "process_message cfg env m e msg sendbuf s =
     (case msg_body msg of
        SrvRqst rq \<Rightarrow> ProcessSrvRqst cfg env m msg rq sendbuf 0 s
      | SrvReg rg \<Rightarrow>
          Some (bindR (ProcessSrvReg cfg env m e msg rg sendbuf 0 s) (\<lambda>(errorcode, sendbuf, s).
            Inr (errorcode, sendbuf, if errorcode = 0 then echo_message cfg env m e msg (field m (rg_scopelist rg)) s else s)))
      | SrvDeReg dr \<Rightarrow>
          Some (bindR (ProcessSrvDeReg cfg env m msg dr sendbuf 0 s) (\<lambda>(errorcode, sendbuf, s).
            Inr (errorcode, sendbuf, if errorcode = 0 then echo_message cfg env m e msg (field m (dr_scopelist dr)) s else s)))
      | SrvAck _ \<Rightarrow> Some (with_state s (ProcessSrvAck sendbuf))
      | AttrRqst rq \<Rightarrow> map_option (with_state s) (ProcessAttrRqst cfg env m msg rq sendbuf 0 s)
      | DAAdvert da \<Rightarrow> Some (ProcessDAAdvert cfg env m e msg da sendbuf 0 s)
      | SrvTypeRqst rq \<Rightarrow> ProcessSrvTypeRqst cfg env m msg rq sendbuf 0 s
      | SAAdvert _ \<Rightarrow> Some (with_state s (ProcessSAAdvert sendbuf 0))
      | _ \<Rightarrow> Some (Inr (SLP_ERROR_PARSE_ERROR, sendbuf, s)))"

text \<open>Requests that wait for this answer are taken off the list.\<close>

fun prune_sendlist :: "16 word \<Rightarrow> SLPBuffer list \<Rightarrow> SLPBuffer list res" where
  "prune_sendlist xid [] = Inr []"
| "prune_sendlist xid (b # bs) =
     (case SLPMessageParseHeader b of
        Inl OutOfBounds \<Rightarrow> Inl OutOfBounds
      | Inl (SlpError _) \<Rightarrow> bindR (prune_sendlist xid bs) (\<lambda>bs. Inr (b\<lparr>bcur := 0\<rparr> # bs))
      | Inr (h, _) \<Rightarrow>
          (if hd_xid h = xid then prune_sendlist xid bs
           else bindR (prune_sendlist xid bs) (\<lambda>bs. Inr (b\<lparr>bcur := 0\<rparr> # bs))))"

definition no_message :: message where
  "no_message =
     \<lparr>msg_peer = AF_UNSPEC, msg_localaddr = AF_UNSPEC,
      msg_header = \<lparr>hd_version = 0, hd_functionid = 0, hd_length = 0, hd_flags = 0, hd_encoding = 0, hd_extoffset = 0,
                    hd_xid = 0, hd_langtag = null_wstr\<rparr>,
      msg_body = NoBody\<rparr>"

text \<open>
  The result: the error code, the send buffer, the list of requests, whether the
  message and the copy of its buffer have been freed, and the state.
\<close>

definition SLPDProcessMessage ::
  "SLPDConfig \<Rightarrow> proc_env \<Rightarrow> sockaddr \<Rightarrow> sockaddr \<Rightarrow> SLPBuffer \<Rightarrow> SLPBuffer option \<Rightarrow> SLPBuffer list option \<Rightarrow> slpd
     \<Rightarrow> (nat \<times> SLPBuffer option \<times> SLPBuffer list option \<times> bool \<times> slpd) res option" where
  "SLPDProcessMessage cfg env peerinfo localaddr recvbuf sendbuf sendlist s =
     (let sendbuf = map_option (\<lambda>b. b\<lparr>bend := 0\<rparr>) sendbuf;
          recvbuf = recvbuf\<lparr>bcur := 0\<rparr> in
      case SLPMessageParseHeader recvbuf of
        Inl OutOfBounds \<Rightarrow> Some (Inl OutOfBounds)
      | Inl (SlpError errorcode) \<Rightarrow> Some (Inr (errorcode, sendbuf, sendlist, False, s))
      | Inr (header, _) \<Rightarrow>
          (let kept = (hd_functionid header = SLP_FUNCT_SRVREG \<or> hd_functionid header = SLP_FUNCT_DAADVERT) in
           case (if kept then SLPBufferDup (pe_dup env) (pe_junk env) (Some recvbuf) else Some recvbuf) of
             None \<Rightarrow> Some (Inr (SLP_ERROR_INTERNAL_ERROR, sendbuf, sendlist, False, s))
           | Some recvbuf \<Rightarrow>
               if \<not> pe_msg env then Some (Inr (SLP_ERROR_INTERNAL_ERROR, sendbuf, sendlist, False, s))
               else
                 bindO
                   (case SLPMessageParseBuffer (pe_mok env) (Some peerinfo) (Some localaddr) no_message recvbuf of
                      Inl OutOfBounds \<Rightarrow> Some (Inl OutOfBounds)
                    | Inl (SlpError errorcode) \<Rightarrow> Some (Inr (errorcode, sendbuf, s))
                    | Inr (msg, b) \<Rightarrow> process_message cfg env (bmem b) (bend b) msg sendbuf s)
                   (\<lambda>(errorcode, sendbuf, s).
                     Some (bindR
                       (case sendlist of None \<Rightarrow> Inr None
                        | Some l \<Rightarrow> bindR (prune_sendlist (hd_xid header) l) (\<lambda>l. Inr (Some l)))
                       (\<lambda>sendlist. Inr (errorcode, sendbuf, sendlist, \<not> (kept \<and> errorcode = 0), s))))))"

section \<open>Multicast\<close>

definition nothing_sent :: "SLPBuffer option \<Rightarrow> bool" where
  "nothing_sent sendbuf \<longleftrightarrow> (case sendbuf of None \<Rightarrow> True | Some b \<Rightarrow> bend b = 0)"

lemma set_empty_nothing: "set_empty sendbuf = Inr sendbuf' \<Longrightarrow> nothing_sent sendbuf'"
  by (auto simp: set_empty_def nothing_sent_def split: option.splits)

lemma put_reply_error: "put_reply env fid sz fl m msg body 0 sendbuf = Inr (err, sendbuf') \<Longrightarrow> err = 0 \<or> nothing_sent sendbuf'"
  by (auto simp: put_reply_def nothing_sent_def res_iff split: option.splits prod.splits)

lemma srvrqst_respond_mcast:
  assumes "srvrqst_respond cfg env m msg urls errorcode sendbuf s = Inr (err, sendbuf', s')" "is_mcast msg"
  shows "nothing_sent sendbuf' \<or> err = 0 \<and> (\<exists>p ps. urls = Some (p # ps))"
proof (cases "urls = None \<or> errorcode \<noteq> 0 \<or> urls = Some []")
  case True
  then show ?thesis using assms set_empty_nothing by (auto simp: srvrqst_respond_def res_iff)
next
  case False
  then obtain p ps where "urls = Some (p # ps)" "errorcode = 0" by (cases urls; cases "the urls") auto
  then show ?thesis using assms
    by (auto simp: srvrqst_respond_def Let_def res_iff nothing_sent_def split: option.splits prod.splits)
qed

text \<open>What is sent in answer to a multicast message: an advertisement, or a reply that has something in it.\<close>

lemma ProcessSrvRqst_mcast:
  assumes "ProcessSrvRqst cfg env m msg rq sendbuf 0 s = Some (Inr (err, sendbuf', s'))" "is_mcast msg"
  shows "nothing_sent sendbuf' \<or> err = 0"
proof -
  note quiet = srvrqst_respond_mcast[OF _ assms(2)] set_empty_nothing
  show ?thesis
  proof (cases "SLPIntersectStringList (field m (rq_prlist rq)) (interfaces cfg) \<noteq> 0 \<or> wlen (rq_spistr rq) \<noteq> 0")
    case True
    then have "(\<exists>b. set_empty b = Inr sendbuf') \<or> srvrqst_respond cfg env m msg None SLP_ERROR_AUTHENTICATION_UNKNOWN sendbuf s = Inr (err, sendbuf', s')"
      using assms(1) by (auto simp: ProcessSrvRqst_def Let_def res_iff split: if_splits)
    then show ?thesis using quiet(1)[of cfg env m None] set_empty_nothing by auto
  next
    case False
    then show ?thesis using assms
      by (auto simp: ProcessSrvRqst_def Let_def res_iff bindO_Inr_iff split: if_splits prod.splits dest!: quiet)
  qed
qed


section \<open>A registration from the client library to the database\<close>

lemma ParseBuffer_header:
  assumes "SLPv2MessageParseBuffer mok b = Inr ((h, body), b')"
  obtains b1 where "SLPv2MessageParseHeader b = Inr (h, b1)"
  using assms by (auto simp: SLPv2MessageParseBuffer_def bindP_def retP_def bindR_Inr_iff split: prod.splits)

lemma bindP_Inr: "bindP p f b = Inr y \<longleftrightarrow> (\<exists>x b1. p b = Inr (x, b1) \<and> f x b1 = Inr y)"
  by (auto simp: bindP_def bindR_Inr_iff)

lemma header_version:
  assumes "SLPv2MessageParseHeader b = Inr (h, b1)" "hd_version h = 2"
  shows "bcur b < length (bmem b)" "bmem b ! bcur b = 2"
proof -
  obtain v b2 where v: "GetByte b = Inr (v, b2)" "hd_version h = unat v"
    using assms(1) unfolding SLPv2MessageParseHeader_def bindR_Inr_iff bindP_Inr
    by (elim exE conjE) (auto simp: failP_def retP_def split: if_splits)
  then show "bcur b < length (bmem b)" by (simp add: GetByte_def bindR_Inr_iff rdR_Inr_iff)
  have "unat (bmem b ! bcur b) = unat (2 :: 8 word)" using v assms(2) by (simp add: GetByte_def bindR_Inr_iff rdR_Inr_iff)
  then show "bmem b ! bcur b = 2" using word_unat_eq_iff by blast
qed

text \<open>
  A message that is parsed, both where it was received and in its copy, is
  processed; the header of the first parse decides about the copy.
\<close>

lemma SLPDProcessMessage_parsed:
  assumes ok: "buffer_ok recvbuf" "pe_dup env" "pe_msg env"
    and reads: "\<forall>b extra. bmem b = take (bend recvbuf) (bmem recvbuf) @ extra \<and> bend b = bend recvbuf \<and> bcur b = 0 \<longrightarrow>
      (\<exists>h body b'. SLPv2MessageParseBuffer (pe_mok env) b = Inr ((h, body), b') \<and> hd_version h = 2 \<and> hd_functionid h = fid \<and> P b h body b')"
    and kept: "kept \<longleftrightarrow> fid = SLP_FUNCT_SRVREG \<or> fid = SLP_FUNCT_DAADVERT"
  obtains b extra h body b' where "bmem b = take (bend recvbuf) (bmem recvbuf) @ extra" "bend b = bend recvbuf" "bcur b = 0" "P b h body b'"
    "hd_functionid h = fid"
    "SLPDProcessMessage cfg env peer localaddr recvbuf sendbuf None s =
       bindO (process_message cfg env (bmem b') (bend b') \<lparr>msg_peer = peer, msg_localaddr = localaddr, msg_header = h, msg_body = body\<rparr>
                (map_option (\<lambda>b. b\<lparr>bend := 0\<rparr>) sendbuf) s)
         (\<lambda>(err, sendbuf, s). Some (Inr (err, sendbuf, None, \<not> (kept \<and> err = 0), s)))"
proof -
  let ?r = "recvbuf\<lparr>bcur := 0\<rparr>"
  have r: "bmem ?r = take (bend recvbuf) (bmem recvbuf) @ drop (bend recvbuf) (bmem recvbuf)" "bend ?r = bend recvbuf" "bcur ?r = 0" by simp_all
  obtain h0 body0 b0 where p0: "SLPv2MessageParseBuffer (pe_mok env) ?r = Inr ((h0, body0), b0)" "hd_version h0 = 2" "hd_functionid h0 = fid"
    using reads r by blast
  obtain b1 where h0: "SLPv2MessageParseHeader ?r = Inr (h0, b1)" using ParseBuffer_header[OF p0(1)] .
  have hd: "SLPMessageParseHeader ?r = Inr (h0, b1)"
    using header_version[OF h0 p0(2)] h0 by (simp add: SLPMessageParseHeader_def rdR_def)
  obtain d where d: "SLPBufferDup True (pe_junk env) (Some ?r) = Some d"
    by (simp add: SLPBufferDup_def SLPBufferAlloc_def)
  let ?b = "if kept then d else ?r"
  have dk: "bend d = bend recvbuf" "bmem d = take (bend recvbuf + 1) (bmem recvbuf)" "bcur d = 0"
    using SLPBufferDup_key[of ?r True "pe_junk env" d] ok(1) d by (auto simp: buffer_ok_def SLPBufferDup_def SLPBufferAlloc_def)
  have "\<exists>extra. bmem ?b = take (bend recvbuf) (bmem recvbuf) @ extra"
  proof (cases kept)
    case True
    then show ?thesis using dk(2) take_add[of "bend recvbuf" 1 "bmem recvbuf"] by auto
  next
    case False
    then show ?thesis by (intro exI[of _ "drop (bend recvbuf) (bmem recvbuf)"]) simp
  qed
  then obtain extra where b: "bmem ?b = take (bend recvbuf) (bmem recvbuf) @ extra" "bend ?b = bend recvbuf" "bcur ?b = 0"
    using dk by auto
  obtain h body b' where p: "SLPv2MessageParseBuffer (pe_mok env) ?b = Inr ((h, body), b')" "hd_version h = 2" "hd_functionid h = fid" "P ?b h body b'"
    using reads b by blast
  obtain b2 where h: "SLPv2MessageParseHeader ?b = Inr (h, b2)" using ParseBuffer_header[OF p(1)] .
  have b0: "?b\<lparr>bcur := 0\<rparr> = ?b" using b(3) by simp
  have msg: "SLPMessageParseBuffer (pe_mok env) (Some peer) (Some localaddr) no_message ?b
      = Inr (\<lparr>msg_peer = peer, msg_localaddr = localaddr, msg_header = h, msg_body = body\<rparr>, b')"
    using header_version[OF h p(2)] p(1) b(3)
    by (simp add: SLPMessageParseBuffer_def Let_def b0 rdR_def bindP_def retP_def no_message_def SLPMessageFreeInternals_def)
  have dup: "(if kept then SLPBufferDup (pe_dup env) (pe_junk env) (Some ?r) else Some ?r) = Some ?b"
    using d ok(2) by simp
  have "SLPDProcessMessage cfg env peer localaddr recvbuf sendbuf None s =
       bindO (process_message cfg env (bmem b') (bend b') \<lparr>msg_peer = peer, msg_localaddr = localaddr, msg_header = h, msg_body = body\<rparr>
                (map_option (\<lambda>b. b\<lparr>bend := 0\<rparr>) sendbuf) s)
         (\<lambda>(err, sendbuf, s). Some (Inr (err, sendbuf, None, \<not> (kept \<and> err = 0), s)))"
    unfolding SLPDProcessMessage_def Let_def hd sum.case prod.case p0(3) kept[symmetric] dup option.case msg
    using ok(3) by simp
  then show ?thesis using that[OF b p(4,3)] by blast
qed


lemma echo_loop_all:
  "echo_loop cfg con (\<lambda>_. True) scope buf das s = s\<lparr>outbox := outbox s @
     map (\<lambda>da. (k_peer da, buf)) (filter (\<lambda>da. SLPIntersectStringList scope (k_scopelist da) \<noteq> 0
       \<and> \<not> (isDA cfg \<and> SLPIntersectStringList (ifaceurls cfg) (k_url da) > 0) \<and> con (k_peer da)) das)\<rparr>"
  by (induction das arbitrary: s) (auto simp: send_to_def)

lemma Realloc_bend [simp]:
  "SLPBufferRealloc ok junk (Some (b\<lparr>bend := x\<rparr>)) sz = SLPBufferRealloc ok junk (Some b) sz"
  by (simp add: SLPBufferRealloc_def)

text \<open>A reply whose body fills the size that was computed for it.\<close>

lemma put_reply_written:
  assumes ok: "\<And>b0. sendbuf = Some b0 \<Longrightarrow> buffer_ok b0" and "pe_reply env" "body = put_bytes bs" "sz = 14 + length (langtag_of m msg) + length bs"
  obtains out where "put_reply env fid sz fl m msg body err sendbuf = Inr (err, Some out)" "buffer_ok out" "bend out = sz" "bcur out = sz"
    "buf_bytes out = enc_header fid sz fl (ucast (hd_xid (msg_header msg))) (langtag_of m msg) @ bs"
proof -
  let ?msg = "enc_header fid sz fl (ucast (hd_xid (msg_header msg))) (langtag_of m msg) @ bs"
  obtain b where b: "SLPBufferRealloc True (pe_junk env) sendbuf sz = Some b"
    using SLPBufferRealloc_True by blast
  have len: "length ?msg = sz" using assms(4) by simp
  obtain out where out: "put_bytes ?msg b = Inr ((), out)" "buffer_ok out" "bend out = sz" "bcur out = sz" "buf_bytes out = ?msg"
    by (rule message_filled[OF b ok len])
  have "put_reply env fid sz fl m msg body err sendbuf = Inr (err, Some out)"
    using b out(1) assms(2) by (simp add: put_reply_def put_v2_header_bytes assms(3) put_norm)
  then show ?thesis using out that by blast
qed

text \<open>An acknowledgement, as the parser reads it.\<close>

lemma ack_read:
  assumes "bmem b = enc_header SLP_FUNCT_SRVACK (16 + length lang) 0 (ucast (xid :: 16 word)) lang @ TO_UINT16 (of_nat err) @ extra"
    and "bend b = 16 + length lang" "bcur b = 0" "2 \<le> length lang" "length lang < 65536" "err < 65536"
  shows "\<exists>h b'. SLPv2MessageParseBuffer mok b = Inr ((h, SrvAck \<lparr>ak_errorcode = err\<rparr>), b')
    \<and> hd_version h = 2 \<and> hd_functionid h = SLP_FUNCT_SRVACK \<and> hd_xid h = xid"
proof -
  let ?b1 = "b\<lparr>bcur := 14 + length lang\<rparr>"
  have c: "18 \<le> 16 + length lang" "16 + length lang < 2 ^ 24" "1 \<le> SLP_FUNCT_SRVACK" "SLP_FUNCT_SRVACK \<le> 11" "14 + length lang \<le> 16 + length lang"
    using assms(4,5) by (simp_all add: funct_defs)
  obtain h where h: "SLPv2MessageParseHeader b = Inr (h, ?b1)" "hd_version h = 2" "hd_functionid h = SLP_FUNCT_SRVACK"
    "hd_xid h = ucast (ucast xid :: 64 word)" "hd_extoffset h = 0" "inp ?b1 = TO_UINT16 (of_nat err) @ extra"
    by (rule enc_header_read[OF assms(1,2,3) c(1-4) assms(5) c(5)]) simp_all
  have "unat (ucast (of_nat err :: 64 word) :: 16 word) = err" using assms(6) by (simp add: unat_ucast16)
  then have "v2ParseSrvAck ?b1 = Inr (\<lparr>ak_errorcode = err\<rparr>, ?b1\<lparr>bcur := bcur ?b1 + 2\<rparr>)"
    using get16_inp[OF h(6), of "\<lambda>e. retP \<lparr>ak_errorcode = unat e\<rparr>"] assms(2) by (simp add: v2ParseSrvAck_def retP_def)
  then have "parse_body mok (hd_functionid h) ?b1 = Inr (SrvAck \<lparr>ak_errorcode = err\<rparr>, ?b1\<lparr>bcur := bcur ?b1 + 2\<rparr>)"
    using h(3) by (simp add: parse_body_def mapP_def bindP_def retP_def funct_defs)
  from message_parsed[OF h(1) this h(5)] h(2-4) show ?thesis by auto
qed


lemma loopback_not_mcast: "SLPNetIsLoopback a \<Longrightarrow> \<not> SLPNetIsMCast a"
  by (auto simp: SLPNetIsLoopback_def SLPNetIsMCast_def IN6_IS_ADDR_MULTICAST_def split: sockaddr.splits)

lemma loopback_local: "SLPNetIsLoopback a \<Longrightarrow> SLPNetIsLocal a"
  by (auto simp: SLPNetIsLoopback_def SLPNetIsLocal_def split: sockaddr.splits)

text \<open>The environment in which nothing fails that a registration needs.\<close>

definition reg_env_ok :: "proc_env \<Rightarrow> nat \<Rightarrow> bool" where
  "reg_env_ok env p \<longleftrightarrow> pe_dup env \<and> pe_msg env \<and> pe_reply env \<and> pe_echo_open env \<and> pe_echo_dup env = (\<lambda>_. True)
     \<and> al_open (pe_al env) \<and> al_srvtype (pe_al env) \<and> al_index (pe_al env) \<and> al_iter (pe_al env) \<and> al_entry (pe_al env) = Some p"

text \<open>The agents a registration or deregistration in the given scopes is passed on to.\<close>

definition echo_targets :: "SLPDConfig \<Rightarrow> proc_env \<Rightarrow> string \<Rightarrow> slpd \<Rightarrow> known_da list" where
  "echo_targets cfg env scopes s =
     filter (\<lambda>da. SLPIntersectStringList scopes (k_scopelist da) \<noteq> 0
       \<and> \<not> (isDA cfg \<and> SLPIntersectStringList (ifaceurls cfg) (k_url da) > 0) \<and> de_connect (pe_da env) (k_peer da)) (known_das s)"

text \<open>
  A registration that the client library builds is received: what the message
  holds that is processed, with the memory \<open>m\<close> its strings point into.
\<close>

lemma registration_received:
  assumes len: "length url < 65536" "length ty < 65536" "length sc < 65536" "length al < 65536" "length lang < 65536"
      "14 + length lang + length body < 2 ^ 24"
    and client: "ProcessSrvReg_body junk watch pid life url ty sc al [] [] = Inr (body, extoffset)"
      "request_buffer True junk2 None SLP_FUNCT_SRVREG False extoffset xid lang prl body = Inr (Some out)"
    and recv: "buf_bytes recvbuf = buf_bytes out" "bend recvbuf = bend out" "buffer_ok recvbuf"
    and env: "pe_dup env" "pe_msg env" "SLPNetIsLoopback peer"
  obtains m h r msg where
    "msg = \<lparr>msg_peer = peer, msg_localaddr = localaddr, msg_header = h, msg_body = SrvReg r\<rparr>"
    "hd_functionid h = SLP_FUNCT_SRVREG" "hd_xid h = ucast xid" "\<not> is_mcast msg" "langtag_of m msg = lang"
    "field m (rg_scopelist r) = chars_of sc" "take (bend recvbuf) m = buf_bytes recvbuf"
    "reg_of m (bend recvbuf) msg r =
       \<lparr>r_peer = peer, r_url = chars_of url, r_lifetime = int (unat life), r_srvtype = chars_of ty, r_scopelist = chars_of sc,
        r_attrlist = chars_of al, r_pid = (if watch then pid else 0), r_source = SLP_REG_SOURCE_LOCAL, r_langtag = lang,
        r_authcount = 0, r_opaque = 14 + length lang, r_opaquelen = 6 + length url, r_buf = buf_bytes recvbuf\<rparr>"
    "cslice (buf_bytes recvbuf) (14 + length lang) (6 + length url) = encUrl life url []"
    "SLPDProcessMessage cfg env peer localaddr recvbuf sendbuf None s =
       bindO (process_message cfg env m (bend recvbuf) msg (map_option (\<lambda>b. b\<lparr>bend := 0\<rparr>) sendbuf) s)
         (\<lambda>(err, sendbuf, s). Some (Inr (err, sendbuf, None, err \<noteq> 0, s)))"
proof -
  define P where "P = (\<lambda>(b :: SLPBuffer) (h :: SLPHeader) bd (b' :: SLPBuffer). \<exists>r. bd = SrvReg r \<and> hd_xid h = ucast xid \<and> hd_flags h = 0x4000
    \<and> wbytes (bmem b) (hd_langtag h) = lang \<and> ue_lifetime (rg_urlentry r) = unat life \<and> ue_autharray (rg_urlentry r) = []
    \<and> ue_opaque (rg_urlentry r) = 14 + length lang \<and> ue_opaquelen (rg_urlentry r) = 6 + length url
    \<and> map (wbytes (bmem b)) [ue_url (rg_urlentry r), rg_srvtype r, rg_scopelist r, rg_attrlist r] = [url, ty, sc, al]
    \<and> rg_pid r = (if watch then pid else 0) \<and> bmem b' = bmem b \<and> bend b' = bend b)"
  have "\<exists>out. request_buffer True junk2 None SLP_FUNCT_SRVREG False extoffset xid lang prl body = Inr (Some out)
      \<and> take (6 + length url) (drop (14 + length lang) (take (bend out) (bmem out))) = encUrl life url []
      \<and> (\<forall>b extra. bmem b = take (bend out) (bmem out) @ extra \<and> bend b = bend out \<and> bcur b = 0 \<longrightarrow>
        (\<exists>h bd b'. SLPv2MessageParseBuffer (pe_mok env) b = Inr ((h, bd), b') \<and> hd_version h = 2
          \<and> hd_functionid h = SLP_FUNCT_SRVREG \<and> P b h bd b'))"
    using SrvReg_roundtrip[OF len(1-5) client(1) len(6), of junk2 False xid prl "pe_mok env"] unfolding P_def
    apply (elim exE conjE)
    apply (rule exI, rule conjI, assumption, rule conjI, assumption, intro allI impI)
    apply (drule spec, drule spec, drule mp, assumption, elim exE conjE)
    apply (intro exI conjI; (assumption | rule refl | simp))
    done
  then have opq: "cslice (buf_bytes recvbuf) (14 + length lang) (6 + length url) = encUrl life url []"
    and reads: "\<forall>b extra. bmem b = take (bend recvbuf) (bmem recvbuf) @ extra \<and> bend b = bend recvbuf \<and> bcur b = 0 \<longrightarrow>
      (\<exists>h bd b'. SLPv2MessageParseBuffer (pe_mok env) b = Inr ((h, bd), b') \<and> hd_version h = 2 \<and> hd_functionid h = SLP_FUNCT_SRVREG \<and> P b h bd b')"
    using recv(1,2) unfolding client(2) cslice_def buf_bytes_def by (auto simp: recv(2))
  obtain b extra h bd b' where b: "bmem b = take (bend recvbuf) (bmem recvbuf) @ extra" "bend b = bend recvbuf" "P b h bd b'"
    and fid: "hd_functionid h = SLP_FUNCT_SRVREG"
    and run: "SLPDProcessMessage cfg env peer localaddr recvbuf sendbuf None s =
       bindO (process_message cfg env (bmem b') (bend b') \<lparr>msg_peer = peer, msg_localaddr = localaddr, msg_header = h, msg_body = bd\<rparr>
                (map_option (\<lambda>b. b\<lparr>bend := 0\<rparr>) sendbuf) s)
         (\<lambda>(err, sendbuf, s). Some (Inr (err, sendbuf, None, \<not> (True \<and> err = 0), s)))"
    by (rule SLPDProcessMessage_parsed[OF recv(3) env(1,2) reads, where kept = True and cfg = cfg and peer = peer and localaddr = localaddr
        and sendbuf = sendbuf and s = s])
      (simp, rule that)
  obtain r where r: "bd = SrvReg r" "hd_xid h = ucast xid" "hd_flags h = 0x4000" "wbytes (bmem b) (hd_langtag h) = lang"
    "ue_lifetime (rg_urlentry r) = unat life" "ue_autharray (rg_urlentry r) = []"
    "ue_opaque (rg_urlentry r) = 14 + length lang" "ue_opaquelen (rg_urlentry r) = 6 + length url"
    "map (wbytes (bmem b)) [ue_url (rg_urlentry r), rg_srvtype r, rg_scopelist r, rg_attrlist r] = [url, ty, sc, al]"
    "rg_pid r = (if watch then pid else 0)" "bmem b' = bmem b" "bend b' = bend b"
    using b(3) by (auto simp: P_def)
  let ?msg = "\<lparr>msg_peer = peer, msg_localaddr = localaddr, msg_header = h, msg_body = SrvReg r\<rparr>"
  have fields: "field (bmem b) (ue_url (rg_urlentry r)) = chars_of url" "field (bmem b) (rg_srvtype r) = chars_of ty"
    "field (bmem b) (rg_scopelist r) = chars_of sc" "field (bmem b) (rg_attrlist r) = chars_of al"
    using r(9) by (simp_all add: field_def)
  have bytes: "take (bend recvbuf) (bmem b) = buf_bytes recvbuf" using b(1) recv(3) by (simp add: buf_bytes_def buffer_ok_def)
  show ?thesis
    by (rule that[of ?msg h r "bmem b"])
      (use fid r(2-8,10) loopback_not_mcast[OF env(3)] env(3) opq run[unfolded r(1,11,12) b(2)] bytes in
        \<open>simp_all add: is_mcast_def SLP_FLAG_MCAST_def langtag_of_def reg_of_def fields\<close>)
qed

text \<open>The reply has been made, and the database has the entry.\<close>

lemma srvack_written:
  assumes "buffer_ok sendbuf" "pe_reply env" "\<not> is_mcast msg"
  obtains ack where "srvack_respond env m msg err (Some sendbuf) = Inr (err, Some ack)" "buffer_ok ack"
    "bend ack = 16 + length (langtag_of m msg)"
    "buf_bytes ack = enc_header SLP_FUNCT_SRVACK (16 + length (langtag_of m msg)) 0 (ucast (hd_xid (msg_header msg))) (langtag_of m msg) @ TO_UINT16 (of_nat err)"
proof -
  have sz: "length (langtag_of m msg) + 16 = 14 + length (langtag_of m msg) + length (TO_UINT16 (of_nat err))" by simp
  have sb: "Some sendbuf = Some b0 \<Longrightarrow> buffer_ok b0" for b0 using assms(1) by simp
  show ?thesis
    by (rule put_reply_written[where sendbuf = "Some sendbuf", OF sb assms(2) slp_PutUINT16_def sz, where fid = SLP_FUNCT_SRVACK and fl = 0 and err = err])
      (use assms(3) in \<open>auto intro!: that simp: srvack_respond_def add.commute\<close>)
qed

lemma registration_done:
  assumes len: "length url < 65536" "length ty < 65536" "length sc < 65536" "length al < 65536" "length lang < 65536"
      "14 + length lang + length body < 2 ^ 24"
    and client: "ProcessSrvReg_body junk watch pid life url ty sc al [] [] = Inr (body, extoffset)"
      "request_buffer True junk2 None SLP_FUNCT_SRVREG False extoffset xid lang prl body = Inr (Some out)"
    and recv: "buf_bytes recvbuf = buf_bytes out" "bend recvbuf = bend out" "buffer_ok recvbuf" "buffer_ok sendbuf"
    and env: "reg_env_ok env p" "SLPNetIsLoopback peer" "SLPIntersectStringList (chars_of sc) (useScopes cfg) \<noteq> 0"
    and db: "db_inv (db_prop cfg) (registrations s)" "p \<notin> fst ` set (db (registrations s))"
      "SLPCheckAttributeListSyntax (chars_of al) = 0" "parse_attributes (pe_al env) (chars_of al) = Inr attr"
      "\<not> refused (db_prop cfg) peer found" "found = List.find (same_service (chars_of url) (chars_of sc)) (db (registrations s))"
  obtains ack s' e where
    "SLPDProcessMessage cfg env peer localaddr recvbuf (Some sendbuf) None s = Some (Inr (SLP_ERROR_OK, Some ack, None, False, s'))"
    "buffer_ok ack" "bend ack = 16 + length lang"
    "buf_bytes ack = enc_header SLP_FUNCT_SRVACK (16 + length lang) 0 (ucast (ucast xid :: 16 word)) lang @ TO_UINT16 0"
    "db_inv (db_prop cfg) (registrations s')" "db (registrations s') = without found (db (registrations s)) @ [(p, e)]" "h_attrs e = attr"
    "e_reg e = \<lparr>r_peer = peer, r_url = chars_of url, r_lifetime = fix_lifetime (int (unat life)), r_srvtype = chars_of ty,
        r_scopelist = chars_of sc, r_attrlist = chars_of al, r_pid = (if watch then pid else 0), r_source = SLP_REG_SOURCE_LOCAL, r_langtag = lang,
        r_authcount = 0, r_opaque = 14 + length lang, r_opaquelen = 6 + length url, r_buf = buf_bytes recvbuf\<rparr>"
    "r_opaque_bytes (e_reg e) = encUrl life url []"
    "outbox s' = outbox s @ map (\<lambda>da. (k_peer da, buf_bytes recvbuf)) (echo_targets cfg env (chars_of sc) s)"
proof -
  have ok: "pe_dup env" "pe_msg env" "pe_reply env" using env(1) by (simp_all add: reg_env_ok_def)
  obtain m h r msg where msg: "msg = \<lparr>msg_peer = peer, msg_localaddr = localaddr, msg_header = h, msg_body = SrvReg r\<rparr>"
    and h: "hd_functionid h = SLP_FUNCT_SRVREG" "hd_xid h = ucast xid" "\<not> is_mcast msg" "langtag_of m msg = lang"
      "field m (rg_scopelist r) = chars_of sc" "take (bend recvbuf) m = buf_bytes recvbuf"
    and reg: "reg_of m (bend recvbuf) msg r =
       \<lparr>r_peer = peer, r_url = chars_of url, r_lifetime = int (unat life), r_srvtype = chars_of ty, r_scopelist = chars_of sc,
        r_attrlist = chars_of al, r_pid = (if watch then pid else 0), r_source = SLP_REG_SOURCE_LOCAL, r_langtag = lang,
        r_authcount = 0, r_opaque = 14 + length lang, r_opaquelen = 6 + length url, r_buf = buf_bytes recvbuf\<rparr>"
    and opq: "cslice (buf_bytes recvbuf) (14 + length lang) (6 + length url) = encUrl life url []"
    and run: "SLPDProcessMessage cfg env peer localaddr recvbuf (Some sendbuf) None s =
       bindO (process_message cfg env m (bend recvbuf) msg (map_option (\<lambda>b. b\<lparr>bend := 0\<rparr>) (Some sendbuf)) s)
         (\<lambda>(err, sendbuf, s). Some (Inr (err, sendbuf, None, err \<noteq> 0, s)))"
    by (rule registration_received[OF len client recv(1-3) ok(1,2) env(2)])
  have al: "al_open (pe_al env)" "al_srvtype (pe_al env)" "al_index (pe_al env)" "al_iter (pe_al env)" "al_entry (pe_al env) = Some p"
    using env(1) by (simp_all add: reg_env_ok_def)
  let ?reg = "reg_of m (bend recvbuf) msg r"
  obtain d e where d: "SLPDDatabaseReg (db_prop cfg) (pe_al env) ?reg (registrations s) = Inr (SLP_ERROR_OK, d)"
    "db_inv (db_prop cfg) d" "db d = without found (db (registrations s)) @ [(p, e)]" "h_attrs e = attr" "e_reg e = stored_reg ?reg"
    using SLPDDatabaseReg_ok[OF db(1) al db(2), of ?reg attr] db(3-6) by (auto simp: reg Let_def)
  have ok0: "buffer_ok (sendbuf\<lparr>bend := 0, bcur := 0\<rparr>)" using recv(4) by (simp add: buffer_ok_def)
  have same: "srvack_respond env m msg err (Some (sendbuf\<lparr>bend := 0\<rparr>)) = srvack_respond env m msg err (Some sendbuf)" for err
    using h(3) by (simp add: srvack_respond_def put_reply_def)
  have hdx: "hd_xid (msg_header msg) = hd_xid h" by (simp add: msg)
  obtain ack where ack: "srvack_respond env m msg SLP_ERROR_OK (Some sendbuf) = Inr (SLP_ERROR_OK, Some ack)" "buffer_ok ack"
    "bend ack = 16 + length lang"
    "buf_bytes ack = enc_header SLP_FUNCT_SRVACK (16 + length lang) 0 (ucast (hd_xid h)) lang @ TO_UINT16 (of_nat SLP_ERROR_OK)"
    using srvack_written[OF recv(4) ok(3) h(3), of m SLP_ERROR_OK] unfolding h(4) hdx by blast
  have fin: "ProcessSrvReg cfg env m (bend recvbuf) msg r (Some (sendbuf\<lparr>bend := 0\<rparr>)) 0 s = Inr (SLP_ERROR_OK, Some ack, s\<lparr>registrations := d\<rparr>)"
    using h(3) env(3) d(1) ack(1) by (simp add: ProcessSrvReg_def same h(5))
  let ?s = "s\<lparr>registrations := d\<rparr>"
  let ?out = "outbox s @ map (\<lambda>da. (k_peer da, buf_bytes recvbuf)) (echo_targets cfg env (chars_of sc) s)"
  have echo: "echo_message cfg env m (bend recvbuf) msg (field m (rg_scopelist r)) ?s = ?s\<lparr>outbox := ?out\<rparr>"
    using env(1) loopback_local[OF env(2)] h(1)
    by (simp add: echo_message_def SLPDKnownDAEcho_def reg_env_ok_def echo_loop_all echo_targets_def h(5,6) msg)
  have body: "msg_body msg = SrvReg r" by (simp add: msg)
  have result: "SLPDProcessMessage cfg env peer localaddr recvbuf (Some sendbuf) None s
      = Some (Inr (SLP_ERROR_OK, Some ack, None, False, ?s\<lparr>outbox := ?out\<rparr>))"
    unfolding run process_message_def body using fin echo by (simp add: SLP_ERROR_OK_def)
  have opaque: "r_opaque_bytes (e_reg e) = encUrl life url []"
    using opq by (simp add: d(5) reg r_opaque_bytes_def stored_reg_def)
  show ?thesis
    by (intro that[OF result ack(2,3) _ _ _ _ _ opaque]) (use ack(4) h(2) d(2-4) d(5)[unfolded reg] in \<open>simp_all add: stored_reg_def SLP_ERROR_OK_def\<close>)
qed

definition sample_penv :: "nat \<Rightarrow> proc_env" where
  "sample_penv p =
     \<lparr>pe_dup = True, pe_msg = True, pe_mok = (\<lambda>_. True), pe_junk = (\<lambda>_. 0xaa), pe_reply = True, pe_first = True, pe_own = True,
      pe_term = True, pe_grow = (\<lambda>_. True), pe_termgrow = True, pe_fuel = 100, pe_open = True, pe_open2 = True,
      pe_ralloc = (\<lambda>_. True), pe_addr = of_nat, pe_strjunk = [], pe_al = sample_al p, pe_ok = True, pe_da = sample_env,
      pe_echo_open = True, pe_echo_dup = (\<lambda>_. True), pe_have_outgoing = (\<lambda>_. False)\<rparr>"

section \<open>An advertisement from one daemon to another\<close>

text \<open>
  C28: the advertisement a directory agent builds of itself, sent to another
  daemon, enters its list of agents: with the agent's URL, scopes and start time,
  the address its host resolves to, and the bytes of the message for as long as the
  scopes are shorter than 256 characters.  It takes the place of the
  advertisement with the same URL; nothing is answered; and the daemon sends its own
  registrations to an agent that is new or was restarted.
\<close>

theorem advert_reaches_daemon:
  assumes da: "SLPDKnownDAGenerateMyDAAdvert cfgA True junk addr 0 False mc xid None = Inr (0, Some out)"
      "daadvert_size cfgA addr < 65536" "MTU cfgA \<le> 65535" "length (useScopes cfgA) < 256" "DATimestamp cfgA \<noteq> 0"
    and recv: "take (bend out) (bmem recvbuf) = take (bend out) (bmem out)" "bend recvbuf = bend out" "buffer_ok recvbuf"
    and env: "pe_dup env" "pe_msg env" "pe_da env = e" "de_open e" "de_entry e" "de_regopen e" "de_dup e = (\<lambda>_. True)"
    and heard: "passiveDADetection cfg \<or> (ucast xid :: 16 word) \<noteq> 0" "DAActiveDiscoveryInterval cfg \<noteq> 0 \<or> (ucast xid :: 16 word) = 0"
    and url: "url = urlPrefix cfgA @ localaddr_str addr" "SLPParseSrvUrl (de_url e) url = Inr u"
      "SLPNetResolveHostToAddr (de_resolve4 e) (de_resolve6 e) (pu_host u) = Some a"
      "de_connect e (resolved_peer cfg peer a)" "SLPIntersectStringList (ifaceurls cfg) url = 0"
    and known: "known_ok (known_das s)"
  shows "\<exists>new s'. SLPDProcessMessage cfg env peer localaddr recvbuf (Some sendbuf) None s
      = Some (Inr (SLP_ERROR_OK, Some (sendbuf\<lparr>bend := 0\<rparr>), None, False, s'))
    \<and> k_url new = url \<and> k_scopelist new = useScopes cfgA \<and> k_bootstamp new = DATimestamp cfgA
    \<and> k_peer new = resolved_peer cfg peer a \<and> k_buf new = buf_bytes out
    \<and> known_das s' = filter (\<lambda>k. SLPCompareString (k_url k) url \<noteq> 0) (known_das s) @ [new]
    \<and> registrations s' = registrations s
    \<and> outbox s' = outbox s @
        (if \<exists>k \<in> set (known_das s). SLPCompareString (k_url k) url = 0 \<and> k_bootstamp k = DATimestamp cfgA
         then [] else registered_with new (registrations s))"
proof -
  define P where "P = (\<lambda>(b :: SLPBuffer) (h :: SLPHeader) bd (b' :: SLPBuffer). \<exists>r. bd = DAAdvert r \<and> bmem b' = bmem b \<and> bend b' = bend b
    \<and> hd_xid h = ucast xid \<and> da_errorcode r = 0 \<and> da_bootstamp r = DATimestamp cfgA
    \<and> wbytes (bmem b') (da_url r) = my_url cfgA addr \<and> wbytes (bmem b') (da_scopelist r) = bytes_of (useScopes cfgA))"
  have "\<exists>o2. SLPDKnownDAGenerateMyDAAdvert cfgA True junk addr 0 False mc xid None = Inr (0, Some o2) \<and> buffer_ok o2
      \<and> (\<forall>b extra. bmem b = buf_bytes o2 @ extra \<and> bend b = bend o2 \<and> bcur b = 0 \<longrightarrow>
        (\<exists>h bd b'. SLPv2MessageParseBuffer (pe_mok env) b = Inr ((h, bd), b') \<and> hd_version h = 2
          \<and> hd_functionid h = SLP_FUNCT_DAADVERT \<and> P b h bd b'))"
    using MyDAAdvert_roundtrip[of None cfgA addr junk False mc xid "pe_mok env", OF _ da(2,3)] unfolding P_def
    apply -
    apply (erule meta_impE, simp)
    apply (elim exE conjE)
    apply (rule exI, rule conjI, assumption, rule conjI, assumption, intro allI impI)
    apply (drule spec, drule spec, drule mp, assumption, elim exE conjE)
    apply (intro exI conjI; (assumption | rule refl | simp add: da(4)))
    done
  then obtain o2 where o2: "SLPDKnownDAGenerateMyDAAdvert cfgA True junk addr 0 False mc xid None = Inr (0, Some o2)" "buffer_ok o2"
    and r2: "\<forall>b extra. bmem b = buf_bytes o2 @ extra \<and> bend b = bend o2 \<and> bcur b = 0 \<longrightarrow>
      (\<exists>h bd b'. SLPv2MessageParseBuffer (pe_mok env) b = Inr ((h, bd), b') \<and> hd_version h = 2
        \<and> hd_functionid h = SLP_FUNCT_DAADVERT \<and> P b h bd b')"
    by blast
  have out: "o2 = out" using o2(1) da(1) by simp
  have bytes: "buf_bytes recvbuf = buf_bytes out" using recv(1,2) by (simp add: buf_bytes_def)
  have reads: "\<forall>b extra. bmem b = take (bend recvbuf) (bmem recvbuf) @ extra \<and> bend b = bend recvbuf \<and> bcur b = 0 \<longrightarrow>
      (\<exists>h bd b'. SLPv2MessageParseBuffer (pe_mok env) b = Inr ((h, bd), b') \<and> hd_version h = 2
        \<and> hd_functionid h = SLP_FUNCT_DAADVERT \<and> P b h bd b')"
    using r2 unfolding out recv(1,2) buf_bytes_def by blast
  obtain b extra h bd b' where b: "bmem b = take (bend recvbuf) (bmem recvbuf) @ extra" "bend b = bend recvbuf" "P b h bd b'"
    and run: "SLPDProcessMessage cfg env peer localaddr recvbuf (Some sendbuf) None s =
       bindO (process_message cfg env (bmem b') (bend b') \<lparr>msg_peer = peer, msg_localaddr = localaddr, msg_header = h, msg_body = bd\<rparr>
                (map_option (\<lambda>b. b\<lparr>bend := 0\<rparr>) (Some sendbuf)) s)
         (\<lambda>(err, sendbuf, s). Some (Inr (err, sendbuf, None, \<not> (True \<and> err = 0), s)))"
    by (rule SLPDProcessMessage_parsed[OF recv(3) env(1,2) reads, where kept = True and cfg = cfg and peer = peer
        and localaddr = localaddr and sendbuf = "Some sendbuf" and s = s]) (simp, rule that)
  obtain r where r: "bd = DAAdvert r" "bmem b' = bmem b" "bend b' = bend b" "hd_xid h = ucast xid" "da_errorcode r = 0"
    "da_bootstamp r = DATimestamp cfgA" "wbytes (bmem b) (da_url r) = my_url cfgA addr"
    "wbytes (bmem b) (da_scopelist r) = bytes_of (useScopes cfgA)"
    using b(3) by (auto simp: P_def)
  define msg where "msg = \<lparr>msg_peer = peer, msg_localaddr = localaddr, msg_header = h, msg_body = DAAdvert r\<rparr>"
  define k where "k = da_of (bmem b) (bend b) msg r"
  have "take (bend b) (bmem b) = buf_bytes recvbuf" using b(1,2) recv(3) by (simp add: buf_bytes_def buffer_ok_def)
  then have k: "k_peer k = peer" "k_bootstamp k = DATimestamp cfgA" "k_url k = url" "k_scopelist k = useScopes cfgA" "k_buf k = buf_bytes out"
    using r(6-8) url(1) bytes by (simp_all add: k_def da_of_def msg_def field_def)
  obtain new s' where add: "SLPDKnownDAAdd cfg e k s = (SLP_ERROR_OK, s')"
    "new = k\<lparr>k_peer := resolved_peer cfg peer a, k_stale := staleDACheckPeriod cfg sdiv SLPD_AGE_INTERVAL\<rparr>"
    "known_das s' = filter (\<lambda>k. SLPCompareString (k_url k) url \<noteq> 0) (known_das s) @ [new]" "registrations s' = registrations s"
    "outbox s' = outbox s @
        (if \<exists>k \<in> set (known_das s). SLPCompareString (k_url k) url = 0 \<and> k_bootstamp k = DATimestamp cfgA
         then [] else registered_with new (registrations s))"
    using SLPDKnownDAAdd_registers[of s e k u a cfg] known env(4-7) url(2-5) da(5) unfolding k by blast
  have hdx: "hd_xid (msg_header msg) = ucast xid" "msg_peer msg = peer" using r(4) by (simp_all add: msg_def)
  have pd: "ProcessDAAdvert cfg env (bmem b) (bend b) msg r (Some (sendbuf\<lparr>bend := 0\<rparr>)) 0 s
      = Inr (0, Some (sendbuf\<lparr>bend := 0\<rparr>), s')"
    unfolding ProcessDAAdvert_def hdx Let_def k_def[symmetric] r(5) env(3)
    using heard add(1) by (auto simp: set_empty_def SLP_ERROR_OK_def)
  have body: "msg_body msg = DAAdvert r" by (simp add: msg_def)
  have "SLPDProcessMessage cfg env peer localaddr recvbuf (Some sendbuf) None s
      = Some (Inr (SLP_ERROR_OK, Some (sendbuf\<lparr>bend := 0\<rparr>), None, False, s'))"
    unfolding run r(1-3) msg_def[symmetric] process_message_def body using pd by (simp add: SLP_ERROR_OK_def)
  then show ?thesis using add k by (intro exI[of _ new] exI[of _ s']) simp
qed


theorem advert_reaches_daemon_witness:
  "\<exists>out recvbuf new s'. SLPDKnownDAGenerateMyDAAdvert sample_config True (\<lambda>_. 0) (AF_INET 0x0a000002) 0 False False 0 None
      = Inr (0, Some out) \<and> buf_bytes recvbuf = buf_bytes out
    \<and> SLPDProcessMessage sample_config (sample_penv 8) (AF_INET 0x0a000002) (AF_INET 0x0a000001) recvbuf
         (Some \<lparr>allocated = 1, bmem = [0, 0], bcur = 0, bend = 1\<rparr>) None (sample_slpd [])
       = Some (Inr (SLP_ERROR_OK, Some \<lparr>allocated = 1, bmem = [0, 0], bcur = 0, bend = 0\<rparr>, None, False, s'))
    \<and> known_das s' = [new] \<and> k_url new = ''service:directory-agent://10.0.0.2'' \<and> k_bootstamp new = 77"
proof -
  let ?addr = "AF_INET 0x0a000002" and ?url = "''service:directory-agent://10.0.0.2''"
  have url: "?url = urlPrefix sample_config @ localaddr_str ?addr" by code_simp
  have size: "daadvert_size sample_config ?addr < 65536" by code_simp
  have i: "SLPIntersectStringList (ifaceurls sample_config) ?url = 0" by code_simp
  obtain u where u: "SLPParseSrvUrl True ?url = Inr u" by (simp add: SLPParseSrvUrl_def c_string_def chd_def)
  obtain out where out: "SLPDKnownDAGenerateMyDAAdvert sample_config True (\<lambda>_. 0) ?addr 0 False False 0 None = Inr (0, Some out)" "buffer_ok out"
    using MyDAAdvert_roundtrip[of None sample_config ?addr "\<lambda>_. 0" False False 0 "\<lambda>_. True"] size by (auto simp: sample_config_def)
  have env: "pe_dup (sample_penv 8)" "pe_msg (sample_penv 8)" "pe_da (sample_penv 8) = sample_env" "de_open sample_env" "de_entry sample_env"
    "de_regopen sample_env" "de_dup sample_env = (\<lambda>_. True)" "de_connect sample_env x" "SLPParseSrvUrl (de_url sample_env) ?url = Inr u"
    "SLPNetResolveHostToAddr (de_resolve4 sample_env) (de_resolve6 sample_env) (pu_host u) = Some ?addr" for x
    using u by (simp_all add: sample_penv_def sample_env_def SLPNetResolveHostToAddr_def)
  show ?thesis
    using advert_reaches_daemon[OF out(1) size _ _ _ refl refl out(2) env(1-7) _ _ url env(9,10,8) i, of "sample_slpd []" ?addr
        "AF_INET 0x0a000001" "\<lparr>allocated = 1, bmem = [0, 0], bcur = 0, bend = 1\<rparr>"] out(1)
    by (auto simp: sample_config_def known_ok_def)
qed

section \<open>A reply with URLs\<close>

text \<open>A registration without authentication: the copied URL entry is its URL and some lifetime.\<close>

definition plain_reg :: "reg_msg \<Rightarrow> bool" where
  "plain_reg reg \<longleftrightarrow> r_authcount reg = 0 \<and> r_opaquelen reg = 6 + length (r_url reg) \<and> length (r_url reg) < 65536
     \<and> r_opaque reg + r_opaquelen reg \<le> length (r_buf reg)
     \<and> (\<exists>life. r_opaque_bytes reg = encUrl life (bytes_of (r_url reg)) [])"

abbreviation set_life :: "8 word list \<Rightarrow> nat \<Rightarrow> 64 word \<Rightarrow> 8 word list" where
  "set_life buf off life \<equiv> buf[off + 1 := TO_UINT16 life ! 0, off + 1 + 1 := TO_UINT16 life ! 1]"

lemma TO_UINT16_low: "TO_UINT16 (ucast (ucast v :: 16 word)) = TO_UINT16 v"
proof -
  have "ucast (drop_bit 8 (ucast (ucast v :: 16 word) :: 64 word) AND 0xff) = (ucast (drop_bit 8 v AND 0xff) :: 8 word)"
    "ucast ((ucast (ucast v :: 16 word) :: 64 word) AND 0xff) = (ucast (v AND 0xff) :: 8 word)"
    by (rule bit_word_eqI; auto simp: ucast_and_ff bit_simps)+
  then show ?thesis by (simp only: TO_UINT16_def)
qed

lemma ucast_word_of_int16: "(ucast (word_of_int x :: 64 word) :: 16 word) = word_of_int x"
  by (rule bit_word_eqI) (auto simp: bit_simps)

lemma set_life_encUrl:
  assumes "cslice buf off (6 + length url) = encUrl life0 url []" "off + (6 + length url) \<le> length buf"
  shows "cslice (set_life buf off life) off (6 + length url) = encUrl (ucast life) url []"
proof -
  have d: "drop off (xs[j := x]) = (drop off xs)[j - off := x]" if "off \<le> j" for xs :: "8 word list" and j x
    using that by (simp add: drop_update_swap)
  have tk: "take n (xs[j := x]) = (take n xs)[j := x]" for xs :: "8 word list" and j n x
    by (simp add: take_update_swap)
  have "cslice (set_life buf off life) off (6 + length url) = (cslice buf off (6 + length url))[1 := TO_UINT16 life ! 0, 2 := TO_UINT16 life ! 1]"
    unfolding cslice_def by (simp add: d tk)
  also have "\<dots> = encUrl (ucast life) url []"
    unfolding assms(1) using TO_UINT16_low[of life] by (simp add: encUrl_def TO_UINT16_def)
  finally show ?thesis .
qed


text \<open>\<open>plain_at d p\<close>: the entry at \<open>p\<close> is there and plain.\<close>

definition plain_at :: "SLPDDatabase \<Rightarrow> nat \<Rightarrow> bool" where
  "plain_at d p \<longleftrightarrow> (\<exists>e. map_of (db d) p = Some e \<and> plain_reg (e_reg e))"

text \<open>What a reply says of an entry.\<close>

definition url_of :: "SLPDDatabase \<Rightarrow> nat \<Rightarrow> 8 word list" where
  "url_of d p = bytes_of (r_url (e_reg (the (map_of (db d) p))))"

definition life_of :: "SLPDDatabase \<Rightarrow> nat \<Rightarrow> 16 word" where
  "life_of d p = word_of_int (r_lifetime (e_reg (the (map_of (db d) p))))"

text \<open>The entries of a database but for the copies of their messages.\<close>

definition forget_copy :: "db_entry \<Rightarrow> db_entry" where
  "forget_copy e = e\<lparr>e_reg := (e_reg e)\<lparr>r_buf := []\<rparr>\<rparr>"

definition forget_buf :: "SLPDDatabase \<Rightarrow> SLPDDatabase" where
  "forget_buf d = d\<lparr>db := map (\<lambda>(p, e). (p, forget_copy e)) (db d)\<rparr>"

lemma map_of_entry_update:
  "map_of (map (\<lambda>(q, e). (q, f q e)) es) q = map_option (f q) (map_of es q)"
  by (induction es) auto

lemma forget_buf_facts:
  assumes "forget_buf d' = forget_buf d"
  shows "url_of d' p = url_of d p" "life_of d' p = life_of d p"
proof -
  have "url_of (forget_buf x) p = url_of x p \<and> life_of (forget_buf x) p = life_of x p" for x
    by (cases "map_of (db x) p") (simp_all add: forget_buf_def url_of_def life_of_def map_of_entry_update forget_copy_def)
  from this[of d] this[of d'] show "url_of d' p = url_of d p" "life_of d' p = life_of d p" unfolding assms by simp_all
qed

lemma put_url_plain:
  assumes "plain_at d p" "distinct (map fst (db d))"
  obtains d' where "put_url p d b = bindR (put_bytes (encUrl (life_of d p) (url_of d p) []) b) (\<lambda>(_, b). Inr (d', b))"
    "forget_buf d' = forget_buf d" "\<And>q. plain_at d q \<Longrightarrow> plain_at d' q"
proof -
  obtain e where e: "map_of (db d) p = Some e" and plain: "plain_reg (e_reg e)" using assms(1) by (auto simp: plain_at_def)
  let ?reg = "e_reg e"
  let ?buf = "set_life (r_buf ?reg) (r_opaque ?reg) (word_of_int (r_lifetime ?reg))"
  let ?new = "?reg\<lparr>r_buf := ?buf\<rparr>"
  let ?f = "\<lambda>q e. if q = p then e\<lparr>e_reg := ?new\<rparr> else e"
  let ?d = "d\<lparr>db := map (\<lambda>(q, e). (q, ?f q e)) (db d)\<rparr>"
  have pl: "r_authcount ?reg = 0" "r_opaquelen ?reg = 6 + length (r_url ?reg)" "r_opaque ?reg + (6 + length (r_url ?reg)) \<le> length (r_buf ?reg)"
    using plain by (simp_all add: plain_reg_def)
  obtain life where old: "cslice (r_buf ?reg) (r_opaque ?reg) (6 + length (bytes_of (r_url ?reg))) = encUrl life (bytes_of (r_url ?reg)) []"
    using plain by (auto simp: plain_reg_def r_opaque_bytes_def)
  have copied: "cslice ?buf (r_opaque ?reg) (6 + length (r_url ?reg)) = encUrl (life_of d p) (url_of d p) []"
    using set_life_encUrl[OF old] pl(3) by (simp add: e url_of_def life_of_def ucast_word_of_int16)
  have same: "map (\<lambda>(q, x). if q = p then (q, x\<lparr>e_reg := ?new\<rparr>) else (q, x)) (db d) = map (\<lambda>(q, x). (q, ?f q x)) (db d)" by auto
  have run: "put_url p d b = bindR (put_bytes (encUrl (life_of d p) (url_of d p) []) b) (\<lambda>(_, b). Inr (?d, b))"
    unfolding put_url_def e option.case Let_def pl(1,2) using pl copied same by (simp add: split_def if_distrib[of "Pair _"] cong: if_cong)
  have pn: "plain_reg ?new" using plain copied by (auto simp: plain_reg_def r_opaque_bytes_def e url_of_def)
  show ?thesis
  proof (rule that[OF run])
    have "forget_copy (?f q x) = forget_copy x" if "(q, x) \<in> set (db d)" for q x
      using map_of_is_SomeI[OF assms(2) that] e by (auto simp: forget_copy_def)
    then have "map (\<lambda>(q, x). (q, forget_copy x)) (map (\<lambda>(q, x). (q, ?f q x)) (db d)) = map (\<lambda>(q, x). (q, forget_copy x)) (db d)"
      by auto
    then show "forget_buf ?d = forget_buf d" by (simp add: forget_buf_def del: map_map)
    show "plain_at ?d q" if "plain_at d q" for q
    proof -
      obtain x where x: "map_of (db d) q = Some x" "plain_reg (e_reg x)" using \<open>plain_at d q\<close> by (auto simp: plain_at_def)
      have "map_of (db ?d) q = Some (?f q x)" using x(1) by (simp add: map_of_entry_update)
      moreover have "plain_reg (e_reg (?f q x))" using pn x(2) by simp
      ultimately show ?thesis unfolding plain_at_def by blast
    qed
  qed
qed


lemma forget_buf_keys: "forget_buf d' = forget_buf d \<Longrightarrow> map fst (db d') = map fst (db d)"
  by (drule arg_cong[of _ _ "\<lambda>d. map fst (db d)"]) (simp add: forget_buf_def split_def comp_def)

abbreviation enc_urls :: "SLPDDatabase \<Rightarrow> nat list \<Rightarrow> 8 word list" where
  "enc_urls d ps \<equiv> concat (map (\<lambda>p. encUrl (life_of d p) (url_of d p) []) ps)"

lemma put_urls_plain:
  assumes "\<forall>p \<in> set ps. plain_at d p" "distinct (map fst (db d))" "bcur b + length (enc_urls d ps) \<le> length (bmem b)"
  obtains d' where "put_urls ps d b = bindR (put_bytes (enc_urls d ps) b) (\<lambda>(_, b). Inr (d', b))" "forget_buf d' = forget_buf d"
  using assms
proof (induction ps arbitrary: d b thesis)
  case Nil
  show ?case by (rule Nil.prems(1)[of d]) (use Nil.prems(4) in \<open>simp_all add: put_bytes_def\<close>)
next
  case (Cons p ps)
  have p: "plain_at d p" using Cons.prems(2) by simp
  obtain d1 where d1: "put_url p d b = bindR (put_bytes (encUrl (life_of d p) (url_of d p) []) b) (\<lambda>(_, b). Inr (d1, b))"
    "forget_buf d1 = forget_buf d" "\<And>q. plain_at d q \<Longrightarrow> plain_at d1 q"
    using put_url_plain[OF p Cons.prems(3)] by metis
  have same: "enc_urls d1 ps = enc_urls d ps" by (simp add: forget_buf_facts[OF d1(2)])
  obtain b1 where b1: "put_bytes (encUrl (life_of d p) (url_of d p) []) b = Inr ((), b1)" "bcur b1 = bcur b + length (encUrl (life_of d p) (url_of d p) [])"
    "length (bmem b1) = length (bmem b)"
    using put_bytes_fits[of b "encUrl (life_of d p) (url_of d p) []"] put_bytes_at Cons.prems(4) by fastforce
  have "\<forall>q \<in> set ps. plain_at d1 q" "distinct (map fst (db d1))" "bcur b1 + length (enc_urls d1 ps) \<le> length (bmem b1)"
    using d1(3) Cons.prems(2-4) b1(2,3) forget_buf_keys[OF d1(2)] by (auto simp: same)
  from Cons.IH[OF _ this] obtain d' where d': "put_urls ps d1 b1 = bindR (put_bytes (enc_urls d1 ps) b1) (\<lambda>(_, b). Inr (d', b))"
    "forget_buf d' = forget_buf d1" by blast
  have "put_bytes (enc_urls d (p # ps)) b = put_bytes (enc_urls d ps) b1"
    using b1(1) fun_cong[OF put_bytes_append[of "encUrl (life_of d p) (url_of d p) []" "enc_urls d ps"], of b] by (simp add: bindP_def)
  then show ?case using Cons.prems(1)[of d'] d1(1,2) b1(1) d' same by simp
qed


lemma parse_urls_enc:
  assumes "inp b = concat (map (\<lambda>(l, u). encUrl l u []) us) @ rest" "\<forall>(l, u) \<in> set us. length u < 65536"
    and "bcur b + length (concat (map (\<lambda>(l, u). encUrl l u []) us)) \<le> bend b"
  obtains xs where "parse_urls mok (length us) b = Inr (xs, b\<lparr>bcur := bcur b + length (concat (map (\<lambda>(l, u). encUrl l u []) us))\<rparr>)"
    "map (\<lambda>x. (ue_lifetime x, wbytes (bmem b) (ue_url x))) xs = map (\<lambda>(l, u). (unat l, u)) us"
  using assms
proof (induction us arbitrary: b thesis)
  case Nil
  show ?case by (rule Nil.prems(1)[of "[]"]) (simp_all add: retP_def)
next
  case (Cons lu us)
  obtain l u where lu: "lu = (l, u)" by (cases lu)
  let ?rest = "concat (map (\<lambda>(l, u). encUrl l u []) us)"
  have i: "inp b = encUrl l u [] @ ?rest @ rest" using Cons.prems(2) lu by simp
  have c: "length u < 65536" "bcur b + 6 + length u \<le> bend b" using Cons.prems(3,4) lu by (simp_all add: length_encUrl)
  let ?b1 = "b\<lparr>bcur := bcur b + 6 + length u\<rparr>"
  let ?f = "\<lambda>u. bindP (parse_urls mok (length us)) (\<lambda>us. retP (u # us))"
  obtain x where x: "bindP (v2ParseUrlEntry mok) ?f b = ?f x ?b1" "ue_lifetime x = unat l" "wbytes (bmem b) (ue_url x) = u" "inp ?b1 = ?rest @ rest"
    by (rule bind_UrlEntry_enc[OF i c, of mok ?f])
  have "\<forall>(l, u) \<in> set us. length u < 65536" "bcur ?b1 + length ?rest \<le> bend ?b1" using Cons.prems(3,4) lu by (simp_all add: length_encUrl)
  from Cons.IH[OF _ x(4) this] obtain xs where xs: "parse_urls mok (length us) ?b1 = Inr (xs, ?b1\<lparr>bcur := bcur ?b1 + length ?rest\<rparr>)"
    "map (\<lambda>x. (ue_lifetime x, wbytes (bmem b) (ue_url x))) xs = map (\<lambda>(l, u). (unat l, u)) us" by auto
  have "parse_urls mok (length (lu # us)) b = Inr (x # xs, b\<lparr>bcur := bcur b + length (concat (map (\<lambda>(l, u). encUrl l u []) (lu # us)))\<rparr>)"
    using x(1) xs(1) lu by (simp add: bindP_def[of "parse_urls _ _"] retP_def length_encUrl add.assoc)
  then show ?case by (rule Cons.prems(1)) (use x(2,3) xs(2) lu in simp)
qed

lemma v2ParseSrvRply_enc:
  assumes "inp b = TO_UINT16 0 @ TO_UINT16 (of_nat (length us)) @ concat (map (\<lambda>(l, u). encUrl l u []) us) @ rest"
    and "length us < 65536" "\<forall>(l, u) \<in> set us. length u < 65536"
    and "bcur b + 4 + length (concat (map (\<lambda>(l, u). encUrl l u []) us)) \<le> bend b" "\<forall>p. mok p"
  obtains r b' where "v2ParseSrvRply mok b = Inr (r, b')" "bmem b' = bmem b" "rp_errorcode r = 0"
    "map (\<lambda>x. (ue_lifetime x, wbytes (bmem b) (ue_url x))) (rp_urlarray r) = map (\<lambda>(l, u). (unat l, u)) us"
proof -
  let ?us = "concat (map (\<lambda>(l, u). encUrl l u []) us)"
  let ?b2 = "b\<lparr>bcur := bcur b + 2\<rparr>" and ?b4 = "b\<lparr>bcur := bcur b + 4\<rparr>"
  have le: "bcur b + 4 \<le> bend b" using assms(4) by simp
  have i2: "inp ?b2 = TO_UINT16 (of_nat (length us)) @ ?us @ rest" using inp_advance[OF assms(1)] by simp
  have i4: "inp ?b4 = ?us @ rest" using inp_advance[OF i2] by (simp add: numeral_eq_Suc)
  have n: "unat (ucast (of_nat (length us) :: 64 word) :: 16 word) = length us" using assms(2) by (simp add: unat_ucast16)
  obtain xs where xs: "parse_urls mok (length us) ?b4 = Inr (xs, ?b4\<lparr>bcur := bcur ?b4 + length ?us\<rparr>)"
    "map (\<lambda>x. (ue_lifetime x, wbytes (bmem b) (ue_url x))) xs = map (\<lambda>(l, u). (unat l, u)) us"
    using parse_urls_enc[OF i4 assms(3), of mok] assms(4) by auto
  have z: "(ucast (of_nat (length us) :: 64 word) :: 16 word) = 0 \<longleftrightarrow> us = []" using n by (metis length_0_conv unat_0 word_unat_eq_iff)
  have steps: "bindP slp_GetUINT16 f1 b = f1 0 ?b2" "bindP slp_GetUINT16 f2 ?b2 = f2 (ucast (of_nat (length us) :: 64 word)) ?b4"
    for f1 f2 :: "_ \<Rightarrow> SLPSrvRply parser"
    using get16_inp[OF assms(1), of f1] get16_inp[OF i2, of f2] by (simp_all add: numeral_eq_Suc)
  show ?thesis
  proof (cases "us = []")
    case True
    then have "v2ParseSrvRply mok b = Inr (\<lparr>rp_errorcode = 0, rp_urlarray = []\<rparr>, ?b4)"
      using z by (simp only: v2ParseSrvRply_def needP_enough[OF le] steps simp_thms if_False if_True retP_def)
    then show ?thesis by (rule that) (use True in simp_all)
  next
    case False
    then have "v2ParseSrvRply mok b = Inr (\<lparr>rp_errorcode = 0, rp_urlarray = xs\<rparr>, ?b4\<lparr>bcur := bcur ?b4 + length ?us\<rparr>)"
      using z xs(1) assms(5)
      by (simp only: v2ParseSrvRply_def needP_enough[OF le] steps simp_thms if_False if_True n) (simp add: retP_def bindP_def)
    then show ?thesis by (rule that) (use xs(2) in simp_all)
  qed
qed


text \<open>
  C9: when the search for a request has found entries without authentication, the
  reply is written inside its buffer, and the parser of the client reads it back: a
  reply without error to the same transaction, with the URL of each entry found,
  in order, and what is left of its lifetime.  Nothing but the kept copies of the
  registrations changes in the database.
\<close>

theorem SrvRply_roundtrip:
  assumes rq: "SLPIntersectStringList (field m (rq_prlist rq)) (interfaces cfg) = 0" "wlen (rq_spistr rq) = 0"
      "SLPCompareString (field m (rq_srvtype rq)) ''service:directory-agent'' \<noteq> 0"
      "SLPCompareString (field m (rq_srvtype rq)) ''service:service-agent'' \<noteq> 0"
      "SLPIntersectStringList (field m (rq_scopelist rq)) (useScopes cfg) \<noteq> 0"
    and found: "SLPDDatabaseSrvRqstStart (pe_fuel env) (db_prop cfg) (pe_open env) (pe_ralloc env) (pe_mok env) (pe_ok env) (pe_strjunk env)
        \<lparr>q_srvtype = field m (rq_srvtype rq), q_scopelist = field m (rq_scopelist rq), q_predicate = field m (rq_predicate rq)\<rparr>
        (registrations s) = Some (Inr (SLP_ERROR_OK, Some urls, d))"
      "\<forall>p \<in> set urls. plain_at d p" "distinct (map fst (db d))"
    and fits: "length urls < 65536" "length (langtag_of m msg) < 65536" "length (langtag_of m msg) + 18 + length (enc_urls d urls) < 2 ^ 24"
    and env: "pe_reply env" "buffer_ok sendbuf" "\<not> is_mcast msg \<or> urls \<noteq> []" "\<forall>p. mok p"
  shows "\<exists>out s'. ProcessSrvRqst cfg env m msg rq (Some sendbuf) 0 s = Some (Inr (SLP_ERROR_OK, Some out, s'))
    \<and> forget_buf (registrations s') = forget_buf d
    \<and> (\<forall>b extra. bmem b = buf_bytes out @ extra \<and> bend b = bend out \<and> bcur b = 0 \<longrightarrow>
         (\<exists>h r b'. SLPv2MessageParseBuffer mok b = Inr ((h, SrvRply r), b')
           \<and> hd_xid h = hd_xid (msg_header msg) \<and> rp_errorcode r = 0
           \<and> map (\<lambda>x. (ue_lifetime x, wbytes (bmem b') (ue_url x))) (rp_urlarray r)
             = map (\<lambda>p. (unat (life_of d p), url_of d p)) urls))"
proof -
  define lang where "lang = langtag_of m msg"
  define sz where "sz = length lang + 18 + length (enc_urls d urls)"
  let ?xid = "hd_xid (msg_header msg)"
  let ?body = "TO_UINT16 0 @ TO_UINT16 (of_nat (length urls)) @ enc_urls d urls"
  let ?msg = "enc_header SLP_FUNCT_SRVRPLY sz (overflow_flag cfg sz) (ucast ?xid) lang @ ?body"
  have len: "length ?msg = sz" by (simp add: sz_def)
  have e: "map_of (db d) p \<noteq> None" "length (url_of d p) < 65536" "length (r_url (e_reg (the (map_of (db d) p)))) = length (url_of d p)"
    if "p \<in> set urls" for p
    using found(2) that by (auto simp: plain_at_def plain_reg_def url_of_def)
  have us: "urls_size d urls = Some (length (enc_urls d urls))"
    using e by (auto simp: urls_size_def list_all_iff length_concat length_encUrl comp_def add.commute intro!: arg_cong[of _ _ sum_list])
  obtain b0 where b0: "SLPBufferRealloc True (pe_junk env) (Some sendbuf) sz = Some b0" using SLPBufferRealloc_True by blast
  have sb: "Some sendbuf = Some x \<Longrightarrow> buffer_ok x" for x using env(2) by simp
  obtain out where out: "put_bytes ?msg b0 = Inr ((), out)" "buffer_ok out" "bend out = sz" "bcur out = sz" "buf_bytes out = ?msg"
    by (rule message_filled[OF b0 sb len])
  let ?pre = "enc_header SLP_FUNCT_SRVRPLY sz (overflow_flag cfg sz) (ucast ?xid) lang @ TO_UINT16 0 @ TO_UINT16 (of_nat (length urls))"
  have b0k: "buffer_ok b0 \<and> bcur b0 = 0 \<and> bend b0 = sz" by (rule SLPBufferRealloc_key[OF sb b0])
  then have room: "bcur b0 + length ?pre \<le> length (bmem b0)" by (simp add: buffer_ok_def sz_def)
  obtain r1 where r1: "put_bytes ?pre b0 = Inr ((), r1)" using put_bytes_fits[OF room] by blast
  note at1 = put_bytes_at[OF r1]
  have written: "put_bytes (enc_urls d urls) r1 = Inr ((), out)"
    using fun_cong[OF put_bytes_append[of ?pre "enc_urls d urls"], of b0] r1 out(1) by (simp add: bindP_def)
  have fit: "bcur r1 + length (enc_urls d urls) \<le> length (bmem r1)"
    using at1(1,2) b0k by (simp add: buffer_ok_def sz_def)
  obtain d' where d': "put_urls urls d r1 = bindR (put_bytes (enc_urls d urls) r1) (\<lambda>(_, b). Inr (d', b))" "forget_buf d' = forget_buf d"
    by (rule put_urls_plain[OF found(2,3) fit])
  then have d': "put_urls urls d r1 = Inr (d', out)" "forget_buf d' = forget_buf d" using written by simp_all
  have pre: "bindP (put_v2_header SLP_FUNCT_SRVRPLY sz (overflow_flag cfg sz) (ucast ?xid) lang) (\<lambda>_.
      bindP (slp_PutUINT16 (of_nat 0)) (\<lambda>_. slp_PutUINT16 (of_nat (length urls)))) b0 = Inr ((), r1)"
    using r1 by (simp add: put_v2_header_bytes slp_PutUINT16_def put_norm)
  have respond: "srvrqst_respond cfg env m msg (Some urls) 0 (Some sendbuf) (s\<lparr>registrations := d\<rparr>)
      = Inr (0, Some out, s\<lparr>registrations := d'\<rparr>)"
    using env(1,3) us b0 d'(1) pre unfolding srvrqst_respond_def by (auto simp: Let_def lang_def[symmetric] sz_def[symmetric])
  have run: "ProcessSrvRqst cfg env m msg rq (Some sendbuf) 0 s = Some (Inr (SLP_ERROR_OK, Some out, s\<lparr>registrations := d'\<rparr>))"
    using rq found(1) respond by (simp add: ProcessSrvRqst_def Let_def SLP_ERROR_OK_def)
  let ?us = "map (\<lambda>p. (life_of d p, url_of d p)) urls"
  have enc: "concat (map (\<lambda>(l, u). encUrl l u []) ?us) = enc_urls d urls" by (simp add: comp_def)
  have reads: "\<exists>h r b'. SLPv2MessageParseBuffer mok b = Inr ((h, SrvRply r), b')
      \<and> hd_xid h = ?xid \<and> rp_errorcode r = 0
      \<and> map (\<lambda>x. (ue_lifetime x, wbytes (bmem b') (ue_url x))) (rp_urlarray r) = map (\<lambda>p. (unat (life_of d p), url_of d p)) urls"
    if b: "bmem b = ?msg @ extra" "bend b = sz" "bcur b = 0" for b extra
  proof -
    have mm: "bmem b = enc_header SLP_FUNCT_SRVRPLY sz (overflow_flag cfg sz) (ucast ?xid) lang @ ?body @ extra" using b(1) by simp
    have c: "18 \<le> sz" "sz < 2 ^ 24" "1 \<le> SLP_FUNCT_SRVRPLY" "SLP_FUNCT_SRVRPLY \<le> 11" "14 + length lang \<le> sz"
      using fits(3) by (simp_all add: funct_defs sz_def lang_def)
    have lang: "length lang < 65536" using fits(2) by (simp add: lang_def)
    let ?b1 = "b\<lparr>bcur := 14 + length lang\<rparr>"
    obtain h where h: "SLPv2MessageParseHeader b = Inr (h, ?b1)" "hd_functionid h = SLP_FUNCT_SRVRPLY"
      "hd_xid h = ucast (ucast ?xid :: 64 word)" "hd_extoffset h = 0" "inp ?b1 = ?body @ extra"
      by (rule enc_header_read[OF mm b(2,3) c(1-4) lang c(5)]) simp_all
    have inp: "inp ?b1 = TO_UINT16 0 @ TO_UINT16 (of_nat (length ?us)) @ concat (map (\<lambda>(l, u). encUrl l u []) ?us) @ extra"
      using h(5) unfolding enc by simp
    have room: "length ?us < 65536" "\<forall>(l, u) \<in> set ?us. length u < 65536"
      "bcur ?b1 + 4 + length (concat (map (\<lambda>(l, u). encUrl l u []) ?us)) \<le> bend ?b1"
      unfolding enc using e(2) fits(1) b(2) by (auto simp: sz_def)
    obtain r b' where r: "v2ParseSrvRply mok ?b1 = Inr (r, b')" "bmem b' = bmem b" "rp_errorcode r = 0"
      "map (\<lambda>x. (ue_lifetime x, wbytes (bmem b) (ue_url x))) (rp_urlarray r) = map (\<lambda>(l, u). (unat l, u)) ?us"
      by (rule v2ParseSrvRply_enc[OF inp room env(4)]) simp
    have pb: "parse_body mok (hd_functionid h) ?b1 = Inr (SrvRply r, b')"
      using r(1) h(2) by (simp add: parse_body_def mapP_def bindP_def retP_def funct_defs)
    show ?thesis
      using message_parsed[OF h(1) pb h(4)] h(3) r(2-4) by auto
  qed
  show ?thesis
    by (intro exI[of _ out] exI[of _ "s\<lparr>registrations := d'\<rparr>"] conjI run allI impI)
      (use d'(2) reads out(3,5) in simp_all)
qed

text \<open>A request for the type and scope of the sample entry, with the memory its strings point into.\<close>

definition wire_mem :: "8 word list" where
  "wire_mem = bytes_of ''service:xDEFAULT''"

definition wire_rqst :: SLPSrvRqst where
  "wire_rqst =
     \<lparr>rq_prlist = null_wstr, rq_srvtype = \<lparr>wlen = 9, wptr = Some 0\<rparr>, rq_scopelist = \<lparr>wlen = 7, wptr = Some 9\<rparr>,
      rq_predicatever = 2, rq_predicate = null_wstr, rq_spistr = null_wstr\<rparr>"

abbreviation small_buffer :: SLPBuffer where
  "small_buffer \<equiv> \<lparr>allocated = 1, bmem = [0, 0], bcur = 0, bend = 1\<rparr>"

lemma wire_rqst_fields:
  "field wire_mem (rq_srvtype wire_rqst) = ''service:x''" "field wire_mem (rq_scopelist wire_rqst) = ''DEFAULT''"
  "field wire_mem (rq_prlist wire_rqst) = []" "field wire_mem (rq_predicate wire_rqst) = []" "wlen (rq_spistr wire_rqst) = 0"
  by code_simp+

lemma sample_found:
  "SLPDDatabaseSrvRqstStart 100 sample_prop True (\<lambda>_. True) (\<lambda>_. True) True []
     \<lparr>q_srvtype = ''service:x'', q_scopelist = ''DEFAULT'', q_predicate = []\<rparr> sample_database
   = Some (Inr (SLP_ERROR_OK, Some [7], sample_database))"
  by code_simp

theorem SrvRply_roundtrip_witness:
  "\<exists>out s'. ProcessSrvRqst sample_config (sample_penv 8) wire_mem no_message wire_rqst (Some small_buffer) 0 (sample_slpd [])
      = Some (Inr (SLP_ERROR_OK, Some out, s'))
    \<and> (\<forall>b extra. bmem b = buf_bytes out @ extra \<and> bend b = bend out \<and> bcur b = 0 \<longrightarrow>
         (\<exists>h r b'. SLPv2MessageParseBuffer (\<lambda>_. True) b = Inr ((h, SrvRply r), b')
           \<and> hd_xid h = hd_xid (msg_header no_message) \<and> rp_errorcode r = 0
           \<and> map (\<lambda>x. (ue_lifetime x, wbytes (bmem b') (ue_url x))) (rp_urlarray r) = [(10, bytes_of ''service:x://h'')]))"
proof -
  note f = wire_rqst_fields
  have c: "SLPIntersectStringList [] (interfaces sample_config) = 0" "SLPCompareString ''service:x'' ''service:directory-agent'' \<noteq> 0"
    "SLPCompareString ''service:x'' ''service:service-agent'' \<noteq> 0" "SLPIntersectStringList ''DEFAULT'' (useScopes sample_config) \<noteq> 0"
    by code_simp+
  have d: "map_of (db sample_database) 7 = Some sample_entry" by (simp add: sample_database_def)
  have "r_opaque_bytes (e_reg sample_entry) = encUrl 10 (bytes_of ''service:x://h'') []" by code_simp
  then have plain: "plain_at sample_database 7"
    using d by (auto simp: plain_at_def plain_reg_def sample_entry_def sample_reg_def)
  have e: "url_of sample_database 7 = bytes_of ''service:x://h''" "unat (life_of sample_database 7) = 10"
    using d by (simp_all add: url_of_def life_of_def sample_entry_def sample_reg_def)
  have env: "pe_fuel (sample_penv 8) = 100" "db_prop sample_config = sample_prop" "pe_open (sample_penv 8)" "pe_ralloc (sample_penv 8) = (\<lambda>_. True)"
    "pe_mok (sample_penv 8) = (\<lambda>_. True)" "pe_ok (sample_penv 8)" "pe_strjunk (sample_penv 8) = []" "pe_reply (sample_penv 8)"
    "langtag_of wire_mem no_message = []" "\<not> is_mcast no_message" "buffer_ok small_buffer" "distinct (map fst (db sample_database))"
    by (simp_all add: sample_penv_def sample_config_def langtag_of_def no_message_def is_mcast_def SLPNetIsMCast_def wbytes_def null_wstr_def
        buffer_ok_def sample_database_def)
  obtain out s' where r: "ProcessSrvRqst sample_config (sample_penv 8) wire_mem no_message wire_rqst (Some small_buffer) 0 (sample_slpd [])
      = Some (Inr (SLP_ERROR_OK, Some out, s'))"
    and reads: "\<forall>b extra. bmem b = buf_bytes out @ extra \<and> bend b = bend out \<and> bcur b = 0 \<longrightarrow>
         (\<exists>h r b'. SLPv2MessageParseBuffer (\<lambda>_. True) b = Inr ((h, SrvRply r), b') \<and> hd_xid h = hd_xid (msg_header no_message) \<and> rp_errorcode r = 0
           \<and> map (\<lambda>x. (ue_lifetime x, wbytes (bmem b') (ue_url x))) (rp_urlarray r) = [(10, bytes_of ''service:x://h'')])"
    using SrvRply_roundtrip[of wire_mem wire_rqst sample_config "sample_penv 8" "sample_slpd []" "[7]" sample_database no_message small_buffer "\<lambda>_. True"]
      c plain e env sample_found unfolding f by (auto simp: length_encUrl)
  then show ?thesis by (intro exI conjI)
qed

lemma wire_fields: "field wire_mem null_wstr = []" "field wire_mem \<lparr>wlen = 8, wptr = Some 0\<rparr> = ''service:''"
  by code_simp+


section \<open>A registration that is freed while it is in use\<close>

text \<open>
  C33: when the buffer of its acknowledgement cannot be allocated, a registration
  is in the database all the same, but the error makes \<open>SLPDProcessMessage\<close> free the
  message and the buffer that the new entry points into (the fourth component of
  the result): every later use of the entry reads freed memory.
\<close>

theorem registration_freed_in_use:
  assumes len: "length url < 65536" "length ty < 65536" "length sc < 65536" "length al < 65536" "length lang < 65536"
      "14 + length lang + length body < 2 ^ 24"
    and client: "ProcessSrvReg_body junk watch pid life url ty sc al [] [] = Inr (body, extoffset)"
      "request_buffer True junk2 None SLP_FUNCT_SRVREG False extoffset xid lang prl body = Inr (Some out)"
    and recv: "buf_bytes recvbuf = buf_bytes out" "bend recvbuf = bend out" "buffer_ok recvbuf"
    and env: "reg_env_ok (env\<lparr>pe_reply := True\<rparr>) p" "\<not> pe_reply env" "allocated sendbuf < 16 + length lang"
      "SLPNetIsLoopback peer" "SLPIntersectStringList (chars_of sc) (useScopes cfg) \<noteq> 0"
    and db: "db_inv (db_prop cfg) (registrations s)" "p \<notin> fst ` set (db (registrations s))"
      "SLPCheckAttributeListSyntax (chars_of al) = 0" "parse_attributes (pe_al env) (chars_of al) = Inr attr"
      "\<not> refused (db_prop cfg) peer found" "found = List.find (same_service (chars_of url) (chars_of sc)) (db (registrations s))"
  shows "\<exists>s' e. SLPDProcessMessage cfg env peer localaddr recvbuf (Some sendbuf) None s
      = Some (Inr (SLP_ERROR_INTERNAL_ERROR, None, None, True, s'))
    \<and> db (registrations s') = without found (db (registrations s)) @ [(p, e)]
    \<and> r_url (e_reg e) = chars_of url \<and> r_buf (e_reg e) = buf_bytes recvbuf"
proof -
  have ok: "pe_dup env" "pe_msg env" using env(1) by (simp_all add: reg_env_ok_def)
  obtain m h r msg where msg: "msg = \<lparr>msg_peer = peer, msg_localaddr = localaddr, msg_header = h, msg_body = SrvReg r\<rparr>"
    and h: "\<not> is_mcast msg" "langtag_of m msg = lang" "field m (rg_scopelist r) = chars_of sc"
    and reg: "reg_of m (bend recvbuf) msg r =
       \<lparr>r_peer = peer, r_url = chars_of url, r_lifetime = int (unat life), r_srvtype = chars_of ty, r_scopelist = chars_of sc,
        r_attrlist = chars_of al, r_pid = (if watch then pid else 0), r_source = SLP_REG_SOURCE_LOCAL, r_langtag = lang,
        r_authcount = 0, r_opaque = 14 + length lang, r_opaquelen = 6 + length url, r_buf = buf_bytes recvbuf\<rparr>"
    and run: "SLPDProcessMessage cfg env peer localaddr recvbuf (Some sendbuf) None s =
       bindO (process_message cfg env m (bend recvbuf) msg (map_option (\<lambda>b. b\<lparr>bend := 0\<rparr>) (Some sendbuf)) s)
         (\<lambda>(err, sendbuf, s). Some (Inr (err, sendbuf, None, err \<noteq> 0, s)))"
    by (rule registration_received[OF len client recv ok env(4)])
  have al: "al_open (pe_al env)" "al_srvtype (pe_al env)" "al_index (pe_al env)" "al_iter (pe_al env)" "al_entry (pe_al env) = Some p"
    using env(1) by (simp_all add: reg_env_ok_def)
  let ?reg = "reg_of m (bend recvbuf) msg r"
  obtain d e where d: "SLPDDatabaseReg (db_prop cfg) (pe_al env) ?reg (registrations s) = Inr (SLP_ERROR_OK, d)"
    "db d = without found (db (registrations s)) @ [(p, e)]" "e_reg e = stored_reg ?reg"
    using SLPDDatabaseReg_ok[OF db(1) al db(2), of ?reg attr] db(3-6) by (auto simp: reg Let_def)
  have ack: "srvack_respond env m msg SLP_ERROR_OK (Some (sendbuf\<lparr>bend := 0\<rparr>)) = Inr (SLP_ERROR_INTERNAL_ERROR, None)"
    using h(1,2) env(2,3) by (simp add: srvack_respond_def put_reply_def SLPBufferRealloc_def)
  have fin: "ProcessSrvReg cfg env m (bend recvbuf) msg r (Some (sendbuf\<lparr>bend := 0\<rparr>)) 0 s
      = Inr (SLP_ERROR_INTERNAL_ERROR, None, s\<lparr>registrations := d\<rparr>)"
    using h(1,3) env(5) d(1) ack by (simp add: ProcessSrvReg_def)
  have body: "msg_body msg = SrvReg r" by (simp add: msg)
  have "SLPDProcessMessage cfg env peer localaddr recvbuf (Some sendbuf) None s
      = Some (Inr (SLP_ERROR_INTERNAL_ERROR, None, None, True, s\<lparr>registrations := d\<rparr>))"
    unfolding run process_message_def body using fin by (simp add: SLP_ERROR_INTERNAL_ERROR_def)
  then show ?thesis
    using d(2) d(3)[unfolded reg] by (intro exI[of _ "s\<lparr>registrations := d\<rparr>"] exI[of _ e]) (simp add: stored_reg_def)
qed

definition sample_penv0 :: "nat \<Rightarrow> proc_env" where
  "sample_penv0 p = (sample_penv p)\<lparr>pe_reply := False\<rparr>"

text \<open>The sample registration, built by the client.\<close>

lemma sample_request:
  obtains body extoffset out recvbuf where
    "ProcessSrvReg_body (\<lambda>_. 0) True 7 3 (bytes_of ''service:x://h'') (bytes_of ''service:x'') (bytes_of ''DEFAULT'') [] [] []
       = Inr (body, extoffset)"
    "request_buffer True (\<lambda>_. 1) None SLP_FUNCT_SRVREG False extoffset 5 (bytes_of ''en'') [] body = Inr (Some out)"
    "14 + length (bytes_of ''en'') + length body < 2 ^ 24" "bend out = 16 + length body"
    "buf_bytes recvbuf = buf_bytes out" "bend recvbuf = bend out" "buffer_ok recvbuf"
proof -
  let ?url = "bytes_of ''service:x://h''" and ?ty = "bytes_of ''service:x''" and ?sc = "bytes_of ''DEFAULT''" and ?lang = "bytes_of ''en''"
  obtain body extoffset where b: "ProcessSrvReg_body (\<lambda>_. 0) True 7 3 ?url ?ty ?sc [] [] [] = Inr (body, extoffset)"
    "14 + length ?lang + length body < 2 ^ 24"
    by (simp add: ProcessSrvReg_body_bytes Let_def length_encUrl enc_pid_def)
  obtain out where out: "request_buffer True (\<lambda>_. 1) None SLP_FUNCT_SRVREG False extoffset 5 ?lang [] body = Inr (Some out)"
    "length (bmem out) = bend out + 1" "bcur out = bend out" "bend out = 14 + length ?lang + length body"
    using SrvReg_roundtrip[OF _ _ _ _ _ b, of "\<lambda>_. 1" False 5 "[]"] by fastforce
  show ?thesis
    by (rule that[OF b(1) out(1) b(2), of "out\<lparr>allocated := bend out\<rparr>"]) (use out(2-4) in \<open>simp_all add: buffer_ok_def buf_bytes_def\<close>)
qed

lemma sample_registration_facts:
  "chars_of (bytes_of ''service:x://h'') = ''service:x://h''" "chars_of (bytes_of ''service:x'') = ''service:x''"
  "chars_of (bytes_of ''DEFAULT'') = ''DEFAULT''"
  "SLPIntersectStringList ''DEFAULT'' (useScopes sample_config) \<noteq> 0" "SLPCheckAttributeListSyntax (chars_of []) = 0"
  "List.find (same_service ''service:x://h'' ''DEFAULT'') (db sample_database) = Some (7, sample_entry)"
  "\<not> refused (db_prop sample_config) (AF_INET 0x7f000001) (Some (7, sample_entry))"
  by code_simp+

lemma sample_registration_env:
  "SLPNetIsLoopback (AF_INET 0x7f000001)" "db_inv (db_prop sample_config) (registrations (sample_slpd []))"
  "8 \<notin> fst ` set (db (registrations (sample_slpd [])))" "buffer_ok small_buffer" "reg_env_ok (sample_penv 8) 8"
  "\<exists>a. parse_attributes (pe_al (sample_penv 8)) [] = Inr (Some a)"
  using db_inv_sample parse_no_attributes[of "sample_al 8"]
  by (auto simp: SLPNetIsLoopback_def sample_config_def sample_database_def buffer_ok_def reg_env_ok_def sample_penv_def sample_al_def)

theorem registration_freed_in_use_witness:
  "\<exists>recvbuf s' e. SLPDProcessMessage sample_config (sample_penv0 8) (AF_INET 0x7f000001) (AF_INET 0x7f000001) recvbuf
         (Some small_buffer) None (sample_slpd []) = Some (Inr (SLP_ERROR_INTERNAL_ERROR, None, None, True, s'))
     \<and> db (registrations s') = [(8, e)] \<and> r_buf (e_reg e) = buf_bytes recvbuf"
proof -
  note f = sample_registration_facts and v = sample_registration_env
  obtain body extoffset out recvbuf where b:
    "ProcessSrvReg_body (\<lambda>_. 0) True 7 3 (bytes_of ''service:x://h'') (bytes_of ''service:x'') (bytes_of ''DEFAULT'') [] [] []
       = Inr (body, extoffset)"
    "request_buffer True (\<lambda>_. 1) None SLP_FUNCT_SRVREG False extoffset 5 (bytes_of ''en'') [] body = Inr (Some out)"
    "14 + length (bytes_of ''en'') + length body < 2 ^ 24" "buf_bytes recvbuf = buf_bytes out" "bend recvbuf = bend out" "buffer_ok recvbuf"
    by (rule sample_request)
  obtain a where a: "parse_attributes (pe_al (sample_penv0 8)) (chars_of []) = Inr (Some a)" using v(6) by (auto simp: sample_penv0_def)
  have env: "reg_env_ok (sample_penv0 8\<lparr>pe_reply := True\<rparr>) 8" "\<not> pe_reply (sample_penv0 8)"
    "allocated small_buffer < 16 + length (bytes_of ''en'')"
    using v(5) by (simp_all add: sample_penv0_def reg_env_ok_def)
  have sc: "SLPIntersectStringList (chars_of (bytes_of ''DEFAULT'')) (useScopes sample_config) \<noteq> 0" unfolding f(3) by (rule f(4))
  have found: "Some (7, sample_entry) = List.find (same_service (chars_of (bytes_of ''service:x://h'')) (chars_of (bytes_of ''DEFAULT'')))
      (db (registrations (sample_slpd [])))" unfolding f(1,3) using f(6) by simp
  have len: "length (bytes_of ''service:x://h'') < 65536" "length (bytes_of ''service:x'') < 65536" "length (bytes_of ''DEFAULT'') < 65536"
    "length ([] :: 8 word list) < 65536" "length (bytes_of ''en'') < 65536" by simp_all
  from registration_freed_in_use[OF len b(3,1,2,4-6) env v(1) sc v(2,3) f(5) a f(7) found] obtain s' e where
    "SLPDProcessMessage sample_config (sample_penv0 8) (AF_INET 0x7f000001) (AF_INET 0x7f000001) recvbuf (Some small_buffer) None (sample_slpd [])
      = Some (Inr (SLP_ERROR_INTERNAL_ERROR, None, None, True, s'))"
    "db (registrations s') = without (Some (7, sample_entry)) (db sample_database) @ [(8, e)]" "r_buf (e_reg e) = buf_bytes recvbuf"
    by fastforce
  then show ?thesis by (intro exI[of _ recvbuf] exI[of _ s'] exI[of _ e]) (simp add: without_def sample_database_def)
qed

end
