(* ===== verification/SLPD_RegFile.thy ===== *)
theory SLPD_RegFile
  imports SLP_Property SLPD_Process
begin

text \<open>
  The file of static registrations, \<open>slpd/slpd_regfile.c\<close>: the lines of a
  registration are read into its fields, a registration message is made of them
  and parsed again, and the result goes into the database.  The file is its
  contents, what has not been read yet.
\<close>

section \<open>Lines\<close>

abbreviation CR :: char where "CR \<equiv> CHR 0x0D"

text \<open>
  \<open>TrimWhitespace\<close>: the string from its first character that is not white space.
  In place only the white space at the end is cut off.
\<close>

definition TrimWhitespace :: "string \<Rightarrow> string" where
  "TrimWhitespace s = trim_right blank (dropWhile blank s)"

definition line_end :: "char \<Rightarrow> bool" where
  "line_end c \<longleftrightarrow> c = CR \<or> c = LF"

definition REG_LINESIZE :: nat where "REG_LINESIZE = 4096"

text \<open>
  The pointer moves over the white space before a comment, and the next line is
  read at the place it has come to, still with the size of the whole buffer.
\<close>

function RegFileReadLine :: "nat \<Rightarrow> string \<Rightarrow> (string \<times> string) option res" where
  "RegFileReadLine off s =
     (case c_fgets REG_LINESIZE s of
        None \<Rightarrow> Inr None
      | Some (raw, rest) \<Rightarrow>
          (if REG_LINESIZE < off + length raw + 1 then Inl OutOfBounds
           else
             (let str = c_string raw;
                  ws = takeWhile (\<lambda>c. blank c \<and> \<not> line_end c) str;
                  line = drop (length ws) str
              in if line \<noteq> [] \<and> hd line \<notin> set ''#;'' then Inr (Some (line, rest))
                 else RegFileReadLine (off + length ws) rest)))"
  by pat_completeness auto
termination
  by (relation "measure (\<lambda>(off, s). length s)") (auto dest: c_fgets_less simp: REG_LINESIZE_def)

declare RegFileReadLine.simps [simp del]

text \<open>The next line that is not empty.\<close>

lemma RegFileReadLine_less: "RegFileReadLine off s = Inr (Some (line, rest)) \<Longrightarrow> length rest < length s"
proof (induction off s rule: RegFileReadLine.induct)
  case (1 off s)
  from 1(2) obtain raw r where f: "c_fgets REG_LINESIZE s = Some (raw, r)"
    by (subst (asm) RegFileReadLine.simps) (auto split: option.splits)
  have l: "length r < length s" using c_fgets_less[OF f] by (simp add: REG_LINESIZE_def)
  show ?case
    using 1(2) 1(1)[OF f refl] l f
    by (subst (asm) RegFileReadLine.simps) (fastforce simp: Let_def split: if_splits)
qed

function first_line :: "string \<Rightarrow> (string \<times> string) option res" where
  "first_line s =
     (case RegFileReadLine 0 s of
        Inl e \<Rightarrow> Inl e
      | Inr None \<Rightarrow> Inr None
      | Inr (Some (line, rest)) \<Rightarrow> (if line_end (chd line) then first_line rest else Inr (Some (line, rest))))"
  by pat_completeness auto
termination
  by (relation "measure length") (auto dest: RegFileReadLine_less)

declare first_line.simps [simp del]

lemma first_line_less: "first_line s = Inr (Some (line, rest)) \<Longrightarrow> length rest < length s"
proof (induction s rule: first_line.induct)
  case (1 s)
  then show ?case
    by (subst (asm) (2) first_line.simps) (fastforce split: sum.splits option.splits if_splits dest: RegFileReadLine_less)
qed

section \<open>A registration\<close>

text \<open>Which allocations succeed while one registration is read; \<open>rm_attr\<close> by the length of the rest of the file.\<close>

record regfile_mem =
  rm_url :: bool
  rm_srvtype :: bool
  rm_lang :: bool
  rm_scope :: bool
  rm_default :: bool
  rm_attr :: "nat \<Rightarrow> bool"
  rm_buf :: bool
  rm_junk :: "nat \<Rightarrow> 8 word"
  rm_msg :: bool
  rm_mok :: "nat \<Rightarrow> bool"

definition url_props :: "regfile_mem \<Rightarrow> string \<Rightarrow> (string \<times> string \<times> string \<times> int) res" where
  "url_props mem line =
     (case c_memchr CHR '','' line of
        None \<Rightarrow> Inl (SlpError SLP_ERROR_INVALID_REGISTRATION)
      | Some i \<Rightarrow>
          (let srvurl = trim_right blank (take i line);
               url = TrimWhitespace srvurl;
               slider1 = drop (i + 1) line
           in bindR (guardR (rm_url mem) SLP_ERROR_INTERNAL_ERROR) (\<lambda>_.
              case c_find ''://'' srvurl of
                None \<Rightarrow> Inl (SlpError SLP_ERROR_INVALID_REGISTRATION)
              | Some j \<Rightarrow>
                  bindR (guardR (rm_srvtype mem) SLP_ERROR_INTERNAL_ERROR) (\<lambda>_.
                  case c_memchr CHR '','' slider1 of
                    None \<Rightarrow> Inl (SlpError SLP_ERROR_INVALID_REGISTRATION)
                  | Some k \<Rightarrow>
                      bindR (guardR (rm_lang mem) SLP_ERROR_INVALID_REGISTRATION) (\<lambda>_.
                      let slider2 = drop (k + 1) slider1;
                          lifetime = c_atoi (case c_memchr CHR '','' slider2 of None \<Rightarrow> slider2 | Some m \<Rightarrow> take m slider2)
                      in if lifetime < 1 \<or> lifetime > SLP_LIFETIME_MAXIMUM
                         then Inl (SlpError SLP_ERROR_INVALID_REGISTRATION)
                         else Inr (url, TrimWhitespace (take j srvurl), TrimWhitespace (take k slider1), lifetime))))))"

text \<open>
  The attribute list with the length that is kept for it; the block it is copied
  into has one byte more than the length had when it was allocated.  When it
  cannot be enlarged, the old block is released twice.
\<close>

definition add_attribute :: "bool \<Rightarrow> string \<Rightarrow> string option \<times> nat \<Rightarrow> (string option \<times> nat) res" where
  "add_attribute ok line st =
     (let (attrlist, len) = st;
          a = trim_right blank line;
          len1 = len + length a + (if attrlist = None then 2 else 3);
          start = (case attrlist of None \<Rightarrow> [] | Some l \<Rightarrow> l @ '','')
      in if \<not> ok then (if attrlist = None then Inl (SlpError SLP_ERROR_INTERNAL_ERROR) else Inl OutOfBounds)
         else
           (let (new, len2) = (if CHR ''='' \<in> set a then (start @ ''('' @ a @ '')'', len1) else (start @ a, len1 - 2))
            in if length new < len1 + 1 then Inr (Some new, len2) else Inl OutOfBounds))"

record reg_fields =
  rf_scopelist :: "string option"
  rf_attrs :: "string option \<times> nat"

definition SCOPES_TAG :: string where "SCOPES_TAG = ''scopes''"

definition field_line :: "regfile_mem \<Rightarrow> nat \<Rightarrow> string \<Rightarrow> reg_fields \<Rightarrow> reg_fields res" where
  "field_line mem n line f =
     (if c_strncasecmp 6 line SCOPES_TAG = 0
      then (case c_memchr CHR ''='' line of
              None \<Rightarrow> Inr f
            | Some i \<Rightarrow>
                (let v = drop (i + 1) line
                 in if v = [] then Inr f
                    else if rf_scopelist f \<noteq> None then Inl (SlpError SLP_ERROR_SCOPE_NOT_SUPPORTED)
                    else bindR (guardR (rm_scope mem) SLP_ERROR_INTERNAL_ERROR) (\<lambda>_.
                         Inr (f\<lparr>rf_scopelist := Some (TrimWhitespace v)\<rparr>))))
      else bindR (add_attribute (rm_attr mem n) line (rf_attrs f)) (\<lambda>as. Inr (f\<lparr>rf_attrs := as\<rparr>)))"

text \<open>The lines up to an empty one or to the end, and what is left of the file; an error stops at its line.\<close>

function field_lines :: "regfile_mem \<Rightarrow> string \<Rightarrow> reg_fields \<Rightarrow> (reg_fields res \<times> string) res" where
  "field_lines mem s f =
     (case RegFileReadLine 0 s of
        Inl e \<Rightarrow> Inl e
      | Inr None \<Rightarrow> Inr (Inr f, [])
      | Inr (Some (line, rest)) \<Rightarrow>
          (if line_end (chd line) then Inr (Inr f, rest)
           else
             (case field_line mem (length rest) line f of
                Inl OutOfBounds \<Rightarrow> Inl OutOfBounds
              | Inl e \<Rightarrow> Inr (Inl e, rest)
              | Inr f \<Rightarrow> field_lines mem rest f)))"
  by pat_completeness auto
termination
  by (relation "measure (\<lambda>(mem, s, f). length s)") (auto dest: RegFileReadLine_less)

declare field_lines.simps [simp del]

text \<open>The message that is made of the fields.\<close>

definition put_srvreg :: "string \<Rightarrow> string \<Rightarrow> string \<Rightarrow> int \<Rightarrow> string \<Rightarrow> string \<times> nat \<Rightarrow> nat \<Rightarrow> unit parser" where
  "put_srvreg langtag url srvtype lifetime scopelist alist bufsize =
     bindP (put_bytes [2]) (\<lambda>_.
     bindP (put_bytes [of_nat SLP_FUNCT_SRVREG]) (\<lambda>_.
     bindP (slp_PutUINT24 (of_nat bufsize)) (\<lambda>_.
     bindP (slp_PutUINT16 0) (\<lambda>_.
     bindP (slp_PutUINT24 0) (\<lambda>_.
     bindP (slp_PutUINT16 0) (\<lambda>_.
     bindP (slp_PutUINT16 (of_nat (length langtag))) (\<lambda>_.
     bindP (put_bytes (bytes_of langtag)) (\<lambda>_.
     bindP (put_bytes [0]) (\<lambda>_.
     bindP (slp_PutUINT16 (word_of_int lifetime)) (\<lambda>_.
     bindP (slp_PutUINT16 (of_nat (length url))) (\<lambda>_.
     bindP (put_bytes (bytes_of url)) (\<lambda>_.
     bindP (put_bytes [0]) (\<lambda>_.
     bindP (slp_PutUINT16 (of_nat (length srvtype))) (\<lambda>_.
     bindP (put_bytes (bytes_of srvtype)) (\<lambda>_.
     bindP (slp_PutUINT16 (of_nat (length scopelist))) (\<lambda>_.
     bindP (put_bytes (bytes_of scopelist)) (\<lambda>_.
     bindP (slp_PutUINT16 (of_nat (snd alist))) (\<lambda>_.
     bindP (if length (fst alist) < snd alist then (\<lambda>b. Inl OutOfBounds) else put_bytes (bytes_of (take (snd alist) (fst alist)))) (\<lambda>_.
     put_bytes [0])))))))))))))))))))"

definition static_message ::
  "regfile_mem \<Rightarrow> string \<Rightarrow> string \<Rightarrow> string \<Rightarrow> int \<Rightarrow> string \<Rightarrow> string \<times> nat \<Rightarrow> reg_msg res" where
  "static_message mem langtag url srvtype lifetime scopelist alist =
     (let bufsize = 14 + length langtag + (length url + 6) + (length srvtype + 2) + (length scopelist + 2) + (snd alist + 2) + 1
      in case SLPBufferAlloc (rm_buf mem) (rm_junk mem) bufsize of
           None \<Rightarrow> Inl (SlpError SLP_ERROR_INTERNAL_ERROR)
         | Some tmp \<Rightarrow>
             bindR (put_srvreg langtag url srvtype lifetime scopelist alist bufsize tmp) (\<lambda>(_, buf).
             bindR (guardR (rm_msg mem) SLP_ERROR_INTERNAL_ERROR) (\<lambda>_.
             bindR (SLPMessageParseBuffer (rm_mok mem) (Some AF_UNSPEC) (Some AF_UNSPEC) no_message buf) (\<lambda>(msg, b).
               case msg_body msg of
                 SrvReg r \<Rightarrow> Inr ((reg_of (bmem b) (bend b) msg r)\<lparr>r_source := SLP_REG_SOURCE_STATIC\<rparr>)
               | _ \<Rightarrow> Inl OutOfBounds))))"

datatype regfile_result = RF_Eof | RF_Error nat | RF_Reg reg_msg

definition as_result :: "reg_msg res \<Rightarrow> regfile_result res" where
  "as_result r = (case r of Inl OutOfBounds \<Rightarrow> Inl OutOfBounds | Inl (SlpError e) \<Rightarrow> Inr (RF_Error e) | Inr reg \<Rightarrow> Inr (RF_Reg reg))"

definition made_registration ::
  "SLPDConfig \<Rightarrow> regfile_mem \<Rightarrow> string \<times> string \<times> string \<times> int \<Rightarrow> reg_fields \<Rightarrow> reg_msg res" where
  "made_registration cfg mem props f =
     (let (url, srvtype, langtag, lifetime) = props;
          (attrlist, len) = rf_attrs f
      in bindR (case rf_scopelist f of Some sc \<Rightarrow> Inr sc
                | None \<Rightarrow> (if rm_default mem then Inr (useScopes cfg) else Inl (SlpError SLP_ERROR_INTERNAL_ERROR))) (\<lambda>scopelist.
         static_message mem langtag url srvtype lifetime scopelist (case attrlist of None \<Rightarrow> [] | Some l \<Rightarrow> l, len)))"

definition SLPDRegFileReadSrvReg :: "SLPDConfig \<Rightarrow> regfile_mem \<Rightarrow> string \<Rightarrow> (regfile_result \<times> string) res" where
  "SLPDRegFileReadSrvReg cfg mem s =
     bindR (first_line s) (\<lambda>l.
       case l of
         None \<Rightarrow> Inr (RF_Eof, [])
       | Some (line, rest) \<Rightarrow>
           (case url_props mem line of
              Inl e \<Rightarrow> bindR (as_result (Inl e)) (\<lambda>r. Inr (r, rest))
            | Inr props \<Rightarrow>
                bindR (field_lines mem rest \<lparr>rf_scopelist = None, rf_attrs = (None, 0)\<rparr>) (\<lambda>(f, rest).
                  bindR (as_result (bindR f (made_registration cfg mem props))) (\<lambda>r. Inr (r, rest)))))"

lemma field_lines_le: "field_lines mem s f = Inr (r, rest) \<Longrightarrow> length rest \<le> length s"
proof (induction mem s f rule: field_lines.induct)
  case (1 mem s f)
  then show ?case
    by (subst (asm) (2) field_lines.simps)
      (fastforce split: sum.splits option.splits if_splits fault.splits dest: RegFileReadLine_less)
qed

lemma SLPDRegFileReadSrvReg_less:
  assumes "SLPDRegFileReadSrvReg cfg mem s = Inr (RF_Reg r, rest)"
  shows "length rest < length s"
proof -
  obtain line rest0 where l: "first_line s = Inr (Some (line, rest0))"
    and r: "(case url_props mem line of
              Inl e \<Rightarrow> bindR (as_result (Inl e)) (\<lambda>r. Inr (r, rest0))
            | Inr props \<Rightarrow>
                bindR (field_lines mem rest0 \<lparr>rf_scopelist = None, rf_attrs = (None, 0)\<rparr>) (\<lambda>(f, rest).
                  bindR (as_result (bindR f (made_registration cfg mem props))) (\<lambda>r. Inr (r, rest)))) = Inr (RF_Reg r, rest)"
    using assms by (auto simp: SLPDRegFileReadSrvReg_def bindR_Inr_iff split: option.splits)
  have "length rest \<le> length rest0"
    using r by (auto simp: bindR_Inr_iff split: sum.splits dest: field_lines_le)
  then show ?thesis using first_line_less[OF l] by simp
qed

text \<open>The registrations up to the first result that is none.\<close>

function regfile_regs :: "SLPDConfig \<Rightarrow> (nat \<Rightarrow> regfile_mem) \<Rightarrow> string \<Rightarrow> reg_msg list res" where
  "regfile_regs cfg mem s =
     (case SLPDRegFileReadSrvReg cfg (mem (length s)) s of
        Inl e \<Rightarrow> Inl e
      | Inr (RF_Reg reg, rest) \<Rightarrow> bindR (regfile_regs cfg mem rest) (\<lambda>regs. Inr (reg # regs))
      | Inr _ \<Rightarrow> Inr [])"
  by pat_completeness auto
termination
  by (relation "measure (\<lambda>(cfg, mem, s). length s)") (auto dest: SLPDRegFileReadSrvReg_less)

declare regfile_regs.simps [simp del]

definition static_reinit ::
  "SLPDConfig \<Rightarrow> (nat \<Rightarrow> regfile_mem) \<Rightarrow> (nat \<Rightarrow> allocations) \<Rightarrow> bool \<Rightarrow> bool \<Rightarrow> string option \<Rightarrow> SLPDDatabase \<Rightarrow> SLPDDatabase res" where
  "static_reinit cfg mem al open_ok iter_ok regfile d =
     (case regfile of
        None \<Rightarrow> SLPDDatabaseReInit (db_prop cfg) open_ok iter_ok [] d
      | Some s \<Rightarrow>
          bindR (regfile_regs cfg mem s) (\<lambda>regs.
            SLPDDatabaseReInit (db_prop cfg) open_ok iter_ok (map (\<lambda>(i, reg). (al i, reg)) (enumerate 0 regs)) d))"

section \<open>The message of a registration\<close>

definition static_bytes :: "string \<Rightarrow> string \<Rightarrow> string \<Rightarrow> int \<Rightarrow> string \<Rightarrow> string \<Rightarrow> 8 word list" where
  "static_bytes lang url ty life sc al =
     enc_header SLP_FUNCT_SRVREG (27 + length lang + length url + length ty + length sc + length al) 0 0 (bytes_of lang) @
     encUrl (word_of_int life) (bytes_of url) [] @ encS (bytes_of ty) @ encS (bytes_of sc) @ encS (bytes_of al) @ [0]"

definition static_reg :: "string \<Rightarrow> string \<Rightarrow> string \<Rightarrow> int \<Rightarrow> string \<Rightarrow> string \<Rightarrow> reg_msg" where
  "static_reg lang url ty life sc al =
     \<lparr>r_peer = AF_UNSPEC, r_url = url, r_lifetime = life, r_srvtype = ty, r_scopelist = sc, r_attrlist = al, r_pid = 0,
      r_source = SLP_REG_SOURCE_STATIC, r_langtag = bytes_of lang, r_authcount = 0, r_opaque = 14 + length lang,
      r_opaquelen = 6 + length url, r_buf = static_bytes lang url ty life sc al\<rparr>"

lemma length_static_bytes: "length (static_bytes lang url ty life sc al) = 27 + length lang + length url + length ty + length sc + length al"
  by (simp add: static_bytes_def length_encUrl)

lemma lifetime_word: "0 \<le> life \<Longrightarrow> life < 65536 \<Longrightarrow> (ucast (word_of_int life :: 16 word) :: 64 word) = word_of_int life"
  by (rule word_uint_eqI) (simp add: unsigned_ucast_eq uint_word_of_int take_bit_eq_mod)

lemma put_srvreg_bytes:
  assumes "0 \<le> life" "life < 65536"
  shows "put_srvreg lang url ty life sc (al, length al) (27 + length lang + length url + length ty + length sc + length al)
     = put_bytes (static_bytes lang url ty life sc al)"
  unfolding put_srvreg_def slp_PutUINT16_def slp_PutUINT24_def put_norm static_bytes_def enc_header_def encUrl_def encS_def
  by (simp add: put_norm lifetime_word[OF assms])

lemma static_message_ok:
  assumes "length lang < 65536" "length url < 65536" "length ty < 65536" "length sc < 65536" "length al < 65536"
    and "0 \<le> life" "life < 65536" "rm_buf mem" "rm_msg mem"
  shows "static_message mem lang url ty life sc (al, length al) = Inr (static_reg lang url ty life sc al)"
proof -
  let ?msg = "static_bytes lang url ty life sc al"
  let ?body = "encUrl (word_of_int life) (bytes_of url) [] @ encS (bytes_of ty) @ encS (bytes_of sc) @ encS (bytes_of al) @ [0]"
  define sz where "sz = 27 + length lang + length url + length ty + length sc + length al"
  have sz: "14 + length lang + (length url + 6) + (length ty + 2) + (length sc + 2) + (length al + 2) + 1 = sz"
    by (simp add: sz_def)
  have lmsg: "length ?msg = sz" by (simp add: length_static_bytes sz_def)
  obtain b0 where b0: "SLPBufferRealloc True (rm_junk mem) None sz = Some b0" using SLPBufferRealloc_True by blast
  obtain out where out: "put_bytes ?msg b0 = Inr ((), out)" "buffer_ok out" "bend out = sz" "buf_bytes out = ?msg"
    by (rule message_filled[OF b0 _ lmsg]) auto
  let ?b = "out\<lparr>bcur := 0\<rparr>"
  have m: "bmem ?b = enc_header SLP_FUNCT_SRVREG sz 0 0 (bytes_of lang) @ ?body @ drop sz (bmem out)" "bend ?b = sz" "bcur ?b = 0"
  proof -
    have "bmem out = ?msg @ drop sz (bmem out)" using out(2-4) by (metis append_take_drop_id buf_bytes_def)
    then show "bmem ?b = enc_header SLP_FUNCT_SRVREG sz 0 0 (bytes_of lang) @ ?body @ drop sz (bmem out)"
      by (simp add: static_bytes_def sz_def)
  qed (use out(3) in simp_all)
  have c: "18 \<le> sz" "sz < 2 ^ 24" "1 \<le> SLP_FUNCT_SRVREG" "SLP_FUNCT_SRVREG \<le> 11" "14 + length (bytes_of lang) \<le> sz"
    "length (bytes_of lang) < 65536"
    using assms(1-5) by (simp_all add: sz_def funct_defs)
  let ?b1 = "?b\<lparr>bcur := 14 + length (bytes_of lang)\<rparr>"
  obtain h where h: "SLPv2MessageParseHeader ?b = Inr (h, ?b1)" "hd_version h = 2" "hd_functionid h = SLP_FUNCT_SRVREG"
    "hd_extoffset h = 0" "wbytes (bmem ?b) (hd_langtag h) = bytes_of lang" "inp ?b1 = ?body @ drop sz (bmem out)"
    by (rule enc_header_read[OF m c(1-4,6,5)]) simp_all
  have i: "inp ?b1 = encUrl (word_of_int life) (bytes_of url) [] @ encS (bytes_of ty) @ encS (bytes_of sc) @ encS (bytes_of al) @ [0] @ drop sz (bmem out)"
    using h(6) by simp
  have room: "bcur ?b1 + length ?body \<le> bend ?b1" using out(3) by (simp add: sz_def length_encUrl)
  have l: "length (bytes_of url) < 65536" "length (bytes_of ty) < 65536" "length (bytes_of sc) < 65536" "length (bytes_of al) < 65536"
    using assms(2-5) by simp_all
  obtain r where r: "v2ParseSrvReg (rm_mok mem) ?b1 = Inr (r, ?b1\<lparr>bcur := bcur ?b1 + length ?body\<rparr>)"
    "ue_lifetime (rg_urlentry r) = unat (word_of_int life :: 16 word)" "rg_pid r = 0" "ue_autharray (rg_urlentry r) = []"
    "ue_opaque (rg_urlentry r) = bcur ?b1" "ue_opaquelen (rg_urlentry r) = 6 + length (bytes_of url)"
    "map (wbytes (bmem ?b1)) [ue_url (rg_urlentry r), rg_srvtype r, rg_scopelist r, rg_attrlist r] = map bytes_of [url, ty, sc, al]"
    by (rule v2ParseSrvReg_enc[OF i l room, of "rm_mok mem"]) simp
  have pb: "parse_body (rm_mok mem) (hd_functionid h) ?b1 = Inr (SrvReg r, ?b1\<lparr>bcur := bcur ?b1 + length ?body\<rparr>)"
    using r(1) h(3) by (simp add: parse_body_def mapP_def bindP_def retP_def funct_defs)
  obtain t where "enc_header SLP_FUNCT_SRVREG sz 0 0 (bytes_of lang) = 2 # t" by (simp add: enc_header_def)
  then have "bmem out = 2 # t @ ?body @ drop sz (bmem out)" using m(1) by simp
  then have hd: "rdR (bmem out) 0 = Inr 2" by (cases "bmem out") (simp_all add: rdR_def)
  have p: "SLPMessageParseBuffer (rm_mok mem) (Some AF_UNSPEC) (Some AF_UNSPEC) no_message out
      = Inr (\<lparr>msg_peer = AF_UNSPEC, msg_localaddr = AF_UNSPEC, msg_header = h, msg_body = SrvReg r\<rparr>, ?b1\<lparr>bcur := bcur ?b1 + length ?body\<rparr>)"
    using message_parsed[OF h(1) pb h(4)] hd
    by (simp add: SLPMessageParseBuffer_def bindP_def retP_def no_message_def SLPMessageFreeInternals_def)
  have life: "int (unat (word_of_int life :: 16 word)) = life"
    using assms(6,7) by (simp add: uint_word_of_int take_bit_eq_mod)
  have fields: "field (bmem out) (ue_url (rg_urlentry r)) = url" "field (bmem out) (rg_srvtype r) = ty"
    "field (bmem out) (rg_scopelist r) = sc" "field (bmem out) (rg_attrlist r) = al"
    using r(7) by (simp_all add: field_def)
  have "take sz (bmem out) = ?msg" using out(3,4) by (simp add: buf_bytes_def)
  then have reg: "(reg_of (bmem out) sz \<lparr>msg_peer = AF_UNSPEC, msg_localaddr = AF_UNSPEC, msg_header = h, msg_body = SrvReg r\<rparr> r)
      \<lparr>r_source := SLP_REG_SOURCE_STATIC\<rparr> = static_reg lang url ty life sc al"
    using r(2-6) h(5) fields life by (simp add: reg_of_def static_reg_def langtag_of_def)
  show ?thesis
    unfolding static_message_def Let_def snd_conv SLPBufferAlloc_Realloc sz put_srvreg_bytes[OF assms(6,7), of lang url ty sc al, folded sz_def]
    using assms(8,9) by (simp add: b0 out(1,3) p reg)
qed

section \<open>Reading the lines of a registration\<close>

text \<open>A line as it can be read back: it has characters, and white space only inside.\<close>

definition plain_line :: "string \<Rightarrow> bool" where
  "plain_line l \<longleftrightarrow> l \<noteq> [] \<and> \<not> blank (hd l) \<and> \<not> blank (last l) \<and> hd l \<notin> set ''#;'' \<and> (\<forall>c\<in>set l. c \<notin> set [NUL, LF])
     \<and> length l \<le> 4094"

lemma RegFileReadLine_line:
  assumes "plain_line l"
  shows "RegFileReadLine 0 (l @ LF # rest) = Inr (Some (l @ [LF], rest))"
proof -
  obtain c l' where l: "l = c # l'" using assms by (cases l) (auto simp: plain_line_def)
  have f: "c_fgets REG_LINESIZE (l @ LF # rest) = Some (l @ [LF], rest)"
    using assms by (intro c_fgets_line) (auto simp: plain_line_def REG_LINESIZE_def)
  have s: "c_string (l @ [LF]) = l @ [LF]" using assms by (intro c_string_id) (auto simp: plain_line_def)
  have len: "\<not> REG_LINESIZE < 0 + length (l @ [LF]) + 1" using assms by (simp add: plain_line_def REG_LINESIZE_def)
  have "\<not> blank c" "c \<notin> set ''#;''" using assms l by (simp_all add: plain_line_def)
  then show ?thesis
    unfolding RegFileReadLine.simps[of 0 "l @ LF # rest"] f option.case prod.case s Let_def using len by (simp add: l)
qed

lemma RegFileReadLine_empty: "RegFileReadLine 0 (LF # rest) = Inr (Some ([LF], rest))"
proof -
  have f: "c_fgets REG_LINESIZE (LF # rest) = Some ([LF], rest)" using c_fgets_line[of "[]" REG_LINESIZE rest] by (simp add: REG_LINESIZE_def)
  show ?thesis
    unfolding RegFileReadLine.simps[of 0 "LF # rest"] f by (simp add: c_string_def line_end_def REG_LINESIZE_def)
qed

lemma blank_CR: "blank CR"
  by (simp add: blank_def schar_def)

lemma plain_line_not_end: "plain_line l \<Longrightarrow> \<not> line_end (chd (l @ rest))"
  using blank_CR by (cases l) (auto simp: plain_line_def chd_def line_end_def)

lemma first_line_line: "plain_line l \<Longrightarrow> first_line (l @ LF # rest) = Inr (Some (l @ [LF], rest))"
  using RegFileReadLine_line[of l rest] plain_line_not_end[of l "[LF]"] by (subst first_line.simps) simp

lemma first_line_end: "first_line [] = Inr None"
  by (simp add: first_line.simps RegFileReadLine.simps c_fgets_def)

text \<open>Words without white space at their ends.\<close>

definition trimmed :: "string \<Rightarrow> bool" where
  "trimmed s \<longleftrightarrow> s \<noteq> [] \<and> \<not> blank (hd s) \<and> \<not> blank (last s)"

lemma TrimWhitespace_trimmed: "trimmed s \<Longrightarrow> TrimWhitespace s = s"
  using trim_right_end[of s blank "[]"] by (cases s) (auto simp: TrimWhitespace_def trimmed_def)

lemma TrimWhitespace_line: "trimmed s \<Longrightarrow> TrimWhitespace (s @ [LF]) = s"
  using trim_right_end[of s blank "[LF]"] by (cases s) (auto simp: TrimWhitespace_def trimmed_def)

record reg_entry =
  re_srvtype :: string
  re_host :: string
  re_lang :: string
  re_life :: nat
  re_scopes :: "string option"
  re_attrs :: "string list"

definition re_url :: "reg_entry \<Rightarrow> string" where
  "re_url e = re_srvtype e @ ''://'' @ re_host e"

definition props_line :: "reg_entry \<Rightarrow> string" where
  "props_line e = re_url e @ '','' @ re_lang e @ '','' @ decimal_nat (re_life e)"

definition reg_text :: "reg_entry \<Rightarrow> string" where
  "reg_text e = props_line e @ [LF] @ (case re_scopes e of None \<Rightarrow> [] | Some sc \<Rightarrow> ''scopes='' @ sc @ [LF])
     @ concat (map (\<lambda>a. a @ [LF]) (re_attrs e)) @ [LF]"

text \<open>The attribute list the lines make.\<close>

definition attr_item :: "string \<Rightarrow> string" where
  "attr_item a = (if CHR ''='' \<in> set a then ''('' @ a @ '')'' else a)"

fun attr_join :: "string list \<Rightarrow> string" where
  "attr_join [] = []"
| "attr_join (a # as) = attr_item a @ concat (map (\<lambda>b. '','' @ attr_item b) as)"

definition entry_ok :: "reg_entry \<Rightarrow> bool" where
  "entry_ok e \<longleftrightarrow> plain_line (props_line e) \<and> CHR '','' \<notin> set (re_url e) \<and> CHR '','' \<notin> set (re_lang e)
     \<and> c_find ''://'' (re_srvtype e) = None \<and> trimmed (re_srvtype e) \<and> trimmed (re_url e) \<and> trimmed (re_lang e)
     \<and> 1 \<le> re_life e \<and> re_life e < 65536
     \<and> (case re_scopes e of None \<Rightarrow> True | Some sc \<Rightarrow> trimmed sc \<and> (\<forall>c\<in>set sc. c \<notin> set [NUL, LF]) \<and> length sc \<le> 4087)
     \<and> (\<forall>a\<in>set (re_attrs e). plain_line a \<and> cfold (take 6 a) \<noteq> SCOPES_TAG) \<and> length (attr_join (re_attrs e)) < 65536"

lemma url_props_line:
  assumes "entry_ok e" "rm_url mem" "rm_srvtype mem" "rm_lang mem"
  shows "url_props mem (props_line e @ [LF]) = Inr (re_url e, re_srvtype e, re_lang e, int (re_life e))"
proof -
  have e: "CHR '','' \<notin> set (re_url e)" "CHR '','' \<notin> set (re_lang e)" "trimmed (re_srvtype e)" "trimmed (re_url e)" "trimmed (re_lang e)"
    "c_find ''://'' (re_srvtype e) = None" "1 \<le> re_life e" "re_life e < 65536"
    using assms(1) by (auto simp: entry_ok_def)
  let ?t1 = "re_lang e @ CHR '','' # decimal_nat (re_life e) @ [LF]"
  have l: "props_line e @ [LF] = re_url e @ CHR '','' # ?t1" by (simp add: props_line_def)
  have m1: "c_memchr CHR '','' (re_url e @ CHR '','' # ?t1) = Some (length (re_url e))" by (rule c_memchr_first[OF e(1)])
  have m2: "c_memchr CHR '','' ?t1 = Some (length (re_lang e))" by (rule c_memchr_first[OF e(2)])
  have "CHR '','' \<notin> set (decimal_nat (re_life e) @ [LF])"
    using decimal_digit[of "CHR '',''" "re_life e"] by (auto simp: uchar_def)
  then have m3: "c_memchr CHR '','' (decimal_nat (re_life e) @ [LF]) = None" by (rule c_memchr_none)
  have tu: "trim_right blank (re_url e) = re_url e"
    using e(4) trim_right_end[of "re_url e" blank "[]"] by (simp add: trimmed_def)
  have f: "c_find ''://'' (re_url e) = Some (length (re_srvtype e))" using c_find_sep[OF e(6)] by (simp add: re_url_def)
  have ts: "take (length (re_srvtype e)) (re_url e) = re_srvtype e" by (simp add: re_url_def)
  have n: "c_atoi (decimal_nat (re_life e) @ [LF]) = int (re_life e)" by (rule c_atoi_decimal_nat) (auto simp: uchar_def)
  have d: "take (length (re_url e)) (re_url e @ CHR '','' # ?t1) = re_url e" "drop (length (re_url e) + 1) (re_url e @ CHR '','' # ?t1) = ?t1"
    "take (length (re_lang e)) ?t1 = re_lang e" "drop (length (re_lang e) + 1) ?t1 = decimal_nat (re_life e) @ [LF]" by simp_all
  show ?thesis
    unfolding l url_props_def m1 option.case Let_def d tu f m2 m3 n ts TrimWhitespace_trimmed[OF e(3)] TrimWhitespace_trimmed[OF e(4)]
      TrimWhitespace_trimmed[OF e(5)]
    using assms(2-4) e(7,8) by (simp add: SLP_LIFETIME_MAXIMUM_def)
qed

lemma add_attribute_item:
  assumes "plain_line a"
  shows "add_attribute True (a @ [LF]) (if as = [] then (None, 0) else (Some (attr_join as), length (attr_join as))) =
    Inr (Some (attr_join (as @ [a])), length (attr_join (as @ [a])))"
proof -
  have t: "trim_right blank (a @ [LF]) = a" using assms by (intro trim_right_end) (auto simp: plain_line_def)
  have a: "a \<noteq> []" using assms by (simp add: plain_line_def)
  have j: "as \<noteq> [] \<Longrightarrow> attr_join (as @ [a]) = attr_join as @ '','' @ attr_item a" by (cases as) simp_all
  show ?thesis
    using j a by (cases "as = []"; cases "CHR ''='' \<in> set a") (simp_all add: add_attribute_def Let_def t attr_item_def)
qed

lemma scopes_no_match: "cfold (take 6 a) \<noteq> SCOPES_TAG \<Longrightarrow> plain_line a \<Longrightarrow> c_strncasecmp 6 (a @ [LF]) SCOPES_TAG \<noteq> 0"
proof -
  assume n: "cfold (take 6 a) \<noteq> SCOPES_TAG" "plain_line a"
  have s: "cfold (take 6 SCOPES_TAG) = SCOPES_TAG" by code_simp
  have "cfold (take 6 (a @ [LF])) \<noteq> SCOPES_TAG"
  proof
    assume e: "cfold (take 6 (a @ [LF])) = SCOPES_TAG"
    have "length SCOPES_TAG = 6" by (simp add: SCOPES_TAG_def)
    then have l: "6 \<le> length (take 6 (a @ [LF]))" using length_cfold_le[of "take 6 (a @ [LF])"] e by simp
    show False
    proof (cases "6 \<le> length a")
      case True
      then show ?thesis using e n(1) by simp
    next
      case False
      then have "take 6 (a @ [LF]) = a @ [LF]" "length a = 5" using l by simp_all
      moreover have "NUL \<notin> set (a @ [LF])" using n(2) by (auto simp: plain_line_def)
      then have "cfold (a @ [LF]) = map c_tolower (a @ [LF])" using c_string_id[of "a @ [LF]"] by (simp add: cfold_def flip: c_string_def)
      ultimately have "map c_tolower (a @ [LF]) = SCOPES_TAG" using e by simp
      then have "last (map c_tolower (a @ [LF])) = last SCOPES_TAG" by simp
      then show ?thesis by (simp add: SCOPES_TAG_def c_tolower_def uchar_def)
    qed
  qed
  then show ?thesis by (simp add: c_strncasecmp_0_iff s)
qed

abbreviation mem_ok :: "regfile_mem \<Rightarrow> bool" where
  "mem_ok mem \<equiv> rm_url mem \<and> rm_srvtype mem \<and> rm_lang mem \<and> rm_scope mem \<and> rm_default mem \<and> rm_attr mem = (\<lambda>_. True)
     \<and> rm_buf mem \<and> rm_msg mem"

lemma field_lines_attrs:
  assumes "\<And>a. a \<in> set bs \<Longrightarrow> plain_line a \<and> cfold (take 6 a) \<noteq> SCOPES_TAG" "mem_ok mem"
  shows "field_lines mem (concat (map (\<lambda>a. a @ [LF]) bs) @ LF # rest)
      \<lparr>rf_scopelist = sc, rf_attrs = (if as = [] then (None, 0) else (Some (attr_join as), length (attr_join as)))\<rparr> =
    Inr (Inr \<lparr>rf_scopelist = sc,
      rf_attrs = (if as @ bs = [] then (None, 0) else (Some (attr_join (as @ bs)), length (attr_join (as @ bs))))\<rparr>, rest)"
  using assms(1)
proof (induction bs arbitrary: as)
  case Nil
  show ?case by (subst field_lines.simps) (simp add: RegFileReadLine_empty chd_def line_end_def)
next
  case (Cons b bs)
  have b: "plain_line b" "cfold (take 6 b) \<noteq> SCOPES_TAG" using Cons.prems by auto
  let ?f = "\<lambda>as. \<lparr>rf_scopelist = sc, rf_attrs = (if as = [] then (None, 0) else (Some (attr_join as), length (attr_join as)))\<rparr>"
  have r: "RegFileReadLine 0 (concat (map (\<lambda>a. a @ [LF]) (b # bs)) @ LF # rest) = Inr (Some (b @ [LF], concat (map (\<lambda>a. a @ [LF]) bs) @ LF # rest))"
    using RegFileReadLine_line[OF b(1)] by simp
  have f: "field_line mem n (b @ [LF]) (?f as) = Inr (?f (as @ [b]))" for n
    using scopes_no_match[OF b(2,1)] add_attribute_item[OF b(1), of as] assms(2) by (simp add: field_line_def)
  have "field_lines mem (concat (map (\<lambda>a. a @ [LF]) (b # bs)) @ LF # rest) (?f as)
      = field_lines mem (concat (map (\<lambda>a. a @ [LF]) bs) @ LF # rest) (?f (as @ [b]))"
    unfolding field_lines.simps[of mem "concat (map (\<lambda>a. a @ [LF]) (b # bs)) @ LF # rest"] r
    using plain_line_not_end[OF b(1), of "[LF]"] by (simp only: f sum.case option.case prod.case if_False)
  also have "\<dots> = Inr (Inr (?f ((as @ [b]) @ bs)), rest)" by (rule Cons.IH) (use Cons.prems in auto)
  finally show ?case by simp
qed

lemma field_lines_entry:
  assumes "entry_ok e" "mem_ok mem"
  shows "field_lines mem ((case re_scopes e of None \<Rightarrow> [] | Some sc \<Rightarrow> ''scopes='' @ sc @ [LF])
      @ concat (map (\<lambda>a. a @ [LF]) (re_attrs e)) @ LF # rest) \<lparr>rf_scopelist = None, rf_attrs = (None, 0)\<rparr> =
    Inr (Inr \<lparr>rf_scopelist = re_scopes e,
      rf_attrs = (if re_attrs e = [] then (None, 0) else (Some (attr_join (re_attrs e)), length (attr_join (re_attrs e))))\<rparr>, rest)"
proof -
  have as: "\<And>a. a \<in> set (re_attrs e) \<Longrightarrow> plain_line a \<and> cfold (take 6 a) \<noteq> SCOPES_TAG" using assms(1) by (simp add: entry_ok_def)
  note attrs = field_lines_attrs[OF as assms(2), where as = "[]", simplified]
  show ?thesis
  proof (cases "re_scopes e")
    case None
    then show ?thesis using attrs[where rest = rest and sc = None] by simp
  next
    case (Some sc)
    let ?rest = "concat (map (\<lambda>a. a @ [LF]) (re_attrs e)) @ LF # rest"
    let ?l = "''scopes='' @ sc"
    have sc: "trimmed sc" "\<forall>c\<in>set sc. c \<notin> set [NUL, LF]" "length sc \<le> 4087" using assms(1) Some by (simp_all add: entry_ok_def)
    have p: "plain_line ?l" using sc by (auto simp: plain_line_def trimmed_def blank_def schar_def)
    have r: "RegFileReadLine 0 (?l @ LF # ?rest) = Inr (Some (?l @ [LF], ?rest))" by (rule RegFileReadLine_line[OF p])
    have "cfold (take 6 (?l @ [LF])) = cfold (take 6 SCOPES_TAG)" by (simp add: SCOPES_TAG_def)
    then have "c_strncasecmp 6 (?l @ [LF]) SCOPES_TAG = 0" by (simp only: c_strncasecmp_0_iff)
    then have f: "field_line mem n (?l @ [LF]) \<lparr>rf_scopelist = None, rf_attrs = (None, 0)\<rparr> = Inr \<lparr>rf_scopelist = Some sc, rf_attrs = (None, 0)\<rparr>" for n
      using TrimWhitespace_line[OF sc(1)] assms(2) by (simp add: field_line_def)
    have "field_lines mem (?l @ LF # ?rest) \<lparr>rf_scopelist = None, rf_attrs = (None, 0)\<rparr>
        = field_lines mem ?rest \<lparr>rf_scopelist = Some sc, rf_attrs = (None, 0)\<rparr>"
      unfolding field_lines.simps[of mem "?l @ LF # ?rest"] r
      using plain_line_not_end[OF p, of "[LF]"] by (simp only: f[unfolded append_assoc] sum.case option.case prod.case if_False append_assoc)
    then show ?thesis using attrs[where rest = rest and sc = "Some sc"] Some by simp
  qed
qed

definition reg_of_entry :: "SLPDConfig \<Rightarrow> reg_entry \<Rightarrow> reg_msg" where
  "reg_of_entry cfg e = static_reg (re_lang e) (re_url e) (re_srvtype e) (int (re_life e))
     (case re_scopes e of None \<Rightarrow> useScopes cfg | Some sc \<Rightarrow> sc) (attr_join (re_attrs e))"

lemma length_props_line: "entry_ok e \<Longrightarrow> length (re_url e) < 65536 \<and> length (re_lang e) < 65536 \<and> length (re_srvtype e) < 65536"
  by (auto simp: entry_ok_def plain_line_def props_line_def re_url_def)

lemma SLPDRegFileReadSrvReg_entry:
  assumes "entry_ok e" "mem_ok mem" "length (useScopes cfg) < 65536"
  shows "SLPDRegFileReadSrvReg cfg mem (reg_text e @ rest) = Inr (RF_Reg (reg_of_entry cfg e), rest)"
proof -
  let ?sc = "case re_scopes e of None \<Rightarrow> useScopes cfg | Some sc \<Rightarrow> sc"
  let ?al = "attr_join (re_attrs e)"
  have plain: "plain_line (props_line e)" and al: "length ?al < 65536" and life: "int (re_life e) < 65536"
    and sc: "length ?sc < 65536"
    using assms(1,3) by (auto simp: entry_ok_def split: option.splits)
  let ?rest = "(case re_scopes e of None \<Rightarrow> [] | Some sc \<Rightarrow> ''scopes='' @ sc @ [LF])
      @ concat (map (\<lambda>a. a @ [LF]) (re_attrs e)) @ LF # rest"
  have l: "first_line (reg_text e @ rest) = Inr (Some (props_line e @ [LF], ?rest))"
    using first_line_line[OF plain, of ?rest] by (simp add: reg_text_def)
  have "static_message mem (re_lang e) (re_url e) (re_srvtype e) (int (re_life e)) ?sc (?al, length ?al) = Inr (reg_of_entry cfg e)"
    unfolding reg_of_entry_def
    by (rule static_message_ok) (use length_props_line[OF assms(1)] al life sc assms(2) in auto)
  then have m: "made_registration cfg mem (re_url e, re_srvtype e, re_lang e, int (re_life e)) \<lparr>rf_scopelist = re_scopes e,
      rf_attrs = (if re_attrs e = [] then (None, 0) else (Some ?al, length ?al))\<rparr> = Inr (reg_of_entry cfg e)"
    using assms(2) by (cases "re_attrs e"; cases "re_scopes e") (simp_all add: made_registration_def)
  have u: "url_props mem (props_line e @ [LF]) = Inr (re_url e, re_srvtype e, re_lang e, int (re_life e))"
    by (rule url_props_line[OF assms(1)]) (use assms(2) in auto)
  show ?thesis
    unfolding SLPDRegFileReadSrvReg_def l bindR_simps option.case prod.case u sum.case field_lines_entry[OF assms(1,2)] m as_result_def ..
qed

text \<open>
  C38: a file of registrations, each with a URL, a language, a lifetime, scopes or
  the scopes of the daemon, and lines of attributes, is read as exactly these
  registrations: a message is made of each, and the parser gives its fields back.
\<close>

theorem static_registrations_roundtrip:
  assumes "\<And>e. e \<in> set es \<Longrightarrow> entry_ok e" "length (useScopes cfg) < 65536" "\<And>n. mem_ok (mem n)"
  shows "regfile_regs cfg mem (concat (map reg_text es)) = Inr (map (reg_of_entry cfg) es)"
  using assms(1)
proof (induction es)
  case Nil
  show ?case by (subst regfile_regs.simps) (simp add: SLPDRegFileReadSrvReg_def first_line_end)
next
  case (Cons e es)
  have e: "entry_ok e" using Cons.prems by simp
  have IH: "regfile_regs cfg mem (concat (map reg_text es)) = Inr (map (reg_of_entry cfg) es)"
    by (rule Cons.IH) (use Cons.prems in auto)
  have tx: "concat (map reg_text (e # es)) = reg_text e @ concat (map reg_text es)" by simp
  show ?case
    unfolding tx regfile_regs.simps[of cfg mem "reg_text e @ concat (map reg_text es)"] SLPDRegFileReadSrvReg_entry[OF e assms(3,2)]
    using IH by simp
qed

definition sample_entries :: "reg_entry list" where
  "sample_entries =
    [\<lparr>re_srvtype = ''service:printer.x'', re_host = ''h1/q'', re_lang = ''en'', re_life = 300, re_scopes = Some ''A, B'',
      re_attrs = [''paper=A4'', ''duplex'']\<rparr>,
     \<lparr>re_srvtype = ''service:clock'', re_host = ''h2'', re_lang = ''de'', re_life = 60, re_scopes = None, re_attrs = []\<rparr>]"

definition sample_regmem :: regfile_mem where
  "sample_regmem = \<lparr>rm_url = True, rm_srvtype = True, rm_lang = True, rm_scope = True, rm_default = True, rm_attr = (\<lambda>_. True),
     rm_buf = True, rm_junk = (\<lambda>_. 0), rm_msg = True, rm_mok = (\<lambda>_. True)\<rparr>"

theorem static_registrations_roundtrip_witness:
  "\<exists>r1 r2. regfile_regs sample_config (\<lambda>_. sample_regmem) (concat (map reg_text sample_entries)) = Inr [r1, r2]
     \<and> r_url r1 = ''service:printer.x://h1/q'' \<and> r_attrlist r1 = ''(paper=A4),duplex'' \<and> r_scopelist r2 = ''DEFAULT''
     \<and> r_source r2 = SLP_REG_SOURCE_STATIC"
proof -
  have "decimal_nat 300 = ''300''" "decimal_nat 60 = ''60''" by code_simp+
  then have "\<forall>e\<in>set sample_entries. entry_ok e"
    by (simp add: sample_entries_def entry_ok_def plain_line_def trimmed_def props_line_def re_url_def
        blank_def schar_def cfold_def c_tolower_def uchar_def SCOPES_TAG_def attr_item_def)
  then have "regfile_regs sample_config (\<lambda>_. sample_regmem) (concat (map reg_text sample_entries)) = Inr (map (reg_of_entry sample_config) sample_entries)"
    by (intro static_registrations_roundtrip) (simp_all add: sample_config_def sample_regmem_def)
  then show ?thesis
    by (simp add: sample_entries_def reg_of_entry_def static_reg_def re_url_def attr_item_def sample_config_def)
qed

section \<open>Files that are not read\<close>

text \<open>
  A comment that is moved in by \<open>k\<close> characters and followed by a long line
  makes the reader write behind its buffer: the line is read to the place where
  the comment begins, with the size of the whole buffer.
\<close>

theorem RegFileReadLine_overflow:
  assumes "0 < k" "k \<le> 4093" "4095 \<le> n"
  shows "RegFileReadLine 0 (replicate k CHR '' '' @ ''#'' @ LF # replicate n CHR ''a'' @ rest) = Inl OutOfBounds"
proof -
  let ?ws = "replicate k CHR '' ''"
  let ?l = "?ws @ ''#''"
  let ?rest = "replicate n CHR ''a'' @ rest"
  have f: "c_fgets REG_LINESIZE (?l @ LF # ?rest) = Some (?l @ [LF], ?rest)"
    by (rule c_fgets_line) (use assms(2) in \<open>simp_all add: REG_LINESIZE_def\<close>)
  have s: "c_string (?l @ [LF]) = ?l @ [LF]" by (rule c_string_id) auto
  have ws: "takeWhile (\<lambda>c. blank c \<and> \<not> line_end c) (?l @ [LF]) = ?ws"
  proof -
    have "takeWhile (\<lambda>c. blank c \<and> \<not> line_end c) (?ws @ ''#'' @ [LF]) = ?ws @ takeWhile (\<lambda>c. blank c \<and> \<not> line_end c) (''#'' @ [LF])"
      by (rule takeWhile_append2) (auto simp: line_end_def)
    then show ?thesis by (simp add: blank_def schar_def)
  qed
  have long: "c_fgets REG_LINESIZE ?rest = Some (take 4095 ?rest, drop 4095 ?rest)"
  proof -
    have "takeWhile (\<lambda>c. c \<noteq> LF) ?rest = replicate n CHR ''a'' @ takeWhile (\<lambda>c. c \<noteq> LF) rest"
      by (rule takeWhile_append2) auto
    then have "n \<le> length (takeWhile (\<lambda>c. c \<noteq> LF) ?rest)" by simp
    moreover have "?rest \<noteq> []" using assms(3) by simp
    ultimately show ?thesis using assms(3) by (simp add: c_fgets_def REG_LINESIZE_def min_def Let_def)
  qed
  have "RegFileReadLine 0 (?l @ LF # ?rest) = RegFileReadLine k ?rest"
    unfolding RegFileReadLine.simps[of 0 "?l @ LF # ?rest"] f option.case prod.case s Let_def ws
    using assms(2) by (simp add: REG_LINESIZE_def)
  also have "\<dots> = Inl OutOfBounds"
    unfolding RegFileReadLine.simps[of k ?rest] long option.case prod.case using assms(1,3) by (simp add: REG_LINESIZE_def)
  finally show ?thesis by simp
qed

theorem RegFileReadLine_overflow_witness:
  "RegFileReadLine 0 (replicate 1 CHR '' '' @ ''#'' @ LF # replicate 4095 CHR ''a'' @ []) = Inl OutOfBounds"
  by (rule RegFileReadLine_overflow) simp_all

text \<open>After a registration that is not accepted no other of the file is read.\<close>

lemma regfile_regs_stop:
  assumes "first_line s = Inr (Some (line, rest))" "CHR '','' \<notin> set line"
  shows "regfile_regs cfg mem s = Inr []"
  using assms by (subst regfile_regs.simps) (simp add: SLPDRegFileReadSrvReg_def url_props_def c_memchr_none as_result_def)

end
