(* ===== verification/SLPD_Socket.thy ===== *)
theory SLPD_Socket
  imports SLPD_Process
begin

unbundle bit_operations_syntax

text \<open>
  The sockets of the daemon: their life cycle (\<open>slpd/slpd_socket.c\<close>), the
  sockets on which requests come in (\<open>slpd/slpd_incoming.c\<close>), those on which the
  daemon speaks to directory agents (\<open>slpd/slpd_outgoing.c\<close>), and the sets of
  sockets the main loop waits for (\<open>LoadFdSets\<close> of \<open>slpd/slpd_main.c\<close>).  The two lists
  of sockets are lists in their order; a socket is a value, changed by one step
  of its state machine at a time.  What the system calls give back is an input
  of the step, what is sent is an output.
\<close>

section \<open>Sockets\<close>

datatype sock_state =
  SOCKET_LISTEN | SOCKET_CLOSE | DATAGRAM_UNICAST | DATAGRAM_MULTICAST | DATAGRAM_BROADCAST
  | STREAM_CONNECT_IDLE | STREAM_CONNECT_BLOCK | STREAM_CONNECT_CLOSE | STREAM_READ | STREAM_READ_FIRST
  | STREAM_WRITE | STREAM_WRITE_FIRST | STREAM_WRITE_WAIT

definition SOCKET_PENDING_IO :: nat where "SOCKET_PENDING_IO = 100"

fun state_code :: "sock_state \<Rightarrow> nat" where
  "state_code SOCKET_LISTEN = 0"
| "state_code SOCKET_CLOSE = 1"
| "state_code DATAGRAM_UNICAST = 2"
| "state_code DATAGRAM_MULTICAST = 3"
| "state_code DATAGRAM_BROADCAST = 4"
| "state_code STREAM_CONNECT_IDLE = 5"
| "state_code STREAM_CONNECT_BLOCK = 6 + SOCKET_PENDING_IO"
| "state_code STREAM_CONNECT_CLOSE = 7 + SOCKET_PENDING_IO"
| "state_code STREAM_READ = 8 + SOCKET_PENDING_IO"
| "state_code STREAM_READ_FIRST = 9 + SOCKET_PENDING_IO"
| "state_code STREAM_WRITE = 10 + SOCKET_PENDING_IO"
| "state_code STREAM_WRITE_FIRST = 11 + SOCKET_PENDING_IO"
| "state_code STREAM_WRITE_WAIT = 12 + SOCKET_PENDING_IO"

record SLPDSocket =
  sk_age :: int
  sk_state :: sock_state
  sk_can_send_mcast :: bool
  sk_localaddr :: sockaddr
  sk_peeraddr :: sockaddr
  sk_mcastaddr :: sockaddr
  sk_recvbuf :: "SLPBuffer option"
  sk_sendbuf :: "SLPBuffer option"
  sk_reconns :: int
  sk_sendlist :: "SLPBuffer list"

text \<open>What the system calls that make a socket give: whether they succeed.\<close>

datatype connected = ConnectDone | ConnectInProgress | ConnectFailed

record sock_env =
  se_alloc :: bool
  se_recvbuf :: bool
  se_sendbuf :: bool
  se_junk :: "nat \<Rightarrow> 8 word"
  se_socket :: bool
  se_bind :: int
  se_join :: bool
  se_broadcast :: bool
  se_listen :: bool
  se_mcast_send :: bool
  se_connect :: connected

text \<open>All fields are zero; the code of \<open>SOCKET_LISTEN\<close> is zero.\<close>

definition SLPDSocketAlloc :: SLPDSocket where
  "SLPDSocketAlloc =
     \<lparr>sk_age = 0, sk_state = SOCKET_LISTEN, sk_can_send_mcast = False, sk_localaddr = AF_UNSPEC, sk_peeraddr = AF_UNSPEC,
      sk_mcastaddr = AF_UNSPEC, sk_recvbuf = None, sk_sendbuf = None, sk_reconns = 0, sk_sendlist = []\<rparr>"

definition SLPDSocketCreateDatagram :: "SLPDConfig \<Rightarrow> sock_env \<Rightarrow> sockaddr \<Rightarrow> sock_state \<Rightarrow> SLPDSocket option" where
  "SLPDSocketCreateDatagram cfg env peeraddr type =
     (if \<not> se_alloc env then None
      else
        (let recvbuf = SLPBufferAlloc (se_recvbuf env) (se_junk env) (MTU cfg);
             sendbuf = SLPBufferAlloc (se_sendbuf env) (se_junk env) (MTU cfg) in
         if recvbuf \<noteq> None \<and> sendbuf \<noteq> None \<and> peeraddr \<noteq> AF_UNSPEC \<and> se_socket env
         then Some (SLPDSocketAlloc\<lparr>sk_recvbuf := recvbuf, sk_sendbuf := sendbuf, sk_peeraddr := peeraddr, sk_state := type\<rparr>)
         else None))"

definition SLPDSocketAllowMcastSend :: "sock_env \<Rightarrow> SLPDSocket \<Rightarrow> SLPDSocket" where
  "SLPDSocketAllowMcastSend env psock = (if se_mcast_send env then psock\<lparr>sk_can_send_mcast := True\<rparr> else psock)"

definition family_ok :: "SLPDConfig \<Rightarrow> sockaddr \<Rightarrow> bool" where
  "family_ok cfg a = (case a of AF_INET _ \<Rightarrow> netIPv4 cfg | AF_INET6 _ _ \<Rightarrow> netIPv6 cfg | AF_UNSPEC \<Rightarrow> False)"

text \<open>Unlike in \<open>SLPDSocketCreateDatagram\<close>, the buffers may be missing.\<close>

definition SLPDSocketCreateBoundDatagram ::
  "SLPDConfig \<Rightarrow> sock_env \<Rightarrow> sockaddr \<Rightarrow> sockaddr \<Rightarrow> sock_state \<Rightarrow> SLPDSocket option" where
  "SLPDSocketCreateBoundDatagram cfg env myaddr peeraddr type =
     (let sock = SLPDSocketAlloc\<lparr>sk_recvbuf := SLPBufferAlloc (se_recvbuf env) (se_junk env) (MTU cfg),
                   sk_sendbuf := SLPBufferAlloc (se_sendbuf env) (se_junk env) (MTU cfg),
                   sk_peeraddr := peeraddr, sk_localaddr := myaddr\<rparr> in
      if se_alloc env \<and> family_ok cfg peeraddr \<and> se_socket env \<and> se_bind env = 0 then
        (case type of
           DATAGRAM_MULTICAST \<Rightarrow>
             (if se_join env then Some (sock\<lparr>sk_mcastaddr := peeraddr, sk_state := DATAGRAM_MULTICAST\<rparr>) else None)
         | DATAGRAM_BROADCAST \<Rightarrow>
             (case myaddr of
                AF_INET _ \<Rightarrow> (if se_broadcast env then Some (sock\<lparr>sk_state := DATAGRAM_BROADCAST\<rparr>) else None)
              | _ \<Rightarrow> None)
         | _ \<Rightarrow> Some (sock\<lparr>sk_state := DATAGRAM_UNICAST\<rparr>))
      else None)"

definition SLPDSocketCreateListen :: "SLPDConfig \<Rightarrow> sock_env \<Rightarrow> sockaddr \<Rightarrow> SLPDSocket option" where
  "SLPDSocketCreateListen cfg env peeraddr =
     (if se_alloc env \<and> family_ok cfg peeraddr \<and> se_socket env \<and> se_bind env \<ge> 0 \<and> se_listen env
      then Some (SLPDSocketAlloc\<lparr>sk_localaddr := peeraddr, sk_state := SOCKET_LISTEN\<rparr>)
      else None)"

text \<open>The addresses behind a \<open>sockaddr_in\<close> and a \<open>sockaddr_in6\<close> of the same family.\<close>

definition SLPDSocketIsMcastOn :: "SLPDSocket \<Rightarrow> sockaddr \<Rightarrow> bool" where
  "SLPDSocketIsMcastOn sock addr =
     (case (sk_mcastaddr sock, addr) of
        (AF_INET a, AF_INET b) \<Rightarrow> a = b
      | (AF_INET6 a _, AF_INET6 b _) \<Rightarrow> a = b
      | _ \<Rightarrow> False)"

definition SLPDSocketCreateConnected :: "sock_env \<Rightarrow> sockaddr \<Rightarrow> SLPDSocket option" where
  "SLPDSocketCreateConnected env addr =
     (if \<not> se_alloc env \<or> addr = AF_UNSPEC \<or> \<not> se_socket env then None
      else
        (let sock = SLPDSocketAlloc\<lparr>sk_peeraddr := addr\<rparr> in
         case se_connect env of
           ConnectDone \<Rightarrow> Some (sock\<lparr>sk_state := STREAM_CONNECT_IDLE\<rparr>)
         | ConnectInProgress \<Rightarrow> Some (sock\<lparr>sk_state := STREAM_CONNECT_BLOCK\<rparr>)
         | ConnectFailed \<Rightarrow> None))"

section \<open>What the network does\<close>

text \<open>
  \<open>recv\<close> gives bytes (none at the end of the stream) or an error, which may be that it
  would block; \<open>send\<close> gives the count it returns and whether \<open>errno\<close> says that it
  would block.
\<close>

datatype recv_result = Bytes "8 word list" | RecvError bool

type_synonym send_result = "int \<times> bool"

record sock_input =
  in_peer :: sockaddr
  in_peek :: recv_result
  in_data :: recv_result
  in_sent :: send_result
  in_toobig :: "nat \<Rightarrow> bool"
  in_alloc1 :: bool
  in_realloc :: bool
  in_junk :: "nat \<Rightarrow> 8 word"
  in_accept :: "sockaddr option"
  in_newsock :: bool
  in_alive :: bool
  in_socket :: bool
  in_connect :: connected
  in_open :: bool
  in_proc :: proc_env

type_synonym wire = "(sockaddr \<times> 8 word list) list"

text \<open>\<open>if (!sock->sendbuf) sock->sendbuf = SLPBufferAlloc(1)\<close>\<close>

definition ensure_sendbuf :: "sock_input \<Rightarrow> SLPDSocket \<Rightarrow> SLPBuffer option" where
  "ensure_sendbuf nw sock =
     (case sk_sendbuf sock of None \<Rightarrow> SLPBufferAlloc (in_alloc1 nw) (in_junk nw) 1 | Some b \<Rightarrow> Some b)"

definition no_reply :: "nat \<Rightarrow> bool" where
  "no_reply err \<longleftrightarrow> err = SLP_ERROR_PARSE_ERROR \<or> err = SLP_ERROR_VER_NOT_SUPPORTED \<or> err = SLP_ERROR_MESSAGE_NOT_SUPPORTED"

section \<open>Datagrams that come in\<close>

text \<open>
  The buffer of a reply may hold several messages; each goes into a datagram of
  its own, cut where its header says.  \<open>toobig\<close> tells for which sizes the first
  \<open>sendto\<close> fails with \<open>EMSGSIZE\<close>; then the first \<open>MTU\<close> bytes are sent, when the message
  is marked as an overflow.
\<close>

definition one_packet :: "SLPDConfig \<Rightarrow> (nat \<Rightarrow> bool) \<Rightarrow> 8 word list \<Rightarrow> nat \<Rightarrow> nat \<Rightarrow> 8 word list list res" where
  "one_packet cfg toobig m cur packetbytes =
     (if cur + packetbytes > length m then Inl OutOfBounds
      else if \<not> toobig packetbytes then Inr [cslice m cur packetbytes]
      else if cur + 7 > length m then Inl OutOfBounds
      else if AS_UINT16 (m ! (cur + 5)) (m ! (cur + 6)) AND ucast SLP_FLAG_OVERFLOW \<noteq> 0 then
        (if cur + MTU cfg > length m then Inl OutOfBounds else Inr [cslice m cur (MTU cfg)])
      else Inr [])"

text \<open>\<open>None\<close> is a loop that does not end.\<close>

partial_function (option) reply_loop ::
  "SLPDConfig \<Rightarrow> (nat \<Rightarrow> bool) \<Rightarrow> 8 word list \<Rightarrow> nat \<Rightarrow> nat \<Rightarrow> 8 word list list res option" where
  "reply_loop cfg toobig m e cur =
     (if cur < e then
        (if cur + 5 > length m then Some (Inl OutOfBounds)
         else
           (let packetbytes = unat (AS_UINT24 (m ! (cur + 2)) (m ! (cur + 3)) (m ! (cur + 4))) in
            case one_packet cfg toobig m cur packetbytes of
              Inl err \<Rightarrow> Some (Inl err)
            | Inr out \<Rightarrow>
                Option.bind (reply_loop cfg toobig m e (cur + packetbytes)) (\<lambda>r.
                  Some (bindR r (\<lambda>outs. Inr (out @ outs))))))
      else Some (Inr []))"

definition IncomingDatagramRead ::
  "SLPDConfig \<Rightarrow> sock_input \<Rightarrow> SLPDSocket \<Rightarrow> slpd \<Rightarrow> (SLPDSocket \<times> wire \<times> slpd) res option" where
  "IncomingDatagramRead cfg nw sock s =
     (case in_data nw of
        RecvError _ \<Rightarrow> Some (Inr (sock, [], s))
      | Bytes data \<Rightarrow>
          (case sk_recvbuf sock of
             None \<Rightarrow> Some (Inl OutOfBounds)
           | Some recvbuf \<Rightarrow>
               (let data = take (MTU cfg) data; sock = sock\<lparr>sk_peeraddr := in_peer nw\<rparr> in
                if data = [] then Some (Inr (sock, [], s))
                else
                  bindO (Some (put_bytes data (recvbuf\<lparr>bcur := 0\<rparr>))) (\<lambda>(_, recvbuf).
                    (let recvbuf = recvbuf\<lparr>bend := length data\<rparr>; sock = sock\<lparr>sk_recvbuf := Some recvbuf\<rparr> in
                     bindO (SLPDProcessMessage cfg (in_proc nw) (sk_peeraddr sock) (sk_localaddr sock) recvbuf
                              (ensure_sendbuf nw sock) None s) (\<lambda>(err, sendbuf, _, _, s).
                       (let sock = sock\<lparr>sk_sendbuf := sendbuf\<rparr> in
                        case sendbuf of
                          None \<Rightarrow> Some (Inr (sock, [], s))
                        | Some b \<Rightarrow>
                            if no_reply err then Some (Inr (sock, [], s))
                            else
                              bindO (reply_loop cfg (in_toobig nw) (bmem b) (bend b) 0) (\<lambda>packets.
                                Some (Inr (sock\<lparr>sk_sendbuf := Some (b\<lparr>bcur := bend b\<rparr>)\<rparr>,
                                  map (Pair (sk_peeraddr sock)) packets, s))))))))))"

section \<open>Streams that come in\<close>

definition IncomingStreamWrite :: "send_result \<Rightarrow> SLPDSocket \<Rightarrow> (SLPDSocket \<times> 8 word list) res" where
  "IncomingStreamWrite sent sock =
     (case sk_sendbuf sock of
        None \<Rightarrow> Inl OutOfBounds
      | Some b \<Rightarrow>
          (let first = (sk_state sock = STREAM_WRITE_FIRST);
               b = (if first then b\<lparr>bcur := 0\<rparr> else b);
               sock = sock\<lparr>sk_sendbuf := Some b, sk_state := if first then STREAM_WRITE else sk_state sock\<rparr> in
           if bend b = bcur b then Inr (sock\<lparr>sk_state := SOCKET_CLOSE\<rparr>, [])
           else
             (let byteswritten = nat (fst sent); b' = b\<lparr>bcur := bcur b + byteswritten\<rparr> in
              if fst sent > 0 then
                (if bcur b + byteswritten > length (bmem b) then Inl OutOfBounds
                 else
                   Inr (sock\<lparr>sk_age := 0, sk_sendbuf := Some b', sk_state := if bcur b' = bend b' then STREAM_READ_FIRST else sk_state sock\<rparr>,
                        cslice (bmem b) (bcur b) byteswritten))
              else Inr (if snd sent then sock else sock\<lparr>sk_state := SOCKET_CLOSE\<rparr>, []))))"

text \<open>The first bytes tell the size of the message, for which the receive buffer is made.\<close>

definition IncomingStreamPeek :: "sock_input \<Rightarrow> SLPDSocket \<Rightarrow> SLPDSocket" where
  "IncomingStreamPeek nw sock =
     (case in_peek nw of
        RecvError _ \<Rightarrow> sock\<lparr>sk_state := SOCKET_CLOSE\<rparr>
      | Bytes data \<Rightarrow>
          (let peek = take 16 data in
           if peek \<noteq> [] \<and> length peek \<ge> (if peek ! 0 = 2 then 5 else 4) then
             (case SLPBufferRealloc (in_realloc nw) (in_junk nw) (sk_recvbuf sock) (PEEK_LENGTH peek) of
                Some b \<Rightarrow> sock\<lparr>sk_recvbuf := Some b, sk_state := STREAM_READ\<rparr>
              | None \<Rightarrow> sock\<lparr>sk_recvbuf := None, sk_state := SOCKET_CLOSE\<rparr>)
           else sock\<lparr>sk_state := SOCKET_CLOSE\<rparr>))"

text \<open>The overflow flag is cleared in what goes out on a stream.\<close>

definition clear_overflow :: "SLPBuffer \<Rightarrow> SLPBuffer res" where
  "clear_overflow b =
     (if bend b > 5 then
        bindR (rdR (bmem b) 0) (\<lambda>version.
          (let i = (if version = 1 then 4 else 5) in
           bindR (rdR (bmem b) i) (\<lambda>x.
           bindR (wrR (bmem b) i (x AND NOT 0x80)) (\<lambda>m. Inr (b\<lparr>bmem := m\<rparr>)))))
      else Inr b)"

text \<open>A message that is complete is processed, and its answer begun to be written.\<close>

definition IncomingStreamAnswer ::
  "SLPDConfig \<Rightarrow> sock_input \<Rightarrow> SLPDSocket \<Rightarrow> SLPBuffer \<Rightarrow> slpd \<Rightarrow> (SLPDSocket \<times> 8 word list \<times> slpd) res option" where
  "IncomingStreamAnswer cfg nw sock recvbuf s =
     bindO (SLPDProcessMessage cfg (in_proc nw) (sk_peeraddr sock) (sk_localaddr sock) recvbuf (ensure_sendbuf nw sock) None s)
       (\<lambda>(err, sendbuf, _, _, s).
         (let sock = sock\<lparr>sk_sendbuf := sendbuf\<rparr> in
          case sendbuf of
            None \<Rightarrow> Some (Inr (sock\<lparr>sk_state := SOCKET_CLOSE\<rparr>, [], s))
          | Some b \<Rightarrow>
              if no_reply err \<or> bend b = 0 then Some (Inr (sock\<lparr>sk_state := SOCKET_CLOSE\<rparr>, [], s))
              else
                Some (bindR (clear_overflow b) (\<lambda>b.
                  bindR (IncomingStreamWrite (in_sent nw) (sock\<lparr>sk_sendbuf := Some b, sk_state := STREAM_WRITE_FIRST\<rparr>))
                    (\<lambda>(sock, out). Inr (sock, out, s))))))"

definition IncomingStreamRead ::
  "SLPDConfig \<Rightarrow> sock_input \<Rightarrow> SLPDSocket \<Rightarrow> slpd \<Rightarrow> (SLPDSocket \<times> 8 word list \<times> slpd) res option" where
  "IncomingStreamRead cfg nw sock s =
     (let sock = (if sk_state sock = STREAM_READ_FIRST then IncomingStreamPeek nw sock else sock) in
      if sk_state sock \<noteq> STREAM_READ then Some (Inr (sock, [], s))
      else
        (case sk_recvbuf sock of
           None \<Rightarrow> Some (Inl OutOfBounds)
         | Some b \<Rightarrow>
             (let data = (case in_data nw of Bytes data \<Rightarrow> take (bend b - bcur b) data | RecvError _ \<Rightarrow> []) in
              if data = [] then Some (Inr (sock\<lparr>sk_state := SOCKET_CLOSE\<rparr>, [], s))
              else
                bindO (Some (put_bytes data b)) (\<lambda>(_, b).
                  (let sock = sock\<lparr>sk_age := 0, sk_recvbuf := Some b\<rparr> in
                   if bcur b = bend b then IncomingStreamAnswer cfg nw sock b s
                   else Some (Inr (sock, [], s)))))))"

text \<open>A new connection; its peer address is stored as the local address too.\<close>

definition SLPD_MAX_SOCKETS :: nat where "SLPD_MAX_SOCKETS = 256"
definition SLPD_COMFORT_SOCKETS :: nat where "SLPD_COMFORT_SOCKETS = 64"
definition SLPD_CONFIG_CLOSE_CONN :: int where "SLPD_CONFIG_CLOSE_CONN = 900"
definition SLPD_CONFIG_BUSY_CLOSE_CONN :: int where "SLPD_CONFIG_BUSY_CLOSE_CONN = 30"
definition SLPD_CONFIG_MAX_RECONN :: int where "SLPD_CONFIG_MAX_RECONN = 2"

definition IncomingSocketListen :: "sock_input \<Rightarrow> nat \<Rightarrow> SLPDSocket option" where
  "IncomingSocketListen nw count =
     (if count < SLPD_MAX_SOCKETS then
        (case in_accept nw of
           Some peer \<Rightarrow>
             (if in_newsock nw
              then Some (SLPDSocketAlloc\<lparr>sk_peeraddr := peer, sk_localaddr := peer, sk_state := STREAM_READ_FIRST\<rparr>)
              else None)
         | None \<Rightarrow> None)
      else None)"

section \<open>The list of incoming sockets\<close>

datatype ready = NotReady | ReadOk | WriteOk

definition stream_out :: "SLPDSocket \<Rightarrow> 8 word list \<Rightarrow> wire" where
  "stream_out sock out = (if out = [] then [] else [(sk_peeraddr sock, out)])"

text \<open>What one socket does when it is ready; the third component is an accepted connection.\<close>

definition IncomingHandle ::
  "SLPDConfig \<Rightarrow> ready \<Rightarrow> sock_input \<Rightarrow> nat \<Rightarrow> SLPDSocket \<Rightarrow> slpd \<Rightarrow> (SLPDSocket \<times> wire \<times> SLPDSocket option \<times> slpd) res option" where
  "IncomingHandle cfg ready nw count sock s =
     (case ready of
        ReadOk \<Rightarrow>
          (case sk_state sock of
             SOCKET_LISTEN \<Rightarrow> Some (Inr (sock, [], IncomingSocketListen nw count, s))
           | STREAM_READ \<Rightarrow> bindO (IncomingStreamRead cfg nw sock s) (\<lambda>(sock, out, s). Some (Inr (sock, stream_out sock out, None, s)))
           | STREAM_READ_FIRST \<Rightarrow> bindO (IncomingStreamRead cfg nw sock s) (\<lambda>(sock, out, s). Some (Inr (sock, stream_out sock out, None, s)))
           | DATAGRAM_UNICAST \<Rightarrow> bindO (IncomingDatagramRead cfg nw sock s) (\<lambda>(sock, out, s). Some (Inr (sock, out, None, s)))
           | DATAGRAM_MULTICAST \<Rightarrow> bindO (IncomingDatagramRead cfg nw sock s) (\<lambda>(sock, out, s). Some (Inr (sock, out, None, s)))
           | DATAGRAM_BROADCAST \<Rightarrow> bindO (IncomingDatagramRead cfg nw sock s) (\<lambda>(sock, out, s). Some (Inr (sock, out, None, s)))
           | _ \<Rightarrow> Some (Inr (sock, [], None, s)))
      | WriteOk \<Rightarrow>
          (if sk_state sock = STREAM_WRITE \<or> sk_state sock = STREAM_WRITE_FIRST
           then Some (bindR (IncomingStreamWrite (in_sent nw) sock) (\<lambda>(sock, out). Inr (sock, stream_out sock out, None, s)))
           else Some (Inr (sock, [], None, s)))
      | NotReady \<Rightarrow> Some (Inr (sock, [], None, s)))"

text \<open>
  Connections accepted while the list is gone through are linked at its head and
  are not visited; \<open>count\<close> is the length of the list at that moment.
\<close>

fun SLPDIncomingHandler ::
  "SLPDConfig \<Rightarrow> (ready \<times> sock_input) list \<Rightarrow> nat \<Rightarrow> nat \<Rightarrow> SLPDSocket list \<Rightarrow> SLPDSocket list \<Rightarrow> slpd
     \<Rightarrow> (SLPDSocket list \<times> SLPDSocket list \<times> wire \<times> slpd) res option" where
  "SLPDIncomingHandler cfg ((ready, nw) # nws) fdcount count accepted (sock # socks) s =
     (if fdcount = 0 then Some (Inr (accepted, sock # socks, [], s))
      else
        bindO (IncomingHandle cfg ready nw count sock s) (\<lambda>(sock, out, new, s).
          (let (count, accepted) = (case new of Some c \<Rightarrow> (count + 1, c # accepted) | None \<Rightarrow> (count, accepted)) in
           bindO (SLPDIncomingHandler cfg nws (if ready = NotReady then fdcount else fdcount - 1) count accepted socks s)
             (\<lambda>(accepted, socks, outs, s). Some (Inr (accepted, sock # socks, out @ outs, s))))))"
| "SLPDIncomingHandler cfg nws fdcount count accepted socks s = Some (Inr (accepted, socks, [], s))"

text \<open>Idle connections are closed, sooner when there are many sockets; \<open>count\<close> goes down as they are.\<close>

definition is_stream :: "sock_state \<Rightarrow> bool" where
  "is_stream st \<longleftrightarrow> st = STREAM_READ_FIRST \<or> st = STREAM_READ \<or> st = STREAM_WRITE_FIRST \<or> st = STREAM_WRITE"

definition close_limit :: "nat \<Rightarrow> int" where
  "close_limit count = (if count > SLPD_COMFORT_SOCKETS then SLPD_CONFIG_BUSY_CLOSE_CONN else SLPD_CONFIG_CLOSE_CONN)"

fun incoming_age :: "int \<Rightarrow> nat \<Rightarrow> SLPDSocket list \<Rightarrow> SLPDSocket list" where
  "incoming_age seconds count [] = []"
| "incoming_age seconds count (sock # socks) =
     (if \<not> is_stream (sk_state sock) then sock # incoming_age seconds count socks
      else if sk_age sock > close_limit count then incoming_age seconds (count - 1) socks
      else sock\<lparr>sk_age := sk_age sock + seconds\<rparr> # incoming_age seconds count socks)"

definition SLPDIncomingAge :: "int \<Rightarrow> SLPDSocket list \<Rightarrow> SLPDSocket list" where
  "SLPDIncomingAge seconds socks = incoming_age seconds (length socks) socks"

section \<open>Listening for service types\<close>

definition sin6_addr :: "sockaddr \<Rightarrow> 128 word" where
  "sin6_addr a = (case a of AF_INET6 v6 _ \<Rightarrow> v6 | _ \<Rightarrow> 0)"

definition IN6_IS_ADDR_LINKLOCAL :: "128 word \<Rightarrow> bool" where
  "IN6_IS_ADDR_LINKLOCAL a \<longleftrightarrow> drop_bit 118 a = 0x3fa"

text \<open>Sockets are made in an environment that may depend on their addresses and kind.\<close>

type_synonym sock_envs = "sockaddr \<Rightarrow> sockaddr \<Rightarrow> sock_state \<Rightarrow> sock_env"

definition link_tail :: "SLPDSocket list \<Rightarrow> SLPDSocket option \<Rightarrow> SLPDSocket list" where
  "link_tail socks sock = (case sock of Some s \<Rightarrow> socks @ [s] | None \<Rightarrow> socks)"

definition listen_datagram :: "SLPDConfig \<Rightarrow> sock_envs \<Rightarrow> sockaddr \<Rightarrow> sockaddr \<Rightarrow> sock_state \<Rightarrow> SLPDSocket list \<Rightarrow> SLPDSocket list" where
  "listen_datagram cfg envs myaddr peer type socks =
     link_tail socks (SLPDSocketCreateBoundDatagram cfg (envs myaddr peer type) myaddr peer type)"

fun add_scopes :: "SLPDConfig \<Rightarrow> sock_envs \<Rightarrow> string \<Rightarrow> sockaddr \<Rightarrow> int list \<Rightarrow> SLPDSocket list \<Rightarrow> bool \<times> SLPDSocket list" where
  "add_scopes cfg envs srvtype localaddr [] socks = (True, socks)"
| "add_scopes cfg envs srvtype localaddr (scope # scopes) socks =
     (case SLPNetGetSrvMcastAddr srvtype scope of
        None \<Rightarrow> (False, socks)
      | Some srvaddr \<Rightarrow> add_scopes cfg envs srvtype localaddr scopes (listen_datagram cfg envs localaddr srvaddr DATAGRAM_MULTICAST socks))"

definition SLPDIncomingAddService :: "SLPDConfig \<Rightarrow> sock_envs \<Rightarrow> string \<Rightarrow> sockaddr \<Rightarrow> SLPDSocket list \<Rightarrow> bool \<times> SLPDSocket list" where
  "SLPDIncomingAddService cfg envs srvtype localaddr socks =
     add_scopes cfg envs srvtype localaddr
       ([SLP_SCOPE_NODE_LOCAL, SLP_SCOPE_LINK_LOCAL] @ (if IN6_IS_ADDR_LINKLOCAL (sin6_addr localaddr) then [] else [SLP_SCOPE_SITE_LOCAL])) socks"

definition SLPDIncomingRemoveService :: "string \<Rightarrow> SLPDSocket list \<Rightarrow> bool \<times> SLPDSocket list" where
  "SLPDIncomingRemoveService srvtype socks =
     (case (SLPNetGetSrvMcastAddr srvtype SLP_SCOPE_NODE_LOCAL, SLPNetGetSrvMcastAddr srvtype SLP_SCOPE_LINK_LOCAL,
            SLPNetGetSrvMcastAddr srvtype SLP_SCOPE_SITE_LOCAL) of
        (Some node, Some link, Some site) \<Rightarrow>
          (True, filter (\<lambda>sock. \<not> (SLPDSocketIsMcastOn sock node \<or> SLPDSocketIsMcastOn sock link \<or> SLPDSocketIsMcastOn sock site)) socks)
      | _ \<Rightarrow> (socks = [], socks))"

definition FindListeningSocket :: "sockaddr \<Rightarrow> SLPDSocket list \<Rightarrow> SLPDSocket option" where
  "FindListeningSocket addr socks =
     List.find (\<lambda>sock. sk_state sock = SOCKET_LISTEN \<and> SLPNetCompareAddrs (sk_localaddr sock) addr = 0) socks"

definition mcast4addr :: sockaddr where "mcast4addr = SLPNetSetAddr4 (Some 0xeffffffd)"
definition lo4addr :: sockaddr where "lo4addr = SLPNetSetAddr4 (Some 0x7f000001)"
definition lo6addr :: sockaddr where "lo6addr = SLPNetSetAddr6 (Some 1)"

text \<open>The groups SRVLOC and SRVLOC-DA of the scopes node, link and site.\<close>

definition srvloc6addr :: "128 word \<Rightarrow> sockaddr" where
  "srvloc6addr scope = SLPNetSetAddr6 (Some (push_bit 120 0xff OR push_bit 112 scope OR 0x116))"

definition srvlocda6addr :: "128 word \<Rightarrow> sockaddr" where
  "srvlocda6addr scope = SLPNetSetAddr6 (Some (push_bit 120 0xff OR push_bit 112 scope OR 0x123))"

definition listen_stream :: "SLPDConfig \<Rightarrow> sock_envs \<Rightarrow> sockaddr \<Rightarrow> SLPDSocket list \<Rightarrow> SLPDSocket list" where
  "listen_stream cfg envs addr socks = link_tail socks (SLPDSocketCreateListen cfg (envs addr addr SOCKET_LISTEN) addr)"

definition listen_loopback :: "SLPDConfig \<Rightarrow> sock_envs \<Rightarrow> sockaddr \<Rightarrow> SLPDSocket list \<Rightarrow> SLPDSocket list" where
  "listen_loopback cfg envs lo socks =
     (if FindListeningSocket lo socks \<noteq> None then socks
      else listen_datagram cfg envs lo lo DATAGRAM_UNICAST (listen_stream cfg envs lo socks))"

definition listen_mcast :: "SLPDConfig \<Rightarrow> sock_envs \<Rightarrow> sockaddr \<Rightarrow> SLPDSocket list \<Rightarrow> SLPDSocket list" where
  "listen_mcast cfg envs myaddr socks =
     (case myaddr of
        AF_INET _ \<Rightarrow> (if netIPv4 cfg then listen_datagram cfg envs myaddr mcast4addr DATAGRAM_MULTICAST socks else socks)
      | AF_INET6 v6 _ \<Rightarrow>
          (if netIPv6 cfg then
             foldl (\<lambda>socks scope.
                 listen_datagram cfg envs myaddr (srvlocda6addr scope) DATAGRAM_MULTICAST
                   (listen_datagram cfg envs myaddr (srvloc6addr scope) DATAGRAM_MULTICAST socks))
               socks ([1, 2] @ (if IN6_IS_ADDR_LINKLOCAL v6 then [] else [5]))
           else socks)
      | AF_UNSPEC \<Rightarrow> socks)"

text \<open>The unicast socket is also used to send multicasts.\<close>

definition listen_unicast :: "SLPDConfig \<Rightarrow> sock_envs \<Rightarrow> sockaddr \<Rightarrow> SLPDSocket list \<Rightarrow> SLPDSocket list" where
  "listen_unicast cfg envs myaddr socks =
     (let env = envs myaddr myaddr DATAGRAM_UNICAST in
      link_tail socks (map_option (SLPDSocketAllowMcastSend env) (SLPDSocketCreateBoundDatagram cfg env myaddr myaddr DATAGRAM_UNICAST)))"

definition listen_iface :: "SLPDConfig \<Rightarrow> sock_envs \<Rightarrow> SLPDSocket list \<Rightarrow> sockaddr \<Rightarrow> SLPDSocket list" where
  "listen_iface cfg envs socks myaddr =
     (if FindListeningSocket myaddr socks \<noteq> None then socks
      else listen_unicast cfg envs myaddr (listen_mcast cfg envs myaddr (listen_stream cfg envs myaddr socks)))"

text \<open>\<open>ifaces\<close> are the addresses \<open>SLPIfaceGetInfo\<close> finds for the configured interfaces.\<close>

definition SLPDIncomingReinit :: "SLPDConfig \<Rightarrow> sock_envs \<Rightarrow> sockaddr list \<Rightarrow> SLPDSocket list \<Rightarrow> SLPDSocket list" where
  "SLPDIncomingReinit cfg envs ifaces socks =
     (let socks = (if netIPv4 cfg then listen_loopback cfg envs lo4addr socks else socks);
          socks = (if netIPv6 cfg then listen_loopback cfg envs lo6addr socks else socks) in
      foldl (listen_iface cfg envs) socks ifaces)"

definition SLPDIncomingDeinit :: "SLPDSocket list \<Rightarrow> SLPDSocket list" where
  "SLPDIncomingDeinit socks = []"

section \<open>Outgoing datagrams\<close>

text \<open>
  The result of the processing is ignored, but for the messages it takes off the
  list of pending ones.  The address of whoever sent the datagram becomes the
  peer address of the socket.
\<close>

definition OutgoingDatagramRead :: "SLPDConfig \<Rightarrow> sock_input \<Rightarrow> SLPDSocket \<Rightarrow> slpd \<Rightarrow> (SLPDSocket \<times> slpd) res option" where
  "OutgoingDatagramRead cfg nw sock s =
     (case in_data nw of
        RecvError _ \<Rightarrow> Some (Inr (sock, s))
      | Bytes data \<Rightarrow>
          (case sk_recvbuf sock of
             None \<Rightarrow> Some (Inl OutOfBounds)
           | Some recvbuf \<Rightarrow>
               (let data = take (MTU cfg) data; sock = sock\<lparr>sk_peeraddr := in_peer nw\<rparr> in
                if data = [] then Some (Inr (sock, s))
                else
                  bindO (Some (put_bytes data (recvbuf\<lparr>bcur := 0\<rparr>))) (\<lambda>(_, recvbuf).
                    (let recvbuf = recvbuf\<lparr>bend := length data\<rparr>; sock = sock\<lparr>sk_recvbuf := Some recvbuf\<rparr> in
                     bindO (SLPDProcessMessage cfg (in_proc nw) (sk_peeraddr sock) (sk_localaddr sock) recvbuf
                              (ensure_sendbuf nw sock) (Some (sk_sendlist sock)) s) (\<lambda>(_, sendbuf, sendlist, _, s).
                       Some (Inr (sock\<lparr>sk_sendbuf := sendbuf,
                         sk_sendlist := (case sendlist of Some l \<Rightarrow> l | None \<Rightarrow> [])\<rparr>, s))))))))"

section \<open>Outgoing streams\<close>

text \<open>\<open>SLPDKnownDARemove\<close> is called for an agent that cannot be connected to.\<close>

definition OutgoingStreamReconnect :: "sock_input \<Rightarrow> SLPDSocket \<Rightarrow> slpd \<Rightarrow> SLPDSocket \<times> slpd" where
  "OutgoingStreamReconnect nw sock s =
     (if sk_state sock = STREAM_CONNECT_BLOCK then (sock, s)
      else
        (let reconns = (if sk_reconns sock = -1 then 0 else sk_reconns sock) + 1; sock = sock\<lparr>sk_reconns := reconns\<rparr> in
         if reconns > SLPD_CONFIG_MAX_RECONN
         then (sock\<lparr>sk_state := SOCKET_CLOSE\<rparr>, SLPDKnownDARemove (in_open nw) (sk_peeraddr sock) s)
         else if sk_peeraddr sock \<noteq> AF_UNSPEC \<and> \<not> in_socket nw then (sock\<lparr>sk_state := SOCKET_CLOSE\<rparr>, s)
         else if in_connect nw = ConnectInProgress then (sock\<lparr>sk_state := STREAM_CONNECT_BLOCK\<rparr>, s)
         else (sock\<lparr>sk_state := STREAM_WRITE_FIRST\<rparr>, s)))"

text \<open>The length is taken from the array of 16 bytes also when fewer have arrived.\<close>

definition OutgoingStreamPeek :: "sock_input \<Rightarrow> SLPDSocket \<Rightarrow> slpd \<Rightarrow> SLPDSocket \<times> slpd" where
  "OutgoingStreamPeek nw sock s =
     (case in_peek nw of
        RecvError blocked \<Rightarrow> (if blocked then (sock, s) else OutgoingStreamReconnect nw sock s)
      | Bytes data \<Rightarrow>
          (if data = [] then
             (if sk_reconns sock = -1 then OutgoingStreamReconnect nw sock s else (sock\<lparr>sk_state := SOCKET_CLOSE\<rparr>, s))
           else
             (let peek = take 16 data @ map (in_junk nw) [length data..<16] in
              case SLPBufferRealloc (in_realloc nw) (in_junk nw) (sk_recvbuf sock) (PEEK_LENGTH peek) of
                Some b \<Rightarrow> (sock\<lparr>sk_recvbuf := Some b, sk_state := STREAM_READ\<rparr>, s)
              | None \<Rightarrow> (sock\<lparr>sk_recvbuf := None, sk_state := SOCKET_CLOSE\<rparr>, s))))"

definition SLP_ERROR_DA_BUSY_NOW :: nat where "SLP_ERROR_DA_BUSY_NOW = 11"

text \<open>
  The answer is processed with the message that was sent as the send buffer,
  which is freed unless the agent was busy.
\<close>

definition OutgoingStreamAnswer :: "SLPDConfig \<Rightarrow> sock_input \<Rightarrow> SLPDSocket \<Rightarrow> SLPBuffer \<Rightarrow> slpd \<Rightarrow> (SLPDSocket \<times> slpd) res option" where
  "OutgoingStreamAnswer cfg nw sock recvbuf s =
     bindO (SLPDProcessMessage cfg (in_proc nw) (sk_peeraddr sock) (sk_localaddr sock) recvbuf (sk_sendbuf sock) None s)
       (\<lambda>(err, sendbuf, _, _, s).
          Some (Inr
            (if err = SLP_ERROR_DA_BUSY_NOW then (sock\<lparr>sk_sendbuf := sendbuf, sk_state := STREAM_WRITE_WAIT\<rparr>, s)
             else if err = SLP_ERROR_PARSE_ERROR \<or> err = SLP_ERROR_VER_NOT_SUPPORTED
             then (sock\<lparr>sk_sendbuf := sendbuf, sk_state := SOCKET_CLOSE\<rparr>, s)
             else (sock\<lparr>sk_sendbuf := None, sk_state := STREAM_WRITE_FIRST, sk_reconns := -1\<rparr>, s))))"

definition OutgoingStreamRead :: "SLPDConfig \<Rightarrow> sock_input \<Rightarrow> SLPDSocket \<Rightarrow> slpd \<Rightarrow> (SLPDSocket \<times> slpd) res option" where
  "OutgoingStreamRead cfg nw sock s =
     (let (sock, s) = (if sk_state sock = STREAM_READ_FIRST then OutgoingStreamPeek nw sock s else (sock, s)) in
      if sk_state sock \<noteq> STREAM_READ then Some (Inr (sock, s))
      else
        (case sk_recvbuf sock of
           None \<Rightarrow> Some (Inl OutOfBounds)
         | Some b \<Rightarrow>
             (let (data, blocked) = (case in_data nw of Bytes data \<Rightarrow> (take (bend b - bcur b) data, False) | RecvError blocked \<Rightarrow> ([], blocked)) in
              if data = [] then Some (Inr (if blocked then (sock, s) else OutgoingStreamReconnect nw sock s))
              else
                bindO (Some (put_bytes data b)) (\<lambda>(_, b).
                  (let sock = sock\<lparr>sk_age := 0, sk_recvbuf := Some b\<rparr> in
                   if bcur b = bend b then OutgoingStreamAnswer cfg nw sock b s
                   else Some (Inr (sock, s)))))))"

text \<open>The flag is false when there is nothing to write or the connection is made anew.\<close>

definition OutgoingStreamFirst :: "sock_input \<Rightarrow> SLPDSocket \<Rightarrow> slpd \<Rightarrow> SLPDSocket \<times> slpd \<times> bool" where
  "OutgoingStreamFirst nw sock s =
     (case (case sk_sendbuf sock of Some b \<Rightarrow> Some (b, sk_sendlist sock)
            | None \<Rightarrow> (case sk_sendlist sock of [] \<Rightarrow> None | b # bs \<Rightarrow> Some (b, bs))) of
        None \<Rightarrow> (sock\<lparr>sk_state := STREAM_CONNECT_IDLE\<rparr>, s, False)
      | Some (b, bs) \<Rightarrow>
          (let sock = sock\<lparr>sk_sendbuf := Some (b\<lparr>bcur := 0\<rparr>), sk_sendlist := bs, sk_state := STREAM_WRITE\<rparr> in
           if sk_reconns sock = -1 \<and> sk_age sock > 10 \<and> \<not> in_alive nw
           then (let (sock, s) = OutgoingStreamReconnect nw sock s in (sock, s, False))
           else (sock, s, True)))"

definition OutgoingStreamWrite :: "sock_input \<Rightarrow> SLPDSocket \<Rightarrow> slpd \<Rightarrow> (SLPDSocket \<times> 8 word list \<times> slpd) res" where
  "OutgoingStreamWrite nw sock s =
     (let (sock, s, go) = (if sk_state sock = STREAM_WRITE_FIRST then OutgoingStreamFirst nw sock s else (sock, s, True)) in
      if \<not> go then Inr (sock, [], s)
      else
        (case sk_sendbuf sock of
           None \<Rightarrow> Inl OutOfBounds
         | Some b \<Rightarrow>
             if bend b \<le> bcur b then Inr (sock\<lparr>sk_state := SOCKET_CLOSE\<rparr>, [], s)
             else
               (let byteswritten = nat (fst (in_sent nw)); b' = b\<lparr>bcur := bcur b + byteswritten\<rparr> in
                if fst (in_sent nw) > 0 then
                  (if bcur b + byteswritten > length (bmem b) then Inl OutOfBounds
                   else
                     Inr (sock\<lparr>sk_age := 0, sk_sendbuf := Some b', sk_state := if bcur b' = bend b' then STREAM_READ_FIRST else sk_state sock\<rparr>,
                          cslice (bmem b) (bcur b) byteswritten, s))
                else
                  (let (sock, s) = (if snd (in_sent nw) then (sock, s) else OutgoingStreamReconnect nw sock s)
                   in Inr (sock, [], s)))))"

section \<open>The list of outgoing sockets\<close>

text \<open>The result is the position of the socket in the list.\<close>

definition usable_stream :: "sockaddr \<Rightarrow> SLPDSocket \<Rightarrow> bool" where
  "usable_stream addr sock \<longleftrightarrow>
     (sk_state sock = STREAM_CONNECT_IDLE \<or> state_code (sk_state sock) > state_code STREAM_CONNECT_CLOSE)
     \<and> SLPNetCompareAddrs (sk_peeraddr sock) addr = 0"

fun position :: "('a \<Rightarrow> bool) \<Rightarrow> 'a list \<Rightarrow> nat option" where
  "position P [] = None"
| "position P (x # xs) = (if P x then Some 0 else map_option Suc (position P xs))"

definition SLPDOutgoingConnect ::
  "SLPDConfig \<Rightarrow> sock_env \<Rightarrow> bool \<Rightarrow> sockaddr \<Rightarrow> SLPDSocket list \<Rightarrow> nat option \<times> SLPDSocket list" where
  "SLPDOutgoingConnect cfg env is_TCP addr socks =
     (let linked = (\<lambda>sock. (map_option (\<lambda>_. length socks) sock, link_tail socks sock)) in
      if is_TCP then
        (case position (usable_stream addr) socks of
           Some i \<Rightarrow> (Some i, socks)
         | None \<Rightarrow> linked (SLPDSocketCreateConnected env addr))
      else linked (map_option (\<lambda>sock. sock\<lparr>sk_reconns := 0, sk_age := 0\<rparr>) (SLPDSocketCreateDatagram cfg env addr DATAGRAM_UNICAST)))"

definition SLPDHaveOutgoingConnectedSocket :: "sockaddr \<Rightarrow> SLPDSocket list \<Rightarrow> bool" where
  "SLPDHaveOutgoingConnectedSocket addr socks \<longleftrightarrow>
     list_ex (\<lambda>sock. state_code (sk_state sock) \<ge> state_code STREAM_CONNECT_IDLE \<and> SLPNetCompareAddrs (sk_peeraddr sock) addr = 0) socks"

definition SLPDOutgoingDatagramWrite :: "SLPDSocket \<Rightarrow> SLPBuffer \<Rightarrow> wire" where
  "SLPDOutgoingDatagramWrite sock buffer = [(sk_peeraddr sock, buf_bytes buffer)]"

definition OutgoingHandle ::
  "SLPDConfig \<Rightarrow> ready \<Rightarrow> sock_input \<Rightarrow> SLPDSocket \<Rightarrow> slpd \<Rightarrow> (SLPDSocket \<times> wire \<times> slpd) res option" where
  "OutgoingHandle cfg ready nw sock s =
     (let write = (\<lambda>sock. Some (bindR (OutgoingStreamWrite nw sock s) (\<lambda>(sock, out, s). Inr (sock, stream_out sock out, s))));
          none = Some (Inr (sock, [], s)) in
      case ready of
        ReadOk \<Rightarrow>
          (if sk_state sock \<in> {DATAGRAM_MULTICAST, DATAGRAM_BROADCAST, DATAGRAM_UNICAST}
           then bindO (OutgoingDatagramRead cfg nw sock s) (\<lambda>(sock, s). Some (Inr (sock, [], s)))
           else if sk_state sock = STREAM_READ \<or> sk_state sock = STREAM_READ_FIRST
           then bindO (OutgoingStreamRead cfg nw sock s) (\<lambda>(sock, s). Some (Inr (sock, [], s)))
           else none)
      | WriteOk \<Rightarrow>
          (if sk_state sock = STREAM_CONNECT_BLOCK then write (sock\<lparr>sk_age := 0, sk_state := STREAM_WRITE_FIRST\<rparr>)
           else if sk_state sock = STREAM_WRITE \<or> sk_state sock = STREAM_WRITE_FIRST then write sock
           else none)
      | NotReady \<Rightarrow> none)"

text \<open>Sockets opened while a message is processed are at the tail and not ready.\<close>

fun SLPDOutgoingHandler ::
  "SLPDConfig \<Rightarrow> (ready \<times> sock_input) list \<Rightarrow> nat \<Rightarrow> SLPDSocket list \<Rightarrow> slpd \<Rightarrow> (SLPDSocket list \<times> wire \<times> slpd) res option" where
  "SLPDOutgoingHandler cfg ((ready, nw) # nws) fdcount (sock # socks) s =
     (if fdcount = 0 then Some (Inr (sock # socks, [], s))
      else
        bindO (OutgoingHandle cfg ready nw sock s) (\<lambda>(sock, out, s).
          bindO (SLPDOutgoingHandler cfg nws (if ready = NotReady then fdcount else fdcount - 1) socks s)
            (\<lambda>(socks, outs, s). Some (Inr (sock # socks, out @ outs, s)))))"
| "SLPDOutgoingHandler cfg nws fdcount socks s = Some (Inr (socks, [], s))"

section \<open>Retransmission and ageing\<close>


text \<open>
  \<open>None\<close> in place of the socket: it is closed.  Reading the timeouts outside
  their array is an error.
\<close>

definition retry_socket :: "SLPDConfig \<Rightarrow> bool \<Rightarrow> int \<Rightarrow> SLPDSocket \<Rightarrow> slpd \<Rightarrow> (SLPDSocket option \<times> wire \<times> slpd) res" where
  "retry_socket cfg op seconds sock s =
     (if sk_state sock \<noteq> DATAGRAM_UNICAST then Inr (Some sock, [], s)
      else if sk_sendlist sock = [] then Inr (None, [], s)
      else
        (let sock = sock\<lparr>sk_age := sk_age sock + seconds\<rparr> in
         if sk_reconns sock < 0 then Inl OutOfBounds
         else
           bindR (rdR (unicastTimeouts cfg) (nat (sk_reconns sock))) (\<lambda>timeout.
             if sk_age sock \<ge> timeout sdiv 1000 then
               (let sock = sock\<lparr>sk_reconns := sk_reconns sock + 1\<rparr> in
                if sk_reconns sock \<ge> MAX_RETRANSMITS then Inr (None, [], SLPDKnownDARemove op (sk_peeraddr sock) s)
                else Inr (Some (sock\<lparr>sk_age := 0\<rparr>), concat (map (SLPDOutgoingDatagramWrite sock) (sk_sendlist sock)), s))
             else Inr (Some sock, [], s))))"

fun retry_loop :: "SLPDConfig \<Rightarrow> bool \<Rightarrow> int \<Rightarrow> SLPDSocket list \<Rightarrow> slpd \<Rightarrow> (SLPDSocket list \<times> wire \<times> slpd) res" where
  "retry_loop cfg op seconds [] s = Inr ([], [], s)"
| "retry_loop cfg op seconds (sock # socks) s =
     bindR (retry_socket cfg op seconds sock s) (\<lambda>(sock, out, s).
     bindR (retry_loop cfg op seconds socks s) (\<lambda>(socks, outs, s).
       Inr ((case sock of Some sk \<Rightarrow> sk # socks | None \<Rightarrow> socks), out @ outs, s)))"

definition SLPDOutgoingRetry :: "SLPDConfig \<Rightarrow> bool \<Rightarrow> int \<Rightarrow> SLPDSocket list \<Rightarrow> slpd \<Rightarrow> (SLPDSocket list \<times> wire \<times> slpd) res" where
  "SLPDOutgoingRetry cfg op seconds socks s = (if seconds \<le> 0 then Inr (socks, [], s) else retry_loop cfg op seconds socks s)"

text \<open>The result for one socket; \<open>count\<close> is the length of the list at that moment.\<close>

definition age_socket :: "SLPDConfig \<Rightarrow> bool \<Rightarrow> int \<Rightarrow> nat \<Rightarrow> SLPDSocket \<Rightarrow> slpd \<Rightarrow> SLPDSocket option \<times> slpd" where
  "age_socket cfg op seconds count sock s =
     (let older = sock\<lparr>sk_age := sk_age sock + seconds\<rparr> in
      case sk_state sock of
        DATAGRAM_MULTICAST \<Rightarrow> (if sk_age sock > unicastMaximumWait cfg sdiv 1000 then None else Some older, s)
      | DATAGRAM_BROADCAST \<Rightarrow> (if sk_age sock > unicastMaximumWait cfg sdiv 1000 then None else Some older, s)
      | STREAM_READ_FIRST \<Rightarrow> (Some (sock\<lparr>sk_age := 0\<rparr>), s)
      | STREAM_WRITE_FIRST \<Rightarrow> (Some (sock\<lparr>sk_age := 0\<rparr>), s)
      | STREAM_CONNECT_BLOCK \<Rightarrow>
          (if sk_age sock > close_limit count then (None, SLPDKnownDARemove op (sk_peeraddr sock) s) else (Some older, s))
      | STREAM_READ \<Rightarrow>
          (if sk_age sock > close_limit count then (None, SLPDKnownDARemove op (sk_peeraddr sock) s) else (Some older, s))
      | STREAM_WRITE \<Rightarrow>
          (if sk_age sock > close_limit count then (None, SLPDKnownDARemove op (sk_peeraddr sock) s) else (Some older, s))
      | STREAM_CONNECT_IDLE \<Rightarrow> (if sk_age sock > close_limit count then None else Some older, s)
      | STREAM_WRITE_WAIT \<Rightarrow> (Some (sock\<lparr>sk_age := 0, sk_state := STREAM_WRITE_FIRST\<rparr>), s)
      | _ \<Rightarrow> (Some sock, s))"

fun outgoing_age :: "SLPDConfig \<Rightarrow> bool \<Rightarrow> int \<Rightarrow> nat \<Rightarrow> SLPDSocket list \<Rightarrow> slpd \<Rightarrow> SLPDSocket list \<times> slpd" where
  "outgoing_age cfg op seconds count [] s = ([], s)"
| "outgoing_age cfg op seconds count (sock # socks) s =
     (case age_socket cfg op seconds count sock s of
        (None, s) \<Rightarrow> outgoing_age cfg op seconds (count - 1) socks s
      | (Some sock, s) \<Rightarrow> (let (socks, s) = outgoing_age cfg op seconds count socks s in (sock # socks, s)))"

definition SLPDOutgoingAge :: "SLPDConfig \<Rightarrow> bool \<Rightarrow> int \<Rightarrow> SLPDSocket list \<Rightarrow> slpd \<Rightarrow> SLPDSocket list \<times> slpd" where
  "SLPDOutgoingAge cfg op seconds socks s = outgoing_age cfg op seconds (length socks) socks s"

definition SLPDOutgoingInit :: "SLPDSocket list \<Rightarrow> SLPDSocket list" where
  "SLPDOutgoingInit socks = []"

text \<open>The number of sockets that are left is the result.\<close>

definition SLPDOutgoingDeinit :: "bool \<Rightarrow> SLPDSocket list \<Rightarrow> nat \<times> SLPDSocket list" where
  "SLPDOutgoingDeinit graceful socks =
     (let socks = filter (\<lambda>sock. graceful \<and> \<not> state_code (sk_state sock) < SOCKET_PENDING_IO) socks in (length socks, socks))"

section \<open>The sets of sockets to wait for\<close>

text \<open>What is waited for on a socket, and which sockets are freed.\<close>

definition poll_events :: "nat \<Rightarrow> SLPDSocket \<Rightarrow> ready" where
  "poll_events count sock =
     (case sk_state sock of
        DATAGRAM_UNICAST \<Rightarrow> ReadOk | DATAGRAM_MULTICAST \<Rightarrow> ReadOk | DATAGRAM_BROADCAST \<Rightarrow> ReadOk
      | SOCKET_LISTEN \<Rightarrow> (if count < SLPD_MAX_SOCKETS then ReadOk else NotReady)
      | STREAM_READ \<Rightarrow> ReadOk | STREAM_READ_FIRST \<Rightarrow> ReadOk
      | STREAM_WRITE \<Rightarrow> WriteOk | STREAM_WRITE_FIRST \<Rightarrow> WriteOk | STREAM_CONNECT_BLOCK \<Rightarrow> WriteOk
      | _ \<Rightarrow> NotReady)"

fun load_fds :: "nat \<Rightarrow> SLPDSocket list \<Rightarrow> (SLPDSocket \<times> ready) list" where
  "load_fds count [] = []"
| "load_fds count (sock # socks) =
     (if sk_state sock = SOCKET_CLOSE then load_fds (count - 1) socks
      else (sock, poll_events count sock) # load_fds count socks)"

definition LoadFdSets :: "SLPDSocket list \<Rightarrow> (SLPDSocket \<times> ready) list" where
  "LoadFdSets socks = load_fds (length socks) socks"

end
