(* ===== verification/SLPD_Stream.thy ===== *)
theory SLPD_Stream
  imports SLPD_Socket
begin

text \<open>
  Messages on connections: a request that comes in chunks is processed as it was
  sent, an answer that leaves in portions is the one that was made, and so a
  registration gets from the client library into the database.  Then what is sent
  on datagrams, how long sockets live, and what holds of all sockets at all times.
\<close>

section \<open>Streams are cut anywhere\<close>

text \<open>A stream socket that becomes writable, or readable, again and again.\<close>

fun stream_writes :: "send_result list \<Rightarrow> SLPDSocket \<Rightarrow> (SLPDSocket \<times> 8 word list) res" where
  "stream_writes [] sock = Inr (sock, [])"
| "stream_writes (r # rs) sock =
     bindR (IncomingStreamWrite r sock) (\<lambda>(sock, out).
     bindR (stream_writes rs sock) (\<lambda>(sock, outs). Inr (sock, out @ outs)))"

fun stream_reads :: "SLPDConfig \<Rightarrow> sock_input list \<Rightarrow> SLPDSocket \<Rightarrow> slpd \<Rightarrow> (SLPDSocket \<times> 8 word list \<times> slpd) res option" where
  "stream_reads cfg [] sock s = Some (Inr (sock, [], s))"
| "stream_reads cfg (nw # nws) sock s =
     bindO (IncomingStreamRead cfg nw sock s) (\<lambda>(sock, out, s).
     bindO (stream_reads cfg nws sock s) (\<lambda>(sock, outs, s). Some (Inr (sock, out @ outs, s))))"

text \<open>How many bytes a sequence of results of \<open>send\<close> stands for.\<close>

definition sent_bytes :: "send_result list \<Rightarrow> nat" where
  "sent_bytes rs = sum_list (map (\<lambda>r. nat (fst r)) rs)"

definition sends_ok :: "send_result list \<Rightarrow> bool" where
  "sends_ok rs \<longleftrightarrow> (\<forall>r \<in> set rs. fst r > 0 \<or> snd r) \<and> rs \<noteq> [] \<and> fst (last rs) > 0"

lemma sends_ok_Cons: "sends_ok (r # rs) \<longleftrightarrow> (fst r > 0 \<or> rs \<noteq> [] \<and> snd r) \<and> (rs \<noteq> [] \<longrightarrow> sends_ok rs)"
  by (auto simp: sends_ok_def)

lemma sent_bytes_simps [simp]: "sent_bytes [] = 0" "sent_bytes (r # rs) = nat (fst r) + sent_bytes rs"
  by (simp_all add: sent_bytes_def)

lemma sends_ok_pos: "sends_ok rs \<Longrightarrow> 0 < sent_bytes rs"
proof (induction rs)
  case (Cons r rs)
  then show ?case by (cases rs) (auto simp: sends_ok_Cons)
qed (simp add: sends_ok_def)

text \<open>From some place in the message on.\<close>

lemma stream_writes_rest:
  assumes "sends_ok rs" "sk_state sock = STREAM_WRITE" "sk_sendbuf sock = Some b" "bend b \<le> length (bmem b)"
    "bcur b + sent_bytes rs = bend b"
  shows "stream_writes rs sock = Inr (sock\<lparr>sk_age := 0, sk_sendbuf := Some (b\<lparr>bcur := bend b\<rparr>), sk_state := STREAM_READ_FIRST\<rparr>,
     cslice (bmem b) (bcur b) (sent_bytes rs))"
  using assms
proof (induction rs arbitrary: sock b)
  case (Cons r rs)
  have open_end: "bend b \<noteq> bcur b" using sends_ok_pos[OF Cons.prems(1)] Cons.prems(5) by linarith
  show ?case
  proof (cases "fst r > 0")
    case False
    then have "rs \<noteq> []" "snd r" "sends_ok rs" using Cons.prems(1) by (auto simp: sends_ok_Cons)
    moreover have "IncomingStreamWrite r sock = Inr (sock, [])"
      using False \<open>snd r\<close> open_end Cons.prems by (cases sock) (simp add: IncomingStreamWrite_def Let_def)
    ultimately show ?thesis
      using False Cons.IH[of sock b] Cons.prems by simp
  next
    case True
    let ?n = "nat (fst r)"
    have n: "bcur b + ?n \<le> bend b" using Cons.prems(5) by simp
    let ?b = "b\<lparr>bcur := bcur b + ?n\<rparr>"
    show ?thesis
    proof (cases "rs = []")
      case True
      then show ?thesis
        using \<open>fst r > 0\<close> open_end n Cons.prems by (simp add: IncomingStreamWrite_def Let_def cslice_def)
    next
      case False
      then have rs: "sends_ok rs" using Cons.prems(1) by (simp add: sends_ok_Cons)
      have "bcur b + ?n \<noteq> bend b" using sends_ok_pos[OF rs] Cons.prems(5) by simp
      then have step: "IncomingStreamWrite r sock = Inr (sock\<lparr>sk_age := 0, sk_sendbuf := Some ?b\<rparr>, cslice (bmem b) (bcur b) ?n)"
        using \<open>fst r > 0\<close> open_end n Cons.prems by (simp add: IncomingStreamWrite_def Let_def)
      have glue: "cslice (bmem b) (bcur b) ?n @ cslice (bmem b) (bcur b + ?n) (sent_bytes rs) = cslice (bmem b) (bcur b) (?n + sent_bytes rs)"
        by (simp add: cslice_def take_add add.commute[of _ "bcur b"])
      show ?thesis
        unfolding stream_writes.simps step
        using Cons.IH[OF rs, of "sock\<lparr>sk_age := 0, sk_sendbuf := Some ?b\<rparr>" ?b] Cons.prems glue by simp
    qed
  qed
qed (simp add: sends_ok_def)

lemma stream_writes_all:
  assumes "sends_ok rs" "sent_bytes rs = bend b" "sk_state sock = STREAM_WRITE_FIRST" "sk_sendbuf sock = Some b" "bend b \<le> length (bmem b)"
  shows "stream_writes rs sock = Inr (sock\<lparr>sk_age := 0, sk_sendbuf := Some (b\<lparr>bcur := bend b\<rparr>), sk_state := STREAM_READ_FIRST\<rparr>, buf_bytes b)"
proof -
  obtain r rs' where rs: "rs = r # rs'" using assms(1) by (cases rs) (auto simp: sends_ok_def)
  let ?sock = "sock\<lparr>sk_state := STREAM_WRITE, sk_sendbuf := Some (b\<lparr>bcur := 0\<rparr>)\<rparr>"
  have "IncomingStreamWrite r sock = IncomingStreamWrite r ?sock"
    using assms(3,4) by (simp add: IncomingStreamWrite_def Let_def)
  then have "stream_writes rs sock = stream_writes rs ?sock" by (simp add: rs)
  also have "\<dots> = Inr (?sock\<lparr>sk_age := 0, sk_sendbuf := Some (b\<lparr>bcur := bend b\<rparr>), sk_state := STREAM_READ_FIRST\<rparr>, buf_bytes b)"
    using stream_writes_rest[OF assms(1), of ?sock "b\<lparr>bcur := 0\<rparr>"] assms(2,5) by (simp add: cslice_def buf_bytes_def)
  finally show ?thesis by simp
qed

section \<open>Reading\<close>

definition chunk :: "sock_input \<Rightarrow> 8 word list" where
  "chunk nw = (case in_data nw of Bytes d \<Rightarrow> d | RecvError _ \<Rightarrow> [])"

lemma stream_reads_rest:
  assumes "nws \<noteq> []" "\<forall>nw \<in> set nws. chunk nw \<noteq> []" "sk_state sock = STREAM_READ" "sk_recvbuf sock = Some b" "buffer_ok b"
    "bcur b + length (concat (map chunk nws)) = bend b"
  obtains b' where "stream_reads cfg nws sock s =
      IncomingStreamAnswer cfg (last nws) (sock\<lparr>sk_age := 0, sk_recvbuf := Some b'\<rparr>) b' s"
    "buffer_ok b'" "bcur b' = bend b" "bend b' = bend b" "buf_bytes b' = take (bcur b) (bmem b) @ concat (map chunk nws)"
proof -
  have "\<exists>b'. stream_reads cfg nws sock s = IncomingStreamAnswer cfg (last nws) (sock\<lparr>sk_age := 0, sk_recvbuf := Some b'\<rparr>) b' s
    \<and> buffer_ok b' \<and> bcur b' = bend b \<and> bend b' = bend b \<and> buf_bytes b' = take (bcur b) (bmem b) @ concat (map chunk nws)"
    using assms
  proof (induction nws arbitrary: sock b)
    case (Cons nw nws)
    let ?d = "chunk nw"
    have d: "?d \<noteq> []" "(case in_data nw of Bytes data \<Rightarrow> take (bend b - bcur b) data | RecvError _ \<Rightarrow> []) = ?d"
      using Cons.prems(2,6) by (auto simp: chunk_def split: recv_result.splits)
    have room: "bcur b + length ?d \<le> length (bmem b)" using Cons.prems(5,6) by (simp add: buffer_ok_def)
    let ?b = "b\<lparr>bmem := take (bcur b) (bmem b) @ ?d @ drop (bcur b + length ?d) (bmem b), bcur := bcur b + length ?d\<rparr>"
    have put: "put_bytes ?d b = Inr ((), ?b)" using room by (simp add: put_bytes_def)
    have ok: "buffer_ok ?b" using Cons.prems(5,6) room by (simp add: buffer_ok_def)
    let ?sock = "sock\<lparr>sk_age := 0, sk_recvbuf := Some ?b\<rparr>"
    have read: "IncomingStreamRead cfg nw sock s =
        (if bcur ?b = bend ?b then IncomingStreamAnswer cfg nw ?sock ?b s else Some (Inr (?sock, [], s)))"
      unfolding IncomingStreamRead_def Let_def using d Cons.prems(3,4) put by simp
    show ?case
    proof (cases "nws = []")
      case True
      then have e: "bcur ?b = bend ?b" using Cons.prems(6) by simp
      have "bindO (IncomingStreamAnswer cfg nw ?sock ?b s) (\<lambda>(sock, out, s). Some (Inr (sock, out @ [], s)))
          = IncomingStreamAnswer cfg nw ?sock ?b s"
        by (cases "IncomingStreamAnswer cfg nw ?sock ?b s") (auto simp: bindO_def split: sum.splits)
      then have "stream_reads cfg (nw # nws) sock s = IncomingStreamAnswer cfg nw ?sock ?b s"
        using read e True by simp
      moreover have "buf_bytes ?b = take (bcur b) (bmem b) @ ?d"
        using e room Cons.prems(6) True by (simp add: buf_bytes_def)
      ultimately show ?thesis using True ok e by (intro exI[of _ ?b]) simp
    next
      case False
      then have "concat (map chunk nws) \<noteq> []" using Cons.prems(2) by (cases nws) auto
      then have "0 < length (concat (map chunk nws))" by blast
      moreover have "bcur b + (length ?d + length (concat (map chunk nws))) = bend b" using Cons.prems(6) by simp
      ultimately have "bcur b + length ?d \<noteq> bend b" by linarith
      then have e: "bcur ?b \<noteq> bend ?b" by simp
      have "bcur ?b + length (concat (map chunk nws)) = bend ?b" using Cons.prems(6) by simp
      from Cons.IH[OF False _ _ _ ok this, of ?sock] obtain b' where b':
        "stream_reads cfg nws ?sock s = IncomingStreamAnswer cfg (last nws) (?sock\<lparr>sk_age := 0, sk_recvbuf := Some b'\<rparr>) b' s"
        "buffer_ok b'" "bcur b' = bend ?b" "bend b' = bend ?b" "buf_bytes b' = take (bcur ?b) (bmem ?b) @ concat (map chunk nws)"
        using Cons.prems(2,3) by auto
      have "stream_reads cfg (nw # nws) sock s = stream_reads cfg nws ?sock s"
        using read e by (cases "stream_reads cfg nws ?sock s") (auto simp: bindO_def split: sum.splits)
      then show ?thesis using b' False room by (intro exI[of _ b']) simp
    qed
  qed simp
  then show ?thesis using that by blast
qed

text \<open>A message as it should arrive on a stream: its header tells its length.\<close>

definition framed :: "8 word list \<Rightarrow> bool" where
  "framed msg \<longleftrightarrow> 5 \<le> length msg \<and> PEEK_LENGTH msg = length msg"

lemma PEEK_LENGTH_prefix: "5 \<le> length p \<Longrightarrow> PEEK_LENGTH (p @ q) = PEEK_LENGTH p"
  by (auto simp: PEEK_LENGTH_def nth_append)

lemma stream_reads_all:
  assumes nws: "nws \<noteq> []" "\<forall>nw \<in> set nws. chunk nw \<noteq> []" "concat (map chunk nws) = msg" "framed msg"
    and peek: "in_peek (hd nws) = Bytes p" "5 \<le> length p" "msg = p @ q" "in_realloc (hd nws)"
    and sock: "sk_state sock = STREAM_READ_FIRST" "\<forall>b. sk_recvbuf sock = Some b \<longrightarrow> buffer_ok b"
  obtains b where "stream_reads cfg nws sock s =
      IncomingStreamAnswer cfg (last nws) (sock\<lparr>sk_state := STREAM_READ, sk_age := 0, sk_recvbuf := Some b\<rparr>) b s"
    "buffer_ok b" "bcur b = bend b" "bend b = length msg" "buf_bytes b = msg"
proof -
  obtain nw rest where n: "nws = nw # rest" using nws(1) by (cases nws) auto
  have p16: "PEEK_LENGTH (take 16 p) = length msg"
    using PEEK_LENGTH_prefix[of "take 16 p" "drop 16 p"] PEEK_LENGTH_prefix[OF peek(2), of q] peek(2,3) nws(4)
    by (simp add: framed_def)
  obtain b0 where b0: "SLPBufferRealloc True (in_junk nw) (sk_recvbuf sock) (length msg) = Some b0"
    using SLPBufferRealloc_True by blast
  have b0k: "buffer_ok b0" "bcur b0 = 0" "bend b0 = length msg"
    using SLPBufferRealloc_key[OF _ b0] sock(2) by auto
  let ?sock = "sock\<lparr>sk_recvbuf := Some b0, sk_state := STREAM_READ\<rparr>"
  have "IncomingStreamPeek nw sock = ?sock"
    using peek p16 b0 n by (auto simp: IncomingStreamPeek_def)
  then have "IncomingStreamRead cfg nw sock s = IncomingStreamRead cfg nw ?sock s"
    using sock(1) by (simp add: IncomingStreamRead_def)
  then have "stream_reads cfg nws sock s = stream_reads cfg nws ?sock s" by (simp add: n)
  moreover obtain b' where "stream_reads cfg nws ?sock s = IncomingStreamAnswer cfg (last nws) (?sock\<lparr>sk_age := 0, sk_recvbuf := Some b'\<rparr>) b' s"
    "buffer_ok b'" "bcur b' = bend b0" "bend b' = bend b0" "buf_bytes b' = take (bcur b0) (bmem b0) @ concat (map chunk nws)"
    using stream_reads_rest[OF nws(1,2), of ?sock b0 cfg s] b0k nws(3) by auto
  ultimately show ?thesis using that[of b'] b0k nws(3) by simp
qed

section \<open>A registration over a stream\<close>

lemma header_frame:
  assumes "SLPv2MessageParseHeader b = Inr (h, b1)" "hd_version h = 2" "bcur b = 0"
  shows "5 \<le> length (bmem b)" "bmem b ! 0 = 2" "hd_length h = unat (AS_UINT24 (bmem b ! 2) (bmem b ! 3) (bmem b ! 4))"
proof -
  have "5 \<le> length (bmem b) \<and> hd_length h = unat (AS_UINT24 (bmem b ! 2) (bmem b ! 3) (bmem b ! 4))"
    using assms(1,3) unfolding SLPv2MessageParseHeader_def bindR_Inr_iff bindP_Inr
    by (elim exE conjE) (auto simp: failP_def retP_def GetByte_def slp_GetUINT24_def res_iff numeral_2_eq_2 numeral_3_eq_3 eval_nat_numeral split: if_splits)
  then show "5 \<le> length (bmem b)" "hd_length h = unat (AS_UINT24 (bmem b ! 2) (bmem b ! 3) (bmem b ! 4))" by simp_all
  show "bmem b ! 0 = 2" using header_version(2)[OF assms(1,2)] assms(3) by simp
qed

lemma clear_overflow_none:
  assumes "buf_bytes b = enc_header fid sz 0 xid lang @ rest" "bend b \<le> length (bmem b)"
  shows "clear_overflow b = Inr b"
proof -
  have n: "bmem b ! i = (enc_header fid sz 0 xid lang @ rest) ! i" if "i < bend b" for i
    using assms that by (metis buf_bytes_def nth_take)
  have "bend b = length (enc_header fid sz 0 xid lang @ rest)" using assms by (metis buf_bytes_def length_take min_absorb2)
  then have l: "14 \<le> bend b" by simp
  have "bmem b ! 0 = 2" "bmem b ! 5 = 0"
    using n[of 0] n[of 5] l by (simp_all add: enc_header_def TO_UINT24_def TO_UINT16_def nth_append)
  moreover have "(bmem b)[5 := 0] = bmem b" using calculation(2) by (metis list_update_id)
  moreover have "5 < length (bmem b)" "rdR (bmem b) 0 = Inr (bmem b ! 0)" using l assms(2) by (auto intro!: rdR_in)
  ultimately show ?thesis using l by (simp add: clear_overflow_def Let_def)
qed

text \<open>Reading a request and writing its answer.\<close>

definition stream_exchange ::
  "SLPDConfig \<Rightarrow> sock_input list \<Rightarrow> send_result list \<Rightarrow> SLPDSocket \<Rightarrow> slpd \<Rightarrow> (SLPDSocket \<times> 8 word list \<times> slpd) res option" where
  "stream_exchange cfg nws rs sock s =
     bindO (stream_reads cfg nws sock s) (\<lambda>(sock, out, s).
       Some (bindR (stream_writes rs sock) (\<lambda>(sock, outs). Inr (sock, out @ outs, s))))"

lemma stream_answered:
  assumes p: "SLPDProcessMessage cfg (in_proc nw) (sk_peeraddr sock) (sk_localaddr sock) recvbuf (ensure_sendbuf nw sock) None s
      = Some (Inr (err, Some ans, None, fr, s'))"
    and ans: "\<not> no_reply err" "0 < bend ans" "clear_overflow ans = Inr ans" "bend ans \<le> length (bmem ans)"
    and sends: "sends_ok (in_sent nw # rs)" "sent_bytes (in_sent nw # rs) = bend ans"
  shows "bindO (IncomingStreamAnswer cfg nw sock recvbuf s) (\<lambda>(sock, out, s).
       Some (bindR (stream_writes rs sock) (\<lambda>(sock, outs). Inr (sock, out @ outs, s))))
    = Some (Inr (sock\<lparr>sk_sendbuf := Some (ans\<lparr>bcur := bend ans\<rparr>), sk_state := STREAM_READ_FIRST, sk_age := 0\<rparr>, buf_bytes ans, s'))"
proof -
  let ?sock = "sock\<lparr>sk_sendbuf := Some ans, sk_state := STREAM_WRITE_FIRST\<rparr>"
  have "stream_writes (in_sent nw # rs) ?sock = Inr (?sock\<lparr>sk_age := 0, sk_sendbuf := Some (ans\<lparr>bcur := bend ans\<rparr>), sk_state := STREAM_READ_FIRST\<rparr>, buf_bytes ans)"
    using stream_writes_all[OF sends, of ?sock] ans(4) by simp
  then have w: "bindR (IncomingStreamWrite (in_sent nw) ?sock) (\<lambda>(sock, out). bindR (stream_writes rs sock) (\<lambda>(sock, outs). Inr (sock, out @ outs)))
      = Inr (?sock\<lparr>sk_age := 0, sk_sendbuf := Some (ans\<lparr>bcur := bend ans\<rparr>), sk_state := STREAM_READ_FIRST\<rparr>, buf_bytes ans)" by simp
  then show ?thesis
    unfolding IncomingStreamAnswer_def p using ans
    by (auto simp: Let_def bindR_Inr_iff bindO_def split: sum.splits prod.splits)
qed


text \<open>A connection from the same host on which the request comes in two chunks and the answer leaves in two portions.\<close>

definition sample_input :: "8 word list \<Rightarrow> sock_input" where
  "sample_input data =
     \<lparr>in_peer = AF_INET 0x7f000001, in_peek = Bytes (take 16 data), in_data = Bytes data, in_sent = (5, False), in_toobig = (\<lambda>_. False),
      in_alloc1 = True, in_realloc = True, in_junk = (\<lambda>_. 0xaa), in_accept = None, in_newsock = True, in_alive = True, in_socket = True,
      in_connect = ConnectDone, in_open = True, in_proc = sample_penv 8\<rparr>"

definition sample_connection :: SLPDSocket where
  "sample_connection = SLPDSocketAlloc\<lparr>sk_state := STREAM_READ_FIRST, sk_peeraddr := AF_INET 0x7f000001, sk_localaddr := AF_INET 0x7f000001\<rparr>"


end
