(* ===== verification/Spec2Isabelle.thy ===== *)
theory Spec2Isabelle
  imports SLP_StringList SLP_V2Message Libslp_Request Libslp_Escape Libslp_Find SLP_Database SLPD_Property SLPD_RegFile SLPD_Stream
begin

text \<open>
  A verification library for OpenSLP, the implementation of the Service Location
  Protocol (RFC 2608) under \<open>src/openslp\<close>.

  The program.  \<open>common/\<close> is shared by the client library and the daemon: message
  buffers and the parser of SLPv2 messages, comparison of strings and of
  comma-separated lists, the list of registrations.  \<open>libslp/\<close> is the client
  library, which builds requests and reads replies.  \<open>libslpattr/\<close> parses,
  changes and writes attribute lists.  \<open>slpd/\<close> is the daemon: it keeps the
  registrations, with indexes, and answers requests, which may carry predicates
  over attributes.

  Theories and what they model.

  \<^item> \<open>SLP_Prelude\<close>: results that may be an error code or an access outside an
    object (\<open>res\<close>, \<open>OutOfBounds\<close>), checked reads and writes, C characters, the
    library functions on strings the code calls.
  \<^item> \<open>SLP_Compare\<close>, \<open>SLP_StringList\<close>: \<open>common/slp_compare.c\<close>.  Unescaping in
    place refines a one-pass reference; comparison decides equality of normal
    forms; the list operations are membership, counting and union of the items.
  \<^item> \<open>SLP_Wire\<close>: the buffers of \<open>common/slp_buffer.c\<close> and the integers of
    \<open>common/slp_message.c\<close>, with the laws of its readers and writers.
  \<^item> \<open>SLP_V2Message\<close>: the parser of \<open>common/slp_v2message.c\<close> with the termination
    writes into the buffer; the locale \<open>body_parser\<close> is what the parsers of the
    message kinds share.  A parsed message stays inside the buffer, provided
    two bytes behind its end can be read, and for which messages that is needed.
  \<^item> \<open>Libslp_Request\<close>: how the client builds requests (\<open>libslp_reg.c\<close>,
    \<open>libslp_network.c\<close> and others), and that a registration survives the way from
    the client to the daemon.
  \<^item> \<open>SLP_Database\<close>: the doubly linked list and the database of entries
    (\<open>slp_linkedlist.c\<close>, \<open>slp_database.c\<close>) over a heap; the locale \<open>entry_database\<close>
    is their contract, and a scan that removes and changes entries refines a
    recursion over the list of entries.
  \<^item> \<open>SLPD_Index\<close>: the balanced trees of \<open>slpd_index.c\<close>; the locale
    \<open>value_index\<close> is the contract the database uses.
  \<^item> \<open>SLP_Attr\<close>: \<open>libslpattr.c\<close>, with the memory block into which a list of values
    is parsed; the locale \<open>typed_setter\<close> is what the setters share.
  \<^item> \<open>SLPD_Predicate\<close>: \<open>slpd_predicate.c\<close>, search filters as parse trees and
    evaluated directly.
  \<^item> \<open>SLPD_Database\<close>: \<open>slpd_database.c\<close>, the registrations with their indexes:
    registering, deregistering, ageing and the three kinds of request.
  \<^item> \<open>SLP_Net\<close>: the helpers on addresses of \<open>common/slp_network.c\<close> and
    \<open>slp_net.c\<close>.
  \<^item> \<open>SLP_Parse\<close>: the parsing of service URLs (\<open>common/slp_parse.c\<close>).
  \<^item> \<open>Libslp_Escape\<close>: escaping, unescaping and finding attribute values in
    \<open>libslp_parse.c\<close>.
  \<^item> \<open>SLP_Property\<close>, \<open>SLPD_Property\<close>: the properties and their files
    (\<open>slp_property.c\<close>), what the client gives out of them (\<open>libslp_property.c\<close>) and the
    settings of the daemon (\<open>slpd_property.c\<close>).
  \<^item> \<open>SLPD_KnownDA\<close>: \<open>slpd_knownda.c\<close>, the directory agents the daemon knows,
    their checks for staleness and the forwarding of registrations.
  \<^item> \<open>SLPD_Process\<close>: \<open>slpd_process.c\<close>, from the bytes of a request to the bytes
    of the answer and the changes of the database and the agents.
  \<^item> \<open>SLPD_RegFile\<close>: the file of static registrations (\<open>slpd_regfile.c\<close>), from its
    lines to the messages that are registered.
  \<^item> \<open>SLPD_Socket\<close>: the sockets of the daemon as state machines
    (\<open>slpd_socket.c\<close>, \<open>slpd_incoming.c\<close>, \<open>slpd_outgoing.c\<close>), driven by explicit
    sequences of what the system reports.
  \<^item> \<open>SLPD_Stream\<close>: a registration over a stream, from the first byte read to
    the last byte of the acknowledgement, however the system cuts the bytes.

  Conventions.  A C string or a length-counted field is a list of characters;
  where the code may read or write outside it, the object is a list of bytes with
  positions.  A linked list is a heap of items in \<open>SLP_Database\<close> and the list of
  its contents elsewhere.  Pointers to registrations are addresses (numbers).
  Whether an allocation succeeds is a parameter of each operation that allocates.
  Loops that need not end are \<open>partial_function\<close>s or take fuel: the retries of a
  service request end after at most as many rounds as there are registrations (24
  rounds where the array grows until it cannot be allocated), those of a service
  type request after as many rounds as the answer has bytes; an attribute
  iteration takes one unit for every attribute.

  Findings.  The theorems that end in \<open>overread\<close>, \<open>overflow\<close>, \<open>null\<close>, \<open>crash\<close>,
  \<open>denied\<close>, \<open>ten\<close>, \<open>empty_tag\<close>, \<open>stale_depth\<close> and \<open>misses\<close> show behaviour the code
  should not have, on concrete or general inputs.

  Build options.  No \<open>DEBUG\<close>, no \<open>ENABLE_SLPv1\<close>, no \<open>ENABLE_SLPv2_SECURITY\<close>, no ICU,
  with \<open>ENABLE_PREDICATES\<close>, on a platform with 64-bit pointers and signed \<open>char\<close>.
  \<open>SLP_ASSERT\<close> is empty in such a build.

  Not modelled.  Interfaces, signals, process ids, logging, DHCP and threads are
  input and output; files are their contents, and sockets are modelled up to the
  system calls, whose results are parameters.  SLPv1 and authentication are not
  in the build.  The client's retransmission and its list of directory agents are
  not modelled.
\<close>

end
